(* ===== verification/Prelude.thy ===== *)
theory Prelude
  imports Complex_Main "HOL-Library.Word" "HOL-Library.Multiset"
begin

text \<open>
  Shared vocabulary of the development: the machine types of the C code, the faults a C
  program can run into (a null dereference, an access out of bounds, a failed assertion,
  the exit of the process), the result type of operations that can fault, and the generic
  facts on lists and words that the components use.
\<close>

unbundle bit_operations_syntax

section \<open>Machine types\<close>

text \<open>
  \<open>byte\<close> is a C \<open>char\<close>, \<open>int32\<close> an \<open>int\<close> (read with \<^const>\<open>sint\<close>),
  \<open>addr32\<close> a \<open>uint32_t\<close> and \<open>size_t\<close> a 64-bit unsigned size. A pointer is a natural
  number; 0 is the null pointer.
\<close>

type_synonym byte = "8 word"
type_synonym int32 = "32 word"
type_synonym addr32 = "32 word"
type_synonym size_t = "64 word"
type_synonym ptr = nat

abbreviation NULL :: ptr where
  "NULL \<equiv> 0"

text \<open>The conversion of a size to an \<open>int\<close> keeps the low 32 bits.\<close>

definition int_of_size :: "nat \<Rightarrow> int" where
  "int_of_size k = (let v = int k mod 2 ^ 32 in if v < 2 ^ 31 then v else v - 2 ^ 32)"

lemma int_of_size_id: "k < 2 ^ 31 \<Longrightarrow> int_of_size k = int k"
  by (simp add: int_of_size_def)

section \<open>Faults and results\<close>

text \<open>
  A C operation either returns normally or stops the program. \<open>NullDeref\<close>,
  \<open>OutOfBounds\<close>, \<open>UseAfterFree\<close> and \<open>Uninitialised\<close> stand for the undefined behaviour of that
  name, \<open>SizeWrap\<close> for an unsigned size that a loop subtracts below zero, \<open>Overflow\<close> for an
  \<open>int\<close> that leaves its range, \<open>DivByZero\<close> for a division by zero,
  \<open>AssertFail\<close> for a failed \<open>assert\<close>, \<open>Exit n\<close> for a call of \<open>exit(n)\<close>.
\<close>

datatype fault = NullDeref | OutOfBounds | UseAfterFree | Uninitialised | SizeWrap | Overflow | DivByZero
  | AssertFail | Exit int

type_synonym 'a result = "fault + 'a"

definition rbind :: "'a result \<Rightarrow> ('a \<Rightarrow> 'b result) \<Rightarrow> 'b result" where
  "rbind r f = (case r of Inl e \<Rightarrow> Inl e | Inr x \<Rightarrow> f x)"

named_theorems result_simps \<open>evaluation of sequenced operations\<close>

lemma rbind_Inl [simp, result_simps]: "rbind (Inl e) f = Inl e"
  by (simp add: rbind_def)

lemma rbind_Inr [simp, result_simps]: "rbind (Inr x) f = f x"
  by (simp add: rbind_def)

lemma rbind_eq_Inr: "rbind r f = Inr y \<longleftrightarrow> (\<exists>x. r = Inr x \<and> f x = Inr y)"
  by (cases r) auto

lemma rbind_eq_Inl: "rbind r f = Inl e \<longleftrightarrow> r = Inl e \<or> (\<exists>x. r = Inr x \<and> f x = Inl e)"
  by (cases r) auto

lemma rbind_assoc: "rbind (rbind r f) g = rbind r (\<lambda>x. rbind (f x) g)"
  by (cases r) auto

text \<open>A loop over a list of indices whose body can fault.\<close>

fun rfold :: "('a \<Rightarrow> 's \<Rightarrow> 's result) \<Rightarrow> 'a list \<Rightarrow> 's \<Rightarrow> 's result" where
  "rfold f [] s = Inr s"
| "rfold f (x # xs) s = rbind (f x s) (rfold f xs)"

lemma rfold_append: "rfold f (xs @ ys) = (\<lambda>s. rbind (rfold f xs s) (rfold f ys))"
  by (induction xs) (rule ext, simp add: rbind_assoc)+

text \<open>An invariant of the body is one of the loop.\<close>

lemma rfold_invariant:
  assumes "rfold f xs s = Inr s'" and "I s"
    and "\<And>x s s'. x \<in> set xs \<Longrightarrow> I s \<Longrightarrow> f x s = Inr s' \<Longrightarrow> I s'"
  shows "I s'"
  using assms by (induction xs arbitrary: s) (auto simp: rbind_eq_Inr)

section \<open>Lists\<close>

lemma sorted_wrt_insert_split:
  assumes "sorted_wrt R (xs @ ys)"
    and "\<forall>x \<in> set xs. R x a" and "\<forall>y \<in> set ys. R a y"
  shows "sorted_wrt R (xs @ a # ys)"
  using assms by (auto simp: sorted_wrt_append)

lemma mset_takeWhile_dropWhile [simp]: "mset (takeWhile P xs) + mset (dropWhile P xs) = mset xs"
  by (metis mset_append takeWhile_dropWhile_id)

lemma in_tlD [dest]: "x \<in> set (tl xs) \<Longrightarrow> x \<in> set xs"
  by (cases xs) auto

lemma sorted_wrt_dropWhile: "sorted_wrt R xs \<Longrightarrow> sorted_wrt R (dropWhile P xs)"
  by (metis sorted_wrt_append takeWhile_dropWhile_id)

section \<open>Quotients\<close>

lemma same_block:
  assumes "n mod m + j < (m :: nat)"
  shows "(n + j) div m = n div m" "(n + j) mod m = n mod m + j"
proof -
  have n: "n + j = (n mod m + j) + m * (n div m)" by simp
  show "(n + j) div m = n div m" unfolding n using assms by (subst div_mult_self2) auto
  show "(n + j) mod m = n mod m + j" unfolding n using assms by (subst mod_mult_self2) simp
qed

section \<open>Words\<close>

lemma word_of_nat_Suc: "word_of_nat (Suc n) = (word_of_nat n + 1 :: 'a::len word)"
  by simp

end
