(* ===== verification/Priqueue.thy ===== *)
theory Priqueue
  imports Prelude
begin

text \<open>
  The priority queue of \<open>savvy_scheduler/libpriqueue/libpriqueue.c\<close>: a singly linked list
  of pointers kept in the order of a comparer. The chain of entries is the list of their
  values; the comparer reads the memory the pointers point into, so it takes that memory
  (of any type) as its first argument. \<open>size\<close> and the returned index are C \<open>int\<close>s.
\<close>

record 'h priqueue =
  pq_comparer :: "'h \<Rightarrow> ptr \<Rightarrow> ptr \<Rightarrow> int"
  pq_size :: int32
  pq_head :: "ptr list"

definition priqueue_init :: "('h \<Rightarrow> ptr \<Rightarrow> ptr \<Rightarrow> int) \<Rightarrow> 'h priqueue" where
  "priqueue_init comparer = \<lparr>pq_comparer = comparer, pq_size = 0, pq_head = []\<rparr>"

text \<open>The loop of \<open>priqueue_offer\<close>: the argument is the chain from \<open>leftentry\<close> on.\<close>

fun offer_loop :: "(ptr \<Rightarrow> ptr \<Rightarrow> int) \<Rightarrow> ptr \<Rightarrow> ptr list \<Rightarrow> int32 \<Rightarrow> ptr list \<times> int32" where
  "offer_loop cmp new [] retval = ([], retval)"
| "offer_loop cmp new [left] retval = ([left, new], retval)"
| "offer_loop cmp new (left # right # rest) retval =
     (if cmp left new \<le> 0 \<and> cmp new right < 0 then (left # new # right # rest, retval)
      else (let (chain, r) = offer_loop cmp new (right # rest) (retval + 1) in (left # chain, r)))"

definition priqueue_offer :: "'h \<Rightarrow> 'h priqueue \<Rightarrow> ptr \<Rightarrow> 'h priqueue \<times> int32" where
  "priqueue_offer h q new =
     (let q = q\<lparr>pq_size := pq_size q + 1\<rparr>; cmp = pq_comparer q h in
      case pq_head q of
        [] \<Rightarrow> (q\<lparr>pq_head := [new]\<rparr>, 0)
      | first # rest \<Rightarrow>
          if cmp new first < 0 then (q\<lparr>pq_head := new # first # rest\<rparr>, 0)
          else (let (chain, r) = offer_loop cmp new (first # rest) 1 in (q\<lparr>pq_head := chain\<rparr>, r)))"

definition priqueue_peek :: "'h priqueue \<Rightarrow> ptr" where
  "priqueue_peek q = (case pq_head q of [] \<Rightarrow> NULL | v # _ \<Rightarrow> v)"

definition priqueue_poll :: "'h priqueue \<Rightarrow> 'h priqueue \<times> ptr" where
  "priqueue_poll q =
     (case pq_head q of
        [] \<Rightarrow> (q, NULL)
      | v # rest \<Rightarrow> (q\<lparr>pq_head := rest, pq_size := pq_size q - 1\<rparr>, v))"

text \<open>\<open>priqueue_size\<close> is the field; \<open>priqueue_destroy\<close> polls until it is handed a null pointer.\<close>

definition priqueue_size :: "'h priqueue \<Rightarrow> int32" where
  "priqueue_size q = pq_size q"

function priqueue_destroy :: "'h priqueue \<Rightarrow> 'h priqueue" where
  "priqueue_destroy q =
     (let (q', v) = priqueue_poll q in if v \<noteq> NULL then priqueue_destroy q' else q')"
  by pat_completeness auto
termination
  by (relation "measure (\<lambda>q. length (pq_head q))")
    (auto simp: priqueue_poll_def split: list.splits)

declare priqueue_destroy.simps [simp del]

section \<open>What holds whatever the comparer is\<close>

text \<open>
  Offering adds exactly the new pointer, and \<open>size\<close> counts the entries modulo the width of
  an \<open>int\<close>; neither needs the comparer to be an order.
\<close>

named_theorems pq_simps \<open>projections of the queue operations\<close>

lemma mset_offer_loop:
  "chain \<noteq> [] \<Longrightarrow> mset (fst (offer_loop cmp new chain r)) = add_mset new (mset chain)"
  by (induction cmp new chain r rule: offer_loop.induct)
    (auto simp: Let_def split: prod.splits)

lemma offer_comparer [pq_simps]: "pq_comparer (fst (priqueue_offer h q new)) = pq_comparer q"
  by (auto simp: priqueue_offer_def Let_def split: list.splits prod.splits)

lemma offer_size [pq_simps]: "pq_size (fst (priqueue_offer h q new)) = pq_size q + 1"
  by (auto simp: priqueue_offer_def Let_def split: list.splits prod.splits)

lemma mset_offer [pq_simps]:
  "mset (pq_head (fst (priqueue_offer h q new))) = add_mset new (mset (pq_head q))"
  using mset_offer_loop [of "pq_head q" "pq_comparer q h" new 1]
  by (auto simp: priqueue_offer_def Let_def split: list.splits prod.splits)

lemma length_offer [pq_simps]:
  "length (pq_head (fst (priqueue_offer h q new))) = Suc (length (pq_head q))"
  by (metis mset_offer size_add_mset size_mset)

lemma set_offer [pq_simps]:
  "set (pq_head (fst (priqueue_offer h q new))) = insert new (set (pq_head q))"
  by (metis mset_offer set_mset_add_mset_insert set_mset_mset)

lemma poll_comparer [pq_simps]: "pq_comparer (fst (priqueue_poll q)) = pq_comparer q"
  by (auto simp: priqueue_poll_def split: list.splits)

lemma poll_head [pq_simps]: "pq_head (fst (priqueue_poll q)) = tl (pq_head q)"
  by (auto simp: priqueue_poll_def split: list.splits)

lemma poll_value [pq_simps]: "snd (priqueue_poll q) = priqueue_peek q"
  by (auto simp: priqueue_poll_def priqueue_peek_def split: list.splits)

lemma poll_null_empty:
  "NULL \<notin> set (pq_head q) \<Longrightarrow> snd (priqueue_poll q) = NULL \<longleftrightarrow> pq_head q = []"
  by (auto simp: priqueue_poll_def split: list.splits)

definition size_ok :: "'h priqueue \<Rightarrow> bool" where
  "size_ok q \<longleftrightarrow> pq_size q = word_of_nat (length (pq_head q))"

lemma size_ok_init: "size_ok (priqueue_init c)"
  by (simp add: size_ok_def priqueue_init_def)

lemma size_ok_offer: "size_ok q \<Longrightarrow> size_ok (fst (priqueue_offer h q new))"
  by (simp add: size_ok_def pq_simps add.commute)

lemma size_ok_poll: "size_ok q \<Longrightarrow> size_ok (fst (priqueue_poll q))"
  by (auto simp: size_ok_def priqueue_poll_def split: list.splits)

text \<open>\<open>priqueue_destroy\<close> stops at the first null pointer it polls: the entries behind a
  stored NULL stay in the queue, and a queue without one is emptied.\<close>

theorem priqueue_destroy_result:
  "pq_head (priqueue_destroy q) = tl (dropWhile (\<lambda>v. v \<noteq> NULL) (pq_head q))"
proof (induction q rule: priqueue_destroy.induct)
  case (1 q)
  show ?case
  proof (cases "snd (priqueue_poll q) = NULL")
    case True
    then have "pq_head q = [] \<or> hd (pq_head q) = NULL"
      by (auto simp: priqueue_poll_def split: list.splits)
    then show ?thesis
      using True by (cases "pq_head q")
        (auto simp: priqueue_destroy.simps [of q] split_beta pq_simps)
  next
    case False
    then have "pq_head q \<noteq> [] \<and> hd (pq_head q) \<noteq> NULL"
      by (auto simp: priqueue_poll_def split: list.splits)
    then have "dropWhile (\<lambda>v. v \<noteq> NULL) (pq_head q) = dropWhile (\<lambda>v. v \<noteq> NULL) (tl (pq_head q))"
      by (cases "pq_head q") auto
    then show ?thesis
      using 1 [OF refl prod.collapse False] False
      by (simp add: priqueue_destroy.simps [of q] split_beta pq_simps)
  qed
qed

section \<open>Queues in order\<close>

text \<open>
  What the header asks of a \<open>comparer_t\<close>: a negative value when the first argument comes
  first, a positive one when the second does, 0 otherwise; that is, a total preorder read off
  the sign. The queue's behaviour is proved once for any comparer with these laws.
\<close>

locale comparer_order =
  fixes cmp :: "'a \<Rightarrow> 'a \<Rightarrow> int"
  assumes cmp_swap: "cmp a b < 0 \<longleftrightarrow> 0 < cmp b a"
    and cmp_trans: "cmp a b \<le> 0 \<Longrightarrow> cmp b c \<le> 0 \<Longrightarrow> cmp a c \<le> 0"
begin

lemma cmp_refl: "cmp a a \<le> 0"
  using cmp_swap [of a a] by linarith

lemma cmp_total: "cmp a b \<le> 0 \<or> cmp b a \<le> 0"
  using cmp_swap [of a b] cmp_swap [of b a] by linarith

lemma not_le_less: "\<not> cmp a b \<le> 0 \<longleftrightarrow> cmp b a < 0"
  using cmp_swap [of b a] by linarith

lemma insert_after_equals_sorted:
  assumes "sorted_wrt (\<lambda>a b. cmp a b \<le> 0) xs"
  shows "sorted_wrt (\<lambda>a b. cmp a b \<le> 0)
    (takeWhile (\<lambda>y. cmp y x \<le> 0) xs @ x # dropWhile (\<lambda>y. cmp y x \<le> 0) xs)"
proof (rule sorted_wrt_insert_split)
  show "\<forall>y \<in> set (takeWhile (\<lambda>y. cmp y x \<le> 0) xs). cmp y x \<le> 0"
    by (auto dest: set_takeWhileD)
  show "\<forall>y \<in> set (dropWhile (\<lambda>y. cmp y x \<le> 0) xs). cmp x y \<le> 0"
  proof (cases "dropWhile (\<lambda>y. cmp y x \<le> 0) xs")
    case (Cons z zs)
    then have z: "cmp x z \<le> 0"
      by (metis dropWhile_eq_Cons_conv cmp_total)
    have "sorted_wrt (\<lambda>a b. cmp a b \<le> 0) (z # zs)"
      using assms sorted_wrt_dropWhile Cons by metis
    then show ?thesis using Cons z cmp_trans by auto
  next
    case Nil
    show ?thesis unfolding Nil by simp
  qed
qed (use assms in simp)

end

lemma offer_loop_spec:
  assumes "comparer_order cmp"
  shows "sorted_wrt (\<lambda>a b. cmp a b \<le> 0) (left # rest) \<Longrightarrow> cmp left new \<le> 0 \<Longrightarrow>
    offer_loop cmp new (left # rest) r =
      (takeWhile (\<lambda>y. cmp y new \<le> 0) (left # rest) @ new #
         dropWhile (\<lambda>y. cmp y new \<le> 0) (left # rest),
       r + word_of_nat (length (takeWhile (\<lambda>y. cmp y new \<le> 0) rest)))"
proof (induction rest arbitrary: left r)
  case Nil
  then show ?case by simp
next
  case (Cons right rest)
  show ?case
  proof (cases "cmp new right < 0")
    case True
    then have "\<not> cmp right new \<le> 0"
      using comparer_order.not_le_less [OF assms] by blast
    with True Cons.prems show ?thesis by simp
  next
    case False
    then have le: "cmp right new \<le> 0"
      using comparer_order.not_le_less [OF assms] by blast
    have "sorted_wrt (\<lambda>a b. cmp a b \<le> 0) (right # rest)"
      using Cons.prems by simp
    from Cons.IH [OF this le] False Cons.prems le show ?thesis
      by (simp add: add.assoc)
  qed
qed

text \<open>Sorted by the comparer as it reads memory \<open>h\<close>.\<close>

definition pq_sorted :: "'h \<Rightarrow> 'h priqueue \<Rightarrow> bool" where
  "pq_sorted h q \<longleftrightarrow> sorted_wrt (\<lambda>a b. pq_comparer q h a b \<le> 0) (pq_head q)"

lemma pq_sorted_init: "pq_sorted h (priqueue_init c)"
  by (simp add: pq_sorted_def priqueue_init_def)

lemma pq_sorted_poll: "pq_sorted h q \<Longrightarrow> pq_sorted h (fst (priqueue_poll q))"
  by (cases "pq_head q") (auto simp: pq_sorted_def pq_simps)

text \<open>On a queue in order, \<open>priqueue_offer\<close> puts the pointer behind every entry that does
  not come strictly after it and returns its index; \<open>size\<close> grows by one.\<close>

lemma priqueue_offer_spec:
  assumes "comparer_order (pq_comparer q h)" and "pq_sorted h q"
  shows "priqueue_offer h q new =
    (q\<lparr>pq_size := pq_size q + 1,
       pq_head := takeWhile (\<lambda>y. pq_comparer q h y new \<le> 0) (pq_head q) @ new #
         dropWhile (\<lambda>y. pq_comparer q h y new \<le> 0) (pq_head q)\<rparr>,
     word_of_nat (length (takeWhile (\<lambda>y. pq_comparer q h y new \<le> 0) (pq_head q))))"
proof (cases "pq_head q")
  case Nil
  then show ?thesis by (simp add: priqueue_offer_def)
next
  case (Cons left rest)
  note le = comparer_order.not_le_less [OF assms(1)]
  show ?thesis
  proof (cases "pq_comparer q h new left < 0")
    case True
    then have "\<not> pq_comparer q h left new \<le> 0" using le by blast
    with True Cons show ?thesis by (simp add: priqueue_offer_def)
  next
    case False
    then have "pq_comparer q h left new \<le> 0" using le by blast
    with offer_loop_spec [OF assms(1), of left rest new 1] False Cons assms(2) show ?thesis
      by (simp add: priqueue_offer_def pq_sorted_def Let_def)
  qed
qed

lemma pq_sorted_offer:
  assumes "comparer_order (pq_comparer q h)" and "pq_sorted h q"
  shows "pq_sorted h (fst (priqueue_offer h q new))"
  using comparer_order.insert_after_equals_sorted [OF assms(1), of "pq_head q" new] assms(2)
  by (simp add: priqueue_offer_spec [OF assms] pq_sorted_def)

section \<open>The contract of a stable priority queue\<close>

text \<open>
  What a client of the queue relies on: an offered pointer goes behind everything that does
  not come strictly after it, polling removes the front, and the queue stays in order. The
  consequences for a client (draining gives the contents in order, equals leave in the order
  they arrived) are proved once from the contract.
\<close>

primrec drain :: "('q \<Rightarrow> 'q \<times> ptr) \<Rightarrow> nat \<Rightarrow> 'q \<Rightarrow> ptr list" where
  "drain poll 0 q = []"
| "drain poll (Suc n) q = (let (q', x) = poll q in x # drain poll n q')"

locale stable_queue =
  fixes offer :: "'q \<Rightarrow> ptr \<Rightarrow> 'q"
    and poll :: "'q \<Rightarrow> 'q \<times> ptr"
    and items :: "'q \<Rightarrow> ptr list"
    and le :: "ptr \<Rightarrow> ptr \<Rightarrow> bool"
    and invar :: "'q \<Rightarrow> bool"
  assumes items_offer: "invar q \<Longrightarrow>
      items (offer q x) = takeWhile (\<lambda>y. le y x) (items q) @ x # dropWhile (\<lambda>y. le y x) (items q)"
    and items_poll: "invar q \<Longrightarrow> items (fst (poll q)) = tl (items q)"
    and poll_front: "invar q \<Longrightarrow> items q \<noteq> [] \<Longrightarrow> snd (poll q) = hd (items q)"
    and invar_offer: "invar q \<Longrightarrow> invar (offer q x)"
    and invar_poll: "invar q \<Longrightarrow> invar (fst (poll q))"
    and invar_sorted: "invar q \<Longrightarrow> sorted_wrt le (items q)"
    and le_trans: "le x y \<Longrightarrow> le y z \<Longrightarrow> le x z"
    and le_total: "le x y \<or> le y x"
begin

lemma drain_items: "invar q \<Longrightarrow> drain poll (length (items q)) q = items q"
proof (induction "items q" arbitrary: q)
  case (Cons x xs)
  then have eq: "items (fst (poll q)) = xs" "snd (poll q) = x"
    by (metis items_poll list.sel(3), metis poll_front list.sel(1) list.distinct(1))
  with Cons have "drain poll (length xs) (fst (poll q)) = xs"
    by (metis invar_poll)
  with eq Cons(2) [symmetric] show ?case
    by (simp add: Let_def split_beta)
qed simp

lemma front_least: "invar q \<Longrightarrow> y \<in> set (items q) \<Longrightarrow> le (snd (poll q)) y"
  using invar_sorted [of q] poll_front [of q] le_total [of y y]
  by (cases "items q") auto

lemma invar_offer_all: "invar q \<Longrightarrow> invar (foldl offer q xs)"
  by (induction xs arbitrary: q) (auto intro: invar_offer)

lemma mset_offer_all: "invar q \<Longrightarrow> mset (items (foldl offer q xs)) = mset (items q) + mset xs"
proof (induction xs arbitrary: q)
  case (Cons x xs)
  then show ?case
    by (simp add: invar_offer items_offer)
qed simp

lemma same_class_offer:
  assumes "invar q"
  shows "filter (\<lambda>y. le y z \<and> le z y) (items (offer q x)) =
    filter (\<lambda>y. le y z \<and> le z y) (items q) @ (if le x z \<and> le z x then [x] else [])"
proof -
  let ?P = "\<lambda>y. le y z \<and> le z y"
  let ?front = "takeWhile (\<lambda>y. le y x) (items q)" and ?rear = "dropWhile (\<lambda>y. le y x) (items q)"
  have tail_part: "filter ?P ?rear = []" if "?P x"
  proof (cases ?rear)
    case (Cons b bs)
    then have nb: "\<not> le b x" by (simp add: dropWhile_eq_Cons_conv)
    have "sorted_wrt le (b # bs)"
      using sorted_wrt_dropWhile [OF invar_sorted [OF assms]] Cons by metis
    then have "\<forall>y \<in> set (b # bs). le b y" using le_total by auto
    then have "\<forall>y \<in> set (b # bs). \<not> ?P y" using nb that le_trans by blast
    then show ?thesis unfolding Cons by (simp add: filter_empty_conv)
  next
    case Nil
    show ?thesis unfolding Nil by simp
  qed
  have "filter ?P (items q) = filter ?P ?front @ filter ?P ?rear"
    by (metis filter_append takeWhile_dropWhile_id)
  then show ?thesis using tail_part by (auto simp: items_offer [OF assms])
qed

lemma same_class_offer_all:
  "invar q \<Longrightarrow> filter (\<lambda>y. le y z \<and> le z y) (items (foldl offer q xs)) =
    filter (\<lambda>y. le y z \<and> le z y) (items q) @ filter (\<lambda>y. le y z \<and> le z y) xs"
  by (induction xs arbitrary: q) (auto simp: same_class_offer invar_offer)

end

text \<open>Any comparer with the laws turns the code's queue into a stable priority queue.\<close>

locale comparer_queue = comparer_order "c h"
  for c :: "'h \<Rightarrow> ptr \<Rightarrow> ptr \<Rightarrow> int" and h :: 'h

sublocale comparer_queue \<subseteq> pq: stable_queue "\<lambda>q x. fst (priqueue_offer h q x)" priqueue_poll
  pq_head "\<lambda>a b. c h a b \<le> 0" "\<lambda>q. pq_comparer q = c \<and> pq_sorted h q"
proof unfold_locales
  fix q x assume q: "pq_comparer q = c \<and> pq_sorted h q"
  then have ord: "comparer_order (pq_comparer q h)" using comparer_order_axioms by simp
  show "pq_head (fst (priqueue_offer h q x)) = takeWhile (\<lambda>y. c h y x \<le> 0) (pq_head q) @
      x # dropWhile (\<lambda>y. c h y x \<le> 0) (pq_head q)"
    using priqueue_offer_spec [OF ord] q by simp
  show "pq_comparer (fst (priqueue_offer h q x)) = c \<and> pq_sorted h (fst (priqueue_offer h q x))"
    using pq_sorted_offer [OF ord] q by (simp add: pq_simps)
  show "snd (priqueue_poll q) = hd (pq_head q)" if "pq_head q \<noteq> []"
    using that by (auto simp: priqueue_poll_def split: list.splits)
next
  fix q assume "pq_comparer q = c \<and> pq_sorted h q"
  then show "pq_comparer (fst (priqueue_poll q)) = c \<and> pq_sorted h (fst (priqueue_poll q))"
    "sorted_wrt (\<lambda>a b. c h a b \<le> 0) (pq_head q)"
    using pq_sorted_poll by (auto simp: pq_simps pq_sorted_def)
qed (auto simp: pq_simps cmp_total intro: cmp_trans)


text \<open>Numbers as pointers, ordered by value: a closed instance of the insertion.\<close>

theorem priqueue_offer_spec_witness:
  "priqueue_offer () \<lparr>pq_comparer = (\<lambda>_ a b. int a - int b), pq_size = 3, pq_head = [2, 5, 7]\<rparr> 5 =
    (\<lparr>pq_comparer = (\<lambda>_ a b. int a - int b), pq_size = 4, pq_head = [2, 5, 5, 7]\<rparr>, 2)"
proof -
  let ?q = "\<lparr>pq_comparer = (\<lambda>(_ :: unit) a b. int a - int b), pq_size = 3, pq_head = [2, 5, 7]\<rparr>"
  have "comparer_order (pq_comparer ?q ())" by unfold_locales auto
  moreover have "pq_sorted () ?q" by (simp add: pq_sorted_def)
  ultimately show ?thesis by (subst priqueue_offer_spec) simp_all
qed

end
