(* ===== verification/Scheduler.thy ===== *)
theory Scheduler
  imports Priqueue
begin

text \<open>
  The scheduler of \<open>savvy_scheduler/libscheduler.c\<close>: six schemes over the priority queue of
  jobs. A job is a pointer; \<open>s_meta\<close> is the memory its \<open>metadata\<close> pointer leads to and
  \<open>s_live\<close> the jobs whose metadata is allocated. A \<open>double\<close> is a real number: rounding is
  not modelled, the conversion of \<open>time\<close> to the \<open>int\<close> \<open>currenttime\<close> is.
\<close>

section \<open>Data\<close>

datatype scheme_t = FCFS | PPRI | PRI | PSRTF | RR | SJF

record scheduler_info =
  si_running_time :: real
  si_priority :: real

record job_info =
  ji_id :: int32
  ji_runningtime :: real
  ji_priority :: real
  ji_arrivetime :: real
  ji_timeremaining :: real
  ji_starttime :: real
  ji_lastTimeRun :: real

type_synonym meta = "ptr \<Rightarrow> job_info"

record sched =
  s_totalresponse :: real
  s_totalwait :: real
  s_totalturnaround :: real
  s_prempt :: bool
  s_numarr :: int32
  s_numfin :: int32
  s_currenttime :: int
  s_pqueue :: "meta priqueue"
  s_scheme :: scheme_t
  s_meta :: meta
  s_live :: "ptr set"

section \<open>Comparers\<close>

definition comparer_fcfs :: "meta \<Rightarrow> ptr \<Rightarrow> ptr \<Rightarrow> int" where
  "comparer_fcfs h a b =
     (if ji_arrivetime (h a) < ji_arrivetime (h b) then -1
      else if ji_arrivetime (h a) > ji_arrivetime (h b) then 1 else 0)"

definition break_tie :: "meta \<Rightarrow> ptr \<Rightarrow> ptr \<Rightarrow> int" where
  "break_tie h a b = comparer_fcfs h a b"

definition comparer_pri :: "meta \<Rightarrow> ptr \<Rightarrow> ptr \<Rightarrow> int" where
  "comparer_pri h a b =
     (if ji_priority (h a) < ji_priority (h b) then -1
      else if ji_priority (h a) > ji_priority (h b) then 1 else break_tie h a b)"

definition comparer_ppri :: "meta \<Rightarrow> ptr \<Rightarrow> ptr \<Rightarrow> int" where
  "comparer_ppri h a b = comparer_pri h a b"

definition comparer_psrtf :: "meta \<Rightarrow> ptr \<Rightarrow> ptr \<Rightarrow> int" where
  "comparer_psrtf h a b =
     (if ji_timeremaining (h a) < ji_timeremaining (h b) then -1
      else if ji_timeremaining (h a) > ji_timeremaining (h b) then 1 else break_tie h a b)"

definition comparer_rr :: "meta \<Rightarrow> ptr \<Rightarrow> ptr \<Rightarrow> int" where
  "comparer_rr h a b =
     (if ji_lastTimeRun (h a) < ji_lastTimeRun (h b) then -1
      else if ji_lastTimeRun (h a) > ji_lastTimeRun (h b) then 1 else break_tie h a b)"

definition comparer_sjf :: "meta \<Rightarrow> ptr \<Rightarrow> ptr \<Rightarrow> int" where
  "comparer_sjf h a b =
     (if ji_runningtime (h a) < ji_runningtime (h b) then -1
      else if ji_runningtime (h a) > ji_runningtime (h b) then 1 else break_tie h a b)"

fun comparision_func :: "scheme_t \<Rightarrow> meta \<Rightarrow> ptr \<Rightarrow> ptr \<Rightarrow> int" where
  "comparision_func FCFS = comparer_fcfs"
| "comparision_func PRI = comparer_pri"
| "comparision_func PPRI = comparer_ppri"
| "comparision_func PSRTF = comparer_psrtf"
| "comparision_func RR = comparer_rr"
| "comparision_func SJF = comparer_sjf"

fun prempt_of :: "scheme_t \<Rightarrow> bool" where
  "prempt_of PPRI = True"
| "prempt_of PSRTF = True"
| "prempt_of RR = True"
| "prempt_of _ = False"

section \<open>Operations\<close>

text \<open>The C conversion from \<open>double\<close> to \<open>int\<close> drops the fraction.\<close>

definition to_int :: "real \<Rightarrow> int" where
  "to_int x = (if x < 0 then \<lceil>x\<rceil> else \<lfloor>x\<rfloor>)"

text \<open>\<open>m\<close> is whatever the memory holds when the scheduler starts.\<close>

definition scheduler_start_up :: "meta \<Rightarrow> scheme_t \<Rightarrow> sched" where
  "scheduler_start_up m s =
     \<lparr>s_totalresponse = 0, s_totalwait = 0, s_totalturnaround = 0, s_prempt = prempt_of s,
      s_numarr = 0, s_numfin = 0, s_currenttime = -1,
      s_pqueue = priqueue_init (comparision_func s), s_scheme = s, s_meta = m, s_live = {}\<rparr>"

definition scheduler_new_job :: "ptr \<Rightarrow> int32 \<Rightarrow> real \<Rightarrow> scheduler_info \<Rightarrow> sched \<Rightarrow> sched" where
  "scheduler_new_job newjob job_number time sched_data s =
     (let info = \<lparr>ji_id = job_number, ji_runningtime = si_running_time sched_data,
                  ji_priority = si_priority sched_data, ji_arrivetime = time,
                  ji_timeremaining = si_running_time sched_data, ji_starttime = 0,
                  ji_lastTimeRun = 0\<rparr>;
          s = s\<lparr>s_meta := (s_meta s)(newjob := info), s_live := insert newjob (s_live s),
                s_numarr := s_numarr s + 1\<rparr>
      in s\<lparr>s_pqueue := fst (priqueue_offer (s_meta s) (s_pqueue s) newjob)\<rparr>)"

text \<open>\<open>job->metadata->...\<close>: the job must not be null and its metadata must be allocated.\<close>

definition deref :: "sched \<Rightarrow> ptr \<Rightarrow> job_info result" where
  "deref s j = (if j = NULL then Inl NullDeref
     else if j \<in> s_live s then Inr (s_meta s j) else Inl UseAfterFree)"

definition store :: "sched \<Rightarrow> ptr \<Rightarrow> job_info \<Rightarrow> sched" where
  "store s j i = s\<lparr>s_meta := (s_meta s)(j := i)\<rparr>"

definition charge_evicted :: "ptr \<Rightarrow> real \<Rightarrow> sched \<Rightarrow> sched result" where
  "charge_evicted job_evicted time s =
     (if s_currenttime s \<noteq> -1 \<and> job_evicted \<noteq> NULL then
        rbind (deref s job_evicted) (\<lambda>i. Inr (store s job_evicted
          (i\<lparr>ji_timeremaining := ji_timeremaining i - (time - of_int (s_currenttime s))\<rparr>)))
      else Inr s)"

definition requeue_evicted :: "ptr \<Rightarrow> real \<Rightarrow> sched \<Rightarrow> sched result" where
  "requeue_evicted job_evicted time s =
     (if job_evicted \<noteq> NULL then
        rbind (deref s job_evicted) (\<lambda>i.
          let s = store s job_evicted (i\<lparr>ji_lastTimeRun := time\<rparr>)
          in Inr (s\<lparr>s_pqueue := fst (priqueue_offer (s_meta s) (s_pqueue s) job_evicted)\<rparr>))
      else Inr s)"

definition dispatch_next :: "real \<Rightarrow> sched \<Rightarrow> (sched \<times> ptr) result" where
  "dispatch_next time s =
     (let (q, next) = priqueue_poll (s_pqueue s); s = s\<lparr>s_pqueue := q\<rparr> in
      if next = NULL then Inr (s, NULL)
      else rbind (deref s next) (\<lambda>i.
        if ji_timeremaining i = ji_runningtime i
        then Inr (store s next (i\<lparr>ji_starttime := time\<rparr>), next)
        else Inr (s, next)))"

definition scheduler_quantum_expired :: "ptr \<Rightarrow> real \<Rightarrow> sched \<Rightarrow> (sched \<times> ptr) result" where
  "scheduler_quantum_expired job_evicted time s =
     rbind (charge_evicted job_evicted time s) (\<lambda>s.
       let s = s\<lparr>s_currenttime := to_int time\<rparr> in
       if job_evicted \<noteq> NULL \<and> \<not> s_prempt s then Inr (s, job_evicted)
       else rbind (requeue_evicted job_evicted time s) (dispatch_next time))"

definition scheduler_job_finished :: "ptr \<Rightarrow> real \<Rightarrow> sched \<Rightarrow> sched result" where
  "scheduler_job_finished job_done time s =
     rbind (deref s job_done) (\<lambda>i. Inr
       (s\<lparr>s_numfin := s_numfin s + 1,
          s_totalturnaround := s_totalturnaround s + (time - ji_arrivetime i),
          s_totalwait := s_totalwait s + (time - ji_arrivetime i - ji_runningtime i),
          s_totalresponse := s_totalresponse s + (ji_starttime i - ji_arrivetime i),
          s_live := s_live s - {job_done}\<rparr>))"

text \<open>A division by zero finished jobs is not a number: \<open>None\<close>.\<close>

definition average :: "real \<Rightarrow> int32 \<Rightarrow> real option" where
  "average amount n = (if n = 0 then None else Some (amount / of_int (sint n)))"

definition scheduler_average_waiting_time :: "sched \<Rightarrow> real option" where
  "scheduler_average_waiting_time s = average (s_totalwait s) (s_numfin s)"

definition scheduler_average_turnaround_time :: "sched \<Rightarrow> real option" where
  "scheduler_average_turnaround_time s = average (s_totalturnaround s) (s_numfin s)"

definition scheduler_average_response_time :: "sched \<Rightarrow> real option" where
  "scheduler_average_response_time s = average (s_totalresponse s) (s_numfin s)"

text \<open>\<open>print_stats\<close> prints the three averages; the value is what it prints.\<close>

definition print_stats :: "sched \<Rightarrow> real option list" where
  "print_stats s = [scheduler_average_turnaround_time s, scheduler_average_waiting_time s,
     scheduler_average_response_time s]"

definition scheduler_clean_up :: "sched \<Rightarrow> sched \<times> real option list" where
  "scheduler_clean_up s = (s\<lparr>s_pqueue := priqueue_destroy (s_pqueue s)\<rparr>, print_stats s)"

section \<open>The comparers are orders\<close>

lemmas comparer_defs = comparer_fcfs_def comparer_pri_def comparer_ppri_def comparer_psrtf_def
  comparer_rr_def comparer_sjf_def break_tie_def

interpretation fcfs: comparer_queue comparer_fcfs h for h
  by unfold_locales (auto simp: comparer_defs split: if_splits)

interpretation pri: comparer_queue comparer_pri h for h
  by unfold_locales (auto simp: comparer_defs split: if_splits)

interpretation ppri: comparer_queue comparer_ppri h for h
  by unfold_locales (auto simp: comparer_defs split: if_splits)

interpretation psrtf: comparer_queue comparer_psrtf h for h
  by unfold_locales (auto simp: comparer_defs split: if_splits)

interpretation rr: comparer_queue comparer_rr h for h
  by unfold_locales (auto simp: comparer_defs split: if_splits)

interpretation sjf: comparer_queue comparer_sjf h for h
  by unfold_locales (auto simp: comparer_defs split: if_splits)

lemma comparision_func_queue: "comparer_queue (comparision_func sc) h"
  by (cases sc) (simp_all add: fcfs.comparer_queue_axioms pri.comparer_queue_axioms
      ppri.comparer_queue_axioms psrtf.comparer_queue_axioms rr.comparer_queue_axioms
      sjf.comparer_queue_axioms)

interpretation scheme: comparer_queue "comparision_func sc" h for sc h
  by (rule comparision_func_queue)


text \<open>C25: For every scheme, the jobs offered to a fresh queue leave it as a stable sort of the
  order in which they came: all of them, in the scheme's order, equals first come first served.\<close>

theorem queue_is_stable_sort:
  "let q = foldl (\<lambda>q x. fst (priqueue_offer h q x)) (priqueue_init (comparision_func sc)) jobs;
       out = drain priqueue_poll (length jobs) q
   in mset out = mset jobs \<and>
      sorted_wrt (\<lambda>a b. comparision_func sc h a b \<le> 0) out \<and>
      (\<forall>z. filter (\<lambda>y. comparision_func sc h y z = 0) out =
           filter (\<lambda>y. comparision_func sc h y z = 0) jobs)"
proof -
  let ?start = "priqueue_init (comparision_func sc)"
  let ?q = "foldl (\<lambda>q x. fst (priqueue_offer h q x)) ?start jobs"
  have inv0: "pq_comparer ?start = comparision_func sc \<and> pq_sorted h ?start"
    by (simp add: pq_sorted_init) (simp add: priqueue_init_def)
  have q0: "pq_head ?start = []" by (simp add: priqueue_init_def)
  note inv = scheme.pq.invar_offer_all [OF inv0, of jobs]
  have ms: "mset (pq_head ?q) = mset jobs"
    using scheme.pq.mset_offer_all [OF inv0, of jobs] q0 by simp
  have out: "drain priqueue_poll (length jobs) ?q = pq_head ?q"
    using scheme.pq.drain_items [OF inv] ms by (metis size_mset)
  have eq0: "comparision_func sc h y z = 0 \<longleftrightarrow>
      comparision_func sc h y z \<le> 0 \<and> comparision_func sc h z y \<le> 0" for y z
    using scheme.cmp_swap [of sc h y z] scheme.cmp_swap [of sc h z y] by linarith
  show ?thesis
    using ms out scheme.pq.invar_sorted [OF inv] scheme.pq.same_class_offer_all [OF inv0, of _ jobs] q0
    by (simp add: Let_def eq0)
qed

section \<open>Memory and order\<close>

text \<open>
  The comparers read the fields in \<open>keys\<close> only: changing anything else, or the metadata of
  jobs that are not queued, keeps the queue in order.
\<close>

definition keys :: "job_info \<Rightarrow> real \<times> real \<times> real \<times> real \<times> real" where
  "keys i = (ji_arrivetime i, ji_priority i, ji_timeremaining i, ji_lastTimeRun i,
     ji_runningtime i)"

lemma comparision_func_keys:
  "keys (h a) = keys (h' a) \<Longrightarrow> keys (h b) = keys (h' b) \<Longrightarrow>
    comparision_func sc h a b = comparision_func sc h' a b"
  by (cases sc) (simp_all add: comparer_defs keys_def)

lemma pq_sorted_keys:
  assumes "pq_comparer q = comparision_func sc" and "pq_sorted h q"
    and "\<And>x. x \<in> set (pq_head q) \<Longrightarrow> keys (h x) = keys (h' x)"
  shows "pq_sorted h' q"
  using assms(2) unfolding pq_sorted_def assms(1)
  by (rule sorted_wrt_mono_rel [rotated])
    (metis assms(3) comparision_func_keys)

section \<open>The invariant\<close>

definition sched_inv :: "sched \<Rightarrow> bool" where
  "sched_inv s \<longleftrightarrow>
     pq_comparer (s_pqueue s) = comparision_func (s_scheme s) \<and>
     s_prempt s = prempt_of (s_scheme s) \<and>
     pq_sorted (s_meta s) (s_pqueue s) \<and> size_ok (s_pqueue s) \<and>
     distinct (pq_head (s_pqueue s)) \<and>
     set (pq_head (s_pqueue s)) \<subseteq> s_live s \<and> NULL \<notin> s_live s"

abbreviation waiting :: "sched \<Rightarrow> ptr list" where
  "waiting s \<equiv> pq_head (s_pqueue s)"

lemma live_not_null: "sched_inv s \<Longrightarrow> j \<in> s_live s \<Longrightarrow> j \<noteq> NULL"
  unfolding sched_inv_def by metis

lemma sched_inv_start_up: "sched_inv (scheduler_start_up m sc)"
  by (simp add: sched_inv_def scheduler_start_up_def pq_sorted_init size_ok_init)
    (simp add: priqueue_init_def)

lemma distinct_offer:
  "distinct (pq_head q) \<Longrightarrow> new \<notin> set (pq_head q) \<Longrightarrow> distinct (pq_head (fst (priqueue_offer h q new)))"
  by (metis mset_offer mset_eq_imp_distinct_iff distinct.simps(2) mset.simps(2))

lemma sched_inv_offer:
  assumes inv: "sched_inv s" and j: "j \<in> s_live s" "j \<notin> set (waiting s)"
  shows "sched_inv (s\<lparr>s_pqueue := fst (priqueue_offer (s_meta s) (s_pqueue s) j)\<rparr>)"
proof -
  have ord: "comparer_order (pq_comparer (s_pqueue s) (s_meta s))"
    using inv scheme.comparer_order_axioms by (simp add: sched_inv_def)
  show ?thesis
    using inv j pq_sorted_offer [OF ord] size_ok_offer [of "s_pqueue s"] distinct_offer
    by (auto simp: sched_inv_def pq_simps)
qed

lemma sched_inv_store:
  assumes "sched_inv s" and "j \<notin> set (waiting s) \<or> keys i = keys (s_meta s j)"
  shows "sched_inv (store s j i)"
proof -
  have "pq_sorted ((s_meta s)(j := i)) (s_pqueue s)"
    by (rule pq_sorted_keys [where h = "s_meta s" and sc = "s_scheme s"])
      (use assms in \<open>auto simp: sched_inv_def\<close>)
  with assms(1) show ?thesis by (simp add: sched_inv_def store_def)
qed

lemma sched_inv_new_job:
  assumes "sched_inv s" and "newjob \<noteq> NULL" and "newjob \<notin> set (waiting s)"
  shows "sched_inv (scheduler_new_job newjob n time d s)"
proof -
  let ?i = "\<lparr>ji_id = n, ji_runningtime = si_running_time d, ji_priority = si_priority d,
    ji_arrivetime = time, ji_timeremaining = si_running_time d, ji_starttime = 0,
    ji_lastTimeRun = 0\<rparr>"
  let ?s = "(store s newjob ?i)\<lparr>s_live := insert newjob (s_live s), s_numarr := s_numarr s + 1\<rparr>"
  have "sched_inv (store s newjob ?i)"
    using assms by (intro sched_inv_store) auto
  then have "sched_inv ?s"
    using assms(2) by (auto simp: sched_inv_def store_def)
  from sched_inv_offer [OF this, of newjob] assms(3) show ?thesis
    by (simp add: scheduler_new_job_def store_def Let_def)
qed

lemma sched_inv_poll:
  "sched_inv s \<Longrightarrow> sched_inv (s\<lparr>s_pqueue := fst (priqueue_poll (s_pqueue s))\<rparr>)"
  by (auto simp: sched_inv_def pq_simps size_ok_poll pq_sorted_poll distinct_tl)

lemma sched_inv_finished:
  assumes "sched_inv s" and "j \<notin> set (waiting s)" and "scheduler_job_finished j time s = Inr s'"
  shows "sched_inv s'"
  using assms by (auto simp: sched_inv_def scheduler_job_finished_def rbind_eq_Inr)


section \<open>A quantum expires\<close>

text \<open>
  Polling never hands out a dead job, so dispatching succeeds; the front of the queue is the
  job that runs next and the only change to memory is its start time.
\<close>

lemma dispatch_next_spec:
  assumes "sched_inv s"
  shows "\<exists>s'. dispatch_next time s = Inr (s', case waiting s of [] \<Rightarrow> NULL | x # _ \<Rightarrow> x) \<and>
    sched_inv s' \<and> waiting s' = tl (waiting s) \<and> s_live s' = s_live s \<and>
    s_scheme s' = s_scheme s \<and> (\<forall>j. keys (s_meta s' j) = keys (s_meta s j))"
proof (cases "waiting s")
  case Nil
  with sched_inv_poll [OF assms] show ?thesis
    by (simp add: dispatch_next_def priqueue_poll_def)
next
  case (Cons x xs)
  let ?s = "s\<lparr>s_pqueue := fst (priqueue_poll (s_pqueue s))\<rparr>"
  have x: "x \<in> s_live s" "x \<notin> set (waiting ?s)"
    using assms Cons by (auto simp: sched_inv_def pq_simps)
  then have "x \<noteq> NULL" using live_not_null [OF assms] by blast
  have inv: "sched_inv ?s" by (rule sched_inv_poll [OF assms])
  have "sched_inv (store ?s x i)" for i
    by (rule sched_inv_store [OF inv]) (use x in simp)
  with inv x \<open>x \<noteq> NULL\<close> Cons show ?thesis
    by (auto simp: dispatch_next_def deref_def priqueue_poll_def store_def keys_def Let_def)
qed

lemma requeue_spec:
  assumes "sched_inv s" and "j \<in> s_live s" and "j \<notin> set (waiting s)"
  shows "\<exists>s'. requeue_evicted j time s = Inr s' \<and> sched_inv s' \<and>
    s_live s' = s_live s \<and> s_scheme s' = s_scheme s \<and>
    s_meta s' = (s_meta s)(j := (s_meta s j)\<lparr>ji_lastTimeRun := time\<rparr>) \<and>
    waiting s' = takeWhile (\<lambda>y. comparision_func (s_scheme s) (s_meta s') y j \<le> 0) (waiting s) @
      j # dropWhile (\<lambda>y. comparision_func (s_scheme s) (s_meta s') y j \<le> 0) (waiting s)"
proof -
  let ?s = "store s j ((s_meta s j)\<lparr>ji_lastTimeRun := time\<rparr>)"
  have inv: "sched_inv ?s"
    by (rule sched_inv_store) (use assms in auto)
  have same: "s_live ?s = s_live s" "s_pqueue ?s = s_pqueue s" "s_scheme ?s = s_scheme s"
    by (simp_all add: store_def)
  have "pq_comparer (s_pqueue ?s) = comparision_func (s_scheme s) \<and> pq_sorted (s_meta ?s) (s_pqueue ?s)"
    using inv same by (simp add: sched_inv_def)
  then have "waiting (?s\<lparr>s_pqueue := fst (priqueue_offer (s_meta ?s) (s_pqueue ?s) j)\<rparr>) =
      takeWhile (\<lambda>y. comparision_func (s_scheme s) (s_meta ?s) y j \<le> 0) (waiting s) @
      j # dropWhile (\<lambda>y. comparision_func (s_scheme s) (s_meta ?s) y j \<le> 0) (waiting s)"
    using scheme.pq.items_offer same by auto
  moreover have "j \<noteq> NULL" using live_not_null assms by blast
  moreover have "sched_inv (?s\<lparr>s_pqueue := fst (priqueue_offer (s_meta ?s) (s_pqueue ?s) j)\<rparr>)"
    by (rule sched_inv_offer [OF inv]) (use assms same in auto)
  ultimately show ?thesis
    using assms(2) by (auto simp: requeue_evicted_def deref_def store_def Let_def)
qed

lemma charge_spec:
  assumes "sched_inv s" and "j = NULL \<or> j \<in> s_live s" and "j \<notin> set (waiting s)"
  shows "\<exists>s'. charge_evicted j time s = Inr s' \<and> sched_inv s' \<and> s_live s' = s_live s \<and>
    s_pqueue s' = s_pqueue s \<and> s_scheme s' = s_scheme s \<and> s_prempt s' = s_prempt s \<and>
    (\<forall>x. x \<noteq> j \<longrightarrow> s_meta s' x = s_meta s x)"
  using assms sched_inv_store [OF assms(1)]
  by (auto simp: charge_evicted_def deref_def store_def)

text \<open>\<open>ready\<close>: who competes for the processor when a quantum expires.\<close>

definition may_evict :: "ptr \<Rightarrow> sched \<Rightarrow> bool" where
  "may_evict j s \<longleftrightarrow> j = NULL \<or> j \<in> s_live s \<and> j \<notin> set (waiting s)"

lemma sched_inv_currenttime: "sched_inv (s\<lparr>s_currenttime := c\<rparr>) = sched_inv s"
  by (simp add: sched_inv_def)

lemma quantum_nonpreemptive:
  assumes "sched_inv s" and "may_evict j s" and "j \<noteq> NULL" and "\<not> prempt_of (s_scheme s)"
  shows "\<exists>s'. scheduler_quantum_expired j time s = Inr (s', j) \<and> sched_inv s' \<and>
    s_live s' = s_live s \<and> s_pqueue s' = s_pqueue s"
proof -
  obtain s1 where s1: "charge_evicted j time s = Inr s1" "sched_inv s1" "s_live s1 = s_live s"
      "s_pqueue s1 = s_pqueue s" "s_prempt s1 = s_prempt s"
    using charge_spec [OF assms(1), of j time] assms(2,3) by (auto simp: may_evict_def)
  moreover have "\<not> s_prempt s" using assms by (simp add: sched_inv_def)
  ultimately show ?thesis
    using assms(3) by (simp add: scheduler_quantum_expired_def sched_inv_currenttime)
qed

lemma quantum_idle:
  assumes "sched_inv s"
  shows "\<exists>s'. scheduler_quantum_expired NULL time s =
      Inr (s', case waiting s of [] \<Rightarrow> NULL | x # _ \<Rightarrow> x) \<and>
    sched_inv s' \<and> waiting s' = tl (waiting s) \<and> s_live s' = s_live s \<and> s_scheme s' = s_scheme s"
  using dispatch_next_spec [of "s\<lparr>s_currenttime := to_int time\<rparr>" time] assms
  by (auto simp: scheduler_quantum_expired_def charge_evicted_def requeue_evicted_def
      sched_inv_currenttime)

lemma quantum_preemptive:
  assumes "sched_inv s" and "may_evict j s" and "j \<noteq> NULL" and "prempt_of (s_scheme s)"
  shows "\<exists>s' h q. scheduler_quantum_expired j time s = Inr (s', hd q) \<and>
    q = takeWhile (\<lambda>y. comparision_func (s_scheme s) h y j \<le> 0) (waiting s) @
      j # dropWhile (\<lambda>y. comparision_func (s_scheme s) h y j \<le> 0) (waiting s) \<and>
    sorted_wrt (\<lambda>a b. comparision_func (s_scheme s) h a b \<le> 0) q \<and>
    sched_inv s' \<and> waiting s' = tl q \<and> s_live s' = s_live s \<and> s_scheme s' = s_scheme s \<and>
    (\<forall>x. keys (s_meta s' x) = keys (h x)) \<and> (\<forall>x. x \<noteq> j \<longrightarrow> h x = s_meta s x) \<and>
    ji_lastTimeRun (h j) = time"
proof -
  obtain s1 where s1: "charge_evicted j time s = Inr s1" "sched_inv s1" "s_live s1 = s_live s"
      "s_pqueue s1 = s_pqueue s" "s_scheme s1 = s_scheme s" "s_prempt s1 = s_prempt s"
      "\<forall>x. x \<noteq> j \<longrightarrow> s_meta s1 x = s_meta s x"
    using charge_spec [OF assms(1), of j time] assms(2,3) by (auto simp: may_evict_def)
  let ?s1 = "s1\<lparr>s_currenttime := to_int time\<rparr>"
  obtain s2 where s2: "requeue_evicted j time ?s1 = Inr s2" "sched_inv s2" "s_live s2 = s_live s"
      "s_scheme s2 = s_scheme s"
      "s_meta s2 = (s_meta s1)(j := (s_meta s1 j)\<lparr>ji_lastTimeRun := time\<rparr>)"
      "waiting s2 = takeWhile (\<lambda>y. comparision_func (s_scheme s) (s_meta s2) y j \<le> 0) (waiting s) @
        j # dropWhile (\<lambda>y. comparision_func (s_scheme s) (s_meta s2) y j \<le> 0) (waiting s)"
    using requeue_spec [of ?s1 j time] s1 assms by (auto simp: may_evict_def sched_inv_currenttime)
  obtain s3 where s3: "dispatch_next time s2 = Inr (s3, hd (waiting s2))" "sched_inv s3"
      "waiting s3 = tl (waiting s2)" "s_live s3 = s_live s" "s_scheme s3 = s_scheme s"
      "\<forall>x. keys (s_meta s3 x) = keys (s_meta s2 x)"
    using dispatch_next_spec [OF s2(2), of time] s2 by (auto split: list.splits)
  have "s_prempt s" using assms by (simp add: sched_inv_def)
  then have "scheduler_quantum_expired j time s = Inr (s3, hd (waiting s2))"
    using s1(1,6) s2(1) s3(1) by (simp add: scheduler_quantum_expired_def)
  moreover have "sorted_wrt (\<lambda>a b. comparision_func (s_scheme s) (s_meta s2) a b \<le> 0) (waiting s2)"
    using s2(2,4) unfolding sched_inv_def pq_sorted_def by auto
  ultimately show ?thesis
    using s1(7) s2(5,6) s3 by (intro exI [of _ s3] exI [of _ "s_meta s2"] exI [of _ "waiting s2"]) simp
qed


section \<open>Properties of the scheduler\<close>

definition job_mset :: "ptr \<Rightarrow> ptr multiset" where
  "job_mset j = (if j = NULL then {#} else {#j#})"

text \<open>C8: When a quantum expires the scheduler never faults and never loses or duplicates a
  job: a non-preemptive scheme keeps the running job, any other call hands out a job that comes
  first among the waiting jobs and the evicted one, and NULL exactly when there is none.\<close>

theorem quantum_expired_selects_first:
  assumes inv: "sched_inv s" and j: "may_evict j s"
  shows "\<exists>s' next. scheduler_quantum_expired j time s = Inr (s', next) \<and> sched_inv s' \<and>
    s_live s' = s_live s \<and>
    (if j \<noteq> NULL \<and> \<not> prempt_of (s_scheme s) then next = j \<and> waiting s' = waiting s
     else job_mset next + mset (waiting s') = job_mset j + mset (waiting s) \<and>
       (next = NULL \<longleftrightarrow> j = NULL \<and> waiting s = []) \<and>
       (next \<noteq> NULL \<longrightarrow> (\<forall>x \<in> set (waiting s').
          comparision_func (s_scheme s) (s_meta s') next x \<le> 0)))"
proof (cases "j = NULL")
  case True
  obtain s' where s': "scheduler_quantum_expired NULL time s =
      Inr (s', case waiting s of [] \<Rightarrow> NULL | x # _ \<Rightarrow> x)"
      "sched_inv s'" "waiting s' = tl (waiting s)" "s_live s' = s_live s" "s_scheme s' = s_scheme s"
    "\<forall>j. keys (s_meta s' j) = keys (s_meta s j)"
    using dispatch_next_spec [of "s\<lparr>s_currenttime := to_int time\<rparr>" time] inv
    by (auto simp: scheduler_quantum_expired_def charge_evicted_def requeue_evicted_def
        sched_inv_currenttime)
  show ?thesis
  proof (cases "waiting s")
    case (Cons x xs)
    have "sorted_wrt (\<lambda>a b. comparision_func (s_scheme s) (s_meta s) a b \<le> 0) (x # xs)"
      using inv Cons unfolding sched_inv_def pq_sorted_def by metis
    then have "\<forall>y \<in> set xs. comparision_func (s_scheme s) (s_meta s') x y \<le> 0"
      using s'(6) comparision_func_keys by (metis sorted_wrt.simps(2))
    moreover have "x \<noteq> NULL"
      using live_not_null [OF inv] inv Cons by (auto simp: sched_inv_def)
    ultimately show ?thesis using s' True Cons by (simp add: job_mset_def)
  qed (use s' True in \<open>simp add: job_mset_def\<close>)
next
  case False
  show ?thesis
  proof (cases "prempt_of (s_scheme s)")
    case True
    obtain s' h q where q: "scheduler_quantum_expired j time s = Inr (s', hd q)"
        "q = takeWhile (\<lambda>y. comparision_func (s_scheme s) h y j \<le> 0) (waiting s) @
          j # dropWhile (\<lambda>y. comparision_func (s_scheme s) h y j \<le> 0) (waiting s)"
        "sorted_wrt (\<lambda>a b. comparision_func (s_scheme s) h a b \<le> 0) q"
        "sched_inv s'" "waiting s' = tl q" "s_live s' = s_live s"
        "\<forall>x. keys (s_meta s' x) = keys (h x)"
      using quantum_preemptive [OF inv j False True, of time] by blast
    have ne: "q \<noteq> []" using q(2) by simp
    have mq: "mset q = add_mset j (mset (waiting s))" using q(2) by simp
    then have "set q = insert j (set (waiting s))" by (metis set_mset_add_mset_insert set_mset_mset)
    then have "hd q \<noteq> NULL"
      using False ne live_not_null [OF inv] inv
      by (metis hd_in_set insertE sched_inv_def subsetD)
    moreover have "\<forall>x \<in> set (tl q). comparision_func (s_scheme s) (s_meta s') (hd q) x \<le> 0"
      using q(3,7) ne comparision_func_keys by (metis list.collapse sorted_wrt.simps(2))
    moreover have "add_mset (hd q) (mset (tl q)) = mset q"
      using ne by (metis list.collapse mset.simps(2))
    ultimately show ?thesis using q mq False True by (simp add: job_mset_def)
  next
    case np: False
    from quantum_nonpreemptive [OF inv j False np, of time] show ?thesis
      using False np by auto
  qed
qed

text \<open>
  Round robin. While every job that waits was last run before \<open>time\<close>, the evicted job goes
  to the end of the queue: the processor is handed round.
\<close>

definition ran_before :: "real \<Rightarrow> sched \<Rightarrow> bool" where
  "ran_before time s \<longleftrightarrow> (\<forall>x \<in> set (waiting s). ji_lastTimeRun (s_meta s x) < time)"

lemma rr_rotates:
  assumes "sched_inv s" and "may_evict j s" and "j \<noteq> NULL" and "s_scheme s = RR"
    and "ran_before time s"
  shows "\<exists>s'. scheduler_quantum_expired j time s = Inr (s', hd (waiting s @ [j])) \<and>
    sched_inv s' \<and> waiting s' = tl (waiting s @ [j]) \<and> s_live s' = s_live s \<and> s_scheme s' = RR \<and>
    (\<forall>x \<in> insert j (set (waiting s)). ji_lastTimeRun (s_meta s' x) \<le> time)"
proof -
  obtain s' h q where q: "scheduler_quantum_expired j time s = Inr (s', hd q)"
      "q = takeWhile (\<lambda>y. comparer_rr h y j \<le> 0) (waiting s) @
        j # dropWhile (\<lambda>y. comparer_rr h y j \<le> 0) (waiting s)"
      "sched_inv s'" "waiting s' = tl q" "s_live s' = s_live s" "s_scheme s' = RR"
      "\<forall>x. keys (s_meta s' x) = keys (h x)" "\<forall>x. x \<noteq> j \<longrightarrow> h x = s_meta s x"
      "ji_lastTimeRun (h j) = time"
    using quantum_preemptive [OF assms(1-3), of time] unfolding assms(4) comparision_func.simps
    by auto
  have last: "ji_lastTimeRun (h x) < time" if "x \<in> set (waiting s)" for x
  proof -
    have "x \<noteq> j" using that assms(2,3) unfolding may_evict_def by blast
    then show ?thesis using that assms(5) q(8) unfolding ran_before_def by simp
  qed
  then have "\<forall>x \<in> set (waiting s). comparer_rr h x j \<le> 0"
    using q(9) by (auto simp: comparer_rr_def)
  then have qeq: "q = waiting s @ [j]"
    unfolding q(2) by (simp add: takeWhile_eq_all_conv [THEN iffD2] dropWhile_eq_Nil_conv [THEN iffD2])
  have "ji_lastTimeRun (s_meta s' x) = ji_lastTimeRun (h x)" for x
    using q(7) by (simp add: keys_def)
  then have "\<forall>x \<in> insert j (set (waiting s)). ji_lastTimeRun (s_meta s' x) \<le> time"
    using last q(9) less_imp_le by auto
  then show ?thesis using q(1,3-6) qeq by (intro exI [of _ s']) simp
qed

text \<open>The jobs dispatched by quanta that expire at the given times, no job arriving.\<close>

fun dispatched :: "real list \<Rightarrow> ptr \<Rightarrow> sched \<Rightarrow> ptr list result" where
  "dispatched [] j s = Inr []"
| "dispatched (t # ts) j s =
     rbind (scheduler_quantum_expired j t s) (\<lambda>(s', next).
       rbind (dispatched ts next s') (\<lambda>js. Inr (next # js)))"

lemma rr_dispatched_general:
  "sched_inv s \<Longrightarrow> may_evict j s \<Longrightarrow> j \<noteq> NULL \<Longrightarrow> s_scheme s = RR \<Longrightarrow>
    sorted_wrt (<) ts \<Longrightarrow> (\<forall>t \<in> set ts. ran_before t s) \<Longrightarrow>
    length ts \<le> length (waiting s) \<Longrightarrow> dispatched ts j s = Inr (take (length ts) (waiting s))"
proof (induction ts arbitrary: j s)
  case (Cons t ts)
  obtain x xs where w: "waiting s = x # xs" using Cons.prems(7) by (cases "waiting s") auto
  obtain s' where s': "scheduler_quantum_expired j t s = Inr (s', x)" "sched_inv s'"
      "waiting s' = xs @ [j]" "s_live s' = s_live s" "s_scheme s' = RR"
      "\<forall>y \<in> insert j (set (waiting s)). ji_lastTimeRun (s_meta s' y) \<le> t"
    using rr_rotates [OF Cons.prems(1-4), of t] Cons.prems(6) w by auto
  have "x \<in> s_live s" "x \<notin> set xs" "x \<noteq> j"
    using Cons.prems(1,2,3) w by (auto simp: sched_inv_def may_evict_def)
  then have ev: "may_evict x s'" "x \<noteq> NULL"
    using s' live_not_null [OF Cons.prems(1)] by (auto simp: may_evict_def)
  have "ran_before t' s'" if "t' \<in> set ts" for t'
    using s'(3,6) that Cons.prems(5) w by (fastforce simp: ran_before_def)
  then have "dispatched ts x s' = Inr (take (length ts) (waiting s'))"
    using Cons.IH [OF s'(2) ev s'(5)] Cons.prems(5,7) s'(3) w by simp
  then show ?case using s' w Cons.prems(7) by simp
qed simp

text \<open>C23: Round robin starves nobody: while no job arrives and the quanta expire at increasing
  times, every waiting job is dispatched, in queue order, within as many quanta as there are
  waiting jobs.\<close>

theorem rr_no_starvation:
  assumes "sched_inv s" and "may_evict j s" and "j \<noteq> NULL" and "s_scheme s = RR"
    and "sorted_wrt (<) ts" and "\<forall>t \<in> set ts. ran_before t s" and "length ts = length (waiting s)"
  shows "dispatched ts j s = Inr (waiting s)"
  using rr_dispatched_general [OF assms(1-6)] assms(7) by simp


text \<open>Statistics: the jobs that finish, each with its finishing time.\<close>

fun finish_all :: "(ptr \<times> real) list \<Rightarrow> sched \<Rightarrow> sched result" where
  "finish_all [] s = Inr s"
| "finish_all ((j, t) # fs) s = rbind (scheduler_job_finished j t s) (finish_all fs)"

lemma job_finished_live:
  "j \<noteq> NULL \<Longrightarrow> j \<in> s_live s \<Longrightarrow> scheduler_job_finished j t s = Inr
    (s\<lparr>s_numfin := s_numfin s + 1,
       s_totalturnaround := s_totalturnaround s + (t - ji_arrivetime (s_meta s j)),
       s_totalwait := s_totalwait s + (t - ji_arrivetime (s_meta s j) - ji_runningtime (s_meta s j)),
       s_totalresponse := s_totalresponse s +
         (ji_starttime (s_meta s j) - ji_arrivetime (s_meta s j)),
       s_live := s_live s - {j}\<rparr>)"
  by (simp add: scheduler_job_finished_def deref_def)

text \<open>C26: Finishing any number of distinct jobs succeeds and the totals are the sums over
  these jobs of turnaround (finish - arrival), waiting (turnaround - running time) and response
  (start - arrival) times; finishing a job a second time is a use after free.\<close>

theorem finished_jobs_accounted:
  assumes "sched_inv s" and "distinct (map fst fs)" and "set (map fst fs) \<subseteq> s_live s"
  shows "\<exists>s'. finish_all fs s = Inr s' \<and>
    s_totalturnaround s' = s_totalturnaround s +
      (\<Sum>(j, t) \<leftarrow> fs. t - ji_arrivetime (s_meta s j)) \<and>
    s_totalwait s' = s_totalwait s +
      (\<Sum>(j, t) \<leftarrow> fs. t - ji_arrivetime (s_meta s j) - ji_runningtime (s_meta s j)) \<and>
    s_totalresponse s' = s_totalresponse s +
      (\<Sum>(j, t) \<leftarrow> fs. ji_starttime (s_meta s j) - ji_arrivetime (s_meta s j)) \<and>
    s_numfin s' = s_numfin s + word_of_nat (length fs) \<and>
    s_live s' = s_live s - set (map fst fs) \<and>
    (\<forall>j t. j \<in> set (map fst fs) \<longrightarrow> scheduler_job_finished j t s' = Inl UseAfterFree)"
proof -
  have "NULL \<notin> s_live s" using assms(1) by (simp add: sched_inv_def)
  with assms(2,3) show ?thesis
  proof (induction fs arbitrary: s)
    case (Cons f fs)
    obtain j t where f: "f = (j, t)" by (cases f)
    have j: "j \<noteq> NULL" "j \<in> s_live s" using Cons.prems f by auto
    obtain s1 where s1: "scheduler_job_finished j t s = Inr s1" "s_meta s1 = s_meta s"
        "s_live s1 = s_live s - {j}" "s_numfin s1 = s_numfin s + 1"
        "s_totalturnaround s1 = s_totalturnaround s + (t - ji_arrivetime (s_meta s j))"
        "s_totalwait s1 = s_totalwait s + (t - ji_arrivetime (s_meta s j) - ji_runningtime (s_meta s j))"
        "s_totalresponse s1 = s_totalresponse s + (ji_starttime (s_meta s j) - ji_arrivetime (s_meta s j))"
      by (simp add: job_finished_live [OF j])
    have "distinct (map fst fs)" "set (map fst fs) \<subseteq> s_live s1" "NULL \<notin> s_live s1"
      using Cons.prems f s1 by auto
    from Cons.IH [OF this] obtain s' where IH: "finish_all fs s1 = Inr s'"
        "s_totalturnaround s' = s_totalturnaround s1 +
          (\<Sum>(j, t) \<leftarrow> fs. t - ji_arrivetime (s_meta s j))"
        "s_totalwait s' = s_totalwait s1 +
          (\<Sum>(j, t) \<leftarrow> fs. t - ji_arrivetime (s_meta s j) - ji_runningtime (s_meta s j))"
        "s_totalresponse s' = s_totalresponse s1 +
          (\<Sum>(j, t) \<leftarrow> fs. ji_starttime (s_meta s j) - ji_arrivetime (s_meta s j))"
        "s_numfin s' = s_numfin s1 + word_of_nat (length fs)"
        "s_live s' = s_live s1 - set (map fst fs)"
      unfolding s1(2) by blast
    have dead: "scheduler_job_finished x u s' = Inl UseAfterFree"
      if "x \<in> set (map fst (f # fs))" for x u
    proof -
      have "x \<noteq> NULL" using that Cons.prems(2,3) by (metis subsetD)
      moreover have "x \<notin> s_live s'" using that IH(6) s1(3) f by auto
      ultimately show ?thesis by (simp add: scheduler_job_finished_def deref_def)
    qed
    have "finish_all (f # fs) s = Inr s'"
      using f s1(1) IH(1) by simp
    moreover have "s_live s' = s_live s - set (map fst (f # fs))"
      using f s1(3) IH(6) by auto
    ultimately show ?case
      using IH(2-5) s1(4-7) f dead by (intro exI [of _ s']) (simp add: algebra_simps)
  qed (auto simp: scheduler_job_finished_def)
qed

text \<open>
  Remaining time. \<open>currenttime\<close> is an \<open>int\<close>: the fraction of the previous quantum's time is
  lost, and the job is charged for it again.
\<close>

lemma requeue_frame:
  "requeue_evicted j t s = Inr s' \<Longrightarrow> s_currenttime s' = s_currenttime s \<and>
    ji_timeremaining (s_meta s' x) = ji_timeremaining (s_meta s x)"
  by (auto simp: requeue_evicted_def deref_def store_def Let_def split: if_splits)

lemma dispatch_frame:
  "dispatch_next t s = Inr (s', k) \<Longrightarrow> s_currenttime s' = s_currenttime s \<and>
    ji_timeremaining (s_meta s' x) = ji_timeremaining (s_meta s x)"
  by (auto simp: dispatch_next_def deref_def store_def Let_def split: if_splits prod.splits)

lemma charge_effect:
  "charge_evicted j t s = Inr s' \<Longrightarrow> j \<noteq> NULL \<Longrightarrow> s_currenttime s \<noteq> -1 \<Longrightarrow>
    ji_timeremaining (s_meta s' j) = ji_timeremaining (s_meta s j) - (t - of_int (s_currenttime s))"
  by (auto simp: charge_evicted_def deref_def store_def split: if_splits)

lemma quantum_frame:
  assumes "scheduler_quantum_expired j t s = Inr (s', k)"
  shows "\<exists>s1. charge_evicted j t s = Inr s1 \<and> s_currenttime s' = to_int t \<and>
    (\<forall>x. ji_timeremaining (s_meta s' x) = ji_timeremaining (s_meta s1 x))"
proof -
  from assms obtain s1 where s1: "charge_evicted j t s = Inr s1"
    and rest: "(if j \<noteq> NULL \<and> \<not> s_prempt (s1\<lparr>s_currenttime := to_int t\<rparr>)
        then Inr (s1\<lparr>s_currenttime := to_int t\<rparr>, j)
        else rbind (requeue_evicted j t (s1\<lparr>s_currenttime := to_int t\<rparr>)) (dispatch_next t)) =
      Inr (s', k)"
    unfolding scheduler_quantum_expired_def Let_def rbind_eq_Inr by blast
  show ?thesis
  proof (cases "j \<noteq> NULL \<and> \<not> s_prempt (s1\<lparr>s_currenttime := to_int t\<rparr>)")
    case True
    with rest s1 show ?thesis by auto
  next
    case False
    then obtain s2 where "requeue_evicted j t (s1\<lparr>s_currenttime := to_int t\<rparr>) = Inr s2"
        "dispatch_next t s2 = Inr (s', k)"
      using rest unfolding if_not_P [OF False] rbind_eq_Inr by blast
    then show ?thesis using s1 requeue_frame dispatch_frame by fastforce
  qed
qed

lemma charged_time:
  assumes "scheduler_quantum_expired j t s = Inr (s', k)" and "j \<noteq> NULL"
    and "s_currenttime s \<noteq> -1"
  shows "ji_timeremaining (s_meta s' j) =
    ji_timeremaining (s_meta s j) - (t - of_int (s_currenttime s))"
  using quantum_frame [OF assms(1)] charge_effect [OF _ assms(2,3)] by auto

lemma currenttime_set: "scheduler_quantum_expired j t s = Inr (s', k) \<Longrightarrow> s_currenttime s' = to_int t"
  using quantum_frame by blast

text \<open>A job that runs from the quantum at \<open>t1\<close> to the quantum at \<open>t2\<close> is charged
  \<open>t2 - t1\<close> plus the fraction of \<open>t1\<close>: its remaining time is exact only when \<open>t1\<close> is a
  whole number of seconds.\<close>

theorem remaining_time_overcharged:
  assumes "scheduler_quantum_expired i t1 s = Inr (s1, j)" and "0 \<le> t1" and "j \<noteq> NULL"
    and "scheduler_quantum_expired j t2 s1 = Inr (s2, k)"
  shows "ji_timeremaining (s_meta s2 j) =
    ji_timeremaining (s_meta s1 j) - (t2 - t1) - frac t1"
proof -
  have ct: "s_currenttime s1 = \<lfloor>t1\<rfloor>"
    using currenttime_set [OF assms(1)] assms(2) by (simp add: to_int_def)
  moreover have "\<lfloor>t1\<rfloor> \<noteq> -1"
    using assms(2) by (smt (verit) zero_le_floor)
  ultimately show ?thesis
    using charged_time [OF assms(4,3)] by (simp add: frac_def)
qed

section \<open>Witnesses\<close>

text \<open>Three jobs under round robin: 1 and 2 wait, 3 runs.\<close>

definition demo_info :: "ptr \<Rightarrow> job_info" where
  "demo_info j = \<lparr>ji_id = 0, ji_runningtime = 5, ji_priority = 1, ji_arrivetime = of_nat j,
     ji_timeremaining = 5, ji_starttime = 0, ji_lastTimeRun = 0\<rparr>"

definition demo_sched :: sched where
  "demo_sched = (scheduler_start_up demo_info RR)\<lparr>s_currenttime := 3, s_numarr := 3,
     s_pqueue := \<lparr>pq_comparer = comparision_func RR, pq_size = 2, pq_head = [1, 2]\<rparr>,
     s_live := {1, 2, 3}\<rparr>"

lemma demo_sched_inv: "sched_inv demo_sched" "may_evict 3 demo_sched"
  by (auto simp: demo_sched_def demo_info_def scheduler_start_up_def sched_inv_def pq_sorted_def
      size_ok_def may_evict_def comparer_defs)

theorem quantum_expired_selects_first_witness:
  "\<exists>s' next. scheduler_quantum_expired 3 4 demo_sched = Inr (s', next) \<and> next \<noteq> NULL"
  using quantum_expired_selects_first [OF demo_sched_inv, of 4]
  by (auto simp: demo_sched_def scheduler_start_up_def split: if_splits)

theorem rr_no_starvation_witness: "dispatched [4, 5] 3 demo_sched = Inr [1, 2]"
proof -
  have w: "waiting demo_sched = [1, 2]" "s_scheme demo_sched = RR"
    by (simp_all add: demo_sched_def scheduler_start_up_def)
  have "\<forall>t \<in> set [4, 5]. ran_before t demo_sched"
    by (simp add: demo_sched_def demo_info_def scheduler_start_up_def ran_before_def)
  from rr_no_starvation [OF demo_sched_inv _ w(2) _ this] show ?thesis
    using w by simp
qed

theorem finished_jobs_accounted_witness:
  "\<exists>s'. finish_all [(3, 9), (1, 12)] demo_sched = Inr s' \<and> s_totalturnaround s' = 17 \<and>
    s_totalwait s' = 7"
proof -
  have "distinct (map fst [(3 :: ptr, 9 :: real), (1, 12)])"
    "set (map fst [(3 :: ptr, 9 :: real), (1, 12)]) \<subseteq> s_live demo_sched"
    by (simp_all add: demo_sched_def)
  from finished_jobs_accounted [OF demo_sched_inv(1) this] show ?thesis
    by (auto simp: demo_sched_def demo_info_def scheduler_start_up_def)
qed

theorem remaining_time_overcharged_witness:
  "\<exists>s1 s2 k. scheduler_quantum_expired NULL (7/2) demo_sched = Inr (s1, 1) \<and>
    scheduler_quantum_expired 1 4 s1 = Inr (s2, k) \<and>
    ji_timeremaining (s_meta s1 1) = 5 \<and> ji_timeremaining (s_meta s2 1) = 4"
proof -
  have inv: "sched_inv demo_sched" by (rule demo_sched_inv)
  obtain s1 where s1: "scheduler_quantum_expired NULL (7/2) demo_sched = Inr (s1, 1)"
      "sched_inv s1" "waiting s1 = [2]" "s_live s1 = {1, 2, 3}"
    using quantum_idle [OF inv, of "7/2"] by (auto simp: demo_sched_def scheduler_start_up_def)
  have "may_evict 1 s1" using s1 by (simp add: may_evict_def)
  from quantum_expired_selects_first [OF s1(2) this] obtain s2 k
    where s2: "scheduler_quantum_expired 1 4 s1 = Inr (s2, k)" by blast
  have "ji_timeremaining (s_meta s1 1) = 5"
    using s1(1) by (auto simp: scheduler_quantum_expired_def charge_evicted_def
        requeue_evicted_def dispatch_next_def deref_def store_def demo_sched_def demo_info_def
        scheduler_start_up_def priqueue_poll_def split: if_splits)
  moreover have "frac (7/2 :: real) = 1/2" by (simp add: frac_def)
  ultimately show ?thesis
    using remaining_time_overcharged [OF s1(1) _ _ s2] s1(1) s2 by auto
qed

end
