(* ===== verification/Gthreads.thy ===== *)
theory Gthreads
  imports Scheduler
begin

text \<open>
  The green threads of \<open>savvy_scheduler/gthreads/gthreads.c\<close>: the glue between the timer
  signal, the running job and the scheduler library. A context switch stops the calling
  thread inside \<open>gtyield\<close> and lets another one go on where it stopped: a thread that was
  preempted for \<open>main\<close> stopped before the scheduling half of \<open>gtyield\<close>, so that half runs
  when \<open>main\<close> gives the processor back. Signal masks, the alarm timer, logging and the
  saved registers are not modelled. \<open>t1\<close> and \<open>t2\<close> are the values of the two calls of
  \<open>currtime\<close> in one \<open>gtyield\<close>.
\<close>

section \<open>State\<close>

datatype jobstate = Unused | Running | Ready

record gt =
  g_sched :: sched
  g_counter :: int32
  g_suspended :: ptr
  g_suspsig :: int
  g_currjob :: ptr
  g_gtidx :: int32
  g_leak_stack :: ptr
  g_job_count :: int32
  g_jobs :: "ptr list"
  g_stacks :: "ptr list"
  g_jobcount :: nat
  g_state :: "ptr \<Rightarrow> jobstate"
  g_work :: "ptr \<Rightarrow> ptr"
  g_stack_start :: "ptr \<Rightarrow> ptr"

text \<open>The address of the static \<open>gtmain\<close>, the two signal numbers, \<open>MAX_JOBS\<close>.\<close>

definition gtmain :: ptr where "gtmain = 1"
definition SIGALRM :: int where "SIGALRM = 14"
definition GTSLEEP_SIG :: int where "GTSLEEP_SIG = 10"
definition MAX_JOBS :: nat where "MAX_JOBS = 100"
definition MAIN_FREQUENCY :: int32 where "MAIN_FREQUENCY = 2"

section \<open>Operations\<close>

text \<open>\<open>jobs\<close> and \<open>stacks\<close> are the blocks \<open>malloc\<close> hands out.\<close>

definition gtinit :: "meta \<Rightarrow> ptr list \<Rightarrow> ptr list \<Rightarrow> scheme_t \<Rightarrow> gt" where
  "gtinit m jobs stacks s =
     \<lparr>g_sched = scheduler_start_up m s, g_counter = 1, g_suspended = NULL, g_suspsig = 0,
      g_currjob = gtmain, g_gtidx = 0, g_leak_stack = NULL, g_job_count = 0,
      g_jobs = take MAX_JOBS jobs, g_stacks = take MAX_JOBS stacks, g_jobcount = 0,
      g_state = (\<lambda>j. if j = gtmain then Running else Unused),
      g_work = (\<lambda>_. NULL), g_stack_start = (\<lambda>_. NULL)\<rparr>"

text \<open>The job comes from \<open>jobs[jobcount]\<close>, the stack from \<open>stacks[jobcount + 1]\<close>.\<close>

definition gtgo :: "ptr \<Rightarrow> scheduler_info \<Rightarrow> real \<Rightarrow> gt \<Rightarrow> (gt \<times> int) result" where
  "gtgo f sched_data t g =
     (let g = g\<lparr>g_job_count := g_job_count g + 1\<rparr> in
      if g_jobcount g \<ge> length (g_jobs g) then Inl OutOfBounds
      else let p = g_jobs g ! g_jobcount g;
               g = g\<lparr>g_jobcount := Suc (g_jobcount g), g_gtidx := g_gtidx g + 1\<rparr>;
               g = g\<lparr>g_sched := scheduler_new_job p (g_gtidx g) t sched_data (g_sched g)\<rparr> in
        if g_jobcount g \<ge> length (g_stacks g) then Inl OutOfBounds
        else let stack = g_stacks g ! g_jobcount g in
          if stack = NULL then Inr (g, -1)
          else Inr (g\<lparr>g_stack_start := (g_stack_start g)(p := stack),
                      g_state := (g_state g)(p := Ready), g_work := (g_work g)(p := f)\<rparr>, 0))"

definition gtdestroy :: "ptr \<Rightarrow> gt \<Rightarrow> gt" where
  "gtdestroy job_done g = g\<lparr>g_leak_stack := g_stack_start g job_done\<rparr>"

text \<open>
  The scheduling half of \<open>gtyield\<close>, from \<open>double time = currtime()\<close> on. The answer is whether
  another thread was switched to.
\<close>

definition gt_schedule :: "int \<Rightarrow> real \<Rightarrow> real \<Rightarrow> gt \<Rightarrow> (gt \<times> bool) result" where
  "gt_schedule sig t1 t2 g =
     (let currjob = g_currjob g;
          quantum_job = (if sig = -1 then NULL else currjob);
          quantum_job = (if quantum_job = gtmain then NULL else quantum_job) in
      rbind (if sig = -1 \<and> currjob \<noteq> gtmain then scheduler_job_finished currjob t2 (g_sched g)
             else Inr (g_sched g)) (\<lambda>s.
      rbind (scheduler_quantum_expired quantum_job t1 s) (\<lambda>(s, newjob).
        let g = g\<lparr>g_sched := s\<rparr>; newjob = (if newjob \<noteq> NULL then newjob else gtmain) in
        if currjob = newjob then Inr (g, False)
        else Inr ((if sig = -1 then gtdestroy currjob g else g)\<lparr>g_currjob := newjob\<rparr>, True))))"

definition gtyield :: "int \<Rightarrow> real \<Rightarrow> real \<Rightarrow> gt \<Rightarrow> (gt \<times> bool) result" where
  "gtyield sig t1 t2 g =
     (let g = g\<lparr>g_leak_stack := NULL\<rparr> in
      if g_currjob g = gtmain \<and> g_suspended g \<noteq> NULL then
        let g' = g\<lparr>g_currjob := g_suspended g, g_suspended := NULL\<rparr> in
        if g_suspended g = gtmain then Inr (g', True)
        else gt_schedule (g_suspsig g) t1 t2 g'
      else
        let alarmed = (sig = SIGALRM \<or> sig = GTSLEEP_SIG);
            counter = (if alarmed then (g_counter g + 1) mod MAIN_FREQUENCY else g_counter g);
            g = g\<lparr>g_counter := counter\<rparr> in
        if alarmed \<and> counter = 0 \<and> g_job_count g \<noteq> 0 then
          let g' = g\<lparr>g_suspended := g_currjob g, g_suspsig := sig, g_currjob := gtmain\<rparr> in
          if g_currjob g = gtmain then gt_schedule sig t1 t2 g' else Inr (g', True)
        else gt_schedule sig t1 t2 g)"

text \<open>\<open>gtdoyield\<close> blocks the alarm first; \<open>gtstop\<close> is where a thread's function returns to.\<close>

definition gtdoyield :: "int \<Rightarrow> real \<Rightarrow> real \<Rightarrow> gt \<Rightarrow> (gt \<times> bool) result" where
  "gtdoyield sig t1 t2 g = gtyield sig t1 t2 g"

text \<open>
  \<open>gtret\<close> called by a thread other than \<open>main\<close>: the answer is whether the thread was switched
  away from; when it was not, or when it ever runs again, the code after \<open>gtdoyield\<close> is the
  failing assertion.
\<close>

definition gtret_thread :: "int \<Rightarrow> real \<Rightarrow> real \<Rightarrow> gt \<Rightarrow> gt result" where
  "gtret_thread ret t1 t2 g =
     (let g = g\<lparr>g_state := (g_state g)(g_currjob g := Unused)\<rparr> in
      rbind (gtdoyield ret t1 t2 g) (\<lambda>(g, y). if y then Inr g else Inl AssertFail))"

definition gtstop :: "real \<Rightarrow> real \<Rightarrow> gt \<Rightarrow> gt result" where
  "gtstop t1 t2 g = gtret_thread (-1) t1 t2 (g\<lparr>g_job_count := g_job_count g - 1\<rparr>)"

text \<open>
  \<open>gtret\<close> called by \<open>main\<close>: one turn of its loop. When \<open>main\<close> was switched away from (to the thread that
  was suspended for it, or to another one) the loop goes on the next time that \<open>main\<close> runs; otherwise
  the scheduler is cleaned up and the program exits with the code in the answer. (\<open>currjob\<close> is not
  \<open>NULL\<close> by the invariant, so that the first test of \<open>gtret\<close> has no case of its own.)
\<close>

definition gtret_main :: "int \<Rightarrow> real \<Rightarrow> real \<Rightarrow> gt \<Rightarrow> (gt \<times> int option) result" where
  "gtret_main ret t1 t2 g =
     rbind (gtdoyield 0 t1 t2 g) (\<lambda>(g', y).
     if g_suspended g \<noteq> NULL \<or> y then Inr (g', None)
     else Inr (g'\<lparr>g_sched := fst (scheduler_clean_up (g_sched g'))\<rparr>, Some ret))"

definition gtret :: "int \<Rightarrow> real \<Rightarrow> real \<Rightarrow> gt \<Rightarrow> (gt \<times> int option) result" where
  "gtret ret t1 t2 g =
     (if g_currjob g \<noteq> gtmain then rbind (gtret_thread ret t1 t2 g) (\<lambda>g. Inr (g, None))
      else gtret_main ret t1 t2 g)"

text \<open>A turn of the loop of \<open>gtsleep\<close>, at the time \<open>now\<close>; \<open>time\<close> is when it was called.\<close>

definition gtsleep :: "real \<Rightarrow> real \<Rightarrow> real \<Rightarrow> real \<Rightarrow> real \<Rightarrow> gt \<Rightarrow> (gt \<times> bool) result" where
  "gtsleep sleep_time time now t1 t2 g =
     (if now - time < sleep_time then rbind (gtdoyield GTSLEEP_SIG t1 t2 g) (\<lambda>(g, _). Inr (g, True))
      else Inr (g, False))"

section \<open>The invariant\<close>

text \<open>The thread that owns the processor, behind the back of \<open>main\<close> if need be.\<close>

definition running_job :: "gt \<Rightarrow> ptr" where
  "running_job g =
     (if g_suspended g = NULL \<or> g_suspended g = gtmain then g_currjob g else g_suspended g)"

definition gt_inv :: "gt \<Rightarrow> bool" where
  "gt_inv g \<longleftrightarrow>
     sched_inv (g_sched g) \<and> gtmain \<notin> s_live (g_sched g) \<and> g_currjob g \<noteq> NULL \<and>
     running_job g \<notin> set (waiting (g_sched g)) \<and>
     s_live (g_sched g) = set (waiting (g_sched g)) \<union> ({running_job g} - {gtmain}) \<and>
     (g_suspended g \<noteq> NULL \<longrightarrow> g_suspended g \<noteq> gtmain \<longrightarrow> g_currjob g = gtmain) \<and>
     s_live (g_sched g) \<subseteq> set (take (g_jobcount g) (g_jobs g)) \<and>
     distinct (g_jobs g) \<and> NULL \<notin> set (g_jobs g) \<and> gtmain \<notin> set (g_jobs g) \<and>
     g_suspsig g \<noteq> -1"

lemma gt_inv_main:
  assumes "gt_inv g"
  shows "gtmain \<notin> set (waiting (g_sched g))"
  using assms unfolding gt_inv_def by blast

lemma gtmain_not_null [simp]: "gtmain \<noteq> NULL" "NULL \<noteq> gtmain"
  by (simp_all add: gtmain_def)

lemma gtmain_pos [simp]: "NULL < gtmain"
  by (simp add: gtmain_def)

lemma quantum_partition:
  assumes "sched_inv s" and "may_evict j s" and "s_live s = set (waiting s) \<union> ({j} - {NULL})"
  shows "\<exists>s' next. scheduler_quantum_expired j t s = Inr (s', next) \<and> sched_inv s' \<and>
    s_live s' = s_live s \<and> s_live s = set (waiting s') \<union> ({next} - {NULL}) \<and>
    next \<notin> set (waiting s') \<and> (next \<noteq> NULL \<longrightarrow> next \<in> s_live s)"
proof (cases "j = NULL")
  case True
  obtain s' where s': "scheduler_quantum_expired NULL t s =
      Inr (s', case waiting s of [] \<Rightarrow> NULL | x # _ \<Rightarrow> x)"
      "sched_inv s'" "waiting s' = tl (waiting s)" "s_live s' = s_live s"
    using quantum_idle [OF assms(1), of t] by blast
  have d: "distinct (waiting s)" "NULL \<notin> set (waiting s)"
    using assms(1) by (auto simp: sched_inv_def)
  with s' assms(3) True show ?thesis by (cases "waiting s") auto
next
  case ne: False
  then have j: "j \<in> s_live s" "j \<notin> set (waiting s)" using assms(2) by (auto simp: may_evict_def)
  show ?thesis
  proof (cases "prempt_of (s_scheme s)")
    case True
    obtain s' h q where q: "scheduler_quantum_expired j t s = Inr (s', hd q)"
        "q = takeWhile (\<lambda>y. comparision_func (s_scheme s) h y j \<le> 0) (waiting s) @
          j # dropWhile (\<lambda>y. comparision_func (s_scheme s) h y j \<le> 0) (waiting s)"
        "sched_inv s'" "waiting s' = tl q" "s_live s' = s_live s"
      using quantum_preemptive [OF assms(1,2) ne True, of t] by blast
    have mq: "mset q = add_mset j (mset (waiting s))" using q(2) by simp
    then have set_q: "set q = insert j (set (waiting s))"
      by (metis set_mset_add_mset_insert set_mset_mset)
    have "distinct (j # waiting s)" using assms(1) j by (simp add: sched_inv_def)
    then have d: "distinct q" using mq by (metis mset.simps(2) mset_eq_imp_distinct_iff)
    obtain n q' where nq: "q = n # q'" using set_q by (cases q) auto
    have live: "s_live s = set q" using set_q j assms(3) ne by auto
    then have "n \<noteq> NULL" using live_not_null [OF assms(1)] nq by auto
    with q(1,3,4,5) d nq live show ?thesis by (intro exI [of _ s'] exI [of _ n]) auto
  next
    case False
    with quantum_nonpreemptive [OF assms(1,2) ne False, of t] assms(3) j show ?thesis by auto
  qed
qed

lemma finished_partition:
  assumes "sched_inv s" and "j \<in> s_live s" and "j \<notin> set (waiting s)"
  shows "\<exists>s'. scheduler_job_finished j t s = Inr s' \<and> sched_inv s' \<and>
    s_live s' = s_live s - {j} \<and> s_pqueue s' = s_pqueue s"
proof -
  have "j \<noteq> NULL" using live_not_null assms by blast
  then show ?thesis
    using job_finished_live [of j s t] sched_inv_finished [OF assms(1,3), of t] assms(2) by auto
qed

section \<open>Every operation keeps the invariant\<close>

text \<open>\<open>not_parked\<close>: no thread is suspended for \<open>main\<close>, the current job is the running one.\<close>

abbreviation not_parked :: "gt \<Rightarrow> bool" where
  "not_parked g \<equiv> g_suspended g = NULL \<or> g_suspended g = gtmain"

lemma gt_inv_dispatch:
  assumes "sched_inv (g_sched g)" and "nj \<notin> set (waiting (g_sched g))"
    and "s_live (g_sched g) = set (waiting (g_sched g)) \<union> ({nj} - {NULL})"
    and "gtmain \<notin> s_live (g_sched g)" and "not_parked g"
    and "g_currjob g = (if nj \<noteq> NULL then nj else gtmain)"
    and "s_live (g_sched g) \<subseteq> set (take (g_jobcount g) (g_jobs g))"
    and "distinct (g_jobs g)" and "NULL \<notin> set (g_jobs g)" and "gtmain \<notin> set (g_jobs g)"
    and "g_suspsig g \<noteq> -1"
  shows "gt_inv g"
proof -
  have run: "running_job g = (if nj \<noteq> NULL then nj else gtmain)"
    using assms(5,6) by (auto simp: running_job_def)
  have mw: "gtmain \<notin> set (waiting (g_sched g))" using assms(3,4) by blast
  then have "{running_job g} - {gtmain} = {nj} - {NULL}"
    using run assms(3,4) by (auto split: if_splits)
  moreover have "g_currjob g \<noteq> NULL" using assms(6) by simp
  moreover have "running_job g \<notin> set (waiting (g_sched g))" using run assms(2) mw by simp
  ultimately show ?thesis using assms unfolding gt_inv_def by metis
qed

lemma gt_inv_jobs:
  assumes "gt_inv g"
  shows "s_live (g_sched g) \<subseteq> set (take (g_jobcount g) (g_jobs g))"
    "distinct (g_jobs g)" "NULL \<notin> set (g_jobs g)" "gtmain \<notin> set (g_jobs g)"
    "g_suspsig g \<noteq> -1"
  using assms unfolding gt_inv_def by blast+

lemma gt_schedule_preempt:
  assumes "gt_inv g" and "not_parked g" and "sig \<noteq> -1"
  shows "\<exists>g' y. gt_schedule sig t1 t2 g = Inr (g', y) \<and> gt_inv g' \<and>
    s_live (g_sched g') = s_live (g_sched g) \<and> g_jobs g' = g_jobs g \<and> g_jobcount g' = g_jobcount g \<and>
    y = (g_currjob g' \<noteq> g_currjob g) \<and> g_suspended g' = g_suspended g"
proof -
  let ?s = "g_sched g" and ?j = "if g_currjob g = gtmain then NULL else g_currjob g"
  have s: "sched_inv ?s" using assms(1) by (simp add: gt_inv_def)
  note main = gt_inv_main [OF assms(1)]
  have main2: "gtmain \<notin> s_live ?s" using assms(1) unfolding gt_inv_def by blast
  have part: "may_evict ?j ?s" "s_live ?s = set (waiting ?s) \<union> ({?j} - {NULL})"
    using assms(1) unfolding gt_inv_def
    using assms(2) main by (auto simp: running_job_def may_evict_def)
  obtain s' nj where q: "scheduler_quantum_expired ?j t1 ?s = Inr (s', nj)" "sched_inv s'"
      "s_live s' = s_live ?s" "s_live ?s = set (waiting s') \<union> ({nj} - {NULL})"
      "nj \<notin> set (waiting s')" "nj \<noteq> NULL \<longrightarrow> nj \<in> s_live ?s"
    using quantum_partition [OF s part, of t1] by blast
  let ?n = "if nj \<noteq> NULL then nj else gtmain"
  have run: "gt_schedule sig t1 t2 g =
      (if g_currjob g = ?n then Inr (g\<lparr>g_sched := s'\<rparr>, False)
       else Inr (g\<lparr>g_sched := s', g_currjob := ?n\<rparr>, True))"
    using q(1) assms(3) by (simp add: gt_schedule_def Let_def)
  have "gt_inv (g\<lparr>g_sched := s', g_currjob := ?n\<rparr>)"
    by (rule gt_inv_dispatch [where nj = nj])
      (use q(2-6) main2 gt_inv_jobs [OF assms(1)] assms(2) in simp_all)
  moreover have "g\<lparr>g_sched := s'\<rparr> = g\<lparr>g_sched := s', g_currjob := ?n\<rparr>" if "g_currjob g = ?n"
    using that by (cases g) simp
  ultimately have "gt_inv (g\<lparr>g_sched := s'\<rparr>)" if "g_currjob g = ?n" using that by metis
  with \<open>gt_inv (g\<lparr>g_sched := s', g_currjob := ?n\<rparr>)\<close> run q(3) show ?thesis
    by (cases "g_currjob g = ?n") simp_all
qed

lemma gt_schedule_stop:
  assumes "gt_inv g" and "not_parked g" and "g_currjob g \<noteq> gtmain"
  shows "\<exists>g'. gt_schedule (-1) t1 t2 g = Inr (g', True) \<and> gt_inv g' \<and>
    s_live (g_sched g') = s_live (g_sched g) - {g_currjob g} \<and>
    g_leak_stack g' = g_stack_start g (g_currjob g)"
proof -
  let ?s = "g_sched g" and ?j = "g_currjob g"
  have s: "sched_inv ?s" using assms(1) by (simp add: gt_inv_def)
  note main = gt_inv_main [OF assms(1)]
  have main2: "gtmain \<notin> s_live ?s" using assms(1) unfolding gt_inv_def by blast
  have live: "?j \<in> s_live ?s" "?j \<notin> set (waiting ?s)"
    using assms by (auto simp: gt_inv_def running_job_def)
  obtain s1 where s1: "scheduler_job_finished ?j t2 ?s = Inr s1" "sched_inv s1"
      "s_live s1 = s_live ?s - {?j}" "s_pqueue s1 = s_pqueue ?s"
    using finished_partition [OF s live] by blast
  have part: "may_evict NULL s1" "s_live s1 = set (waiting s1) \<union> ({NULL} - {NULL})"
    using assms s1 live main by (auto simp: gt_inv_def running_job_def may_evict_def)
  obtain s' nj where q: "scheduler_quantum_expired NULL t1 s1 = Inr (s', nj)" "sched_inv s'"
      "s_live s' = s_live s1" "s_live s1 = set (waiting s') \<union> ({nj} - {NULL})"
      "nj \<notin> set (waiting s')" "nj \<noteq> NULL \<longrightarrow> nj \<in> s_live s1"
    using quantum_partition [OF s1(2) part, of t1] by blast
  let ?n = "if nj \<noteq> NULL then nj else gtmain"
  have ne: "?j \<noteq> ?n" using q(6) s1(3) assms(3) by (auto split: if_splits)
  have run: "gt_schedule (-1) t1 t2 g =
      Inr ((gtdestroy ?j (g\<lparr>g_sched := s'\<rparr>))\<lparr>g_currjob := ?n\<rparr>, True)"
    using s1(1) q(1) ne assms(3) by (simp add: gt_schedule_def Let_def)
  have "s_live s1 \<subseteq> set (take (g_jobcount g) (g_jobs g))"
    using s1(3) gt_inv_jobs(1) [OF assms(1)] by blast
  moreover have "gtmain \<notin> s_live s1" using s1(3) main2 by blast
  ultimately have "gt_inv ((gtdestroy ?j (g\<lparr>g_sched := s'\<rparr>))\<lparr>g_currjob := ?n\<rparr>)"
    by (intro gt_inv_dispatch [where nj = nj])
      (use q(2-6) gt_inv_jobs [OF assms(1)] assms(2) in \<open>simp_all add: gtdestroy_def\<close>)
  with run q(3) s1(3) show ?thesis by (simp add: gtdestroy_def)
qed

lemma gt_inv_cong:
  assumes "gt_inv g" and "g_sched g' = g_sched g" and "running_job g' = running_job g" and "g_currjob g' \<noteq> NULL"
    and "g_suspended g' \<noteq> NULL \<longrightarrow> g_suspended g' \<noteq> gtmain \<longrightarrow> g_currjob g' = gtmain"
    and "g_jobs g' = g_jobs g" and "g_jobcount g' = g_jobcount g" and "g_suspsig g' \<noteq> -1"
  shows "gt_inv g'"
  using assms unfolding gt_inv_def by metis

lemma alarm_sig: "sig = SIGALRM \<or> sig = GTSLEEP_SIG \<Longrightarrow> sig \<noteq> -1"
  by (auto simp: SIGALRM_def GTSLEEP_SIG_def)

lemma gtyield_running:
  assumes "\<not> (g_currjob g = gtmain \<and> g_suspended g \<noteq> NULL)"
    and "c = (if sig = SIGALRM \<or> sig = GTSLEEP_SIG then (g_counter g + 1) mod MAIN_FREQUENCY
      else g_counter g)"
  shows "gtyield sig t1 t2 g =
    (let g = g\<lparr>g_leak_stack := NULL, g_counter := c\<rparr> in
     if (sig = SIGALRM \<or> sig = GTSLEEP_SIG) \<and> c = 0 \<and> g_job_count g \<noteq> 0 then
       let g' = g\<lparr>g_suspended := g_currjob g, g_suspsig := sig, g_currjob := gtmain\<rparr> in
       if g_currjob g = gtmain then gt_schedule sig t1 t2 g' else Inr (g', True)
     else gt_schedule sig t1 t2 g)"
  unfolding assms(2) gtyield_def Let_def using assms(1) by auto

lemma gtyield_preempt:
  assumes inv: "gt_inv g" and sig: "sig \<noteq> -1"
  shows "\<exists>g' y. gtyield sig t1 t2 g = Inr (g', y) \<and> gt_inv g' \<and>
    s_live (g_sched g') = s_live (g_sched g)"
proof -
  let ?g = "g\<lparr>g_leak_stack := NULL\<rparr>"
  let ?alarmed = "sig = SIGALRM \<or> sig = GTSLEEP_SIG"
  obtain c where c_def: "c = (if ?alarmed then (g_counter g + 1) mod MAIN_FREQUENCY
      else g_counter g)"
    by blast
  let ?gc = "?g\<lparr>g_counter := c\<rparr>"
  have cj: "g_currjob g \<noteq> NULL" using inv unfolding gt_inv_def by blast
  have ss: "g_suspsig g \<noteq> -1" by (rule gt_inv_jobs(5) [OF inv])
  have park: "g_suspended g \<noteq> NULL \<longrightarrow> g_suspended g \<noteq> gtmain \<longrightarrow> g_currjob g = gtmain"
    using inv unfolding gt_inv_def by blast
  show ?thesis
  proof (cases "g_currjob g = gtmain \<and> g_suspended g \<noteq> NULL")
    case True
    let ?b = "?g\<lparr>g_currjob := g_suspended g, g_suspended := NULL\<rparr>"
    have "running_job ?b = running_job g" using True by (simp add: running_job_def)
    then have b: "gt_inv ?b"
      using gt_inv_cong [OF inv, of ?b] True ss by simp
    show ?thesis
      using b True gt_schedule_preempt [OF b _ ss, of t1 t2] by (auto simp: gtyield_def Let_def)
  next
    case False
    then have np: "not_parked g" using park by blast
    note unfold = gtyield_running [OF False c_def, of t1 t2]
    have c: "gt_inv ?gc"
      using gt_inv_cong [OF inv, of ?gc] cj park ss by (simp add: running_job_def)
    let ?m = "?gc\<lparr>g_suspended := g_currjob g, g_suspsig := sig, g_currjob := gtmain\<rparr>"
    have "running_job ?m = running_job g"
      using np cj by (auto simp: running_job_def)
    then have m: "gt_inv ?m"
      using gt_inv_cong [OF inv, of ?m] sig by simp
    show ?thesis
    proof (cases "?alarmed \<and> c = 0 \<and> g_job_count g \<noteq> 0")
      case al: True
      have "\<exists>g' y. gt_schedule sig t1 t2 ?m = Inr (g', y) \<and> gt_inv g' \<and>
          s_live (g_sched g') = s_live (g_sched g)" if "g_currjob g = gtmain"
        using gt_schedule_preempt [OF m _ sig, of t1 t2] that by auto
      with m al show ?thesis unfolding unfold by (auto simp: Let_def)
    next
      case al: False
      have "\<exists>g' y. gt_schedule sig t1 t2 ?gc = Inr (g', y) \<and> gt_inv g' \<and>
          s_live (g_sched g') = s_live (g_sched g)"
        using gt_schedule_preempt [OF c _ sig, of t1 t2] np by auto
      moreover have "gtyield sig t1 t2 g = gt_schedule sig t1 t2 ?gc"
        unfolding unfold using al by (auto simp: Let_def)
      ultimately show ?thesis by simp
    qed
  qed
qed

lemma gtstop_switches:
  assumes inv: "gt_inv g" and "g_currjob g \<noteq> gtmain"
  shows "\<exists>g'. gtstop t1 t2 g = Inr g' \<and> gt_inv g' \<and>
    s_live (g_sched g') = s_live (g_sched g) - {g_currjob g}"
proof -
  let ?g = "g\<lparr>g_job_count := g_job_count g - 1, g_state := (g_state g)(g_currjob g := Unused),
    g_leak_stack := NULL\<rparr>"
  have facts: "g_currjob g \<noteq> NULL" "g_suspsig g \<noteq> -1"
    "g_suspended g \<noteq> NULL \<longrightarrow> g_suspended g \<noteq> gtmain \<longrightarrow> g_currjob g = gtmain"
    using inv unfolding gt_inv_def by blast+
  then have np: "not_parked ?g" using assms(2) by auto
  have i: "gt_inv ?g" using gt_inv_cong [OF inv, of ?g] facts by (simp add: running_job_def)
  obtain g' where g': "gt_schedule (-1) t1 t2 ?g = Inr (g', True)" "gt_inv g'"
      "s_live (g_sched g') = s_live (g_sched g) - {g_currjob g}"
    using gt_schedule_stop [OF i np, of t1 t2] assms(2) by auto
  have "gtdoyield (-1) t1 t2 (g\<lparr>g_job_count := g_job_count g - 1,
      g_state := (g_state g)(g_currjob g := Unused)\<rparr>) = gt_schedule (-1) t1 t2 ?g"
    using assms(2) by (simp add: gtdoyield_def gtyield_def Let_def SIGALRM_def GTSLEEP_SIG_def)
  with g' show ?thesis by (simp add: gtstop_def gtret_thread_def)
qed

lemma set_waiting_new_job:
  "set (waiting (scheduler_new_job p n t d s)) = insert p (set (waiting s))"
  "s_live (scheduler_new_job p n t d s) = insert p (s_live s)"
  by (simp_all add: scheduler_new_job_def Let_def store_def)
    (metis mset_offer set_mset_add_mset_insert set_mset_mset)

lemma gtgo_inv:
  assumes inv: "gt_inv g" and go: "gtgo f d t g = Inr (g', r)"
  shows "gt_inv g'"
proof -
  have lt: "g_jobcount g < length (g_jobs g)"
    using go by (auto simp: gtgo_def Let_def split: if_splits)
  define p where "p = g_jobs g ! g_jobcount g"
  note jobs = gt_inv_jobs [OF inv]
  have s: "sched_inv (g_sched g)" using inv unfolding gt_inv_def by blast
  have "p \<notin> set (take (g_jobcount g) (g_jobs g))"
    using jobs(2) lt unfolding p_def by (metis distinct_take id_take_nth_drop distinct_append
        not_distinct_conv_prefix not_distinct_decomp take_Suc_conv_app_nth)
  then have new: "p \<notin> s_live (g_sched g)" using jobs(1) by blast
  have p: "p \<noteq> NULL" "p \<noteq> gtmain"
    using jobs(3,4) lt unfolding p_def by (metis nth_mem)+
  have "running_job g \<noteq> p" "p \<notin> set (waiting (g_sched g))"
    using new p inv unfolding gt_inv_def by blast+
  have sched: "g_sched g' = scheduler_new_job p (g_gtidx g + 1) t d (g_sched g)"
    using go by (auto simp: gtgo_def Let_def p_def split: if_splits)
  have rest: "g_jobs g' = g_jobs g" "g_jobcount g' = Suc (g_jobcount g)" "g_currjob g' = g_currjob g"
      "g_suspended g' = g_suspended g" "g_suspsig g' = g_suspsig g" "running_job g' = running_job g"
    using go by (auto simp: gtgo_def Let_def running_job_def split: if_splits)
  have "set (take (g_jobcount g') (g_jobs g')) = insert p (set (take (g_jobcount g) (g_jobs g)))"
    using lt rest by (simp add: take_Suc_conv_app_nth p_def)
  moreover have "sched_inv (g_sched g')"
    using sched sched_inv_new_job [OF s p(1)] \<open>p \<notin> set (waiting (g_sched g))\<close> by simp
  ultimately show ?thesis
    using inv p \<open>running_job g \<noteq> p\<close> jobs
    unfolding gt_inv_def sched rest set_waiting_new_job by blast
qed

lemma gtinit_inv:
  assumes "distinct jobs" and "NULL \<notin> set jobs" and "gtmain \<notin> set jobs"
  shows "gt_inv (gtinit m jobs stacks sc)"
proof -
  have "sched_inv (scheduler_start_up m sc)" by (rule sched_inv_start_up)
  moreover have "s_live (scheduler_start_up m sc) = {}" "waiting (scheduler_start_up m sc) = []"
    by (simp_all add: scheduler_start_up_def priqueue_init_def)
  ultimately show ?thesis
    using assms by (auto simp: gtinit_def gt_inv_def running_job_def dest: in_set_takeD)
qed

section \<open>Reachable states\<close>

inductive gt_reach :: "gt \<Rightarrow> gt \<Rightarrow> bool" for g0 where
  start: "gt_reach g0 g0"
| go: "gt_reach g0 g \<Longrightarrow> gtgo f d t g = Inr (g', r) \<Longrightarrow> gt_reach g0 g'"
| yield: "gt_reach g0 g \<Longrightarrow> sig \<noteq> -1 \<Longrightarrow> gtyield sig t1 t2 g = Inr (g', y) \<Longrightarrow> gt_reach g0 g'"
| stop: "gt_reach g0 g \<Longrightarrow> g_currjob g \<noteq> gtmain \<Longrightarrow> gtstop t1 t2 g = Inr g' \<Longrightarrow> gt_reach g0 g'"

lemma gt_reach_inv: "gt_reach g0 g \<Longrightarrow> gt_inv g0 \<Longrightarrow> gt_inv g"
proof (induction rule: gt_reach.induct)
  case (yield g sig t1 t2 g' y)
  from gtyield_preempt [OF yield.IH [OF yield.prems] yield.hyps(2), of t1 t2] yield.hyps(3)
  show ?case by auto
next
  case (stop g t1 t2 g')
  from gtstop_switches [OF stop.IH [OF stop.prems] stop.hyps(2), of t1 t2] stop.hyps(3)
  show ?case by auto
qed (auto intro: gtgo_inv)



section \<open>Capacity\<close>

text \<open>A sequence of calls of \<open>gtgo\<close>: function, attributes, time.\<close>

fun gtgo_all :: "(ptr \<times> scheduler_info \<times> real) list \<Rightarrow> gt \<Rightarrow> gt result" where
  "gtgo_all [] g = Inr g"
| "gtgo_all ((f, d, t) # cs) g = rbind (gtgo f d t g) (\<lambda>(g, _). gtgo_all cs g)"

lemma gtgo_room:
  assumes "length (g_jobs g) = MAX_JOBS" and "length (g_stacks g) = MAX_JOBS"
  shows "Suc (g_jobcount g) < MAX_JOBS \<Longrightarrow> \<exists>g' r. gtgo f d t g = Inr (g', r) \<and>
      g_jobcount g' = Suc (g_jobcount g) \<and> g_jobs g' = g_jobs g \<and> g_stacks g' = g_stacks g"
    and "MAX_JOBS \<le> Suc (g_jobcount g) \<Longrightarrow> gtgo f d t g = Inl OutOfBounds"
  using assms by (auto simp: gtgo_def Let_def)

lemma gtgo_all_room:
  assumes "length (g_jobs g) = MAX_JOBS" and "length (g_stacks g) = MAX_JOBS"
    and "g_jobcount g < MAX_JOBS"
  shows "(\<exists>g'. gtgo_all cs g = Inr g') = (g_jobcount g + length cs < MAX_JOBS) \<and>
    (g_jobcount g + length cs \<ge> MAX_JOBS \<longrightarrow> gtgo_all cs g = Inl OutOfBounds)"
  using assms
proof (induction cs arbitrary: g)
  case (Cons c cs)
  obtain f d t where c: "c = (f, d, t)" by (cases c)
  show ?case
  proof (cases "Suc (g_jobcount g) < MAX_JOBS")
    case True
    obtain g' r where g': "gtgo f d t g = Inr (g', r)" "g_jobcount g' = Suc (g_jobcount g)"
        "g_jobs g' = g_jobs g" "g_stacks g' = g_stacks g"
      using gtgo_room(1) [OF Cons.prems(1,2) True] by blast
    with Cons.IH [of g'] Cons.prems True show ?thesis by (simp add: c)
  next
    case False
    then show ?thesis using gtgo_room(2) [OF Cons.prems(1,2)] by (simp add: c)
  qed
qed simp

text \<open>C28: Although \<open>MAX_JOBS\<close> is 100, the hundredth \<open>gtgo\<close> reads past the array of stacks:
  a sequence of calls on a fresh system runs to its end exactly when it is shorter than 100.\<close>

theorem gtgo_capacity:
  assumes "length jobs = MAX_JOBS" and "length stacks = MAX_JOBS"
  shows "(\<exists>g. gtgo_all cs (gtinit m jobs stacks sc) = Inr g) = (length cs < MAX_JOBS) \<and>
    (MAX_JOBS \<le> length cs \<longrightarrow> gtgo_all cs (gtinit m jobs stacks sc) = Inl OutOfBounds)"
  using gtgo_all_room [of "gtinit m jobs stacks sc" cs] assms
  by (simp add: gtinit_def MAX_JOBS_def)

section \<open>Returning from a thread\<close>

text \<open>A thread that calls \<open>gtret\<close> with anything but -1 does not leave the scheduler: either
  the assertion behind \<open>gtdoyield\<close> fails at once, or the thread stays live, waiting in the queue
  or parked, marked as unused.\<close>

theorem gtret_keeps_the_thread:
  assumes "gt_inv g" and "g_currjob g \<noteq> gtmain" and "ret \<noteq> -1"
  shows "case gtret_thread ret t1 t2 g of
      Inl e \<Rightarrow> e = AssertFail
    | Inr g' \<Rightarrow> g_currjob g \<in> s_live (g_sched g') \<and>
        (g_currjob g \<in> set (waiting (g_sched g')) \<or> running_job g' = g_currjob g)"
proof -
  let ?g = "g\<lparr>g_state := (g_state g)(g_currjob g := Unused)\<rparr>"
  have park: "g_currjob g \<noteq> NULL" "g_suspsig g \<noteq> -1"
      "g_suspended g \<noteq> NULL \<longrightarrow> g_suspended g \<noteq> gtmain \<longrightarrow> g_currjob g = gtmain"
    using assms(1) unfolding gt_inv_def by blast+
  have live: "g_currjob g \<in> s_live (g_sched g)"
    using assms(1,2) park unfolding gt_inv_def running_job_def by auto
  have i: "gt_inv ?g" using gt_inv_cong [OF assms(1), of ?g] park by (simp add: running_job_def)
  obtain g' y where y: "gtyield ret t1 t2 ?g = Inr (g', y)" "gt_inv g'"
      "s_live (g_sched g') = s_live (g_sched g)"
    using gtyield_preempt [OF i assms(3), of t1 t2] by auto
  have "g_currjob g \<in> set (waiting (g_sched g')) \<union> ({running_job g'} - {gtmain})"
    using live y(2,3) unfolding gt_inv_def by metis
  with y live show ?thesis by (auto simp: gtret_thread_def gtdoyield_def)
qed

section \<open>Main waits for the threads\<close>

text \<open>\<open>gtret\<close> of \<open>main\<close> does not fault, loses no thread while it waits, and ends only when none is left.\<close>

theorem main_waits_for_all_threads:
  assumes inv: "gt_inv g" and main: "g_currjob g = gtmain"
  shows "\<exists>g' r. gtret ret t1 t2 g = Inr (g', r) \<and> r \<in> {None, Some ret} \<and> s_live (g_sched g') = s_live (g_sched g) \<and>
    (r = Some ret \<longrightarrow> s_live (g_sched g') = {})"
proof -
  obtain g' y where y: "gtyield 0 t1 t2 g = Inr (g', y)" "gt_inv g'" "s_live (g_sched g') = s_live (g_sched g)"
    using gtyield_preempt [OF inv, of 0 t1 t2] by auto
  have "s_live (g_sched g) = {}" if no: "g_suspended g = NULL" "\<not> y"
  proof -
    let ?g = "g\<lparr>g_leak_stack := NULL\<rparr>"
    have s: "sched_inv (g_sched g)" using inv by (simp add: gt_inv_def)
    have sig: "\<not> (0 = SIGALRM \<or> 0 = GTSLEEP_SIG)" by (simp add: SIGALRM_def GTSLEEP_SIG_def)
    have run: "gtyield 0 t1 t2 g = gt_schedule 0 t1 t2 ?g"
      using gtyield_running [of g "g_counter g" 0 t1 t2] no(1) sig by (simp add: Let_def)
    obtain s' where q: "scheduler_quantum_expired NULL t1 (g_sched g) = Inr (s', case waiting (g_sched g) of [] \<Rightarrow> NULL | x # _ \<Rightarrow> x)"
      using quantum_idle [OF s, of t1] by blast
    have "waiting (g_sched g) = []"
    proof (cases "waiting (g_sched g)")
      case (Cons x xs)
      then have "x \<in> s_live (g_sched g)" "x \<noteq> gtmain"
        using s gt_inv_main [OF inv] by (auto simp: sched_inv_def)
      moreover from this(1) have "x \<noteq> NULL" using live_not_null [OF s] by blast
      ultimately have "x \<noteq> NULL" "x \<noteq> gtmain" by simp_all
      with Cons q main run y(1) no(2) show ?thesis by (auto simp: gt_schedule_def Let_def split: if_splits)
    qed simp
    moreover have "running_job g = gtmain" using no(1) main by (simp add: running_job_def)
    moreover have "s_live (g_sched g) = set (waiting (g_sched g)) \<union> ({running_job g} - {gtmain})"
      using inv unfolding gt_inv_def by blast
    ultimately show ?thesis by simp
  qed
  then show ?thesis using y main
    by (auto simp: gtret_def gtret_main_def gtdoyield_def scheduler_clean_up_def)
qed

lemma gtsleep_keeps_threads:
  assumes "gt_inv g"
  shows "\<exists>g' more. gtsleep sleep_time time now t1 t2 g = Inr (g', more) \<and> gt_inv g' \<and>
    s_live (g_sched g') = s_live (g_sched g) \<and> more = (now - time < sleep_time)"
  using gtyield_preempt [OF assms, of GTSLEEP_SIG t1 t2] assms
  by (auto simp: gtsleep_def gtdoyield_def GTSLEEP_SIG_def)

section \<open>Witnesses\<close>

definition demo_attr :: scheduler_info where
  "demo_attr = \<lparr>si_running_time = 5, si_priority = 1\<rparr>"

definition demo_gt :: gt where
  "demo_gt = gtinit demo_info [7, 8, 9] [17, 18, 19] RR"

text \<open>Two threads created, the first one running.\<close>

lemma demo_gt_inv: "gt_inv demo_gt"
  unfolding demo_gt_def by (rule gtinit_inv) (simp_all add: gtmain_def)

lemma demo_gt_go: "\<exists>g. gtgo 50 demo_attr 1 demo_gt = Inr (g, 0) \<and> gt_inv g \<and>
    gt_reach demo_gt g \<and> waiting (g_sched g) = [7] \<and> s_live (g_sched g) = {7} \<and> g_job_count g = 1 \<and>
    g_counter g = 1"
proof -
  have "\<exists>g. gtgo 50 demo_attr 1 demo_gt = Inr (g, 0) \<and> waiting (g_sched g) = [7] \<and>
      s_live (g_sched g) = {7} \<and> g_job_count g = 1 \<and> g_counter g = 1"
    by (simp add: gtgo_def demo_gt_def gtinit_def MAX_JOBS_def Let_def scheduler_new_job_def
        scheduler_start_up_def store_def priqueue_init_def priqueue_offer_def)
  then show ?thesis using gtgo_inv [OF demo_gt_inv] go [OF start] by blast
qed


theorem gtgo_capacity_witness:
  "gtgo_all (replicate 100 (50, demo_attr, 1)) (gtinit demo_info [2..<102] [200..<300] RR) =
    Inl OutOfBounds"
  using gtgo_capacity [of "[2..<102]" "[200..<300]" "replicate 100 (50, demo_attr, 1)"]
  by (simp add: MAX_JOBS_def)

text \<open>The state after the first thread got the processor.\<close>

definition demo_running :: gt where
  "demo_running = demo_gt\<lparr>g_sched := (scheduler_start_up demo_info RR)\<lparr>s_live := {7}\<rparr>,
     g_currjob := 7, g_jobcount := 1, g_job_count := 1\<rparr>"

lemma demo_running_fields: "g_currjob demo_running = 7" "g_currjob demo_running \<noteq> gtmain"
  "g_currjob demo_running \<noteq> NULL" "g_job_count demo_running \<noteq> 0" "g_counter demo_running = 1"
  by (simp_all add: demo_running_def demo_gt_def gtinit_def gtmain_def)

lemma demo_running_inv: "gt_inv demo_running"
proof (rule gt_inv_dispatch [where nj = 7])
  have "sched_inv ((scheduler_start_up demo_info RR)\<lparr>s_live := {7}\<rparr>)"
    using sched_inv_start_up [of demo_info RR] by (simp add: sched_inv_def scheduler_start_up_def
        priqueue_init_def)
  then show "sched_inv (g_sched demo_running)" by (simp add: demo_running_def)
qed (simp_all add: demo_running_def demo_gt_def gtinit_def gtmain_def MAX_JOBS_def
    scheduler_start_up_def priqueue_init_def)

theorem gtret_keeps_the_thread_witness:
  "\<exists>g'. gtret_thread 0 5 5 demo_running = Inr g' \<and> 7 \<in> s_live (g_sched g') \<or>
    gtret_thread 0 5 5 demo_running = Inl AssertFail"
  using gtret_keeps_the_thread [OF demo_running_inv demo_running_fields(2), of 0 5 5]
  by (auto simp: demo_running_fields split: sum.splits)


end
