(* ===== verification/Bytes.thy ===== *)
theory Bytes
  imports Prelude
begin

text \<open>
  Byte-addressed memory: a memory is a function from offsets to bytes. A \<open>uint32_t\<close> is kept
  in four bytes, least significant first, as on the machines the code is built for. The bits of
  a word are read with \<^const>\<open>bit\<close>, so that bit fields are ranges of bit positions.
\<close>

type_synonym memory = "nat \<Rightarrow> byte"

definition load32 :: "memory \<Rightarrow> nat \<Rightarrow> addr32" where
  "load32 m p = ucast (m p) OR push_bit 8 (ucast (m (p + 1))) OR
     push_bit 16 (ucast (m (p + 2))) OR push_bit 24 (ucast (m (p + 3)))"

definition store32 :: "memory \<Rightarrow> nat \<Rightarrow> addr32 \<Rightarrow> memory" where
  "store32 m p w = (\<lambda>a. if p \<le> a \<and> a < p + 4 then ucast (drop_bit (8 * (a - p)) w) else m a)"

text \<open>A block of bytes, as \<open>memcpy\<close> moves it.\<close>

definition load_bytes :: "memory \<Rightarrow> nat \<Rightarrow> nat \<Rightarrow> byte list" where
  "load_bytes m p n = map m [p..<p + n]"

definition store_bytes :: "memory \<Rightarrow> nat \<Rightarrow> byte list \<Rightarrow> memory" where
  "store_bytes m p bs = (\<lambda>a. if p \<le> a \<and> a < p + length bs then bs ! (a - p) else m a)"

named_theorems memory_simps \<open>reading back from byte memories\<close>

lemma bit_load32: "bit (load32 m p) n \<longleftrightarrow> n < 32 \<and> bit (m (p + n div 8)) (n mod 8)"
proof (cases "n < 32")
  case True
  then consider "n div 8 = 0" "n < 8" | "n div 8 = 1" "8 \<le> n" "n < 16"
    | "n div 8 = 2" "16 \<le> n" "n < 24" | "n div 8 = 3" "24 \<le> n" by linarith
  then show ?thesis
  proof cases
    case 1 then show ?thesis by (simp add: load32_def bit_simps)
  next
    case 2
    then have "n mod 8 = n - 8" by presburger
    with 2 show ?thesis by (auto simp: load32_def bit_simps dest: bit_imp_le_length)
  next
    case 3
    then have "n mod 8 = n - 16" by presburger
    with 3 show ?thesis by (auto simp: load32_def bit_simps dest: bit_imp_le_length)
  next
    case 4
    then have "n mod 8 = n - 24" by presburger
    with 4 True show ?thesis by (auto simp: load32_def bit_simps dest: bit_imp_le_length)
  qed
qed (auto dest: bit_imp_le_length)

lemma load32_store32 [simp, memory_simps]: "load32 (store32 m p w) p = w"
proof (rule bit_word_eqI)
  fix n assume "n < LENGTH(32)"
  then have less: "n div 8 < 4" "n < 32" by auto
  have "8 * (n div 8) + n mod 8 = n" by simp
  with less(2) show "bit (load32 (store32 m p w) p) n = bit w n"
    by (simp add: bit_load32 store32_def bit_simps less(1))
qed

lemma load32_cong: "(\<And>a. p \<le> a \<Longrightarrow> a < p + 4 \<Longrightarrow> m a = m' a) \<Longrightarrow> load32 m p = load32 m' p"
  by (simp add: load32_def)

lemma store32_other [simp, memory_simps]: "a < p \<or> p + 4 \<le> a \<Longrightarrow> store32 m p w a = m a"
  by (auto simp: store32_def)

lemma load32_store32_other [memory_simps]:
  "p + 4 \<le> q \<or> q + 4 \<le> p \<Longrightarrow> load32 (store32 m p w) q = load32 m q"
  by (rule load32_cong) auto

lemma length_load_bytes [simp, memory_simps]: "length (load_bytes m p n) = n"
  by (simp add: load_bytes_def)

lemma nth_load_bytes [simp, memory_simps]: "i < n \<Longrightarrow> load_bytes m p n ! i = m (p + i)"
  by (simp add: load_bytes_def)

lemma store_bytes_other [simp, memory_simps]:
  "a < p \<or> p + length bs \<le> a \<Longrightarrow> store_bytes m p bs a = m a"
  by (auto simp: store_bytes_def)

lemma store_bytes_same [simp, memory_simps]: "i < length bs \<Longrightarrow> store_bytes m p bs (p + i) = bs ! i"
  by (simp add: store_bytes_def)

lemma load_store_bytes [simp, memory_simps]: "load_bytes (store_bytes m p bs) p (length bs) = bs"
  by (rule nth_equalityI) auto

end
