(* ===== verification/Segments.thy ===== *)
theory Segments
  imports Bytes
begin

text \<open>
  The segments of a process in \<open>ideal_indirection/segments.c\<close> and \<open>segments.h\<close>: an array of
  address ranges with permissions. Both ends of a range are tested with \<open><=\<close>, so the address
  \<open>end\<close> belongs to a segment that grows upwards.
\<close>

section \<open>Data\<close>

definition PAGE_SIZE :: nat where "PAGE_SIZE = 4096"

record vm_segmentation =
  start :: addr32
  end_of :: addr32
  permissions :: addr32
  grows_down :: bool

datatype segments = STACK | MMAP | HEAP | BSS | DATA | TEXT | TESTING

primrec segment_index :: "segments \<Rightarrow> nat" where
  "segment_index STACK = 0"
| "segment_index MMAP = 1"
| "segment_index HEAP = 2"
| "segment_index BSS = 3"
| "segment_index DATA = 4"
| "segment_index TEXT = 5"
| "segment_index TESTING = 6"

definition NUM_SEGMENTS :: nat where "NUM_SEGMENTS = 7"

definition READ :: addr32 where "READ = 0x1"
definition WRITE :: addr32 where "WRITE = 0x2"
definition EXEC :: addr32 where "EXEC = 0x4"

type_synonym vm_segmentations = "vm_segmentation list"

section \<open>Operations\<close>

text \<open>\<open>num_pages * PAGE_SIZE\<close> is a 64-bit product, cut to 32 bits when it is added to \<open>end\<close>.\<close>

definition pages_bytes :: "size_t \<Rightarrow> addr32" where
  "pages_bytes num_pages = ucast (num_pages * word_of_nat PAGE_SIZE)"

definition grow_segment :: "vm_segmentations \<Rightarrow> segments \<Rightarrow> size_t \<Rightarrow> vm_segmentations" where
  "grow_segment segs s num_pages =
     (let g = segs ! segment_index s in
      segs[segment_index s :=
        (if grows_down g then g\<lparr>end_of := end_of g - pages_bytes num_pages\<rparr>
         else g\<lparr>end_of := end_of g + pages_bytes num_pages\<rparr>)])"

definition shrink_segment :: "vm_segmentations \<Rightarrow> segments \<Rightarrow> size_t \<Rightarrow> vm_segmentations" where
  "shrink_segment segs s num_pages =
     (let g = segs ! segment_index s in
      segs[segment_index s :=
        (if grows_down g then g\<lparr>end_of := end_of g + pages_bytes num_pages\<rparr>
         else g\<lparr>end_of := end_of g - pages_bytes num_pages\<rparr>)])"

definition in_segment :: "vm_segmentation \<Rightarrow> addr32 \<Rightarrow> bool" where
  "in_segment g address =
     (if grows_down g then end_of g \<le> address \<and> address \<le> start g
      else start g \<le> address \<and> address \<le> end_of g)"

text \<open>The loop over the array: the first segment that holds the address.\<close>

fun find_segment :: "vm_segmentations \<Rightarrow> addr32 \<Rightarrow> vm_segmentation option" where
  "find_segment [] address = None"
| "find_segment (g # gs) address = (if in_segment g address then Some g else find_segment gs address)"

definition address_in_segmentations :: "vm_segmentations \<Rightarrow> addr32 \<Rightarrow> bool" where
  "address_in_segmentations segs address = (find_segment segs address \<noteq> None)"

section \<open>Lemmas\<close>

lemma find_segment_some:
  "find_segment segs a = Some g \<Longrightarrow> g \<in> set segs \<and> in_segment g a"
  by (induction segs) (auto split: if_splits)

lemma find_segment_none: "find_segment segs a = None \<longleftrightarrow> (\<forall>g \<in> set segs. \<not> in_segment g a)"
  by (induction segs) auto

lemma segment_index_less: "segment_index s < NUM_SEGMENTS"
  by (cases s) (simp_all add: NUM_SEGMENTS_def)

lemma shrink_grow_segment:
  "length segs = NUM_SEGMENTS \<Longrightarrow> shrink_segment (grow_segment segs s n) s n = segs"
  using segment_index_less [of s]
  by (auto simp: shrink_segment_def grow_segment_def Let_def)

end
