(* ===== verification/Tlb.thy ===== *)
theory Tlb
  imports Segments
begin

text \<open>
  The translation lookaside buffer of \<open>ideal_indirection/tlb.c\<close>: a linked list of pairs of a
  virtual page and the address of its page table entry, most recently used first. A fresh
  buffer is one zeroed node, which stands at the end of the list until it is evicted.
\<close>

type_synonym tlb = "(addr32 \<times> nat option) list"

definition MAX_NODES :: nat where "MAX_NODES = 16"

section \<open>Operations\<close>

definition tlb_create :: tlb where
  "tlb_create = [(0, None)]"

text \<open>The walk with the slow and the fast pointer: the nodes before the match and the match.\<close>

fun tlb_find :: "tlb \<Rightarrow> tlb \<Rightarrow> addr32 \<Rightarrow> (tlb \<times> (addr32 \<times> nat option) \<times> tlb) option" where
  "tlb_find pre [] b = None"
| "tlb_find pre (fast # rest) b =
     (if fst fast = b then Some (pre, fast, rest) else tlb_find (pre @ [fast]) rest b)"

fun tlb_get_pte :: "tlb \<Rightarrow> addr32 \<Rightarrow> (tlb \<times> nat option) result" where
  "tlb_get_pte [] b = Inl NullDeref"
| "tlb_get_pte (n # ns) b =
     (if fst n = b then Inr (n # ns, snd n)
      else case tlb_find [n] ns b of
        None \<Rightarrow> Inr (n # ns, None)
      | Some (pre, fast, rest) \<Rightarrow> Inr (fast # pre @ rest, snd fast))"

text \<open>
  \<open>num_nodes\<close> starts at two and counts the moves of \<open>fast\<close>; at capacity the last node is
  freed. The list always has two nodes when it is at capacity.
\<close>

fun tlb_count :: "tlb \<Rightarrow> nat" where
  "tlb_count (a # b # c # ns) = Suc (tlb_count (b # c # ns))"
| "tlb_count ns = 2"

definition tlb_add_pte :: "tlb \<Rightarrow> addr32 \<Rightarrow> nat option \<Rightarrow> tlb result" where
  "tlb_add_pte t b e =
     (if t = [] then Inl NullDeref
      else Inr ((b, e) # (if tlb_count t \<ge> MAX_NODES then butlast t else t)))"

definition tlb_delete :: "tlb \<Rightarrow> tlb" where
  "tlb_delete t = []"

definition tlb_flush :: "tlb \<Rightarrow> tlb" where
  "tlb_flush t = tlb_create"

section \<open>Lemmas\<close>

text \<open>The entry a lookup finds: the first node for the page.\<close>

fun tlb_lookup :: "tlb \<Rightarrow> addr32 \<Rightarrow> nat option" where
  "tlb_lookup [] b = None"
| "tlb_lookup (n # ns) b = (if fst n = b then snd n else tlb_lookup ns b)"

lemma tlb_find_spec:
  "tlb_find pre ns b = (case dropWhile (\<lambda>n. fst n \<noteq> b) ns of
     [] \<Rightarrow> None | f # rest \<Rightarrow> Some (pre @ takeWhile (\<lambda>n. fst n \<noteq> b) ns, f, rest))"
  by (induction ns arbitrary: pre) (auto split: list.splits simp del: dropWhile_eq_Nil_conv)

lemma tlb_lookup_dropWhile:
  "tlb_lookup ns b = (case dropWhile (\<lambda>n. fst n \<noteq> b) ns of [] \<Rightarrow> None | f # rest \<Rightarrow> snd f)"
  by (induction ns) auto

lemma tlb_lookup_append:
  "tlb_lookup (xs @ ys) b = (if b \<in> fst ` set xs then tlb_lookup xs b else tlb_lookup ys b)"
  by (induction xs) auto

lemma dropWhile_split:
  "dropWhile P xs = y # ys \<Longrightarrow> xs = takeWhile P xs @ y # ys \<and> \<not> P y"
  by (metis hd_dropWhile list.distinct(1) list.sel(1) takeWhile_dropWhile_id)

text \<open>
  A lookup answers with the first node for the page, moves that node to the front and changes
  no answer of a later lookup.
\<close>

lemma tlb_get_pte_spec:
  assumes "t \<noteq> []"
  shows "\<exists>t'. tlb_get_pte t b = Inr (t', tlb_lookup t b) \<and> mset t' = mset t \<and>
    (b \<in> fst ` set t \<longrightarrow> fst (hd t') = b) \<and> (\<forall>c. tlb_lookup t' c = tlb_lookup t c)"
proof -
  obtain n ns where t: "t = n # ns" using assms by (cases t) auto
  show ?thesis
  proof (cases "fst n = b")
    case True
    then show ?thesis by (simp add: t)
  next
    case ne: False
    show ?thesis
    proof (cases "dropWhile (\<lambda>n. fst n \<noteq> b) ns")
      case Nil
      then have "b \<notin> fst ` set ns" by (auto simp: dropWhile_eq_Nil_conv)
      moreover have "tlb_get_pte t b = Inr (t, tlb_lookup t b)"
        using Nil ne by (simp add: t tlb_find_spec tlb_lookup_dropWhile del: dropWhile_eq_Nil_conv)
      ultimately show ?thesis using ne by (auto simp: t)
    next
      case (Cons f rest)
      let ?pre = "takeWhile (\<lambda>n. fst n \<noteq> b) ns"
      have ns: "ns = ?pre @ f # rest" and f: "fst f = b" using dropWhile_split [OF Cons] by auto
      have pre: "b \<notin> fst ` set ?pre" by (auto dest: set_takeWhileD)
      have look: "tlb_lookup (f # n # ?pre @ rest) c = tlb_lookup t c" for c
      proof -
        have "tlb_lookup t c = tlb_lookup ((n # ?pre) @ f # rest) c" using ns t by simp
        then show ?thesis using f pre ne by (auto simp: tlb_lookup_append)
      qed
      have "tlb_get_pte t b = Inr (f # n # ?pre @ rest, snd f)"
        using ne Cons by (simp add: t tlb_find_spec)
      moreover have "tlb_lookup t b = snd f"
        using look [of b] f by simp
      moreover have "mset (f # n # ?pre @ rest) = mset t"
      proof -
        have "mset ns = mset (?pre @ f # rest)" using ns by simp
        then show ?thesis by (simp add: t)
      qed
      ultimately show ?thesis using f look by (intro exI [of _ "f # n # ?pre @ rest"]) auto
    qed
  qed
qed

lemma tlb_count_length: "tlb_count t = max 2 (length t)"
  by (induction t rule: tlb_count.induct) auto

lemma tlb_add_pte_spec:
  assumes "t \<noteq> []" and "length t \<le> MAX_NODES"
  shows "\<exists>t'. tlb_add_pte t b e = Inr t' \<and> length t' \<le> MAX_NODES \<and> tlb_lookup t' b = e \<and>
    set t' \<subseteq> insert (b, e) (set t) \<and> t' \<noteq> []"
  using assms by (auto simp: tlb_add_pte_def tlb_count_length MAX_NODES_def dest: in_set_butlastD)

text \<open>C29: The buffer is a least recently used cache: a lookup succeeds whenever the buffer
  exists, answers with the newest entry for the page, moves it to the front and keeps every
  other answer; an insertion puts the new entry in front, answers it, and drops the last node,
  the one used longest ago, exactly when the buffer is full.\<close>

theorem tlb_is_lru:
  assumes "t \<noteq> []" and "length t \<le> MAX_NODES"
  shows "(\<exists>t'. tlb_get_pte t b = Inr (t', tlb_lookup t b) \<and> mset t' = mset t \<and>
      (b \<in> fst ` set t \<longrightarrow> fst (hd t') = b) \<and> (\<forall>c. tlb_lookup t' c = tlb_lookup t c)) \<and>
    tlb_add_pte t b e = Inr ((b, e) # (if length t = MAX_NODES then butlast t else t)) \<and>
    tlb_get_pte ((b, e) # (if length t = MAX_NODES then butlast t else t)) b =
      Inr ((b, e) # (if length t = MAX_NODES then butlast t else t), e)"
  using tlb_get_pte_spec [OF assms(1), of b] assms
  by (auto simp: tlb_add_pte_def tlb_count_length MAX_NODES_def)

theorem tlb_is_lru_witness:
  "tlb_get_pte [(1, Some 4), (2, Some 8), (0, None)] 2 = Inr ([(2, Some 8), (1, Some 4), (0, None)], Some 8) \<and>
   tlb_add_pte (replicate 16 (7, Some 4)) 9 (Some 12) =
     Inr ((9, Some 12) # replicate 15 (7, Some 4))"
  using tlb_is_lru [of "[(1, Some 4), (2, Some 8), (0, None)]" 2 "Some 1"]
    tlb_is_lru [of "replicate 16 (7, Some 4)" 9 "Some 12"]
  by (simp add: MAX_NODES_def butlast_conv_take)

end
