(* ===== verification/Kernel.thy ===== *)
theory Kernel
  imports Tlb
begin

text \<open>
  The simulated kernel of \<open>ideal_indirection/kernel.c\<close> and the entries of \<open>page_table.h\<close>. A
  system pointer into \<open>physical_memory\<close> is its offset, and \<open>pm\<close> is the address of
  \<open>physical_memory\<close> cut to 32 bits, a multiple of the page size that the linker chooses; a
  simulated physical address is \<open>pm\<close> plus the offset. The swap directory is a map from the
  printed entry pointer and the text that follows it in the file name to the file's content;
  the disk does not run full.
\<close>

section \<open>Page directory and page table entries\<close>

text \<open>Bit fields of a 32-bit word, first field in the lowest bits.\<close>

definition base_addr :: "addr32 \<Rightarrow> addr32" where
  "base_addr w = take_bit 20 w"

definition set_base_addr :: "addr32 \<Rightarrow> addr32 \<Rightarrow> addr32" where
  "set_base_addr b w = push_bit 20 (drop_bit 20 w) OR take_bit 20 b"

definition DIRTY :: nat where "DIRTY = 25"
definition ACCESSED :: nat where "ACCESSED = 26"
definition USER_SUPERVISOR :: nat where "USER_SUPERVISOR = 29"
definition READ_WRITE :: nat where "READ_WRITE = 30"
definition PRESENT :: nat where "PRESENT = 31"

definition entry_present :: "addr32 \<Rightarrow> bool" where
  "entry_present w = bit w PRESENT"

definition NUM_OFFSET_BITS :: nat where "NUM_OFFSET_BITS = 12"
definition NUM_ENTRIES :: nat where "NUM_ENTRIES = 1024"
definition NUM_PHYSICAL_PAGES :: nat where "NUM_PHYSICAL_PAGES = 250"
definition PHYSICAL_MEMORY_SIZE :: nat where
  "PHYSICAL_MEMORY_SIZE = PAGE_SIZE * NUM_PHYSICAL_PAGES"

section \<open>State\<close>

text \<open>An element of \<open>entry_mapping\<close>: NULL, the marker 42 or the pointer to an entry.\<close>

datatype owner = Free | RESERVED | Owner nat

record kernel =
  physical_memory :: memory
  entry_mapping :: "owner list"
  swap_files :: "(nat \<times> string) \<rightharpoonup> byte list"

definition kernel_start :: kernel where
  "kernel_start = \<lparr>physical_memory = (\<lambda>_. 0), entry_mapping = replicate NUM_PHYSICAL_PAGES Free,
     swap_files = Map.empty\<rparr>"

definition deref_entry :: "kernel \<Rightarrow> nat \<Rightarrow> addr32 result" where
  "deref_entry k p =
     (if p + 4 \<le> PHYSICAL_MEMORY_SIZE then Inr (load32 (physical_memory k) p) else Inl OutOfBounds)"

definition update_entry :: "nat \<Rightarrow> (addr32 \<Rightarrow> addr32) \<Rightarrow> kernel \<Rightarrow> kernel result" where
  "update_entry p f k = rbind (deref_entry k p)
     (\<lambda>w. Inr (k\<lparr>physical_memory := store32 (physical_memory k) p (f w)\<rparr>))"

section \<open>Pointers\<close>

definition get_system_pointer_from_address :: "addr32 \<Rightarrow> addr32 \<Rightarrow> nat" where
  "get_system_pointer_from_address pm address = unat (address - pm)"

text \<open>The pointer a page table entry or a page directory entry with the given bits holds.\<close>

definition entry_pointer :: "addr32 \<Rightarrow> addr32 \<Rightarrow> nat" where
  "entry_pointer pm w =
     get_system_pointer_from_address pm (push_bit NUM_OFFSET_BITS (base_addr w))"

definition get_system_pointer_from_pte :: "addr32 \<Rightarrow> nat \<Rightarrow> kernel \<Rightarrow> nat result" where
  "get_system_pointer_from_pte pm pte k =
     rbind (deref_entry k pte) (\<lambda>w. Inr (entry_pointer pm w))"

definition get_system_pointer_from_pde :: "addr32 \<Rightarrow> nat \<Rightarrow> kernel \<Rightarrow> nat result" where
  "get_system_pointer_from_pde pm pde k =
     rbind (deref_entry k pde) (\<lambda>w. Inr (entry_pointer pm w))"

section \<open>Swapping\<close>

definition bin_suffix :: string where "bin_suffix = ''.bin''"

definition write_page_to_disk :: "addr32 \<Rightarrow> nat \<Rightarrow> kernel \<Rightarrow> kernel result" where
  "write_page_to_disk pm e k =
     rbind (get_system_pointer_from_pte pm e k) (\<lambda>frame.
       if frame + PAGE_SIZE \<le> PHYSICAL_MEMORY_SIZE
       then Inr (k\<lparr>swap_files := (swap_files k)((e, bin_suffix) \<mapsto>
         load_bytes (physical_memory k) frame PAGE_SIZE)\<rparr>)
       else Inl OutOfBounds)"

definition read_page_from_disk :: "addr32 \<Rightarrow> nat \<Rightarrow> kernel \<Rightarrow> kernel result" where
  "read_page_from_disk pm e k =
     rbind (get_system_pointer_from_pte pm e k) (\<lambda>frame.
       case swap_files k (e, bin_suffix) of
         None \<Rightarrow> Inr k
       | Some bs \<Rightarrow>
           if frame + length (take PAGE_SIZE bs) \<le> PHYSICAL_MEMORY_SIZE
           then Inr (k\<lparr>physical_memory := store_bytes (physical_memory k) frame (take PAGE_SIZE bs)\<rparr>)
           else Inl OutOfBounds)"

text \<open>The name that is removed has no \<open>.bin\<close> at its end.\<close>

definition remove_swap_file :: "nat \<Rightarrow> kernel \<Rightarrow> kernel" where
  "remove_swap_file e k = k\<lparr>swap_files := (swap_files k)((e, '''') := None)\<rparr>"

definition remove_swap_files :: "kernel \<Rightarrow> kernel" where
  "remove_swap_files k = k\<lparr>swap_files := Map.empty\<rparr>"

section \<open>Frames\<close>

text \<open>The loops that look for an index with a property.\<close>

fun first_index :: "('a \<Rightarrow> bool) \<Rightarrow> 'a list \<Rightarrow> nat option" where
  "first_index P [] = None"
| "first_index P (x # xs) = (if P x then Some 0 else map_option Suc (first_index P xs))"

definition owner_of :: "nat option \<Rightarrow> owner" where
  "owner_of e = (case e of None \<Rightarrow> RESERVED | Some p \<Rightarrow> Owner p)"

text \<open>Is \<open>entry_mapping[i]\<close> different from the pointer \<open>entry\<close>?\<close>

definition other_entry :: "nat option \<Rightarrow> owner \<Rightarrow> bool" where
  "other_entry e x = (case e of None \<Rightarrow> x \<noteq> Free | Some p \<Rightarrow> x \<noteq> Owner p)"

definition take_frame :: "addr32 \<Rightarrow> nat option \<Rightarrow> nat \<Rightarrow> kernel \<Rightarrow> kernel \<times> addr32" where
  "take_frame pm e i k =
     (k\<lparr>entry_mapping := (entry_mapping k)[i := owner_of e],
        physical_memory := store_bytes (physical_memory k) (PAGE_SIZE * i) (replicate PAGE_SIZE 0)\<rparr>,
      pm + word_of_nat (PAGE_SIZE * i))"

definition evict_frame :: "addr32 \<Rightarrow> nat \<Rightarrow> kernel \<Rightarrow> kernel result" where
  "evict_frame pm i k =
     (case entry_mapping k ! i of
        Owner evictee \<Rightarrow>
          rbind (write_page_to_disk pm evictee k) (\<lambda>k.
          rbind (update_entry evictee (\<lambda>w. set_base_addr 0 (unset_bit PRESENT w)) k) (\<lambda>k.
          Inr (k\<lparr>entry_mapping := (entry_mapping k)[i := Free]\<rparr>)))
      | _ \<Rightarrow> Inl NullDeref)"

lemma first_index_some:
  "first_index P xs = Some i \<Longrightarrow> i < length xs \<and> P (xs ! i) \<and> (\<forall>j < i. \<not> P (xs ! j))"
  by (induction xs arbitrary: i) (auto split: if_splits simp: nth_Cons split: nat.splits)

lemma first_index_none: "first_index P xs = None \<longleftrightarrow> (\<forall>x \<in> set xs. \<not> P x)"
  by (induction xs) auto

lemma evict_frame_map:
  assumes "evict_frame pm i k = Inr k'"
  shows "entry_mapping k' = (entry_mapping k)[i := Free]"
  using assms
  by (auto simp: evict_frame_def write_page_to_disk_def update_entry_def rbind_eq_Inr
      split: owner.splits if_splits)

function ask_kernel_for_frame ::
  "addr32 \<Rightarrow> nat option \<Rightarrow> kernel \<Rightarrow> (kernel \<times> addr32) result" where
  "ask_kernel_for_frame pm e k =
     (case first_index (\<lambda>x. x = Free) (entry_mapping k) of
        Some i \<Rightarrow> Inr (take_frame pm e i k)
      | None \<Rightarrow>
          (case first_index (\<lambda>x. x \<noteq> RESERVED \<and> other_entry e x) (entry_mapping k) of
             Some i \<Rightarrow>
               (case evict_frame pm i k of
                  Inl err \<Rightarrow> Inl err
                | Inr k' \<Rightarrow> ask_kernel_for_frame pm e k')
           | None \<Rightarrow> Inr (k, 0)))"
  by auto

text \<open>After an eviction a frame is free: the second round does not evict.\<close>

termination ask_kernel_for_frame
proof (relation "measure (\<lambda>(pm, e, k). if Free \<in> set (entry_mapping k) then 0 else 1)")
  fix pm e k i k'
  assume none: "first_index (\<lambda>x. x = Free) (entry_mapping k) = None"
    and some: "first_index (\<lambda>x. x \<noteq> RESERVED \<and> other_entry e x) (entry_mapping k) = Some i"
    and ev: "evict_frame pm i k = Inr k'"
  have "i < length (entry_mapping k)" using first_index_some [OF some] by blast
  then have "Free \<in> set (entry_mapping k')"
    using evict_frame_map [OF ev] by (simp add: set_update_memI)
  moreover have "Free \<notin> set (entry_mapping k)" using none by (auto simp: first_index_none)
  ultimately show "((pm, e, k'), (pm, e, k)) \<in>
      measure (\<lambda>(pm, e, k). if Free \<in> set (entry_mapping k) then 0 else 1)" by simp
qed simp

declare ask_kernel_for_frame.simps [simp del]

text \<open>\<open>base_addr\<close> is a system pointer; the assertion reads the address's low 32 bits.\<close>

definition return_frame_to_kernel :: "addr32 \<Rightarrow> nat \<Rightarrow> kernel \<Rightarrow> kernel result" where
  "return_frame_to_kernel pm p k =
     (if unat (pm + word_of_nat p) mod PAGE_SIZE \<noteq> 0 then Inl AssertFail
      else if p div PAGE_SIZE \<ge> NUM_PHYSICAL_PAGES then Inl OutOfBounds
      else Inr (k\<lparr>entry_mapping := (entry_mapping k)[p div PAGE_SIZE := Free]\<rparr>))"

end
