(* ===== verification/Mmu.thy ===== *)
theory Mmu
  imports Kernel
begin

text \<open>
  The memory management unit of \<open>ideal_indirection/mmu.c\<close>: processes with a page directory and
  segments, translation through the buffer and the two levels of tables, page faults, and the
  creation and removal of processes. \<open>pm\<close> is the 32-bit address of \<open>physical_memory\<close>.
\<close>

section \<open>State\<close>

definition MAX_PROCESS_ID :: nat where "MAX_PROCESS_ID = 32768"

record mmu =
  m_kernel :: kernel
  page_directories :: "nat \<Rightarrow> nat option"
  segmentations :: "nat \<Rightarrow> vm_segmentations option"
  m_tlb :: tlb
  num_page_faults :: size_t
  num_segmentation_faults :: size_t
  num_tlb_misses :: size_t
  curr_pid :: nat

definition mmu_create :: "kernel \<Rightarrow> mmu" where
  "mmu_create k = \<lparr>m_kernel = k, page_directories = (\<lambda>_. None), segmentations = (\<lambda>_. None),
     m_tlb = tlb_create, num_page_faults = 0, num_segmentation_faults = 0, num_tlb_misses = 0,
     curr_pid = 0\<rparr>"

definition mmu_tlb_miss :: "mmu \<Rightarrow> mmu" where
  "mmu_tlb_miss m = m\<lparr>num_tlb_misses := num_tlb_misses m + 1\<rparr>"

definition mmu_raise_page_fault :: "mmu \<Rightarrow> mmu" where
  "mmu_raise_page_fault m = m\<lparr>num_page_faults := num_page_faults m + 1\<rparr>"

definition mmu_raise_segmentation_fault :: "mmu \<Rightarrow> mmu" where
  "mmu_raise_segmentation_fault m = m\<lparr>num_segmentation_faults := num_segmentation_faults m + 1\<rparr>"

section \<open>Translation\<close>

definition context_switch :: "nat \<Rightarrow> mmu \<Rightarrow> mmu" where
  "context_switch pid m =
     (if pid \<noteq> curr_pid m then m\<lparr>m_tlb := tlb_flush (m_tlb m), curr_pid := pid\<rparr> else m)"

definition base_virt_addr :: "addr32 \<Rightarrow> addr32" where
  "base_virt_addr va = va AND 0xFFFFF000"

definition pd_idx :: "addr32 \<Rightarrow> nat" where
  "pd_idx va = unat (drop_bit 22 va)"

definition pte_idx :: "addr32 \<Rightarrow> nat" where
  "pte_idx va = unat (drop_bit NUM_OFFSET_BITS (va AND 0x003FF000))"

definition page_offset :: "addr32 \<Rightarrow> nat" where
  "page_offset va = unat (va AND 0xFFF)"

text \<open>
  \<open>e->base_addr = ask_kernel_for_frame(owner) >> NUM_OFFSET_BITS\<close> and the three flags.
\<close>

definition map_entry :: "addr32 \<Rightarrow> addr32 \<Rightarrow> addr32" where
  "map_entry frame w = set_bit USER_SUPERVISOR (set_bit READ_WRITE (set_bit PRESENT
     (set_base_addr (drop_bit NUM_OFFSET_BITS frame) w)))"

definition install_frame :: "addr32 \<Rightarrow> nat \<Rightarrow> nat option \<Rightarrow> kernel \<Rightarrow> kernel result" where
  "install_frame pm p e k =
     rbind (ask_kernel_for_frame pm e k) (\<lambda>(k, frame). update_entry p (map_entry frame) k)"

text \<open>The page directory entry, given a page table if it has none.\<close>

definition ensure_table :: "addr32 \<Rightarrow> nat \<Rightarrow> mmu \<Rightarrow> mmu result" where
  "ensure_table pm pde m =
     rbind (deref_entry (m_kernel m) pde) (\<lambda>w.
       if entry_present w then Inr m
       else rbind (install_frame pm pde None (m_kernel m)) (\<lambda>k.
            Inr ((mmu_raise_page_fault m)\<lparr>m_kernel := k\<rparr>)))"

definition walk_tables :: "addr32 \<Rightarrow> nat \<Rightarrow> addr32 \<Rightarrow> mmu \<Rightarrow> (mmu \<times> nat) result" where
  "walk_tables pm pid va m =
     (case page_directories m pid of
        None \<Rightarrow> Inl NullDeref
      | Some page_dir \<Rightarrow>
          let pde = page_dir + 4 * pd_idx va in
          rbind (ensure_table pm pde m) (\<lambda>m.
          rbind (get_system_pointer_from_pde pm pde (m_kernel m)) (\<lambda>page_tab.
          let pte = page_tab + 4 * pte_idx va in
          rbind (tlb_add_pte (m_tlb m) (base_virt_addr va) (Some pte)) (\<lambda>t.
          Inr (m\<lparr>m_tlb := t\<rparr>, pte)))))"

definition find_pte :: "addr32 \<Rightarrow> nat \<Rightarrow> addr32 \<Rightarrow> mmu \<Rightarrow> (mmu \<times> nat) result" where
  "find_pte pm pid va m =
     rbind (tlb_get_pte (m_tlb m) (base_virt_addr va)) (\<lambda>(t, e).
       case e of
         Some pte \<Rightarrow> Inr (m\<lparr>m_tlb := t\<rparr>, pte)
       | None \<Rightarrow> walk_tables pm pid va (mmu_tlb_miss (m\<lparr>m_tlb := t\<rparr>)))"

definition page_in :: "addr32 \<Rightarrow> nat \<Rightarrow> mmu \<Rightarrow> mmu result" where
  "page_in pm pte m =
     rbind (deref_entry (m_kernel m) pte) (\<lambda>w.
       if entry_present w then Inr m
       else rbind (install_frame pm pte (Some pte) (m_kernel m)) (\<lambda>k.
            rbind (read_page_from_disk pm pte k) (\<lambda>k.
            Inr ((mmu_raise_page_fault m)\<lparr>m_kernel := k\<rparr>))))"

text \<open>
  What reading and writing have in common: everything before the \<open>memcpy\<close>. The answer is the
  entry and the system pointer of the address, or nothing after a segmentation fault.
\<close>

definition mmu_access ::
  "addr32 \<Rightarrow> addr32 \<Rightarrow> addr32 \<Rightarrow> nat \<Rightarrow> size_t \<Rightarrow> mmu \<Rightarrow> (mmu \<times> (nat \<times> nat) option) result" where
  "mmu_access pm permission va pid num_bytes m =
     (if \<not> pid < MAX_PROCESS_ID then Inl AssertFail
      else if \<not> num_bytes + ucast (va mod word_of_nat PAGE_SIZE) \<le> word_of_nat PAGE_SIZE
        then Inl AssertFail
      else let m = context_switch pid m in
        case segmentations m pid of
          None \<Rightarrow> Inl NullDeref
        | Some segs \<Rightarrow>
            if \<not> address_in_segmentations segs va then Inr (mmu_raise_segmentation_fault m, None)
            else
              rbind (find_pte pm pid va m) (\<lambda>(m, pte).
              rbind (page_in pm pte m) (\<lambda>m.
              case find_segment segs va of
                None \<Rightarrow> Inl NullDeref
              | Some seg \<Rightarrow>
                  if permissions seg AND permission = 0
                  then Inr (mmu_raise_segmentation_fault m, None)
                  else rbind (get_system_pointer_from_pte pm pte (m_kernel m)) (\<lambda>p.
                    Inr (m, Some (pte, p + page_offset va))))))"

definition mmu_read_from_virtual_address ::
  "addr32 \<Rightarrow> addr32 \<Rightarrow> nat \<Rightarrow> size_t \<Rightarrow> mmu \<Rightarrow> (mmu \<times> byte list option) result" where
  "mmu_read_from_virtual_address pm va pid num_bytes m =
     rbind (mmu_access pm READ va pid num_bytes m) (\<lambda>(m, a).
       case a of
         None \<Rightarrow> Inr (m, None)
       | Some (pte, p) \<Rightarrow>
           if p + unat num_bytes \<le> PHYSICAL_MEMORY_SIZE then
             rbind (update_entry pte (set_bit ACCESSED) (m_kernel m)) (\<lambda>k.
               Inr (m\<lparr>m_kernel := k\<rparr>,
                 Some (load_bytes (physical_memory (m_kernel m)) p (unat num_bytes))))
           else Inl OutOfBounds)"

text \<open>\<open>buffer\<close> holds the \<open>num_bytes\<close> bytes to write; the flag says whether they were written.\<close>

definition mmu_write_to_virtual_address ::
  "addr32 \<Rightarrow> addr32 \<Rightarrow> nat \<Rightarrow> byte list \<Rightarrow> mmu \<Rightarrow> (mmu \<times> bool) result" where
  "mmu_write_to_virtual_address pm va pid buffer m =
     rbind (mmu_access pm WRITE va pid (word_of_nat (length buffer)) m) (\<lambda>(m, a).
       case a of
         None \<Rightarrow> Inr (m, False)
       | Some (pte, p) \<Rightarrow>
           if p + length buffer \<le> PHYSICAL_MEMORY_SIZE then
             rbind (update_entry pte (\<lambda>w. set_bit DIRTY (set_bit ACCESSED w))
                 ((m_kernel m)\<lparr>physical_memory := store_bytes (physical_memory (m_kernel m)) p buffer\<rparr>))
               (\<lambda>k. Inr (m\<lparr>m_kernel := k\<rparr>, True))
           else Inl OutOfBounds)"

section \<open>Processes\<close>

definition initial_segments :: vm_segmentations where
  "initial_segments =
     [\<lparr>start = 0xBFFFE000, end_of = 0xC07FE000, permissions = READ OR WRITE, grows_down = True\<rparr>,
      \<lparr>start = 0xC07FE000, end_of = 0xC07FE000, permissions = READ OR EXEC OR WRITE, grows_down = True\<rparr>,
      \<lparr>start = 0x08072000, end_of = 0x08072000, permissions = READ OR WRITE, grows_down = False\<rparr>,
      \<lparr>start = 0x0805A000, end_of = 0x08072000, permissions = READ OR WRITE, grows_down = False\<rparr>,
      \<lparr>start = 0x08052000, end_of = 0x0805A000, permissions = READ OR WRITE, grows_down = False\<rparr>,
      \<lparr>start = 0x08048000, end_of = 0x08052000, permissions = READ OR EXEC, grows_down = False\<rparr>,
      \<lparr>start = word_of_nat PAGE_SIZE, end_of = word_of_nat (3 * PAGE_SIZE),
       permissions = READ OR WRITE, grows_down = False\<rparr>]"

text \<open>One round of the loop that maps the testing pages.\<close>

definition map_testing_page :: "addr32 \<Rightarrow> nat \<Rightarrow> nat \<Rightarrow> kernel \<Rightarrow> kernel result" where
  "map_testing_page pm pde i k =
     rbind (get_system_pointer_from_pde pm pde k) (\<lambda>pt.
       install_frame pm (pt + 4 * i) (Some (pt + 4 * i)) k)"

definition mmu_add_process :: "addr32 \<Rightarrow> nat \<Rightarrow> mmu \<Rightarrow> mmu result" where
  "mmu_add_process pm pid m =
     (if \<not> pid < MAX_PROCESS_ID then Inl AssertFail
      else
        rbind (ask_kernel_for_frame pm None (m_kernel m)) (\<lambda>(k, page_directory_address).
        let pd = get_system_pointer_from_address pm page_directory_address;
            m = m\<lparr>page_directories := (page_directories m)(pid \<mapsto> pd),
                  segmentations := (segmentations m)(pid \<mapsto> initial_segments)\<rparr> in
        rbind (install_frame pm pd None k) (\<lambda>k.
        rbind (rfold (map_testing_page pm pd) [1..<3] k) (\<lambda>k.
        Inr (m\<lparr>m_kernel := k\<rparr>)))))"

text \<open>The two nested loops of \<open>mmu_remove_process\<close>, over the page tables and their entries.\<close>

definition remove_page :: "addr32 \<Rightarrow> nat \<Rightarrow> nat \<Rightarrow> kernel \<Rightarrow> kernel result" where
  "remove_page pm pt vpn2 k =
     (let pte = pt + 4 * vpn2 in
      rbind (deref_entry k pte) (\<lambda>w.
      rbind (if entry_present w
             then rbind (get_system_pointer_from_pte pm pte k) (\<lambda>frame. return_frame_to_kernel pm frame k)
             else Inr k) (\<lambda>k.
      Inr (remove_swap_file pte k))))"

definition remove_table :: "addr32 \<Rightarrow> nat \<Rightarrow> nat \<Rightarrow> kernel \<Rightarrow> kernel result" where
  "remove_table pm pd vpn1 k =
     (let pde = pd + 4 * vpn1 in
      rbind (deref_entry k pde) (\<lambda>w.
      if \<not> entry_present w then Inr k
      else rbind (get_system_pointer_from_pde pm pde k) (\<lambda>pt.
           rbind (rfold (remove_page pm pt) [0..<NUM_ENTRIES] k) (return_frame_to_kernel pm pt))))"

definition mmu_remove_process :: "addr32 \<Rightarrow> nat \<Rightarrow> mmu \<Rightarrow> mmu result" where
  "mmu_remove_process pm pid m =
     (if \<not> pid < MAX_PROCESS_ID then Inl AssertFail
      else
        rbind (case page_directories m pid of
            None \<Rightarrow> Inr (m_kernel m)
          | Some pd \<Rightarrow> rbind (rfold (remove_table pm pd) [0..<NUM_ENTRIES] (m_kernel m))
              (return_frame_to_kernel pm pd)) (\<lambda>k.
        let m = m\<lparr>m_kernel := k, page_directories := (page_directories m)(pid := None),
                  segmentations := (segmentations m)(pid := None)\<rparr> in
        Inr (if curr_pid m = pid then m\<lparr>m_tlb := tlb_flush (m_tlb m)\<rparr> else m)))"

definition mmu_delete :: "addr32 \<Rightarrow> mmu \<Rightarrow> kernel result" where
  "mmu_delete pm m =
     rbind (rfold (mmu_remove_process pm) [0..<MAX_PROCESS_ID] m)
       (\<lambda>m. Inr (remove_swap_files (m_kernel m)))"

end
