(* ===== verification/PageTables.thy ===== *)
theory PageTables
  imports Mmu
begin

text \<open>
  The invariant of the paging structures: directories and tables in reserved frames of their own,
  present entries and owned frames in one-to-one correspondence. Handing out, evicting and
  swapping frames keeps it, and keeps the contents of every page.
\<close>

section \<open>Address arithmetic\<close>

definition page_aligned :: "addr32 \<Rightarrow> bool" where
  "page_aligned pm = (take_bit NUM_OFFSET_BITS pm = 0)"

named_theorems page_simps \<open>sizes as numerals\<close>

lemmas size_defs [page_simps] = PAGE_SIZE_def NUM_OFFSET_BITS_def NUM_ENTRIES_def
  NUM_PHYSICAL_PAGES_def PHYSICAL_MEMORY_SIZE_def

lemmas flag_defs = PRESENT_def READ_WRITE_def USER_SUPERVISOR_def ACCESSED_def DIRTY_def

lemma page_offset_unat: "page_offset va = unat va mod 4096"
proof -
  have "va AND 0xFFF = take_bit 12 va"
    by (simp add: take_bit_eq_mask mask_eq_exp_minus_1)
  then show ?thesis by (simp add: page_offset_def take_bit_eq_mod unat_mod)
qed

lemma pd_idx_unat: "pd_idx va = unat va div 2 ^ 22"
  by (simp add: pd_idx_def drop_bit_eq_div unat_div)

lemma pte_idx_unat: "pte_idx va = unat va div 4096 mod 1024"
proof -
  have m: "(0x003FF000 :: addr32) = push_bit 12 (mask 10)"
    by (simp add: mask_eq_exp_minus_1 push_bit_eq_mult)
  have "drop_bit 12 (va AND 0x003FF000) = take_bit 10 (drop_bit 12 va)"
    unfolding m by (rule bit_word_eqI) (auto simp: bit_simps)
  then show ?thesis
    by (simp add: pte_idx_def NUM_OFFSET_BITS_def take_bit_eq_mod drop_bit_eq_div unat_div unat_mod)
qed

lemma page_start_unat: "push_bit 12 (drop_bit 12 va) = (word_of_nat (unat va div 4096 * 4096) :: addr32)"
proof -
  have "unat (drop_bit 12 va) = unat va div 4096" by (simp add: drop_bit_eq_div unat_div)
  moreover have "drop_bit 12 va = word_of_nat (unat (drop_bit 12 va))" by (simp del: unat_div)
  ultimately have "drop_bit 12 va = word_of_nat (unat va div 4096)" by metis
  then show ?thesis by (simp only: push_bit_eq_mult of_nat_mult) simp
qed

lemma base_virt_addr_unat: "unat (base_virt_addr va) = unat va div 4096 * 4096"
proof -
  have m: "(0xFFFFF000 :: addr32) = NOT (mask 12)" by (simp add: mask_eq_exp_minus_1)
  have "base_virt_addr va = push_bit 12 (drop_bit 12 va)"
    unfolding base_virt_addr_def m by (rule bit_word_eqI) (auto simp: bit_simps)
  moreover have "unat va div 4096 * 4096 < 2 ^ 32"
    using unsigned_less [of va, where ?'a = nat] by (auto intro: le_less_trans)
  ultimately show ?thesis
    unfolding page_start_unat by (simp only: unat_of_nat len_num1 len_bit0) simp
qed

lemma unat_add_nat: "unat va + j < 2 ^ 32 \<Longrightarrow> unat (va + word_of_nat j :: addr32) = unat va + j"
proof -
  assume less: "unat va + j < 2 ^ 32"
  have "va + word_of_nat j = word_of_nat (unat va + j)" by simp
  then show ?thesis using less by (simp only: unat_of_nat len_num1 len_bit0) simp
qed

lemma page_aligned_add: "page_aligned pm \<Longrightarrow> take_bit 12 (pm + push_bit 12 x) = 0"
proof -
  assume "page_aligned pm"
  then have "pm = push_bit 12 (drop_bit 12 pm)"
    using bits_ident [of 12 pm] by (simp add: page_aligned_def NUM_OFFSET_BITS_def)
  then have "pm + push_bit 12 x = push_bit 12 (drop_bit 12 pm + x)" by (metis push_bit_add)
  then show ?thesis by (simp only: take_bit_push_bit) simp
qed

lemma pd_idx_less: "pd_idx va < 1024"
  unfolding pd_idx_unat using unsigned_less [of va, where ?'a = nat] by (simp add: less_mult_imp_div_less)

lemma pte_idx_less: "pte_idx va < 1024"
  by (simp add: pte_idx_unat)

lemma page_offset_less: "page_offset va < 4096"
  by (simp add: page_offset_unat)

lemma idx_base [simp]: "pd_idx (base_virt_addr va) = pd_idx va" "pte_idx (base_virt_addr va) = pte_idx va"
  by (simp_all add: pd_idx_unat pte_idx_unat base_virt_addr_unat)

lemma same_page:
  assumes "page_offset va + j < 4096"
  shows "pd_idx (va + word_of_nat j) = pd_idx va" "pte_idx (va + word_of_nat j) = pte_idx va"
    "page_offset (va + word_of_nat j) = page_offset va + j"
proof -
  have j: "unat va mod 4096 + j < 4096" using assms by (simp add: page_offset_unat)
  have "unat va < 2 ^ 32" using unsigned_less [of va, where ?'a = nat] by simp
  then have "unat va div 4096 < 1048576" by (simp add: less_mult_imp_div_less)
  moreover have "unat va = unat va div 4096 * 4096 + unat va mod 4096" by simp
  ultimately have "unat va + j < 4294967296" using j by linarith
  then have "unat va + j < 2 ^ 32" by simp
  then have u: "unat (va + word_of_nat j) = unat va + j" by (rule unat_add_nat)
  have d: "(unat va + j) div 4096 = unat va div 4096" using same_block(1) [OF j] .
  have e: "n div 2 ^ 22 = n div 4096 div 1024" for n :: nat
    by (simp flip: div_mult2_eq)
  show "pd_idx (va + word_of_nat j) = pd_idx va" "pte_idx (va + word_of_nat j) = pte_idx va"
    unfolding pd_idx_unat pte_idx_unat u e d by simp_all
  show "page_offset (va + word_of_nat j) = page_offset va + j"
    unfolding page_offset_unat u using same_block(2) [OF j] .
qed

section \<open>Entries\<close>

lemma entry_present_map [simp]: "entry_present (map_entry frame w)"
  by (simp add: entry_present_def map_entry_def bit_simps flag_defs)

lemma base_addr_map: "base_addr (map_entry frame w) = take_bit 20 (drop_bit 12 frame)"
  unfolding base_addr_def map_entry_def set_base_addr_def NUM_OFFSET_BITS_def
  by (rule bit_word_eqI) (auto simp: bit_simps flag_defs)

lemma entry_pointer_map:
  assumes "page_aligned pm" and "i < NUM_PHYSICAL_PAGES"
  shows "entry_pointer pm (map_entry (pm + word_of_nat (PAGE_SIZE * i)) w) = PAGE_SIZE * i"
proof -
  let ?f = "pm + word_of_nat (4096 * i)"
  have "(word_of_nat (4096 * i) :: addr32) = push_bit 12 (word_of_nat i)"
    by (simp add: push_bit_eq_mult)
  then have al: "take_bit 12 ?f = 0" using page_aligned_add [OF assms(1)] by metis
  have "push_bit 12 (take_bit 20 (drop_bit 12 f)) = f" if "take_bit 12 f = 0" for f :: addr32
  proof (rule bit_word_eqI)
    fix n assume n: "n < LENGTH(32)"
    have "\<not> bit f n" if "n < 12"
      using \<open>take_bit 12 f = 0\<close> that bit_take_bit_iff [of 12 f n] by simp
    with n show "bit (push_bit 12 (take_bit 20 (drop_bit 12 f))) n = bit f n"
      by (cases "n < 12") (auto simp: bit_simps)
  qed
  from this [OF al] have "push_bit 12 (take_bit 20 (drop_bit 12 ?f)) = ?f" .
  moreover have "unat (word_of_nat (4096 * i) :: addr32) = 4096 * i"
    using assms(2) unat_of_nat [of "4096 * i", where ?'a = 32]
    by (simp add: page_simps del: of_nat_mult)
  ultimately show ?thesis
    by (simp add: entry_pointer_def get_system_pointer_from_address_def base_addr_map page_simps
        del: of_nat_mult of_nat_numeral)
qed

text \<open>An update of an entry that touches the flags of accesses only.\<close>

definition keeps_mapping :: "(addr32 \<Rightarrow> addr32) \<Rightarrow> bool" where
  "keeps_mapping f \<longleftrightarrow> (\<forall>w. base_addr (f w) = base_addr w \<and> entry_present (f w) = entry_present w)"

lemma keeps_mapping_accessed: "keeps_mapping (set_bit ACCESSED)"
  and keeps_mapping_dirty: "keeps_mapping (\<lambda>w. set_bit DIRTY (set_bit ACCESSED w))"
  unfolding keeps_mapping_def base_addr_def entry_present_def
  by (auto intro!: bit_word_eqI simp: bit_simps flag_defs)

lemma entry_present_0 [simp]: "\<not> entry_present 0"
  by (simp add: entry_present_def)

lemma entry_present_evicted [simp]: "\<not> entry_present (set_base_addr 0 (unset_bit PRESENT w))"
  by (simp add: entry_present_def set_base_addr_def bit_simps flag_defs)

section \<open>The page tables\<close>

type_synonym dirs = "nat \<Rightarrow> nat option"

abbreviation word_at :: "kernel \<Rightarrow> nat \<Rightarrow> addr32" where
  "word_at k p \<equiv> load32 (physical_memory k) p"

text \<open>Pointer to the page table behind entry \<open>i\<close> of the page directory of \<open>pid\<close>.\<close>

definition table_of :: "addr32 \<Rightarrow> dirs \<Rightarrow> kernel \<Rightarrow> nat \<Rightarrow> nat \<Rightarrow> nat option" where
  "table_of pm dirs k pid i =
     (case dirs pid of
        None \<Rightarrow> None
      | Some d \<Rightarrow> if entry_present (word_at k (d + 4 * i))
                 then Some (entry_pointer pm (word_at k (d + 4 * i))) else None)"

definition is_pte :: "addr32 \<Rightarrow> dirs \<Rightarrow> kernel \<Rightarrow> nat \<Rightarrow> bool" where
  "is_pte pm dirs k p \<longleftrightarrow>
     (\<exists>pid i t j. i < NUM_ENTRIES \<and> j < NUM_ENTRIES \<and> table_of pm dirs k pid i = Some t \<and> p = t + 4 * j)"

definition reserved_frame :: "kernel \<Rightarrow> nat \<Rightarrow> bool" where
  "reserved_frame k p \<longleftrightarrow> (\<exists>f < NUM_PHYSICAL_PAGES. p = PAGE_SIZE * f \<and> entry_mapping k ! f = RESERVED)"

text \<open>A byte of the page behind an entry, in its frame or in its swap file.\<close>

definition page_byte :: "addr32 \<Rightarrow> kernel \<Rightarrow> nat \<Rightarrow> nat \<Rightarrow> byte" where
  "page_byte pm k p off =
     (if entry_present (word_at k p) then physical_memory k (entry_pointer pm (word_at k p) + off)
      else case swap_files k (p, bin_suffix) of Some bs \<Rightarrow> bs ! off | None \<Rightarrow> 0)"

text \<open>
  Directories and tables lie in reserved frames of their own; an entry is present exactly when
  it owns the frame it points to; every owned frame is owned by an entry of a table.
\<close>

definition tables_inv :: "addr32 \<Rightarrow> dirs \<Rightarrow> kernel \<Rightarrow> bool" where
  "tables_inv pm dirs k \<longleftrightarrow>
     (\<forall>pid d. dirs pid = Some d \<longrightarrow> reserved_frame k d) \<and>
     (\<forall>pid pid' d. dirs pid = Some d \<longrightarrow> dirs pid' = Some d \<longrightarrow> pid = pid') \<and>
     (\<forall>pid i t. i < NUM_ENTRIES \<longrightarrow> table_of pm dirs k pid i = Some t \<longrightarrow> reserved_frame k t) \<and>
     (\<forall>pid i pid' i' t. i < NUM_ENTRIES \<longrightarrow> i' < NUM_ENTRIES \<longrightarrow>
        table_of pm dirs k pid i = Some t \<longrightarrow> table_of pm dirs k pid' i' = Some t \<longrightarrow>
        pid = pid' \<and> i = i') \<and>
     (\<forall>pid i pid' t. i < NUM_ENTRIES \<longrightarrow> table_of pm dirs k pid i = Some t \<longrightarrow> dirs pid' \<noteq> Some t)"

definition owners_inv :: "addr32 \<Rightarrow> dirs \<Rightarrow> kernel \<Rightarrow> bool" where
  "owners_inv pm dirs k \<longleftrightarrow>
     (\<forall>p. is_pte pm dirs k p \<longrightarrow> entry_present (word_at k p) \<longrightarrow>
        (\<exists>f < NUM_PHYSICAL_PAGES. entry_pointer pm (word_at k p) = PAGE_SIZE * f \<and>
           entry_mapping k ! f = Owner p)) \<and>
     (\<forall>p f. f < NUM_PHYSICAL_PAGES \<longrightarrow> entry_mapping k ! f = Owner p \<longrightarrow>
        is_pte pm dirs k p \<and> entry_present (word_at k p) \<and>
        entry_pointer pm (word_at k p) = PAGE_SIZE * f)"

definition kernel_inv :: "addr32 \<Rightarrow> dirs \<Rightarrow> kernel \<Rightarrow> bool" where
  "kernel_inv pm dirs k \<longleftrightarrow>
     length (entry_mapping k) = NUM_PHYSICAL_PAGES \<and>
     (\<forall>e bs. swap_files k (e, bin_suffix) = Some bs \<longrightarrow> length bs = PAGE_SIZE) \<and>
     tables_inv pm dirs k \<and> owners_inv pm dirs k"

text \<open>
  \<open>same_view\<close>: the later kernel has the same tables, the same page contents and the same
  reserved frames, and no page was brought in behind the back of the caller.
\<close>

definition same_view :: "addr32 \<Rightarrow> dirs \<Rightarrow> kernel \<Rightarrow> kernel \<Rightarrow> bool" where
  "same_view pm dirs k k' \<longleftrightarrow>
     (\<forall>pid i. i < NUM_ENTRIES \<longrightarrow> table_of pm dirs k' pid i = table_of pm dirs k pid i) \<and>
     (\<forall>p off. is_pte pm dirs k p \<longrightarrow> off < PAGE_SIZE \<longrightarrow> page_byte pm k' p off = page_byte pm k p off)"

lemma same_view_refl [simp]: "same_view pm dirs k k"
  by (simp add: same_view_def)

lemma is_pte_cong:
  "(\<And>pid i. i < NUM_ENTRIES \<Longrightarrow> table_of pm dirs k' pid i = table_of pm dirs k pid i) \<Longrightarrow>
    is_pte pm dirs k' p = is_pte pm dirs k p"
  unfolding is_pte_def by metis

lemma same_view_trans:
  assumes "same_view pm dirs k1 k2" and "same_view pm dirs k2 k3"
  shows "same_view pm dirs k1 k3"
proof -
  have "is_pte pm dirs k2 p = is_pte pm dirs k1 p" for p
    by (rule is_pte_cong) (use assms(1) in \<open>simp add: same_view_def\<close>)
  with assms show ?thesis by (simp add: same_view_def)
qed

lemma reserved_aligned: "reserved_frame k p \<Longrightarrow> p mod 4 = 0 \<and> p + PAGE_SIZE \<le> PHYSICAL_MEMORY_SIZE"
  by (auto simp: reserved_frame_def page_simps)

text \<open>A word inside a reserved frame.\<close>

definition structure_word :: "kernel \<Rightarrow> nat \<Rightarrow> bool" where
  "structure_word k p \<longleftrightarrow> (\<exists>t j. reserved_frame k t \<and> j < NUM_ENTRIES \<and> p = t + 4 * j)"

lemma structure_word_bound: "structure_word k p \<Longrightarrow> p + 4 \<le> PHYSICAL_MEMORY_SIZE \<and> p mod 4 = 0"
  by (auto simp: structure_word_def reserved_frame_def page_simps)

lemma structure_word_frame:
  assumes "structure_word k p" and "f < NUM_PHYSICAL_PAGES" and "entry_mapping k ! f \<noteq> RESERVED"
    and "p \<le> a" and "a < p + 4"
  shows "a < PAGE_SIZE * f \<or> PAGE_SIZE * f + PAGE_SIZE \<le> a"
proof -
  obtain g j where g: "p = 4096 * g + 4 * j" "j < 1024" "entry_mapping k ! g = RESERVED"
    using assms(1) by (auto simp: structure_word_def reserved_frame_def page_simps)
  then have "g \<noteq> f" using assms(3) by blast
  then have "g < f \<or> f < g" by linarith
  then show ?thesis using g assms(4,5) by (auto simp: page_simps)
qed

lemma aligned_words_apart:
  "(p :: nat) mod 4 = 0 \<Longrightarrow> q mod 4 = 0 \<Longrightarrow> p \<noteq> q \<Longrightarrow> p + 4 \<le> q \<or> q + 4 \<le> p"
  by presburger

lemma word_store_other:
  "p mod 4 = 0 \<Longrightarrow> q mod 4 = 0 \<Longrightarrow> p \<noteq> q \<Longrightarrow> load32 (store32 m p w) q = load32 m q"
  using aligned_words_apart by (auto simp: load32_store32_other)

lemma deref_structure: "structure_word k p \<Longrightarrow> deref_entry k p = Inr (word_at k p)"
  using structure_word_bound by (simp add: deref_entry_def)

lemma is_pte_structure:
  assumes "tables_inv pm dirs k" and "is_pte pm dirs k p"
  shows "structure_word k p"
  using assms unfolding is_pte_def tables_inv_def structure_word_def by blast

lemma dir_word_structure:
  assumes "tables_inv pm dirs k" and "dirs pid = Some d" and "i < NUM_ENTRIES"
  shows "structure_word k (d + 4 * i)"
  using assms unfolding tables_inv_def structure_word_def by blast

text \<open>Directory words and page table entries are different words.\<close>

lemma frames_words_apart:
  assumes "reserved_frame k a" and "reserved_frame k b" and "i < NUM_ENTRIES" and "j < NUM_ENTRIES"
    and "a + 4 * i = b + 4 * j"
  shows "a = b \<and> i = j"
proof -
  obtain f g where "a = 4096 * f" "b = 4096 * g"
    using assms(1,2) by (auto simp: reserved_frame_def page_simps)
  moreover have "i < 1024" "j < 1024" using assms(3,4) by (simp_all add: page_simps)
  ultimately have "f = g" using assms(5) by linarith
  with \<open>a = 4096 * f\<close> \<open>b = 4096 * g\<close> assms(5) show ?thesis by simp
qed

lemma dir_word_not_pte:
  assumes "tables_inv pm dirs k" and "dirs pid = Some d" and "i < NUM_ENTRIES"
  shows "\<not> is_pte pm dirs k (d + 4 * i)"
proof
  assume "is_pte pm dirs k (d + 4 * i)"
  then obtain pid' i' t j where t: "i' < NUM_ENTRIES" "j < NUM_ENTRIES"
      "table_of pm dirs k pid' i' = Some t" "d + 4 * i = t + 4 * j"
    unfolding is_pte_def by blast
  have "reserved_frame k d" "reserved_frame k t" "dirs pid \<noteq> Some t"
    using assms t unfolding tables_inv_def by blast+
  with frames_words_apart [of k d t i j] assms t show False by simp
qed

text \<open>When the directory words are the same, so are the tables.\<close>

lemma table_of_cong:
  assumes "\<And>d. dirs pid = Some d \<Longrightarrow> word_at k' (d + 4 * i) = word_at k (d + 4 * i)"
  shows "table_of pm dirs k' pid i = table_of pm dirs k pid i"
  using assms by (simp add: table_of_def split: option.splits)

lemma tables_inv_cong:
  assumes "tables_inv pm dirs k"
    and "\<And>pid i. i < NUM_ENTRIES \<Longrightarrow> table_of pm dirs k' pid i = table_of pm dirs k pid i"
    and "\<And>p. reserved_frame k p \<Longrightarrow> reserved_frame k' p"
  shows "tables_inv pm dirs k'"
  using assms(1) unfolding tables_inv_def by (simp add: assms(2)) (blast intro: assms(3))

section \<open>Changing an entry, changing a frame\<close>

lemma pte_store:
  assumes inv: "tables_inv pm dirs k" and p: "is_pte pm dirs k p"
    and mem: "physical_memory k' = store32 (physical_memory k) p w"
    and res: "\<forall>f. entry_mapping k ! f = RESERVED \<longrightarrow> entry_mapping k' ! f = RESERVED"
  shows "\<And>pid i. i < NUM_ENTRIES \<Longrightarrow> table_of pm dirs k' pid i = table_of pm dirs k pid i"
    and "tables_inv pm dirs k'" and "\<And>q. is_pte pm dirs k' q = is_pte pm dirs k q"
    and "word_at k' p = w"
    and "\<And>q. is_pte pm dirs k q \<Longrightarrow> q \<noteq> p \<Longrightarrow> word_at k' q = word_at k q"
    and "\<And>f a. f < NUM_PHYSICAL_PAGES \<Longrightarrow> entry_mapping k ! f \<noteq> RESERVED \<Longrightarrow>
      PAGE_SIZE * f \<le> a \<Longrightarrow> a < PAGE_SIZE * f + PAGE_SIZE \<Longrightarrow> physical_memory k' a = physical_memory k a"
proof -
  have sw: "structure_word k p" using is_pte_structure [OF inv p] .
  show tab: "table_of pm dirs k' pid i = table_of pm dirs k pid i" if "i < NUM_ENTRIES" for pid i
  proof (rule table_of_cong)
    fix d assume d: "dirs pid = Some d"
    have "p \<noteq> d + 4 * i" using dir_word_not_pte [OF inv d that] p by blast
    moreover have "(d + 4 * i) mod 4 = 0" "p mod 4 = 0"
      using structure_word_bound dir_word_structure [OF inv d that] sw by blast+
    ultimately show "word_at k' (d + 4 * i) = word_at k (d + 4 * i)"
      unfolding mem by (intro word_store_other)
  qed
  show "tables_inv pm dirs k'"
    by (rule tables_inv_cong [OF inv tab]) (use res in \<open>auto simp: reserved_frame_def\<close>)
  show "is_pte pm dirs k' q = is_pte pm dirs k q" for q
    by (rule is_pte_cong) (rule tab)
  show "word_at k' p = w" by (simp add: mem)
  show "word_at k' q = word_at k q" if "is_pte pm dirs k q" "q \<noteq> p" for q
    unfolding mem
    using word_store_other [of p q] structure_word_bound sw is_pte_structure [OF inv that(1)] that(2)
    by metis
  show "physical_memory k' a = physical_memory k a"
    if "f < NUM_PHYSICAL_PAGES" "entry_mapping k ! f \<noteq> RESERVED"
      "PAGE_SIZE * f \<le> a" "a < PAGE_SIZE * f + PAGE_SIZE" for f a
    unfolding mem using structure_word_frame [OF sw that(1,2), of a] that(3,4)
    by (metis linorder_not_le store32_other)
qed

lemma frame_change:
  assumes inv: "tables_inv pm dirs k"
    and f: "f < NUM_PHYSICAL_PAGES" "entry_mapping k ! f \<noteq> RESERVED"
    and mem: "\<And>a. a < PAGE_SIZE * f \<or> PAGE_SIZE * f + PAGE_SIZE \<le> a \<Longrightarrow>
      physical_memory k' a = physical_memory k a"
    and res: "\<forall>f. entry_mapping k ! f = RESERVED \<longrightarrow> entry_mapping k' ! f = RESERVED"
  shows "\<And>pid i. i < NUM_ENTRIES \<Longrightarrow> table_of pm dirs k' pid i = table_of pm dirs k pid i"
    and "tables_inv pm dirs k'" and "\<And>q. is_pte pm dirs k' q = is_pte pm dirs k q"
    and "\<And>q. structure_word k q \<Longrightarrow> word_at k' q = word_at k q"
    and "\<And>q. is_pte pm dirs k q \<Longrightarrow> word_at k' q = word_at k q"
proof -
  show word: "word_at k' q = word_at k q" if "structure_word k q" for q
    by (rule load32_cong) (use mem structure_word_frame [OF that f] in blast)
  show tab: "table_of pm dirs k' pid i = table_of pm dirs k pid i" if "i < NUM_ENTRIES" for pid i
    by (rule table_of_cong) (use word dir_word_structure [OF inv _ that] in blast)
  show "tables_inv pm dirs k'"
    by (rule tables_inv_cong [OF inv tab]) (use res in \<open>auto simp: reserved_frame_def\<close>)
  show "is_pte pm dirs k' q = is_pte pm dirs k q" for q
    by (rule is_pte_cong) (rule tab)
  show "word_at k' q = word_at k q" if "is_pte pm dirs k q" for q
    using word is_pte_structure [OF inv that] by blast
qed

text \<open>The frame behind a present entry, and the entries that own different frames.\<close>

lemma present_frame:
  assumes "owners_inv pm dirs k" and "is_pte pm dirs k p" and "entry_present (word_at k p)"
  shows "\<exists>f < NUM_PHYSICAL_PAGES. entry_pointer pm (word_at k p) = PAGE_SIZE * f \<and>
    entry_mapping k ! f = Owner p"
  using assms unfolding owners_inv_def by blast

lemma owner_entry:
  assumes "owners_inv pm dirs k" and "f < NUM_PHYSICAL_PAGES" and "entry_mapping k ! f = Owner p"
  shows "is_pte pm dirs k p" "entry_present (word_at k p)"
    "entry_pointer pm (word_at k p) = PAGE_SIZE * f"
  using assms unfolding owners_inv_def by blast+

lemma owner_unique:
  assumes "owners_inv pm dirs k" and "f < NUM_PHYSICAL_PAGES" and "entry_mapping k ! f = Owner p"
    and "g < NUM_PHYSICAL_PAGES" and "entry_mapping k ! g = Owner p"
  shows "f = g"
  using owner_entry(3) [OF assms(1-3)] owner_entry(3) [OF assms(1,4,5)] by (simp add: page_simps)

lemma page_byte_cong:
  assumes "owners_inv pm dirs k" and "is_pte pm dirs k q" and "word_at k' q = word_at k q"
    and "swap_files k' (q, bin_suffix) = swap_files k (q, bin_suffix)"
    and "\<And>f. f < NUM_PHYSICAL_PAGES \<Longrightarrow> entry_mapping k ! f = Owner q \<Longrightarrow>
      physical_memory k' (PAGE_SIZE * f + off) = physical_memory k (PAGE_SIZE * f + off)"
  shows "page_byte pm k' q off = page_byte pm k q off"
proof (cases "entry_present (word_at k q)")
  case True
  then show ?thesis
    using present_frame [OF assms(1,2)] assms(3,5) by (auto simp: page_byte_def)
qed (use assms(3,4) in \<open>simp add: page_byte_def\<close>)

section \<open>Eviction\<close>

lemma evict_ok:
  assumes inv: "kernel_inv pm dirs k" and i: "i < NUM_PHYSICAL_PAGES"
    and own: "entry_mapping k ! i = Owner p"
  shows "\<exists>k'. evict_frame pm i k = Inr k' \<and> kernel_inv pm dirs k' \<and> same_view pm dirs k k' \<and>
    entry_mapping k' = (entry_mapping k)[i := Free] \<and>
    (\<forall>q. is_pte pm dirs k q \<longrightarrow> q \<noteq> p \<longrightarrow> word_at k' q = word_at k q)"
proof -
  have tinv: "tables_inv pm dirs k" and oinv: "owners_inv pm dirs k"
      and len: "length (entry_mapping k) = NUM_PHYSICAL_PAGES"
    using inv by (simp_all add: kernel_inv_def)
  note p = owner_entry [OF oinv i own]
  have sw: "structure_word k p" using is_pte_structure [OF tinv p(1)] .
  let ?page = "load_bytes (physical_memory k) (PAGE_SIZE * i) PAGE_SIZE"
  let ?w = "set_base_addr 0 (unset_bit PRESENT (word_at k p))"
  define k' where "k' = k\<lparr>physical_memory := store32 (physical_memory k) p ?w,
    entry_mapping := (entry_mapping k)[i := Free],
    swap_files := (swap_files k)((p, bin_suffix) \<mapsto> ?page)\<rparr>"
  have room: "PAGE_SIZE * i + PAGE_SIZE \<le> PHYSICAL_MEMORY_SIZE"
    using i by (simp add: page_simps)
  have run: "evict_frame pm i k = Inr k'"
    using own p room structure_word_bound [OF sw]
    by (simp add: evict_frame_def write_page_to_disk_def get_system_pointer_from_pte_def
        update_entry_def deref_entry_def k'_def)
  have res: "\<forall>f. entry_mapping k ! f = RESERVED \<longrightarrow> entry_mapping k' ! f = RESERVED"
    using own len i by (auto simp: k'_def nth_list_update)
  have mem: "physical_memory k' = store32 (physical_memory k) p ?w" by (simp add: k'_def)
  note st = pte_store [OF tinv p(1) mem res]
  have owners: "owners_inv pm dirs k'"
    unfolding owners_inv_def
  proof (intro conjI allI impI)
    fix q assume q: "is_pte pm dirs k' q" "entry_present (word_at k' q)"
    then have "q \<noteq> p" using st(4) by auto
    with q st have qk: "is_pte pm dirs k q" "word_at k' q = word_at k q" by auto
    obtain f where f: "f < NUM_PHYSICAL_PAGES" "entry_pointer pm (word_at k q) = PAGE_SIZE * f"
        "entry_mapping k ! f = Owner q"
      using present_frame [OF oinv qk(1)] q qk by auto
    moreover have "f \<noteq> i" using f own \<open>q \<noteq> p\<close> by auto
    ultimately show "\<exists>f < NUM_PHYSICAL_PAGES. entry_pointer pm (word_at k' q) = PAGE_SIZE * f \<and>
        entry_mapping k' ! f = Owner q"
      using qk by (auto simp: k'_def)
  next
    fix q f assume f: "f < NUM_PHYSICAL_PAGES" "entry_mapping k' ! f = Owner q"
    then have "f \<noteq> i" using len by (auto simp: k'_def)
    then have own_q: "entry_mapping k ! f = Owner q" using f by (simp add: k'_def)
    note q = owner_entry [OF oinv f(1) own_q]
    have "q \<noteq> p" using owner_unique [OF oinv f(1) own_q i] own \<open>f \<noteq> i\<close> by blast
    with q st show "is_pte pm dirs k' q" "entry_present (word_at k' q)"
        "entry_pointer pm (word_at k' q) = PAGE_SIZE * f" by auto
  qed
  have bytes: "page_byte pm k' q off = page_byte pm k q off"
    if q: "is_pte pm dirs k q" "off < PAGE_SIZE" for q off
  proof (cases "q = p")
    case True
    then show ?thesis using st(4) p q by (simp add: page_byte_def k'_def)
  next
    case False
    then have w: "word_at k' q = word_at k q" using st(5) q by blast
    show ?thesis
      by (rule page_byte_cong [OF oinv q(1) w]) (use st(6) q False in \<open>auto simp: k'_def\<close>)
  qed
  have "kernel_inv pm dirs k'"
    using inv st(2) owners by (auto simp: kernel_inv_def k'_def)
  moreover have "same_view pm dirs k k'" using st(1) bytes by (simp add: same_view_def)
  ultimately show ?thesis using run st(5) by (auto simp: k'_def)
qed

section \<open>Getting a frame\<close>

lemma ask_ok:
  assumes inv: "kernel_inv pm dirs k" and g: "g < NUM_PHYSICAL_PAGES" "entry_mapping k ! g \<noteq> RESERVED"
    and e: "\<And>p. e = Some p \<Longrightarrow> is_pte pm dirs k p \<and> \<not> entry_present (word_at k p)"
  shows "\<exists>k1 i. ask_kernel_for_frame pm e k = Inr (take_frame pm e i k1) \<and>
    kernel_inv pm dirs k1 \<and> same_view pm dirs k k1 \<and> i < NUM_PHYSICAL_PAGES \<and>
    entry_mapping k1 ! i = Free \<and>
    (\<forall>f < NUM_PHYSICAL_PAGES. entry_mapping k1 ! f = RESERVED \<longleftrightarrow> entry_mapping k ! f = RESERVED) \<and>
    (\<forall>q. is_pte pm dirs k q \<longrightarrow> \<not> entry_present (word_at k q) \<longrightarrow> word_at k1 q = word_at k q)"
proof (cases "first_index (\<lambda>x. x = Free) (entry_mapping k)")
  case (Some i)
  have len: "length (entry_mapping k) = NUM_PHYSICAL_PAGES" using inv by (simp add: kernel_inv_def)
  show ?thesis
    using inv first_index_some [OF Some] len Some
    by (intro exI [of _ k] exI [of _ i]) (simp add: ask_kernel_for_frame.simps)
next
  case None
  have len: "length (entry_mapping k) = NUM_PHYSICAL_PAGES" and oinv: "owners_inv pm dirs k"
    using inv by (simp_all add: kernel_inv_def)
  have no_free: "entry_mapping k ! f \<noteq> Free" if "f < NUM_PHYSICAL_PAGES" for f
    using None that len by (auto simp: first_index_none)
  have "other_entry e (entry_mapping k ! g)"
    using no_free [OF g(1)] e owner_entry(2) [OF oinv g(1)]
    by (auto simp: other_entry_def split: option.splits)
  then obtain i where i: "first_index (\<lambda>x. x \<noteq> RESERVED \<and> other_entry e x) (entry_mapping k) = Some i"
    using g len first_index_none [of "\<lambda>x. x \<noteq> RESERVED \<and> other_entry e x" "entry_mapping k"]
    by (metis (no_types, lifting) not_None_eq nth_mem)
  then have i_less: "i < NUM_PHYSICAL_PAGES" and "entry_mapping k ! i \<noteq> RESERVED"
    using first_index_some len by fastforce+
  then obtain q where q: "entry_mapping k ! i = Owner q"
    using no_free by (cases "entry_mapping k ! i") auto
  obtain k' where k': "evict_frame pm i k = Inr k'" "kernel_inv pm dirs k'" "same_view pm dirs k k'"
      "entry_mapping k' = (entry_mapping k)[i := Free]"
      "\<forall>x. is_pte pm dirs k x \<longrightarrow> x \<noteq> q \<longrightarrow> word_at k' x = word_at k x"
    using evict_ok [OF inv i_less q] by blast
  have "Free \<in> set (entry_mapping k')" using k'(4) i_less len by (simp add: set_update_memI)
  then obtain j where j: "first_index (\<lambda>x. x = Free) (entry_mapping k') = Some j"
    by (metis (mono_tags, lifting) first_index_none not_None_eq)
  have "ask_kernel_for_frame pm e k = ask_kernel_for_frame pm e k'"
    using None i k'(1) by (subst ask_kernel_for_frame.simps) simp
  also have "\<dots> = Inr (take_frame pm e j k')"
    using j by (subst ask_kernel_for_frame.simps) simp
  moreover have "entry_mapping k' ! f = RESERVED \<longleftrightarrow> entry_mapping k ! f = RESERVED"
    if "f < NUM_PHYSICAL_PAGES" for f
    using k'(4) q i_less len by (auto simp: nth_list_update)
  moreover have "x \<noteq> q" if "\<not> entry_present (word_at k x)" for x
    using owner_entry(2) [OF oinv i_less q] that by blast
  ultimately show ?thesis
    using k' first_index_some [OF j] len by (intro exI [of _ k'] exI [of _ j]) auto
qed

text \<open>The frame that was handed out: zeroed and marked.\<close>

lemma take_frame_ok:
  assumes inv: "kernel_inv pm dirs k" and i: "i < NUM_PHYSICAL_PAGES" "entry_mapping k ! i = Free"
    and k': "take_frame pm e i k = (k', a)"
  shows "a = pm + word_of_nat (PAGE_SIZE * i)"
    and "entry_mapping k' = (entry_mapping k)[i := owner_of e]" and "swap_files k' = swap_files k"
    and "\<And>a. a < PAGE_SIZE * i \<or> PAGE_SIZE * i + PAGE_SIZE \<le> a \<Longrightarrow>
      physical_memory k' a = physical_memory k a"
    and "\<And>off. off < PAGE_SIZE \<Longrightarrow> physical_memory k' (PAGE_SIZE * i + off) = 0"
    and "\<And>pid x. x < NUM_ENTRIES \<Longrightarrow> table_of pm dirs k' pid x = table_of pm dirs k pid x"
    and "tables_inv pm dirs k'" and "\<And>q. is_pte pm dirs k' q = is_pte pm dirs k q"
    and "\<And>q. structure_word k q \<Longrightarrow> word_at k' q = word_at k q"
    and "\<And>q. is_pte pm dirs k q \<Longrightarrow> word_at k' q = word_at k q"
proof -
  show "a = pm + word_of_nat (PAGE_SIZE * i)"
    and map: "entry_mapping k' = (entry_mapping k)[i := owner_of e]"
    and "swap_files k' = swap_files k"
    using k' by (auto simp: take_frame_def)
  show mem: "physical_memory k' a = physical_memory k a"
    if "a < PAGE_SIZE * i \<or> PAGE_SIZE * i + PAGE_SIZE \<le> a" for a
    using k' that by (auto simp: take_frame_def)
  show "physical_memory k' (PAGE_SIZE * i + off) = 0" if "off < PAGE_SIZE" for off
    using k' that by (auto simp: take_frame_def)
  have tinv: "tables_inv pm dirs k" and len: "length (entry_mapping k) = NUM_PHYSICAL_PAGES"
    using inv by (simp_all add: kernel_inv_def)
  have nr: "entry_mapping k ! i \<noteq> RESERVED" using i(2) by simp
  have res: "\<forall>f. entry_mapping k ! f = RESERVED \<longrightarrow> entry_mapping k' ! f = RESERVED"
    using i map by (metis nth_list_update_neq owner.distinct(1))
  note fc = frame_change [OF tinv i(1) nr mem res]
  show "\<And>pid x. x < NUM_ENTRIES \<Longrightarrow> table_of pm dirs k' pid x = table_of pm dirs k pid x"
    "tables_inv pm dirs k'" "\<And>q. is_pte pm dirs k' q = is_pte pm dirs k q"
    "\<And>q. structure_word k q \<Longrightarrow> word_at k' q = word_at k q"
    "\<And>q. is_pte pm dirs k q \<Longrightarrow> word_at k' q = word_at k q"
    using fc by blast+
qed

lemma frame_bytes_apart:
  assumes "f \<noteq> i" and "off < PAGE_SIZE"
  shows "PAGE_SIZE * f + off < PAGE_SIZE * i \<or> PAGE_SIZE * i + PAGE_SIZE \<le> PAGE_SIZE * f + off"
proof -
  have "f < i \<or> i < f" using assms(1) by linarith
  then show ?thesis using assms(2) by (auto simp: page_simps)
qed

section \<open>Mapping a page\<close>

lemma owners_install:
  assumes oinv: "owners_inv pm dirs k" and i: "i < NUM_PHYSICAL_PAGES" "entry_mapping k ! i = Free"
    and len: "length (entry_mapping k) = NUM_PHYSICAL_PAGES"
    and p: "is_pte pm dirs k p" "\<not> entry_present (word_at k p)"
    and map: "entry_mapping k' = (entry_mapping k)[i := Owner p]"
    and ptes: "\<And>q. is_pte pm dirs k' q = is_pte pm dirs k q"
    and words: "\<And>q. is_pte pm dirs k q \<Longrightarrow> q \<noteq> p \<Longrightarrow> word_at k' q = word_at k q"
    and at_p: "entry_present (word_at k' p)" "entry_pointer pm (word_at k' p) = PAGE_SIZE * i"
  shows "owners_inv pm dirs k'"
  unfolding owners_inv_def
proof (intro conjI allI impI)
  fix q assume q: "is_pte pm dirs k' q" "entry_present (word_at k' q)"
  show "\<exists>f < NUM_PHYSICAL_PAGES. entry_pointer pm (word_at k' q) = PAGE_SIZE * f \<and>
      entry_mapping k' ! f = Owner q"
  proof (cases "q = p")
    case False
    then have w: "word_at k' q = word_at k q" "is_pte pm dirs k q" using words q ptes by auto
    then obtain f where "f < NUM_PHYSICAL_PAGES" "entry_pointer pm (word_at k q) = PAGE_SIZE * f"
        "entry_mapping k ! f = Owner q"
      using present_frame [OF oinv w(2)] q by auto
    moreover from this have "f \<noteq> i" using i by auto
    ultimately show ?thesis using w map by auto
  qed (use at_p i map len in auto)
next
  fix q f assume f: "f < NUM_PHYSICAL_PAGES" "entry_mapping k' ! f = Owner q"
  have "is_pte pm dirs k' q \<and> entry_present (word_at k' q) \<and>
      entry_pointer pm (word_at k' q) = PAGE_SIZE * f"
  proof (cases "f = i")
    case True
    then have "q = p" using f map len i by simp
    then show ?thesis using at_p True p ptes by simp
  next
    case False
    then have own_q: "entry_mapping k ! f = Owner q" using f map by simp
    note q = owner_entry [OF oinv f(1) own_q]
    then have "q \<noteq> p" using p by auto
    then show ?thesis using q words ptes by simp
  qed
  then show "is_pte pm dirs k' q" "entry_present (word_at k' q)"
      "entry_pointer pm (word_at k' q) = PAGE_SIZE * f" by blast+
qed

text \<open>Frame \<open>i\<close>, free in \<open>k1\<close>, is handed out to the entry \<open>p\<close> and the entry updated.\<close>

lemma install_free_frame:
  assumes pm: "page_aligned pm" and inv: "kernel_inv pm dirs k1"
    and i: "i < NUM_PHYSICAL_PAGES" "entry_mapping k1 ! i = Free"
    and p: "is_pte pm dirs k1 p" "\<not> entry_present (word_at k1 p)"
    and k2: "take_frame pm (Some p) i k1 = (k2, a)"
  shows "\<exists>k'. update_entry p (map_entry a) k2 = Inr k' \<and> kernel_inv pm dirs k' \<and>
    (\<forall>pid x. x < NUM_ENTRIES \<longrightarrow> table_of pm dirs k' pid x = table_of pm dirs k1 pid x) \<and>
    (\<forall>q off. is_pte pm dirs k1 q \<longrightarrow> q \<noteq> p \<longrightarrow> off < PAGE_SIZE \<longrightarrow>
      page_byte pm k' q off = page_byte pm k1 q off) \<and>
    entry_mapping k' = (entry_mapping k1)[i := Owner p] \<and>
    (\<forall>off < PAGE_SIZE. page_byte pm k' p off = 0) \<and> swap_files k' = swap_files k1 \<and>
    (\<forall>q. is_pte pm dirs k1 q \<longrightarrow> q \<noteq> p \<longrightarrow> word_at k' q = word_at k1 q)"
proof -
  note tf = take_frame_ok [OF inv i k2]
  have len: "length (entry_mapping k1) = NUM_PHYSICAL_PAGES" and oinv: "owners_inv pm dirs k1"
    using inv by (simp_all add: kernel_inv_def)
  have p2: "is_pte pm dirs k2 p" using p(1) tf(8) by simp
  have sw: "structure_word k2 p" by (rule is_pte_structure [OF tf(7) p2])
  define k' where "k' = k2\<lparr>physical_memory := store32 (physical_memory k2) p
    (map_entry a (word_at k2 p))\<rparr>"
  have mem: "physical_memory k' = store32 (physical_memory k2) p (map_entry a (word_at k2 p))"
    by (simp add: k'_def)
  have res: "\<forall>f. entry_mapping k2 ! f = RESERVED \<longrightarrow> entry_mapping k' ! f = RESERVED"
    by (simp add: k'_def)
  note st = pte_store [OF tf(7) p2 mem res]
  have map: "entry_mapping k' = (entry_mapping k1)[i := Owner p]"
    using tf(2) by (simp add: k'_def owner_of_def)
  have ptes: "is_pte pm dirs k' q = is_pte pm dirs k1 q" for q using st(3) tf(8) by simp
  have words: "word_at k' q = word_at k1 q" if "is_pte pm dirs k1 q" "q \<noteq> p" for q
    using st(5) tf(8,10) that by metis
  have at_p: "entry_present (word_at k' p)" "entry_pointer pm (word_at k' p) = PAGE_SIZE * i"
    using st(4) tf(1) entry_pointer_map [OF pm i(1)] by simp_all
  have zero: "physical_memory k' (PAGE_SIZE * i + off) = 0" if "off < PAGE_SIZE" for off
  proof -
    have "entry_mapping k2 ! i \<noteq> RESERVED" using tf(2) len i by (simp add: owner_of_def)
    then show ?thesis using st(6) [of i "PAGE_SIZE * i + off"] tf(5) i that by simp
  qed
  have swap: "swap_files k' = swap_files k1" using tf(3) by (simp add: k'_def)
  have bytes: "page_byte pm k' q off = page_byte pm k1 q off"
    if q: "is_pte pm dirs k1 q" "q \<noteq> p" "off < PAGE_SIZE" for q off
  proof (rule page_byte_cong [OF oinv q(1) words [OF q(1,2)]])
    fix f assume f: "f < NUM_PHYSICAL_PAGES" "entry_mapping k1 ! f = Owner q"
    then have ne: "f \<noteq> i" using i by auto
    with f tf(2) have "entry_mapping k2 ! f \<noteq> RESERVED" by simp
    with ne f st(6) [of f "PAGE_SIZE * f + off"] tf(4) frame_bytes_apart [of f i off] q(3)
    show "physical_memory k' (PAGE_SIZE * f + off) = physical_memory k1 (PAGE_SIZE * f + off)" by simp
  qed (simp add: swap)
  have "owners_inv pm dirs k'"
    by (rule owners_install [OF oinv i len p map ptes words at_p])
  then have "kernel_inv pm dirs k'" using inv st(2) map swap by (simp add: kernel_inv_def)
  moreover have "update_entry p (map_entry a) k2 = Inr k'"
    using deref_structure [OF sw] by (simp add: update_entry_def k'_def)
  moreover have "page_byte pm k' p off = 0" if "off < PAGE_SIZE" for off
    using at_p zero that by (simp add: page_byte_def)
  ultimately show ?thesis
    using bytes map swap st(1) tf(6) words by (intro exI [of _ k']) simp
qed

lemma install_page:
  assumes pm: "page_aligned pm" and inv: "kernel_inv pm dirs k"
    and g: "g < NUM_PHYSICAL_PAGES" "entry_mapping k ! g \<noteq> RESERVED"
    and p: "is_pte pm dirs k p" "\<not> entry_present (word_at k p)"
  shows "\<exists>k' i. install_frame pm p (Some p) k = Inr k' \<and> kernel_inv pm dirs k' \<and>
    (\<forall>pid x. x < NUM_ENTRIES \<longrightarrow> table_of pm dirs k' pid x = table_of pm dirs k pid x) \<and>
    (\<forall>q off. is_pte pm dirs k q \<longrightarrow> q \<noteq> p \<longrightarrow> off < PAGE_SIZE \<longrightarrow>
      page_byte pm k' q off = page_byte pm k q off) \<and>
    i < NUM_PHYSICAL_PAGES \<and> entry_mapping k' ! i = Owner p \<and>
    (\<forall>off < PAGE_SIZE. page_byte pm k' p off = 0) \<and>
    (\<forall>off < PAGE_SIZE. page_byte pm k p off =
      (case swap_files k' (p, bin_suffix) of None \<Rightarrow> 0 | Some bs \<Rightarrow> bs ! off)) \<and>
    (\<forall>f < NUM_PHYSICAL_PAGES. entry_mapping k' ! f = RESERVED \<longleftrightarrow> entry_mapping k ! f = RESERVED) \<and>
    (\<forall>q. is_pte pm dirs k q \<longrightarrow> q \<noteq> p \<longrightarrow> \<not> entry_present (word_at k q) \<longrightarrow>
      \<not> entry_present (word_at k' q))"
proof -
  obtain k1 i where k1: "ask_kernel_for_frame pm (Some p) k = Inr (take_frame pm (Some p) i k1)"
      "kernel_inv pm dirs k1" "same_view pm dirs k k1" "i < NUM_PHYSICAL_PAGES"
      "entry_mapping k1 ! i = Free"
      "\<forall>f < NUM_PHYSICAL_PAGES. entry_mapping k1 ! f = RESERVED \<longleftrightarrow> entry_mapping k ! f = RESERVED"
      "word_at k1 p = word_at k p"
      "\<forall>q. is_pte pm dirs k q \<longrightarrow> \<not> entry_present (word_at k q) \<longrightarrow> word_at k1 q = word_at k q"
    using ask_ok [OF inv g, of "Some p"] p by auto
  obtain k2 a where k2: "take_frame pm (Some p) i k1 = (k2, a)" by (cases "take_frame pm (Some p) i k1")
  have tables: "table_of pm dirs k1 pid x = table_of pm dirs k pid x" if "x < NUM_ENTRIES" for pid x
    using k1(3) that by (simp add: same_view_def)
  have pte1: "is_pte pm dirs k1 q = is_pte pm dirs k q" for q
    by (rule is_pte_cong) (rule tables)
  have p1: "is_pte pm dirs k1 p" "\<not> entry_present (word_at k1 p)"
    using p pte1 k1(7) by simp_all
  obtain k' where k': "update_entry p (map_entry a) k2 = Inr k'" "kernel_inv pm dirs k'"
      "\<forall>pid x. x < NUM_ENTRIES \<longrightarrow> table_of pm dirs k' pid x = table_of pm dirs k1 pid x"
      "\<forall>q off. is_pte pm dirs k1 q \<longrightarrow> q \<noteq> p \<longrightarrow> off < PAGE_SIZE \<longrightarrow>
        page_byte pm k' q off = page_byte pm k1 q off"
      "entry_mapping k' = (entry_mapping k1)[i := Owner p]"
      "\<forall>off < PAGE_SIZE. page_byte pm k' p off = 0" "swap_files k' = swap_files k1"
      "\<forall>q. is_pte pm dirs k1 q \<longrightarrow> q \<noteq> p \<longrightarrow> word_at k' q = word_at k1 q"
    using install_free_frame [OF pm k1(2,4,5) p1 k2] by blast
  have len: "length (entry_mapping k1) = NUM_PHYSICAL_PAGES"
    using k1(2) by (simp add: kernel_inv_def)
  have "page_byte pm k p off = (case swap_files k' (p, bin_suffix) of None \<Rightarrow> 0 | Some bs \<Rightarrow> bs ! off)"
    if "off < PAGE_SIZE" for off
    using k1(3) p(1) p1(2) k'(7) that by (auto simp: same_view_def page_byte_def)
  moreover have "entry_mapping k' ! f = RESERVED \<longleftrightarrow> entry_mapping k ! f = RESERVED"
    if "f < NUM_PHYSICAL_PAGES" for f
    using k'(5) k1(5,6) that len by (cases "f = i") auto
  moreover have "page_byte pm k' q off = page_byte pm k q off"
    if "is_pte pm dirs k q" "q \<noteq> p" "off < PAGE_SIZE" for q off
    using k'(4) k1(3) pte1 that by (simp add: same_view_def)
  moreover have "\<not> entry_present (word_at k' q)"
    if "is_pte pm dirs k q" "q \<noteq> p" "\<not> entry_present (word_at k q)" for q
    using k'(8) k1(8) pte1 that by simp
  moreover have "entry_mapping k' ! i = Owner p" using k'(5) k1(4) len by simp
  moreover have "install_frame pm p (Some p) k = Inr k'"
    using k1(1) k2 k'(1) by (simp add: install_frame_def)
  ultimately show ?thesis
    using k'(2,3,6) tables k1(4) by (intro exI [of _ k'] exI [of _ i]) simp
qed

section \<open>Writing into an owned frame\<close>

lemma frame_write:
  assumes inv: "kernel_inv pm dirs k" and f: "f < NUM_PHYSICAL_PAGES" "entry_mapping k ! f = Owner p"
    and mem: "\<And>a. a < PAGE_SIZE * f \<or> PAGE_SIZE * f + PAGE_SIZE \<le> a \<Longrightarrow>
      physical_memory k' a = physical_memory k a"
    and rest: "entry_mapping k' = entry_mapping k" "swap_files k' = swap_files k"
  shows "kernel_inv pm dirs k'"
    and "\<And>pid x. x < NUM_ENTRIES \<Longrightarrow> table_of pm dirs k' pid x = table_of pm dirs k pid x"
    and "\<And>q. is_pte pm dirs k' q = is_pte pm dirs k q"
    and "\<And>q. is_pte pm dirs k q \<Longrightarrow> word_at k' q = word_at k q"
    and "\<And>q off. is_pte pm dirs k q \<Longrightarrow> q \<noteq> p \<Longrightarrow> off < PAGE_SIZE \<Longrightarrow>
      page_byte pm k' q off = page_byte pm k q off"
    and "\<And>off. page_byte pm k' p off = physical_memory k' (PAGE_SIZE * f + off)"
proof -
  have tinv: "tables_inv pm dirs k" and oinv: "owners_inv pm dirs k"
    using inv by (simp_all add: kernel_inv_def)
  have nr: "entry_mapping k ! f \<noteq> RESERVED" using f(2) by simp
  have res: "\<forall>f. entry_mapping k ! f = RESERVED \<longrightarrow> entry_mapping k' ! f = RESERVED"
    by (simp add: rest)
  note fc = frame_change [OF tinv f(1) nr mem res]
  show tab: "\<And>pid x. x < NUM_ENTRIES \<Longrightarrow> table_of pm dirs k' pid x = table_of pm dirs k pid x"
    and ptes: "\<And>q. is_pte pm dirs k' q = is_pte pm dirs k q"
    and words: "\<And>q. is_pte pm dirs k q \<Longrightarrow> word_at k' q = word_at k q"
    by (rule fc(1) fc(3) fc(5); assumption?)+
  have "owners_inv pm dirs k'"
    using oinv unfolding owners_inv_def ptes rest using words by metis
  then show "kernel_inv pm dirs k'"
    using inv fc(2) by (simp add: kernel_inv_def rest)
  show "page_byte pm k' q off = page_byte pm k q off"
    if q: "is_pte pm dirs k q" "q \<noteq> p" "off < PAGE_SIZE" for q off
  proof (rule page_byte_cong [OF oinv q(1) words [OF q(1)]])
    fix g assume "g < NUM_PHYSICAL_PAGES" "entry_mapping k ! g = Owner q"
    then have "g \<noteq> f" using f(2) q(2) by auto
    then show "physical_memory k' (PAGE_SIZE * g + off) = physical_memory k (PAGE_SIZE * g + off)"
      using mem frame_bytes_apart [of g f off] q(3) by simp
  qed (simp add: rest)
  show "page_byte pm k' p off = physical_memory k' (PAGE_SIZE * f + off)" for off
    using owner_entry [OF oinv f] words by (simp add: page_byte_def)
qed

lemma owned_frame_room: "f < NUM_PHYSICAL_PAGES \<Longrightarrow> PAGE_SIZE * f + PAGE_SIZE \<le> PHYSICAL_MEMORY_SIZE"
  by (simp add: page_simps)

lemma read_page_ok:
  assumes inv: "kernel_inv pm dirs k" and f: "f < NUM_PHYSICAL_PAGES" "entry_mapping k ! f = Owner p"
    and zero: "\<forall>off < PAGE_SIZE. page_byte pm k p off = 0"
  shows "\<exists>k'. read_page_from_disk pm p k = Inr k' \<and> kernel_inv pm dirs k' \<and>
    (\<forall>pid x. x < NUM_ENTRIES \<longrightarrow> table_of pm dirs k' pid x = table_of pm dirs k pid x) \<and>
    (\<forall>q off. is_pte pm dirs k q \<longrightarrow> q \<noteq> p \<longrightarrow> off < PAGE_SIZE \<longrightarrow>
      page_byte pm k' q off = page_byte pm k q off) \<and>
    (\<forall>off < PAGE_SIZE. page_byte pm k' p off =
      (case swap_files k (p, bin_suffix) of None \<Rightarrow> 0 | Some bs \<Rightarrow> bs ! off)) \<and>
    entry_mapping k' = entry_mapping k \<and> entry_present (word_at k' p)"
proof -
  have tinv: "tables_inv pm dirs k" and oinv: "owners_inv pm dirs k"
    using inv by (simp_all add: kernel_inv_def)
  note p = owner_entry [OF oinv f]
  note d = deref_structure [OF is_pte_structure [OF tinv p(1)]]
  show ?thesis
  proof (cases "swap_files k (p, bin_suffix)")
    case None
    then have "read_page_from_disk pm p k = Inr k"
      using d p(3) by (simp add: read_page_from_disk_def get_system_pointer_from_pte_def)
    with None inv zero p show ?thesis by (intro exI [of _ k]) simp
  next
    case (Some bs)
    then have len: "length bs = PAGE_SIZE" using inv by (simp add: kernel_inv_def)
    define k' where "k' = k\<lparr>physical_memory := store_bytes (physical_memory k) (PAGE_SIZE * f) bs\<rparr>"
    have run: "read_page_from_disk pm p k = Inr k'"
      using d p(3) Some len owned_frame_room [OF f(1)]
      by (simp add: read_page_from_disk_def get_system_pointer_from_pte_def k'_def)
    have mem: "a < PAGE_SIZE * f \<or> PAGE_SIZE * f + PAGE_SIZE \<le> a \<Longrightarrow>
        physical_memory k' a = physical_memory k a" for a
      using len by (simp add: k'_def)
    have rest: "entry_mapping k' = entry_mapping k" "swap_files k' = swap_files k"
      by (simp_all add: k'_def)
    note fw = frame_write [OF inv f mem rest]
    have "page_byte pm k' p off = bs ! off" if "off < PAGE_SIZE" for off
      using fw(6) that len by (simp add: k'_def)
    moreover have "entry_present (word_at k' p)" using fw(4) p by simp
    ultimately show ?thesis
      using run fw(1,2,5) Some rest by (intro exI [of _ k']) simp
  qed
qed

text \<open>The number of frames that hold no paging structure.\<close>

definition unreserved :: "kernel \<Rightarrow> nat" where
  "unreserved k = card {f. f < NUM_PHYSICAL_PAGES \<and> entry_mapping k ! f \<noteq> RESERVED}"

lemma unreserved_one:
  assumes "1 \<le> unreserved k"
  shows "\<exists>g < NUM_PHYSICAL_PAGES. entry_mapping k ! g \<noteq> RESERVED"
proof (rule ccontr)
  assume "\<not> ?thesis"
  then have "{f. f < NUM_PHYSICAL_PAGES \<and> entry_mapping k ! f \<noteq> RESERVED} = {}" by blast
  with assms show False unfolding unreserved_def by simp
qed

lemma unreserved_two:
  assumes "2 \<le> unreserved k"
  shows "\<exists>g h. g < NUM_PHYSICAL_PAGES \<and> entry_mapping k ! g \<noteq> RESERVED \<and>
    h < NUM_PHYSICAL_PAGES \<and> entry_mapping k ! h \<noteq> RESERVED \<and> g \<noteq> h"
proof -
  let ?S = "{f. f < NUM_PHYSICAL_PAGES \<and> entry_mapping k ! f \<noteq> RESERVED}"
  have "\<not> card ?S \<le> Suc 0" using assms unfolding unreserved_def by simp
  moreover have "finite ?S" by simp
  ultimately show ?thesis using card_le_Suc0_iff_eq [of ?S] by blast
qed

lemma unreserved_drop:
  assumes "\<forall>f < NUM_PHYSICAL_PAGES. entry_mapping k' ! f = RESERVED \<longleftrightarrow> f = i \<or> entry_mapping k ! f = RESERVED"
  shows "unreserved k \<le> Suc (unreserved k')"
proof -
  have "{f. f < NUM_PHYSICAL_PAGES \<and> entry_mapping k' ! f \<noteq> RESERVED} =
      {f. f < NUM_PHYSICAL_PAGES \<and> entry_mapping k ! f \<noteq> RESERVED} - {i}"
    using assms by auto
  then show ?thesis unfolding unreserved_def by (simp add: card_Diff_singleton_if) linarith
qed

lemma unreserved_same:
  assumes "\<forall>f < NUM_PHYSICAL_PAGES. entry_mapping k' ! f = RESERVED \<longleftrightarrow> entry_mapping k ! f = RESERVED"
  shows "unreserved k' = unreserved k"
  unfolding unreserved_def using assms by (metis (mono_tags, lifting))

text \<open>A page fault on an entry keeps the view and leaves the page in memory.\<close>

lemma page_in_ok:
  assumes pm: "page_aligned pm" and inv: "kernel_inv pm dirs (m_kernel m)"
    and g: "g < NUM_PHYSICAL_PAGES" "entry_mapping (m_kernel m) ! g \<noteq> RESERVED"
    and p: "is_pte pm dirs (m_kernel m) p"
  shows "\<exists>k' n. page_in pm p m = Inr (m\<lparr>num_page_faults := n, m_kernel := k'\<rparr>) \<and>
    kernel_inv pm dirs k' \<and> same_view pm dirs (m_kernel m) k' \<and> entry_present (word_at k' p) \<and>
    unreserved k' = unreserved (m_kernel m)"
proof -
  let ?k = "m_kernel m"
  have tinv: "tables_inv pm dirs ?k" using inv by (simp add: kernel_inv_def)
  note d = deref_structure [OF is_pte_structure [OF tinv p]]
  show ?thesis
  proof (cases "entry_present (word_at ?k p)")
    case True
    then show ?thesis
      using d inv by (intro exI [of _ ?k] exI [of _ "num_page_faults m"]) (simp add: page_in_def)
  next
    case False
    obtain k1 i where k1: "install_frame pm p (Some p) ?k = Inr k1" "kernel_inv pm dirs k1"
        "\<forall>pid x. x < NUM_ENTRIES \<longrightarrow> table_of pm dirs k1 pid x = table_of pm dirs ?k pid x"
        "\<forall>q off. is_pte pm dirs ?k q \<longrightarrow> q \<noteq> p \<longrightarrow> off < PAGE_SIZE \<longrightarrow>
          page_byte pm k1 q off = page_byte pm ?k q off"
        "i < NUM_PHYSICAL_PAGES" "entry_mapping k1 ! i = Owner p"
        "\<forall>off < PAGE_SIZE. page_byte pm k1 p off = 0"
        "\<forall>off < PAGE_SIZE. page_byte pm ?k p off =
          (case swap_files k1 (p, bin_suffix) of None \<Rightarrow> 0 | Some bs \<Rightarrow> bs ! off)"
        "\<forall>f < NUM_PHYSICAL_PAGES. entry_mapping k1 ! f = RESERVED \<longleftrightarrow> entry_mapping ?k ! f = RESERVED"
      using install_page [OF pm inv g p False] by blast
    obtain k2 where k2: "read_page_from_disk pm p k1 = Inr k2" "kernel_inv pm dirs k2"
        "\<forall>pid x. x < NUM_ENTRIES \<longrightarrow> table_of pm dirs k2 pid x = table_of pm dirs k1 pid x"
        "\<forall>q off. is_pte pm dirs k1 q \<longrightarrow> q \<noteq> p \<longrightarrow> off < PAGE_SIZE \<longrightarrow>
          page_byte pm k2 q off = page_byte pm k1 q off"
        "\<forall>off < PAGE_SIZE. page_byte pm k2 p off =
          (case swap_files k1 (p, bin_suffix) of None \<Rightarrow> 0 | Some bs \<Rightarrow> bs ! off)"
        "entry_present (word_at k2 p)" "entry_mapping k2 = entry_mapping k1"
      using read_page_ok [OF k1(2,5,6,7)] by blast
    have "is_pte pm dirs k1 q = is_pte pm dirs ?k q" for q
      by (rule is_pte_cong) (use k1(3) in blast)
    then have "page_byte pm k2 q off = page_byte pm ?k q off"
      if "is_pte pm dirs ?k q" "off < PAGE_SIZE" for q off
      using that k1(4,8) k2(4,5) by (cases "q = p") simp_all
    then have "same_view pm dirs ?k k2" using k1(3) k2(3) by (simp add: same_view_def)
    moreover have "page_in pm p m =
        Inr (m\<lparr>num_page_faults := num_page_faults m + 1, m_kernel := k2\<rparr>)"
      using d False k1(1) k2(1) by (simp add: page_in_def mmu_raise_page_fault_def)
    moreover have "unreserved k2 = unreserved ?k"
      using k1(9) k2(7) by (intro unreserved_same) simp
    ultimately show ?thesis using k2(2,6) by blast
  qed
qed

section \<open>Adding a page table\<close>

text \<open>
  Frame \<open>i\<close>, free in \<open>k\<close>, becomes a page table behind the directory word \<open>d + 4 * x\<close>. What
  changed: that word, the zeroed frame and its mark.
\<close>

definition table_added ::
  "addr32 \<Rightarrow> dirs \<Rightarrow> kernel \<Rightarrow> nat \<Rightarrow> nat \<Rightarrow> nat \<Rightarrow> nat \<Rightarrow> kernel \<Rightarrow> bool" where
  "table_added pm dirs k pid d x i k' \<longleftrightarrow>
     dirs pid = Some d \<and> x < NUM_ENTRIES \<and> i < NUM_PHYSICAL_PAGES \<and> entry_mapping k ! i = Free \<and>
     entry_mapping k' = (entry_mapping k)[i := RESERVED] \<and> swap_files k' = swap_files k \<and>
     (\<forall>q. structure_word k q \<longrightarrow> q \<noteq> d + 4 * x \<longrightarrow> word_at k' q = word_at k q) \<and>
     entry_present (word_at k' (d + 4 * x)) \<and>
     entry_pointer pm (word_at k' (d + 4 * x)) = PAGE_SIZE * i \<and>
     (\<forall>j < NUM_ENTRIES. word_at k' (PAGE_SIZE * i + 4 * j) = 0) \<and>
     (\<forall>f off. f < NUM_PHYSICAL_PAGES \<longrightarrow> entry_mapping k ! f \<noteq> RESERVED \<longrightarrow> f \<noteq> i \<longrightarrow>
       off < PAGE_SIZE \<longrightarrow>
       physical_memory k' (PAGE_SIZE * f + off) = physical_memory k (PAGE_SIZE * f + off))"

lemma table_added_tables:
  assumes inv: "kernel_inv pm dirs k" and new: "table_added pm dirs k pid d x i k'"
    and y: "y < NUM_ENTRIES"
  shows "table_of pm dirs k' pid' y =
    (if pid' = pid \<and> y = x then Some (PAGE_SIZE * i) else table_of pm dirs k pid' y)"
proof -
  have tinv: "tables_inv pm dirs k" using inv by (simp add: kernel_inv_def)
  have n: "dirs pid = Some d" "entry_present (word_at k' (d + 4 * x))"
      "entry_pointer pm (word_at k' (d + 4 * x)) = PAGE_SIZE * i" "x < NUM_ENTRIES"
    using new by (auto simp: table_added_def)
  show ?thesis
  proof (cases "pid' = pid \<and> y = x")
    case False
    have "table_of pm dirs k' pid' y = table_of pm dirs k pid' y"
    proof (rule table_of_cong)
      fix d' assume d': "dirs pid' = Some d'"
      have "reserved_frame k d" "reserved_frame k d'" "d = d' \<longrightarrow> pid = pid'"
        using tinv n(1) d' unfolding tables_inv_def by blast+
      then have "d' + 4 * y \<noteq> d + 4 * x"
        using frames_words_apart [of k d' d y x] y n(4) False by blast
      then show "word_at k' (d' + 4 * y) = word_at k (d' + 4 * y)"
        using new dir_word_structure [OF tinv d' y] by (simp add: table_added_def)
    qed
    then show ?thesis using False by metis
  qed (use n in \<open>simp add: table_of_def\<close>)
qed

lemma table_added_reserved:
  assumes "kernel_inv pm dirs k" and "table_added pm dirs k pid d x i k'"
  shows "reserved_frame k' p \<longleftrightarrow> reserved_frame k p \<or> p = PAGE_SIZE * i"
    and "\<not> reserved_frame k (PAGE_SIZE * i)"
proof -
  have n: "i < NUM_PHYSICAL_PAGES" "entry_mapping k ! i = Free"
      "entry_mapping k' = (entry_mapping k)[i := RESERVED]"
      "length (entry_mapping k) = NUM_PHYSICAL_PAGES"
    using assms by (auto simp: table_added_def kernel_inv_def)
  then show "\<not> reserved_frame k (PAGE_SIZE * i)"
    by (auto simp: reserved_frame_def PAGE_SIZE_def)
  show "reserved_frame k' p \<longleftrightarrow> reserved_frame k p \<or> p = PAGE_SIZE * i"
    using n unfolding reserved_frame_def by (metis nth_list_update_eq nth_list_update_neq owner.distinct(1))
qed

lemma table_added_inv:
  assumes inv: "kernel_inv pm dirs k" and new: "table_added pm dirs k pid d x i k'"
    and none: "table_of pm dirs k pid x = None"
  shows "tables_inv pm dirs k'"
    and "is_pte pm dirs k' q \<longleftrightarrow> is_pte pm dirs k q \<or> (\<exists>j < NUM_ENTRIES. q = PAGE_SIZE * i + 4 * j)"
proof -
  have tinv: "tables_inv pm dirs k" using inv by (simp add: kernel_inv_def)
  note tab = table_added_tables [OF inv new]
  note res = table_added_reserved [OF inv new]
  have x: "x < NUM_ENTRIES" using new by (simp add: table_added_def)
  have old: "reserved_frame k t" if "table_of pm dirs k pid' y = Some t" "y < NUM_ENTRIES" for pid' y t
    using tinv that unfolding tables_inv_def by blast
  have dir: "reserved_frame k e" if "dirs pid' = Some e" for pid' e
    using tinv that unfolding tables_inv_def by blast
  have fresh: "table_of pm dirs k pid' y \<noteq> Some (PAGE_SIZE * i)" if "y < NUM_ENTRIES" for pid' y
    using old [OF _ that] res(2) by blast
  show "tables_inv pm dirs k'"
    unfolding tables_inv_def
  proof (intro conjI allI impI)
    fix pid1 d1 assume "dirs pid1 = Some d1"
    then show "reserved_frame k' d1" using dir res(1) by blast
  next
    fix pid1 pid2 d1 assume "dirs pid1 = Some d1" "dirs pid2 = Some d1"
    then show "pid1 = pid2" using tinv unfolding tables_inv_def by blast
  next
    fix pid1 y t assume "y < NUM_ENTRIES" "table_of pm dirs k' pid1 y = Some t"
    then show "reserved_frame k' t" using tab old res(1) by (auto split: if_splits)
  next
    fix pid1 y pid2 z t
    assume a: "y < NUM_ENTRIES" "z < NUM_ENTRIES" "table_of pm dirs k' pid1 y = Some t"
      "table_of pm dirs k' pid2 z = Some t"
    have "table_of pm dirs k pid1 y = Some t \<Longrightarrow> table_of pm dirs k pid2 z = Some t \<Longrightarrow>
        pid1 = pid2 \<and> y = z"
      using tinv a(1,2) unfolding tables_inv_def by blast
    then show "pid1 = pid2" "y = z"
      using a tab fresh by (auto split: if_splits)
  next
    fix pid1 y pid2 t assume a: "y < NUM_ENTRIES" "table_of pm dirs k' pid1 y = Some t"
    have "dirs pid2 \<noteq> Some t" if "table_of pm dirs k pid1 y = Some t"
      using tinv a(1) that unfolding tables_inv_def by blast
    moreover have "dirs pid2 \<noteq> Some (PAGE_SIZE * i)" using dir res(2) by blast
    ultimately show "dirs pid2 \<noteq> Some t" using a tab by (auto split: if_splits)
  qed
  show "is_pte pm dirs k' q \<longleftrightarrow> is_pte pm dirs k q \<or> (\<exists>j < NUM_ENTRIES. q = PAGE_SIZE * i + 4 * j)"
  proof
    assume "is_pte pm dirs k' q"
    then show "is_pte pm dirs k q \<or> (\<exists>j < NUM_ENTRIES. q = PAGE_SIZE * i + 4 * j)"
      unfolding is_pte_def using tab by (metis option.inject)
  next
    assume "is_pte pm dirs k q \<or> (\<exists>j < NUM_ENTRIES. q = PAGE_SIZE * i + 4 * j)"
    then show "is_pte pm dirs k' q"
      unfolding is_pte_def using tab x none by (metis option.distinct(1))
  qed
qed

lemma table_added_owners:
  assumes inv: "kernel_inv pm dirs k" and new: "table_added pm dirs k pid d x i k'"
    and none: "table_of pm dirs k pid x = None"
  shows "owners_inv pm dirs k'"
    and "\<And>q off. is_pte pm dirs k q \<Longrightarrow> off < PAGE_SIZE \<Longrightarrow> page_byte pm k' q off = page_byte pm k q off"
proof -
  have tinv: "tables_inv pm dirs k" and oinv: "owners_inv pm dirs k"
      and len: "length (entry_mapping k) = NUM_PHYSICAL_PAGES"
    using inv by (simp_all add: kernel_inv_def)
  have n: "dirs pid = Some d" "x < NUM_ENTRIES" "i < NUM_PHYSICAL_PAGES" "entry_mapping k ! i = Free"
      "entry_mapping k' = (entry_mapping k)[i := RESERVED]" "swap_files k' = swap_files k"
      "\<forall>j < NUM_ENTRIES. word_at k' (PAGE_SIZE * i + 4 * j) = 0"
    using new by (auto simp: table_added_def)
  have words: "word_at k' q = word_at k q" if "is_pte pm dirs k q" for q
  proof -
    have "q \<noteq> d + 4 * x" using dir_word_not_pte [OF tinv n(1,2)] that by blast
    then show ?thesis using new is_pte_structure [OF tinv that] by (simp add: table_added_def)
  qed
  note ptes = table_added_inv(2) [OF assms]
  show "owners_inv pm dirs k'"
    unfolding owners_inv_def
  proof (intro conjI allI impI)
    fix q assume q: "is_pte pm dirs k' q" "entry_present (word_at k' q)"
    then have qk: "is_pte pm dirs k q" using ptes n(7) by auto
    then obtain f where "f < NUM_PHYSICAL_PAGES" "entry_pointer pm (word_at k q) = PAGE_SIZE * f"
        "entry_mapping k ! f = Owner q"
      using present_frame [OF oinv qk] q words by auto
    moreover from this have "f \<noteq> i" using n(4) by auto
    ultimately show "\<exists>f < NUM_PHYSICAL_PAGES. entry_pointer pm (word_at k' q) = PAGE_SIZE * f \<and>
        entry_mapping k' ! f = Owner q"
      using words [OF qk] n(5) by auto
  next
    fix q f assume f: "f < NUM_PHYSICAL_PAGES" "entry_mapping k' ! f = Owner q"
    then have "f \<noteq> i" using n(3,5) len by auto
    then have own_q: "entry_mapping k ! f = Owner q" using f n(5) by simp
    note q = owner_entry [OF oinv f(1) own_q]
    then show "is_pte pm dirs k' q" "entry_present (word_at k' q)"
        "entry_pointer pm (word_at k' q) = PAGE_SIZE * f"
      using words ptes by simp_all
  qed
  show "page_byte pm k' q off = page_byte pm k q off" if q: "is_pte pm dirs k q" "off < PAGE_SIZE" for q off
  proof (rule page_byte_cong [OF oinv q(1) words [OF q(1)]])
    fix f assume f: "f < NUM_PHYSICAL_PAGES" "entry_mapping k ! f = Owner q"
    then have "f \<noteq> i" "entry_mapping k ! f \<noteq> RESERVED" using n(4) by auto
    then show "physical_memory k' (PAGE_SIZE * f + off) = physical_memory k (PAGE_SIZE * f + off)"
      using new f(1) q(2) by (simp add: table_added_def)
  qed (simp add: n(6))
qed

lemma load32_zero:
  "(\<And>a. p \<le> a \<Longrightarrow> a < p + 4 \<Longrightarrow> m a = 0) \<Longrightarrow> load32 m p = 0"
  by (simp add: load32_def)

lemma take_frame_table:
  assumes pm: "page_aligned pm" and inv: "kernel_inv pm dirs k"
    and i: "i < NUM_PHYSICAL_PAGES" "entry_mapping k ! i = Free"
    and d: "dirs pid = Some d" "x < NUM_ENTRIES"
    and k2: "take_frame pm None i k = (k2, a)"
  shows "\<exists>k'. update_entry (d + 4 * x) (map_entry a) k2 = Inr k' \<and>
    table_added pm dirs k pid d x i k'"
proof -
  note tf = take_frame_ok [OF inv i k2]
  let ?p = "d + 4 * x"
  have tinv: "tables_inv pm dirs k" and len: "length (entry_mapping k) = NUM_PHYSICAL_PAGES"
    using inv by (simp_all add: kernel_inv_def)
  have sw: "structure_word k ?p" by (rule dir_word_structure [OF tinv d])
  have sw2: "structure_word k2 ?p" by (rule dir_word_structure [OF tf(7) d])
  define k' where "k' = k2\<lparr>physical_memory := store32 (physical_memory k2) ?p
    (map_entry a (word_at k2 ?p))\<rparr>"
  have run: "update_entry ?p (map_entry a) k2 = Inr k'"
    using deref_structure [OF sw2] by (simp add: update_entry_def k'_def)
  have other: "physical_memory k' (PAGE_SIZE * f + off) = physical_memory k2 (PAGE_SIZE * f + off)"
    if f: "f < NUM_PHYSICAL_PAGES" "entry_mapping k ! f \<noteq> RESERVED" "off < PAGE_SIZE" for f off
    using structure_word_frame [OF sw f(1,2), of "PAGE_SIZE * f + off"] f(3)
    by (force simp: k'_def intro!: store32_other)
  have words: "word_at k' q = word_at k q" if q: "structure_word k q" "q \<noteq> ?p" for q
  proof -
    have "q mod 4 = 0" "?p mod 4 = 0" using structure_word_bound q(1) sw by blast+
    then show ?thesis using word_store_other [of ?p q] q tf(9) [OF q(1)] by (simp add: k'_def)
  qed
  have "word_at k' (PAGE_SIZE * i + 4 * j) = 0" if "j < NUM_ENTRIES" for j
  proof (rule load32_zero)
    fix b assume b: "PAGE_SIZE * i + 4 * j \<le> b" "b < PAGE_SIZE * i + 4 * j + 4"
    then obtain off where "b = PAGE_SIZE * i + off" using le_Suc_ex by force
    moreover from this have "off < PAGE_SIZE" using b that by (simp add: page_simps)
    ultimately show "physical_memory k' b = 0"
      using other i tf(5) by simp
  qed
  moreover have "word_at k' ?p = map_entry a (word_at k2 ?p)" by (simp add: k'_def)
  moreover have "physical_memory k' (PAGE_SIZE * f + off) = physical_memory k (PAGE_SIZE * f + off)"
    if f: "f < NUM_PHYSICAL_PAGES" "entry_mapping k ! f \<noteq> RESERVED" "f \<noteq> i" "off < PAGE_SIZE" for f off
    using other f tf(4) frame_bytes_apart [OF f(3,4)] by simp
  ultimately have "table_added pm dirs k pid d x i k'"
    using d i words tf(1,2,3) entry_pointer_map [OF pm i(1)]
    by (simp add: table_added_def k'_def owner_of_def)
  with run show ?thesis by blast
qed

lemma install_table:
  assumes pm: "page_aligned pm" and inv: "kernel_inv pm dirs k"
    and g: "g < NUM_PHYSICAL_PAGES" "entry_mapping k ! g \<noteq> RESERVED"
    and d: "dirs pid = Some d" "x < NUM_ENTRIES" and none: "table_of pm dirs k pid x = None"
  shows "\<exists>k' i. install_frame pm (d + 4 * x) None k = Inr k' \<and> kernel_inv pm dirs k' \<and>
    (\<forall>pid' y. y < NUM_ENTRIES \<longrightarrow> table_of pm dirs k' pid' y =
      (if pid' = pid \<and> y = x then Some (PAGE_SIZE * i) else table_of pm dirs k pid' y)) \<and>
    (\<forall>q off. is_pte pm dirs k q \<longrightarrow> off < PAGE_SIZE \<longrightarrow> page_byte pm k' q off = page_byte pm k q off) \<and>
    (\<forall>f < NUM_PHYSICAL_PAGES. entry_mapping k' ! f = RESERVED \<longleftrightarrow> f = i \<or> entry_mapping k ! f = RESERVED) \<and>
    (\<forall>j < NUM_ENTRIES. word_at k' (PAGE_SIZE * i + 4 * j) = 0)"
proof -
  obtain k1 i where k1: "ask_kernel_for_frame pm None k = Inr (take_frame pm None i k1)"
      "kernel_inv pm dirs k1" "same_view pm dirs k k1" "i < NUM_PHYSICAL_PAGES"
      "entry_mapping k1 ! i = Free"
      "\<forall>f < NUM_PHYSICAL_PAGES. entry_mapping k1 ! f = RESERVED \<longleftrightarrow> entry_mapping k ! f = RESERVED"
    using ask_ok [OF inv g, of None] by auto
  obtain k2 a where k2: "take_frame pm None i k1 = (k2, a)" by (cases "take_frame pm None i k1")
  obtain k' where k': "update_entry (d + 4 * x) (map_entry a) k2 = Inr k'"
      and new: "table_added pm dirs k1 pid d x i k'"
    using take_frame_table [where dirs = dirs and pid = pid, OF pm k1(2,4,5) d k2] by blast
  have tables: "table_of pm dirs k1 pid' y = table_of pm dirs k pid' y" if "y < NUM_ENTRIES" for pid' y
    using k1(3) that by (simp add: same_view_def)
  have ptes: "is_pte pm dirs k1 q = is_pte pm dirs k q" for q
    by (rule is_pte_cong) (rule tables)
  have none1: "table_of pm dirs k1 pid x = None" using none tables d(2) by simp
  have len: "length (entry_mapping k1) = NUM_PHYSICAL_PAGES" using k1(2) by (simp add: kernel_inv_def)
  have map: "entry_mapping k' = (entry_mapping k1)[i := RESERVED]" "swap_files k' = swap_files k1"
    and zero: "\<forall>j < NUM_ENTRIES. word_at k' (PAGE_SIZE * i + 4 * j) = 0"
    using new by (simp_all add: table_added_def)
  note ta = table_added_inv(1) [OF k1(2) new none1] table_added_owners [OF k1(2) new none1]
  have inv': "kernel_inv pm dirs k'"
    using k1(2) ta(1,2) map by (simp add: kernel_inv_def)
  have run: "install_frame pm (d + 4 * x) None k = Inr k'"
    using k1(1) k2 k' by (simp add: install_frame_def)
  have res: "entry_mapping k' ! f = RESERVED \<longleftrightarrow> f = i \<or> entry_mapping k ! f = RESERVED"
    if "f < NUM_PHYSICAL_PAGES" for f
    using map k1(4,6) len that by (cases "f = i") auto
  have tab: "table_of pm dirs k' pid' y =
      (if pid' = pid \<and> y = x then Some (PAGE_SIZE * i) else table_of pm dirs k pid' y)"
    if "y < NUM_ENTRIES" for pid' y
    using table_added_tables [OF k1(2) new that] tables [OF that] by simp
  have bytes: "page_byte pm k' q off = page_byte pm k q off" if "is_pte pm dirs k q" "off < PAGE_SIZE" for q off
    using ta(3) k1(3) ptes that by (simp add: same_view_def)
  show ?thesis
    by (rule exI [of _ k'], rule exI [of _ i]) (use run inv' tab bytes res zero in blast)
qed

end
