(* ===== verification/Vmem.thy ===== *)
theory Vmem
  imports PageTables
begin

text \<open>
  What the memory management unit promises. The virtual memory of a process is a partial map from
  addresses to bytes, read off the page tables, the frames and the swap files. Eviction,
  swapping, the buffer and the faults keep this view, and a write changes exactly the bytes
  written.
\<close>

section \<open>The virtual memory of the processes\<close>

definition vmem :: "addr32 \<Rightarrow> mmu \<Rightarrow> nat \<Rightarrow> addr32 \<Rightarrow> byte option" where
  "vmem pm m pid va =
     (case table_of pm (page_directories m) (m_kernel m) pid (pd_idx va) of
        None \<Rightarrow> None
      | Some t \<Rightarrow> Some (page_byte pm (m_kernel m) (t + 4 * pte_idx va) (page_offset va)))"

definition tlb_inv :: "addr32 \<Rightarrow> dirs \<Rightarrow> kernel \<Rightarrow> nat \<Rightarrow> tlb \<Rightarrow> bool" where
  "tlb_inv pm dirs k pid t \<longleftrightarrow> t \<noteq> [] \<and> length t \<le> MAX_NODES \<and>
     (\<forall>b p. (b, Some p) \<in> set t \<longrightarrow>
       (\<exists>tab. table_of pm dirs k pid (pd_idx b) = Some tab \<and> p = tab + 4 * pte_idx b))"

definition mmu_inv :: "addr32 \<Rightarrow> mmu \<Rightarrow> bool" where
  "mmu_inv pm m \<longleftrightarrow>
     kernel_inv pm (page_directories m) (m_kernel m) \<and>
     tlb_inv pm (page_directories m) (m_kernel m) (curr_pid m) (m_tlb m) \<and>
     (\<forall>pid. segmentations m pid = None \<longleftrightarrow> page_directories m pid = None)"

text \<open>The later state has the same processes and at least the same virtual memory.\<close>

definition keeps_vmem :: "addr32 \<Rightarrow> mmu \<Rightarrow> mmu \<Rightarrow> bool" where
  "keeps_vmem pm m m' \<longleftrightarrow>
     page_directories m' = page_directories m \<and> segmentations m' = segmentations m \<and>
     (\<forall>pid va b. vmem pm m pid va = Some b \<longrightarrow> vmem pm m' pid va = Some b)"

lemma keeps_vmem_refl [simp]: "keeps_vmem pm m m"
  by (simp add: keeps_vmem_def)

lemma keeps_vmem_trans: "keeps_vmem pm m1 m2 \<Longrightarrow> keeps_vmem pm m2 m3 \<Longrightarrow> keeps_vmem pm m1 m3"
  by (simp add: keeps_vmem_def)

lemma pte_of_address:
  assumes "table_of pm dirs k pid (pd_idx va) = Some t"
  shows "is_pte pm dirs k (t + 4 * pte_idx va)"
  using assms pd_idx_less [of va] pte_idx_less [of va] by (auto simp: is_pte_def page_simps)

text \<open>How a change of the kernel shows in the virtual memory.\<close>

lemma vmem_grow:
  assumes dirs: "page_directories m' = page_directories m"
    and tab: "\<And>pid x t. x < NUM_ENTRIES \<Longrightarrow>
      table_of pm (page_directories m) (m_kernel m) pid x = Some t \<Longrightarrow>
      table_of pm (page_directories m) (m_kernel m') pid x = Some t"
    and bytes: "\<And>q off. is_pte pm (page_directories m) (m_kernel m) q \<Longrightarrow> off < PAGE_SIZE \<Longrightarrow>
      page_byte pm (m_kernel m') q off = page_byte pm (m_kernel m) q off"
    and b: "vmem pm m pid va = Some b"
  shows "vmem pm m' pid va = Some b"
proof -
  obtain t where t: "table_of pm (page_directories m) (m_kernel m) pid (pd_idx va) = Some t"
    using b by (auto simp: vmem_def split: option.splits)
  have "pd_idx va < NUM_ENTRIES" "page_offset va < PAGE_SIZE"
    using pd_idx_less page_offset_less by (simp_all add: page_simps)
  with b t tab bytes [OF pte_of_address [OF t]] show ?thesis
    by (simp add: vmem_def dirs)
qed

lemma tlb_inv_grow:
  assumes "tlb_inv pm dirs k pid t"
    and "\<And>x t. x < NUM_ENTRIES \<Longrightarrow> table_of pm dirs k pid x = Some t \<Longrightarrow>
      table_of pm dirs k' pid x = Some t"
  shows "tlb_inv pm dirs k' pid t"
  unfolding tlb_inv_def
proof (intro conjI allI impI)
  fix b p assume "(b, Some p) \<in> set t"
  then obtain tab where "table_of pm dirs k pid (pd_idx b) = Some tab" "p = tab + 4 * pte_idx b"
    using assms(1) unfolding tlb_inv_def by blast
  moreover have "pd_idx b < NUM_ENTRIES" using pd_idx_less by (simp add: page_simps)
  ultimately show "\<exists>tab. table_of pm dirs k' pid (pd_idx b) = Some tab \<and> p = tab + 4 * pte_idx b"
    using assms(2) by blast
qed (use assms(1) in \<open>auto simp: tlb_inv_def\<close>)

lemma tlb_lookup_in: "tlb_lookup t b = Some p \<Longrightarrow> (b, Some p) \<in> set t"
  by (induction t) (auto split: if_splits)

lemma vmem_fields:
  "vmem pm (m\<lparr>num_page_faults := n\<rparr>) = vmem pm m"
  "vmem pm (m\<lparr>num_tlb_misses := n\<rparr>) = vmem pm m"
  "vmem pm (m\<lparr>num_segmentation_faults := n\<rparr>) = vmem pm m"
  "vmem pm (m\<lparr>m_tlb := t\<rparr>) = vmem pm m"
  "vmem pm (m\<lparr>m_tlb := t, curr_pid := n'\<rparr>) = vmem pm m"
  by (simp_all add: vmem_def fun_eq_iff split: option.split)

lemma mmu_inv_fields:
  "mmu_inv pm (m\<lparr>num_page_faults := n\<rparr>) = mmu_inv pm m"
  "mmu_inv pm (m\<lparr>num_tlb_misses := n\<rparr>) = mmu_inv pm m"
  "mmu_inv pm (m\<lparr>num_segmentation_faults := n\<rparr>) = mmu_inv pm m"
  "keeps_vmem pm m0 (m\<lparr>num_page_faults := n\<rparr>) = keeps_vmem pm m0 m"
  "keeps_vmem pm m0 (m\<lparr>num_tlb_misses := n\<rparr>) = keeps_vmem pm m0 m"
  "keeps_vmem pm m0 (m\<lparr>num_segmentation_faults := n\<rparr>) = keeps_vmem pm m0 m"
  by (simp_all add: mmu_inv_def keeps_vmem_def vmem_fields)

lemma context_switch_ok:
  assumes "mmu_inv pm m"
  shows "mmu_inv pm (context_switch pid m)" "keeps_vmem pm m (context_switch pid m)"
    "curr_pid (context_switch pid m) = pid" "m_kernel (context_switch pid m) = m_kernel m"
  using assms
  by (auto simp: context_switch_def mmu_inv_def tlb_inv_def tlb_flush_def tlb_create_def
      MAX_NODES_def keeps_vmem_def vmem_fields)

section \<open>Translating an address\<close>

lemma ensure_table_ok:
  assumes pm: "page_aligned pm" and inv: "mmu_inv pm m" and d: "page_directories m pid = Some d"
    and u: "1 \<le> unreserved (m_kernel m)"
  shows "\<exists>m' t. ensure_table pm (d + 4 * pd_idx va) m = Inr m' \<and> mmu_inv pm m' \<and>
    keeps_vmem pm m m' \<and> curr_pid m' = curr_pid m \<and> m_tlb m' = m_tlb m \<and>
    table_of pm (page_directories m) (m_kernel m') pid (pd_idx va) = Some t \<and>
    unreserved (m_kernel m) \<le> Suc (unreserved (m_kernel m'))"
proof -
  let ?dirs = "page_directories m" and ?k = "m_kernel m" and ?pde = "d + 4 * pd_idx va"
  have kinv: "kernel_inv pm ?dirs ?k" and tinv: "tables_inv pm ?dirs ?k"
    using inv by (simp_all add: mmu_inv_def kernel_inv_def)
  have idx: "pd_idx va < NUM_ENTRIES" using pd_idx_less by (simp add: page_simps)
  obtain g where g: "g < NUM_PHYSICAL_PAGES" "entry_mapping ?k ! g \<noteq> RESERVED"
    using unreserved_one [OF u] by blast
  note deref = deref_structure [OF dir_word_structure [OF tinv d idx]]
  show ?thesis
  proof (cases "entry_present (word_at ?k ?pde)")
    case True
    then have "table_of pm ?dirs ?k pid (pd_idx va) = Some (entry_pointer pm (word_at ?k ?pde))"
      by (simp add: table_of_def d)
    with True deref inv show ?thesis by (auto simp: ensure_table_def)
  next
    case False
    then have none: "table_of pm ?dirs ?k pid (pd_idx va) = None" by (simp add: table_of_def d)
    obtain k' i where k': "install_frame pm ?pde None ?k = Inr k'" "kernel_inv pm ?dirs k'"
        "\<forall>pid' y. y < NUM_ENTRIES \<longrightarrow> table_of pm ?dirs k' pid' y =
          (if pid' = pid \<and> y = pd_idx va then Some (PAGE_SIZE * i) else table_of pm ?dirs ?k pid' y)"
        "\<forall>q off. is_pte pm ?dirs ?k q \<longrightarrow> off < PAGE_SIZE \<longrightarrow>
          page_byte pm k' q off = page_byte pm ?k q off"
        "\<forall>f < NUM_PHYSICAL_PAGES. entry_mapping k' ! f = RESERVED \<longleftrightarrow>
          f = i \<or> entry_mapping ?k ! f = RESERVED"
      using install_table [where dirs = ?dirs and pid = pid, OF pm kinv g d idx none] by blast
    let ?m = "m\<lparr>num_page_faults := num_page_faults m + 1, m_kernel := k'\<rparr>"
    have grow: "table_of pm ?dirs k' pid' x = Some t"
      if "x < NUM_ENTRIES" "table_of pm ?dirs ?k pid' x = Some t" for pid' x t
      using that none k'(3) by (cases "pid' = pid \<and> x = pd_idx va") auto
    have "tlb_inv pm ?dirs k' (curr_pid m) (m_tlb m)"
      by (rule tlb_inv_grow [where k = ?k]) (use inv grow in \<open>auto simp: mmu_inv_def\<close>)
    moreover have "ensure_table pm ?pde m = Inr ?m"
      using deref False k'(1) by (simp add: ensure_table_def mmu_raise_page_fault_def)
    ultimately have run: "ensure_table pm ?pde m = Inr ?m" "mmu_inv pm ?m"
      using inv k'(2) by (simp_all add: mmu_inv_def)
    have "keeps_vmem pm m ?m"
      using vmem_grow [of ?m m pm] grow k'(4) by (simp add: keeps_vmem_def)
    moreover have "unreserved ?k \<le> Suc (unreserved k')" by (rule unreserved_drop [OF k'(5)])
    moreover have "table_of pm ?dirs k' pid (pd_idx va) = Some (PAGE_SIZE * i)"
      using k'(3) idx by simp
    ultimately show ?thesis using run by (intro exI [of _ ?m] exI [of _ "PAGE_SIZE * i"]) simp
  qed
qed

lemma walk_tables_ok:
  assumes pm: "page_aligned pm" and inv: "mmu_inv pm m" and cur: "curr_pid m = pid"
    and d: "page_directories m pid = Some d"
    and u: "1 \<le> unreserved (m_kernel m)"
  shows "\<exists>m' t. walk_tables pm pid va m = Inr (m', t + 4 * pte_idx va) \<and> mmu_inv pm m' \<and>
    keeps_vmem pm m m' \<and> curr_pid m' = pid \<and>
    table_of pm (page_directories m) (m_kernel m') pid (pd_idx va) = Some t \<and>
    unreserved (m_kernel m) \<le> Suc (unreserved (m_kernel m'))"
proof -
  let ?b = "base_virt_addr va" and ?pde = "d + 4 * pd_idx va"
  obtain m1 t where m1: "ensure_table pm ?pde m = Inr m1" "mmu_inv pm m1" "keeps_vmem pm m m1"
      "curr_pid m1 = pid" "table_of pm (page_directories m) (m_kernel m1) pid (pd_idx va) = Some t"
      "unreserved (m_kernel m) \<le> Suc (unreserved (m_kernel m1))"
    using ensure_table_ok [OF pm inv d u, of va] cur by metis
  have dirs: "page_directories m1 = page_directories m" using m1(3) by (simp add: keeps_vmem_def)
  have tinv: "tables_inv pm (page_directories m) (m_kernel m1)"
    and tlb: "tlb_inv pm (page_directories m) (m_kernel m1) pid (m_tlb m1)"
    using m1(2,4) dirs by (simp_all add: mmu_inv_def kernel_inv_def)
  have "pd_idx va < NUM_ENTRIES" using pd_idx_less by (simp add: page_simps)
  from deref_structure [OF dir_word_structure [OF tinv d this]] m1(5)
  have ptr: "get_system_pointer_from_pde pm ?pde (m_kernel m1) = Inr t"
    by (auto simp: get_system_pointer_from_pde_def table_of_def d split: if_splits)
  obtain t' where t': "tlb_add_pte (m_tlb m1) ?b (Some (t + 4 * pte_idx va)) = Inr t'"
      "length t' \<le> MAX_NODES" "set t' \<subseteq> insert (?b, Some (t + 4 * pte_idx va)) (set (m_tlb m1))" "t' \<noteq> []"
    using tlb_add_pte_spec [of "m_tlb m1" ?b "Some (t + 4 * pte_idx va)"] tlb
    by (auto simp: tlb_inv_def)
  have "tlb_inv pm (page_directories m) (m_kernel m1) pid t'"
    unfolding tlb_inv_def
  proof (intro conjI allI impI)
    fix b p assume "(b, Some p) \<in> set t'"
    then have "(b = ?b \<and> p = t + 4 * pte_idx va) \<or> (b, Some p) \<in> set (m_tlb m1)" using t'(3) by auto
    then show "\<exists>tab. table_of pm (page_directories m) (m_kernel m1) pid (pd_idx b) = Some tab \<and>
        p = tab + 4 * pte_idx b"
      using m1(5) tlb unfolding tlb_inv_def by auto
  qed (use t' in auto)
  then have "mmu_inv pm (m1\<lparr>m_tlb := t'\<rparr>)"
    using m1(2,4) dirs by (simp add: mmu_inv_def)
  moreover have "keeps_vmem pm m (m1\<lparr>m_tlb := t'\<rparr>)"
    using m1(3) by (simp add: keeps_vmem_def vmem_fields)
  moreover have "walk_tables pm pid va m = Inr (m1\<lparr>m_tlb := t'\<rparr>, t + 4 * pte_idx va)"
    using d m1(1) ptr t'(1) by (simp add: walk_tables_def)
  ultimately show ?thesis
    using m1(4,5,6) by (intro exI [of _ "m1\<lparr>m_tlb := t'\<rparr>"] exI [of _ t]) simp
qed

lemma find_pte_ok:
  assumes pm: "page_aligned pm" and inv: "mmu_inv pm m" and cur: "curr_pid m = pid"
    and d: "page_directories m pid = Some d"
    and u: "1 \<le> unreserved (m_kernel m)"
  shows "\<exists>m' t. find_pte pm pid va m = Inr (m', t + 4 * pte_idx va) \<and> mmu_inv pm m' \<and>
    keeps_vmem pm m m' \<and> curr_pid m' = pid \<and>
    table_of pm (page_directories m) (m_kernel m') pid (pd_idx va) = Some t \<and>
    unreserved (m_kernel m) \<le> Suc (unreserved (m_kernel m'))"
proof -
  let ?b = "base_virt_addr va" and ?dirs = "page_directories m"
  have tlb: "tlb_inv pm ?dirs (m_kernel m) pid (m_tlb m)"
    using inv cur by (simp add: mmu_inv_def)
  obtain t1 where t1: "tlb_get_pte (m_tlb m) ?b = Inr (t1, tlb_lookup (m_tlb m) ?b)"
      "mset t1 = mset (m_tlb m)"
    using tlb_get_pte_spec [of "m_tlb m" ?b] tlb by (auto simp: tlb_inv_def)
  have "tlb_inv pm ?dirs (m_kernel m) pid t1"
    using tlb t1(2) unfolding tlb_inv_def by (metis mset_eq_setD size_mset mset_zero_iff)
  then have inv1: "mmu_inv pm (m\<lparr>m_tlb := t1\<rparr>)" using inv cur by (simp add: mmu_inv_def)
  have keep1: "keeps_vmem pm m (m\<lparr>m_tlb := t1\<rparr>)" by (simp add: keeps_vmem_def vmem_fields)
  show ?thesis
  proof (cases "tlb_lookup (m_tlb m) ?b")
    case (Some p)
    then obtain t where t: "table_of pm ?dirs (m_kernel m) pid (pd_idx va) = Some t"
        "p = t + 4 * pte_idx va"
      using tlb tlb_lookup_in [OF Some] unfolding tlb_inv_def by (metis idx_base)
    have "find_pte pm pid va m = Inr (m\<lparr>m_tlb := t1\<rparr>, p)"
      using t1(1) Some by (simp add: find_pte_def)
    then show ?thesis
      using t cur inv1 keep1 by (intro exI [of _ "m\<lparr>m_tlb := t1\<rparr>"] exI [of _ t]) auto
  next
    case None
    let ?m = "mmu_tlb_miss (m\<lparr>m_tlb := t1\<rparr>)"
    have m: "mmu_inv pm ?m" "keeps_vmem pm m ?m"
      using inv1 keep1 by (simp_all only: mmu_tlb_miss_def mmu_inv_fields)
    have same: "curr_pid ?m = pid" "page_directories ?m pid = Some d" "m_kernel ?m = m_kernel m"
        "page_directories ?m = ?dirs"
      using cur d by (simp_all add: mmu_tlb_miss_def)
    obtain m' t where m': "walk_tables pm pid va ?m = Inr (m', t + 4 * pte_idx va)" "mmu_inv pm m'"
        "keeps_vmem pm ?m m'" "curr_pid m' = pid"
        "table_of pm ?dirs (m_kernel m') pid (pd_idx va) = Some t"
        "unreserved (m_kernel m) \<le> Suc (unreserved (m_kernel m'))"
      using walk_tables_ok [OF pm m(1) same(1,2), of va] same(3,4) u by auto
    have "find_pte pm pid va m = Inr (m', t + 4 * pte_idx va)"
      using t1(1) None m'(1) by (simp add: find_pte_def)
    then show ?thesis using m' keeps_vmem_trans [OF m(2) m'(3)] by blast
  qed
qed

section \<open>Reading and writing\<close>

lemma size_check:
  assumes "page_offset va + unat n \<le> PAGE_SIZE"
  shows "(n :: size_t) + ucast (va mod word_of_nat PAGE_SIZE) \<le> word_of_nat PAGE_SIZE"
proof -
  have o: "unat (ucast (va mod word_of_nat PAGE_SIZE) :: size_t) = page_offset va"
  proof -
    have "unat (va mod 4096) < 4096" by (simp add: unat_mod)
    also have "(4096 :: nat) < 2 ^ 64" by simp
    finally have "unat (va mod 4096) < 2 ^ 64" .
    then have "unat (ucast (va mod 4096) :: size_t) = unat (va mod 4096)"
      by (simp add: unsigned_ucast_eq take_bit_nat_eq_self del: unat_mod)
    then show ?thesis by (simp add: PAGE_SIZE_def page_offset_unat unat_mod)
  qed
  have "unat n + page_offset va < 2 ^ 64" using assms by (simp add: PAGE_SIZE_def)
  then have "unat (n + ucast (va mod word_of_nat PAGE_SIZE)) = unat n + page_offset va"
    using o unat_add_lem [of n "ucast (va mod word_of_nat PAGE_SIZE)"] by simp
  then show ?thesis using assms by (simp add: word_le_nat_alt PAGE_SIZE_def)
qed

text \<open>The permission the process needs, and the segments it has.\<close>

definition permitted :: "addr32 \<Rightarrow> addr32 \<Rightarrow> nat \<Rightarrow> mmu \<Rightarrow> bool" where
  "permitted permission va pid m =
     (case segmentations m pid of
        None \<Rightarrow> False
      | Some segs \<Rightarrow> (case find_segment segs va of
            None \<Rightarrow> False
          | Some seg \<Rightarrow> permissions seg AND permission \<noteq> 0))"

lemma mmu_access_ok:
  assumes pm: "page_aligned pm" and inv: "mmu_inv pm m" and pid: "pid < MAX_PROCESS_ID"
    and d: "page_directories m pid \<noteq> None" and two: "2 \<le> unreserved (m_kernel m)"
    and n: "page_offset va + unat n \<le> PAGE_SIZE"
  shows "\<exists>m' r. mmu_access pm permission va pid n m = Inr (m', r) \<and> mmu_inv pm m' \<and>
    keeps_vmem pm m m' \<and> unreserved (m_kernel m) \<le> Suc (unreserved (m_kernel m')) \<and>
    (if permitted permission va pid m
     then \<exists>t f. r = Some (t + 4 * pte_idx va, PAGE_SIZE * f + page_offset va) \<and>
       table_of pm (page_directories m') (m_kernel m') pid (pd_idx va) = Some t \<and>
       f < NUM_PHYSICAL_PAGES \<and> entry_mapping (m_kernel m') ! f = Owner (t + 4 * pte_idx va)
     else r = None)"
proof -
  let ?m = "context_switch pid m"
  note cs = context_switch_ok [OF inv, of pid]
  have same: "page_directories ?m = page_directories m" "segmentations ?m = segmentations m"
    using cs(2) by (simp_all add: keeps_vmem_def)
  obtain segs where segs: "segmentations m pid = Some segs"
    using d inv unfolding mmu_inv_def by fastforce
  have start: "mmu_access pm permission va pid n m =
      (if \<not> address_in_segmentations segs va then Inr (mmu_raise_segmentation_fault ?m, None)
       else rbind (find_pte pm pid va ?m) (\<lambda>(m, pte). rbind (page_in pm pte m) (\<lambda>m.
         case find_segment segs va of
           None \<Rightarrow> Inl NullDeref
         | Some seg \<Rightarrow> if permissions seg AND permission = 0
             then Inr (mmu_raise_segmentation_fault m, None)
             else rbind (get_system_pointer_from_pte pm pte (m_kernel m))
               (\<lambda>p. Inr (m, Some (pte, p + page_offset va))))))"
    using pid size_check [OF n] segs same by (simp add: mmu_access_def)
  show ?thesis
  proof (cases "find_segment segs va")
    case None
    then show ?thesis
      using start segs cs by (simp add: address_in_segmentations_def permitted_def
          mmu_raise_segmentation_fault_def mmu_inv_fields)
  next
    case (Some seg)
    obtain dir where dir: "page_directories ?m pid = Some dir" using d same by auto
    have u: "2 \<le> unreserved (m_kernel ?m)" using two cs(4) by simp
    obtain m1 t where m1: "find_pte pm pid va ?m = Inr (m1, t + 4 * pte_idx va)" "mmu_inv pm m1"
        "keeps_vmem pm ?m m1" "table_of pm (page_directories ?m) (m_kernel m1) pid (pd_idx va) = Some t"
        "unreserved (m_kernel ?m) \<le> Suc (unreserved (m_kernel m1))"
      using find_pte_ok [OF pm cs(1,3) dir, of va] u by auto
    let ?p = "t + 4 * pte_idx va"
    have dirs1: "page_directories m1 = page_directories m"
      using m1(3) same by (simp add: keeps_vmem_def)
    have kinv: "kernel_inv pm (page_directories m) (m_kernel m1)"
      using m1(2) dirs1 by (simp add: mmu_inv_def)
    have pte: "is_pte pm (page_directories m) (m_kernel m1) ?p"
      using pte_of_address [of pm "page_directories m" "m_kernel m1" pid va t] m1(4) same by simp
    obtain g1 where g1: "g1 < NUM_PHYSICAL_PAGES" "entry_mapping (m_kernel m1) ! g1 \<noteq> RESERVED"
      using unreserved_one [of "m_kernel m1"] m1(5) u by auto
    obtain k' c where k': "page_in pm ?p m1 = Inr (m1\<lparr>num_page_faults := c, m_kernel := k'\<rparr>)"
        "kernel_inv pm (page_directories m) k'" "same_view pm (page_directories m) (m_kernel m1) k'"
        "entry_present (word_at k' ?p)" "unreserved k' = unreserved (m_kernel m1)"
      using page_in_ok [OF pm kinv g1 pte] by blast
    let ?m2 = "m1\<lparr>num_page_faults := c, m_kernel := k'\<rparr>"
    have grow: "table_of pm (page_directories m) k' pid' x = table_of pm (page_directories m) (m_kernel m1) pid' x"
      if "x < NUM_ENTRIES" for pid' x
      using k'(3) that by (simp add: same_view_def)
    have "tlb_inv pm (page_directories m) k' (curr_pid m1) (m_tlb m1)"
      by (rule tlb_inv_grow [where k = "m_kernel m1"])
        (use m1(2) dirs1 grow in \<open>auto simp: mmu_inv_def\<close>)
    then have inv2: "mmu_inv pm ?m2" using m1(2) k'(2) dirs1 by (simp add: mmu_inv_def)
    have "keeps_vmem pm m1 ?m2"
      using vmem_grow [of ?m2 m1 pm] grow k'(3) dirs1 by (simp add: keeps_vmem_def same_view_def)
    then have keep2: "keeps_vmem pm m ?m2"
      using keeps_vmem_trans cs(2) m1(3) by blast
    have tab2: "table_of pm (page_directories m) k' pid (pd_idx va) = Some t"
      using grow m1(4) same pd_idx_less [of va] by (simp add: page_simps)
    have pte2: "is_pte pm (page_directories m) k' ?p" by (rule pte_of_address [OF tab2])
    obtain f where f: "f < NUM_PHYSICAL_PAGES" "entry_pointer pm (word_at k' ?p) = PAGE_SIZE * f"
        "entry_mapping k' ! f = Owner ?p"
      using present_frame [of pm "page_directories m" k' ?p] k'(2,4) pte2
      by (auto simp: kernel_inv_def)
    have ptr: "get_system_pointer_from_pte pm ?p k' = Inr (PAGE_SIZE * f)"
      using deref_structure [OF is_pte_structure [OF _ pte2]] k'(2) f(2)
      by (simp add: get_system_pointer_from_pte_def kernel_inv_def)
    have run: "mmu_access pm permission va pid n m =
        (if permissions seg AND permission = 0 then Inr (mmu_raise_segmentation_fault ?m2, None)
         else Inr (?m2, Some (?p, PAGE_SIZE * f + page_offset va)))"
      using start Some m1(1) k'(1) ptr by (simp add: address_in_segmentations_def)
    have drop: "unreserved (m_kernel m) \<le> Suc (unreserved k')" using m1(5) k'(5) cs(4) by simp
    show ?thesis
    proof (cases "permissions seg AND permission = 0")
      case True
      have "mmu_inv pm (mmu_raise_segmentation_fault ?m2)"
          "keeps_vmem pm m (mmu_raise_segmentation_fault ?m2)"
        using inv2 keep2 by (simp_all only: mmu_raise_segmentation_fault_def mmu_inv_fields)
      with True run Some segs drop show ?thesis
        by (simp add: permitted_def mmu_raise_segmentation_fault_def)
    next
      case False
      with run Some segs inv2 keep2 tab2 f(1,3) dirs1 drop show ?thesis by (auto simp: permitted_def)
    qed
  qed
qed

text \<open>Setting the flags of an access changes nothing that is seen.\<close>

lemma update_flags:
  assumes inv: "kernel_inv pm dirs k" and p: "is_pte pm dirs k p" and f: "keeps_mapping f"
  shows "\<exists>k'. update_entry p f k = Inr k' \<and> kernel_inv pm dirs k' \<and> same_view pm dirs k k' \<and>
    entry_mapping k' = entry_mapping k"
proof -
  have tinv: "tables_inv pm dirs k" and oinv: "owners_inv pm dirs k"
    using inv by (simp_all add: kernel_inv_def)
  define k' where "k' = k\<lparr>physical_memory := store32 (physical_memory k) p (f (word_at k p))\<rparr>"
  have run: "update_entry p f k = Inr k'"
    using deref_structure [OF is_pte_structure [OF tinv p]] by (simp add: update_entry_def k'_def)
  have mem: "physical_memory k' = store32 (physical_memory k) p (f (word_at k p))"
    by (simp add: k'_def)
  have rest: "entry_mapping k' = entry_mapping k" "swap_files k' = swap_files k"
    by (simp_all add: k'_def)
  have res: "\<forall>f. entry_mapping k ! f = RESERVED \<longrightarrow> entry_mapping k' ! f = RESERVED"
    by (simp add: rest)
  note st = pte_store [OF tinv p mem res]
  have fw: "entry_present (f w) = entry_present w" "entry_pointer pm (f w) = entry_pointer pm w" for w
    using f unfolding keeps_mapping_def entry_pointer_def by simp_all
  have view: "entry_present (word_at k' q) = entry_present (word_at k q)"
      "entry_pointer pm (word_at k' q) = entry_pointer pm (word_at k q)" if "is_pte pm dirs k q" for q
  proof -
    have "word_at k' q = (if q = p then f (word_at k p) else word_at k q)"
      using that by (simp add: st(4,5) del: load32_store32)
    then show "entry_present (word_at k' q) = entry_present (word_at k q)"
        "entry_pointer pm (word_at k' q) = entry_pointer pm (word_at k q)" using fw by simp_all
  qed
  have "owners_inv pm dirs k'"
    using oinv unfolding owners_inv_def st(3) rest using view by metis
  then have "kernel_inv pm dirs k'" using inv st(2) rest by (simp add: kernel_inv_def)
  moreover have "page_byte pm k' q off = page_byte pm k q off"
    if q: "is_pte pm dirs k q" "off < PAGE_SIZE" for q off
  proof (cases "entry_present (word_at k q)")
    case True
    obtain g where "g < NUM_PHYSICAL_PAGES" "entry_pointer pm (word_at k q) = PAGE_SIZE * g"
        "entry_mapping k ! g = Owner q"
      using present_frame [OF oinv q(1) True] by blast
    then show ?thesis using st(6) [of g "PAGE_SIZE * g + off"] view [OF q(1)] True q(2)
      by (simp add: page_byte_def)
  qed (use view [OF q(1)] rest in \<open>simp add: page_byte_def\<close>)
  ultimately show ?thesis using run st(1) rest by (auto simp: same_view_def)
qed

text \<open>A change of the kernel that keeps the view, under the processor's other state.\<close>

lemma kernel_update_ok:
  assumes inv: "mmu_inv pm m" and k: "kernel_inv pm (page_directories m) k'"
    and view: "same_view pm (page_directories m) (m_kernel m) k'"
  shows "mmu_inv pm (m\<lparr>m_kernel := k'\<rparr>)" "keeps_vmem pm m (m\<lparr>m_kernel := k'\<rparr>)"
proof -
  have tab: "table_of pm (page_directories m) k' pid x = table_of pm (page_directories m) (m_kernel m) pid x"
    if "x < NUM_ENTRIES" for pid x
    using view that by (simp add: same_view_def)
  have "tlb_inv pm (page_directories m) k' (curr_pid m) (m_tlb m)"
    by (rule tlb_inv_grow [where k = "m_kernel m"]) (use inv tab in \<open>auto simp: mmu_inv_def\<close>)
  then show "mmu_inv pm (m\<lparr>m_kernel := k'\<rparr>)" using inv k by (simp add: mmu_inv_def)
  show "keeps_vmem pm m (m\<lparr>m_kernel := k'\<rparr>)"
    using vmem_grow [of "m\<lparr>m_kernel := k'\<rparr>" m pm] tab view
    by (simp add: keeps_vmem_def same_view_def)
qed

lemma owned_byte:
  assumes "kernel_inv pm dirs k" and "f < NUM_PHYSICAL_PAGES" and "entry_mapping k ! f = Owner p"
  shows "page_byte pm k p off = physical_memory k (PAGE_SIZE * f + off)"
  using owner_entry [of pm dirs k f p] assms by (simp add: page_byte_def kernel_inv_def)

lemma vmem_in_page:
  assumes "table_of pm (page_directories m) (m_kernel m) pid (pd_idx va) = Some t"
    and "page_offset va + j < PAGE_SIZE"
  shows "vmem pm m pid (va + word_of_nat j) =
    Some (page_byte pm (m_kernel m) (t + 4 * pte_idx va) (page_offset va + j))"
  using same_page [of va j] assms by (simp add: vmem_def PAGE_SIZE_def)

text \<open>
  A read by a known process never faults while two frames are left for paging. It answers
  exactly when the address lies in a segment that may be read, with the bytes of the process's
  virtual memory at that address, wherever they are: in a frame, on disk, or never touched.
\<close>

lemma mmu_read_ok:
  assumes pm: "page_aligned pm" and inv: "mmu_inv pm m" and pid: "pid < MAX_PROCESS_ID"
    and d: "page_directories m pid \<noteq> None" and two: "2 \<le> unreserved (m_kernel m)"
    and n: "page_offset va + unat n \<le> PAGE_SIZE"
  shows "\<exists>m' r. mmu_read_from_virtual_address pm va pid n m = Inr (m', r) \<and> mmu_inv pm m' \<and>
    keeps_vmem pm m m' \<and> unreserved (m_kernel m) \<le> Suc (unreserved (m_kernel m')) \<and>
    (r \<noteq> None \<longleftrightarrow> permitted READ va pid m) \<and>
    (\<forall>bs. r = Some bs \<longrightarrow> length bs = unat n \<and>
      (\<forall>j < unat n. vmem pm m' pid (va + word_of_nat j) = Some (bs ! j)))"
proof -
  obtain m1 r where m1: "mmu_access pm READ va pid n m = Inr (m1, r)" "mmu_inv pm m1"
      "keeps_vmem pm m m1" "unreserved (m_kernel m) \<le> Suc (unreserved (m_kernel m1))"
      "if permitted READ va pid m
       then \<exists>t f. r = Some (t + 4 * pte_idx va, PAGE_SIZE * f + page_offset va) \<and>
         table_of pm (page_directories m1) (m_kernel m1) pid (pd_idx va) = Some t \<and>
         f < NUM_PHYSICAL_PAGES \<and> entry_mapping (m_kernel m1) ! f = Owner (t + 4 * pte_idx va)
       else r = None"
    using mmu_access_ok [OF assms, of READ] by blast
  show ?thesis
  proof (cases "permitted READ va pid m")
    case False
    then show ?thesis
      using m1 by (intro exI [of _ m1] exI [of _ None]) (simp add: mmu_read_from_virtual_address_def)
  next
    case True
    let ?dirs = "page_directories m1" and ?k = "m_kernel m1"
    obtain t f where t: "r = Some (t + 4 * pte_idx va, PAGE_SIZE * f + page_offset va)"
        "table_of pm ?dirs ?k pid (pd_idx va) = Some t"
        "f < NUM_PHYSICAL_PAGES" "entry_mapping ?k ! f = Owner (t + 4 * pte_idx va)"
      using m1(5) True by auto
    have kinv: "kernel_inv pm ?dirs ?k" using m1(2) by (simp add: mmu_inv_def)
    obtain k' where k': "update_entry (t + 4 * pte_idx va) (set_bit ACCESSED) ?k = Inr k'"
        "kernel_inv pm ?dirs k'" "same_view pm ?dirs ?k k'" "entry_mapping k' = entry_mapping ?k"
      using update_flags [OF kinv pte_of_address [OF t(2)] keeps_mapping_accessed] by blast
    let ?m = "m1\<lparr>m_kernel := k'\<rparr>"
    let ?bs = "load_bytes (physical_memory ?k) (PAGE_SIZE * f + page_offset va) (unat n)"
    note upd = kernel_update_ok [OF m1(2) k'(2,3)]
    have "PAGE_SIZE * f + page_offset va + unat n \<le> PHYSICAL_MEMORY_SIZE"
      using owned_frame_room [OF t(3)] n by linarith
    then have run: "mmu_read_from_virtual_address pm va pid n m = Inr (?m, Some ?bs)"
      using m1(1) t(1) k'(1) by (simp add: mmu_read_from_virtual_address_def)
    have "vmem pm ?m pid (va + word_of_nat j) = Some (?bs ! j)" if j: "j < unat n" for j
    proof -
      have "vmem pm m1 pid (va + word_of_nat j) = Some (?bs ! j)"
        using vmem_in_page [OF t(2), of j] owned_byte [OF kinv t(3,4)] j n
        by (simp add: add.assoc)
      then show ?thesis using upd(2) by (simp add: keeps_vmem_def)
    qed
    moreover have "unreserved k' = unreserved ?k" using k'(4) by (intro unreserved_same) simp
    ultimately show ?thesis
      using run upd(1) keeps_vmem_trans [OF m1(3) upd(2)] True m1(4)
      by (intro exI [of _ ?m] exI [of _ "Some ?bs"]) simp
  qed
qed

lemma address_parts: "unat va = pd_idx va * 4194304 + pte_idx va * 4096 + page_offset va"
proof -
  have "n = n div 4194304 * 4194304 + n div 4096 mod 1024 * 4096 + n mod 4096" for n :: nat
  proof -
    have "n div 4194304 = n div 4096 div 1024" by (simp flip: div_mult2_eq)
    moreover have "n div 4096 div 1024 * 1024 + n div 4096 mod 1024 = n div 4096" by simp
    ultimately have "n div 4194304 * 4194304 + n div 4096 mod 1024 * 4096 = n div 4096 * 4096" by linarith
    then show ?thesis by simp
  qed
  from this [of "unat va"] show ?thesis by (simp add: pd_idx_unat pte_idx_unat page_offset_unat)
qed

lemma address_eq:
  "pd_idx a = pd_idx b \<Longrightarrow> pte_idx a = pte_idx b \<Longrightarrow> page_offset a = page_offset b \<Longrightarrow> a = b"
  using address_parts [of a] address_parts [of b] by (simp add: word_unat_eq_iff)

text \<open>Two addresses with the same entry belong to the same page of the same process.\<close>

lemma same_entry_same_page:
  assumes "tables_inv pm dirs k"
    and "table_of pm dirs k pid (pd_idx a) = Some t" and "table_of pm dirs k pid' (pd_idx b) = Some t'"
    and "t + 4 * pte_idx a = t' + 4 * pte_idx b"
  shows "pid = pid' \<and> pd_idx a = pd_idx b \<and> pte_idx a = pte_idx b"
proof -
  have idx: "pd_idx a < NUM_ENTRIES" "pd_idx b < NUM_ENTRIES" "pte_idx a < NUM_ENTRIES"
      "pte_idx b < NUM_ENTRIES"
    using pd_idx_less pte_idx_less by (simp_all add: page_simps)
  have "reserved_frame k t" "reserved_frame k t'"
    using assms(1-3) idx(1,2) unfolding tables_inv_def by blast+
  then have "t = t'" "pte_idx a = pte_idx b"
    using frames_words_apart [of k t t' "pte_idx a" "pte_idx b"] assms(4) idx by blast+
  moreover from this have "pid = pid' \<and> pd_idx a = pd_idx b"
    using assms(1-3) idx(1,2) unfolding tables_inv_def by blast
  ultimately show ?thesis by blast
qed

text \<open>Storing bytes into the owned page behind an address.\<close>

lemma store_page_ok:
  assumes inv: "mmu_inv pm m" and t: "table_of pm (page_directories m) (m_kernel m) pid (pd_idx va) = Some t"
    and f: "f < NUM_PHYSICAL_PAGES" "entry_mapping (m_kernel m) ! f = Owner (t + 4 * pte_idx va)"
    and len: "page_offset va + length bs \<le> PAGE_SIZE"
    and k': "k' = (m_kernel m)\<lparr>physical_memory :=
      store_bytes (physical_memory (m_kernel m)) (PAGE_SIZE * f + page_offset va) bs\<rparr>"
  shows "mmu_inv pm (m\<lparr>m_kernel := k'\<rparr>)"
    and "table_of pm (page_directories m) k' pid (pd_idx va) = Some t"
    and "\<And>j. j < length bs \<Longrightarrow> vmem pm (m\<lparr>m_kernel := k'\<rparr>) pid (va + word_of_nat j) = Some (bs ! j)"
    and "\<And>pid' va' b. vmem pm m pid' va' = Some b \<Longrightarrow>
      pid' \<noteq> pid \<or> (\<forall>j < length bs. va' \<noteq> va + word_of_nat j) \<Longrightarrow>
      vmem pm (m\<lparr>m_kernel := k'\<rparr>) pid' va' = Some b"
proof -
  let ?k = "m_kernel m" and ?dirs = "page_directories m" and ?p = "t + 4 * pte_idx va"
  let ?m = "m\<lparr>m_kernel := k'\<rparr>"
  have kinv: "kernel_inv pm ?dirs ?k" and tinv: "tables_inv pm ?dirs ?k"
    using inv by (simp_all add: mmu_inv_def kernel_inv_def)
  have mem: "a < PAGE_SIZE * f \<or> PAGE_SIZE * f + PAGE_SIZE \<le> a \<Longrightarrow>
      physical_memory k' a = physical_memory ?k a" for a
    using len by (auto simp: k' intro!: store_bytes_other)
  have rest: "entry_mapping k' = entry_mapping ?k" "swap_files k' = swap_files ?k"
    by (simp_all add: k')
  note fw = frame_write [OF kinv f mem rest]
  have "tlb_inv pm ?dirs k' (curr_pid m) (m_tlb m)"
    by (rule tlb_inv_grow [where k = ?k]) (use inv fw(2) in \<open>auto simp: mmu_inv_def\<close>)
  then show inv': "mmu_inv pm ?m" using inv fw(1) by (simp add: mmu_inv_def)
  have idx: "pd_idx a < NUM_ENTRIES" "page_offset a < PAGE_SIZE" for a
    using pd_idx_less page_offset_less by (simp_all add: page_simps)
  show t': "table_of pm ?dirs k' pid (pd_idx va) = Some t" using fw(2) t idx by simp
  show "vmem pm ?m pid (va + word_of_nat j) = Some (bs ! j)" if "j < length bs" for j
  proof -
    have "page_byte pm k' ?p (page_offset va + j) = bs ! j"
      using fw(6) that by (simp add: k' flip: add.assoc)
    then show ?thesis using vmem_in_page [of pm ?m pid va t j] t' that len by simp
  qed
  show "vmem pm ?m pid' va' = Some b"
    if b: "vmem pm m pid' va' = Some b"
      and out: "pid' \<noteq> pid \<or> (\<forall>j < length bs. va' \<noteq> va + word_of_nat j)" for pid' va' b
  proof -
    obtain u where u: "table_of pm ?dirs ?k pid' (pd_idx va') = Some u"
        "b = page_byte pm ?k (u + 4 * pte_idx va') (page_offset va')"
      using b by (auto simp: vmem_def split: option.splits)
    have u': "table_of pm ?dirs k' pid' (pd_idx va') = Some u" using u(1) fw(2) idx by simp
    have "page_byte pm k' (u + 4 * pte_idx va') (page_offset va') = b"
    proof (cases "u + 4 * pte_idx va' = ?p")
      case False
      then show ?thesis using fw(5) pte_of_address [OF u(1)] idx u(2) by simp
    next
      case True
      then have page: "pid' = pid \<and> pd_idx va' = pd_idx va \<and> pte_idx va' = pte_idx va"
        using same_entry_same_page [OF tinv u(1) t] by simp
      have "\<not> (page_offset va \<le> page_offset va' \<and> page_offset va' < page_offset va + length bs)"
      proof
        assume in_range: "page_offset va \<le> page_offset va' \<and> page_offset va' < page_offset va + length bs"
        define j where "j = page_offset va' - page_offset va"
        have j: "j < length bs" "page_offset va + j = page_offset va'" using in_range j_def by auto
        then have "va' = va + word_of_nat j"
          using page same_page [of va j] len by (intro address_eq) (auto simp: PAGE_SIZE_def)
        with out page j show False by blast
      qed
      then have "physical_memory k' (PAGE_SIZE * f + page_offset va') =
          physical_memory ?k (PAGE_SIZE * f + page_offset va')"
        by (auto simp: k' intro!: store_bytes_other)
      then show ?thesis using fw(6) owned_byte [OF kinv f] True u(2) by simp
    qed
    then show ?thesis using u' by (simp add: vmem_def)
  qed
qed

text \<open>
  A write by a known process happens exactly when the address lies in a segment that may be
  written; then the process's virtual memory holds the new bytes at that address, and no other
  byte of any process has changed, whatever was evicted, swapped or found in the buffer.
\<close>

lemma mmu_write_ok:
  assumes pm: "page_aligned pm" and inv: "mmu_inv pm m" and pid: "pid < MAX_PROCESS_ID"
    and d: "page_directories m pid \<noteq> None" and two: "2 \<le> unreserved (m_kernel m)"
    and len: "page_offset va + length bs \<le> PAGE_SIZE"
  shows "\<exists>m' ok. mmu_write_to_virtual_address pm va pid bs m = Inr (m', ok) \<and> mmu_inv pm m' \<and>
    page_directories m' = page_directories m \<and> segmentations m' = segmentations m \<and>
    unreserved (m_kernel m) \<le> Suc (unreserved (m_kernel m')) \<and>
    (ok \<longleftrightarrow> permitted WRITE va pid m) \<and>
    (ok \<longrightarrow> (\<forall>j < length bs. vmem pm m' pid (va + word_of_nat j) = Some (bs ! j))) \<and>
    (\<forall>pid' va' b. vmem pm m pid' va' = Some b \<longrightarrow>
      \<not> (ok \<and> pid' = pid \<and> (\<exists>j < length bs. va' = va + word_of_nat j)) \<longrightarrow>
      vmem pm m' pid' va' = Some b)"
proof -
  let ?n = "word_of_nat (length bs) :: size_t"
  have "length bs < 2 ^ 64" using len by (simp add: PAGE_SIZE_def)
  then have n: "unat ?n = length bs" by (simp add: unat_of_nat take_bit_nat_eq_self)
  have len': "page_offset va + unat ?n \<le> PAGE_SIZE" using len n by simp
  obtain m1 r where m1: "mmu_access pm WRITE va pid ?n m = Inr (m1, r)" "mmu_inv pm m1"
      "keeps_vmem pm m m1" "unreserved (m_kernel m) \<le> Suc (unreserved (m_kernel m1))"
      "if permitted WRITE va pid m
       then \<exists>t f. r = Some (t + 4 * pte_idx va, PAGE_SIZE * f + page_offset va) \<and>
         table_of pm (page_directories m1) (m_kernel m1) pid (pd_idx va) = Some t \<and>
         f < NUM_PHYSICAL_PAGES \<and> entry_mapping (m_kernel m1) ! f = Owner (t + 4 * pte_idx va)
       else r = None"
    using mmu_access_ok [OF pm inv pid d two len', of WRITE] by blast
  show ?thesis
  proof (cases "permitted WRITE va pid m")
    case False
    then show ?thesis
      using m1 by (intro exI [of _ m1] exI [of _ False])
        (simp add: mmu_write_to_virtual_address_def keeps_vmem_def)
  next
    case True
    let ?dirs = "page_directories m1" and ?k = "m_kernel m1"
    obtain t f where t: "r = Some (t + 4 * pte_idx va, PAGE_SIZE * f + page_offset va)"
        "table_of pm ?dirs ?k pid (pd_idx va) = Some t"
        "f < NUM_PHYSICAL_PAGES" "entry_mapping ?k ! f = Owner (t + 4 * pte_idx va)"
      using m1(5) True by auto
    define k1 where "k1 = ?k\<lparr>physical_memory :=
      store_bytes (physical_memory ?k) (PAGE_SIZE * f + page_offset va) bs\<rparr>"
    let ?m1 = "m1\<lparr>m_kernel := k1\<rparr>"
    note st = store_page_ok [OF m1(2) t(2,3,4) len k1_def]
    have kinv: "kernel_inv pm ?dirs k1" using st(1) by (simp add: mmu_inv_def)
    obtain k' where k': "update_entry (t + 4 * pte_idx va) (\<lambda>w. set_bit DIRTY (set_bit ACCESSED w)) k1 = Inr k'"
        "kernel_inv pm ?dirs k'" "same_view pm ?dirs k1 k'" "entry_mapping k' = entry_mapping k1"
      using update_flags [OF kinv pte_of_address [OF st(2)] keeps_mapping_dirty] by blast
    let ?m = "?m1\<lparr>m_kernel := k'\<rparr>"
    have upd: "mmu_inv pm ?m" "keeps_vmem pm ?m1 ?m"
      using kernel_update_ok [OF st(1), of k'] k'(2,3) by simp_all
    have "PAGE_SIZE * f + page_offset va + length bs \<le> PHYSICAL_MEMORY_SIZE"
      using owned_frame_room [OF t(3)] len by linarith
    then have run: "mmu_write_to_virtual_address pm va pid bs m = Inr (?m, True)"
      using m1(1) t(1) k'(1) by (simp add: mmu_write_to_virtual_address_def k1_def)
    have "vmem pm ?m pid' va' = Some b"
      if "vmem pm m pid' va' = Some b" "pid' \<noteq> pid \<or> (\<forall>j < length bs. va' \<noteq> va + word_of_nat j)" for pid' va' b
      using that m1(3) st(4) upd(2) unfolding keeps_vmem_def by blast
    moreover have "vmem pm ?m pid (va + word_of_nat j) = Some (bs ! j)" if "j < length bs" for j
      using that st(3) upd(2) unfolding keeps_vmem_def by blast
    moreover have "page_directories ?m = page_directories m" "segmentations ?m = segmentations m"
      using m1(3) by (simp_all add: keeps_vmem_def)
    moreover have "unreserved (m_kernel m) \<le> Suc (unreserved (m_kernel ?m))"
      using k'(4) m1(4) unreserved_same [of k' ?k] by (simp add: k1_def)
    ultimately show ?thesis
      using run upd(1) True by (intro exI [of _ ?m] exI [of _ True]) blast
  qed
qed

section \<open>Creating a process\<close>

lemma frame_address_pointer:
  "i < NUM_PHYSICAL_PAGES \<Longrightarrow>
    get_system_pointer_from_address pm (pm + word_of_nat (PAGE_SIZE * i)) = PAGE_SIZE * i"
  using unat_of_nat [of "4096 * i", where ?'a = 32]
  by (simp add: get_system_pointer_from_address_def page_simps del: of_nat_mult)

text \<open>A zeroed reserved frame becomes the page directory of a new process.\<close>

lemma new_directory:
  assumes inv: "kernel_inv pm dirs k" and new: "dirs pid = None"
    and i: "i < NUM_PHYSICAL_PAGES" "entry_mapping k ! i = Free"
    and k': "take_frame pm None i k = (k', a)"
  shows "kernel_inv pm (dirs(pid \<mapsto> PAGE_SIZE * i)) k'"
    and "\<And>x. x < NUM_ENTRIES \<Longrightarrow> table_of pm (dirs(pid \<mapsto> PAGE_SIZE * i)) k' pid x = None"
    and "\<And>pid' x. x < NUM_ENTRIES \<Longrightarrow> pid' \<noteq> pid \<Longrightarrow>
      table_of pm (dirs(pid \<mapsto> PAGE_SIZE * i)) k' pid' x = table_of pm dirs k pid' x"
    and "\<And>q. is_pte pm (dirs(pid \<mapsto> PAGE_SIZE * i)) k' q = is_pte pm dirs k q"
    and "\<And>q off. is_pte pm dirs k q \<Longrightarrow> off < PAGE_SIZE \<Longrightarrow> page_byte pm k' q off = page_byte pm k q off"
    and "\<forall>f < NUM_PHYSICAL_PAGES. entry_mapping k' ! f = RESERVED \<longleftrightarrow> f = i \<or> entry_mapping k ! f = RESERVED"
proof -
  let ?d = "PAGE_SIZE * i" and ?dirs = "dirs(pid \<mapsto> PAGE_SIZE * i)"
  note tf = take_frame_ok [OF inv i k']
  have tinv: "tables_inv pm dirs k" and oinv: "owners_inv pm dirs k"
      and len: "length (entry_mapping k) = NUM_PHYSICAL_PAGES"
    using inv by (simp_all add: kernel_inv_def)
  have map: "entry_mapping k' = (entry_mapping k)[i := RESERVED]" using tf(2) by (simp add: owner_of_def)
  show res: "\<forall>f < NUM_PHYSICAL_PAGES. entry_mapping k' ! f = RESERVED \<longleftrightarrow> f = i \<or> entry_mapping k ! f = RESERVED"
    using map len i by (metis nth_list_update_eq nth_list_update_neq)
  have nr: "\<not> reserved_frame k ?d" using i by (auto simp: reserved_frame_def PAGE_SIZE_def)
  have rf: "reserved_frame k' p \<longleftrightarrow> reserved_frame k p \<or> p = ?d" for p
    using res i(1) unfolding reserved_frame_def by metis
  have zero: "word_at k' (?d + 4 * x) = 0" if "x < NUM_ENTRIES" for x
  proof (rule load32_zero)
    fix b assume b: "?d + 4 * x \<le> b" "b < ?d + 4 * x + 4"
    then obtain off where "b = ?d + off" using le_Suc_ex by force
    moreover from this have "off < PAGE_SIZE" using b that by (simp add: page_simps)
    ultimately show "physical_memory k' b = 0" using tf(5) by simp
  qed
  show none: "table_of pm ?dirs k' pid x = None" if "x < NUM_ENTRIES" for x
    using zero [OF that] by (simp add: table_of_def)
  show tab: "table_of pm ?dirs k' pid' x = table_of pm dirs k pid' x"
    if "x < NUM_ENTRIES" "pid' \<noteq> pid" for pid' x
    using tf(6) that by (simp add: table_of_def)
  have old_none: "table_of pm dirs k pid x = None" for x using new by (simp add: table_of_def)
  have all_tab: "table_of pm ?dirs k' pid' x = table_of pm dirs k pid' x" if "x < NUM_ENTRIES" for pid' x
    using none tab old_none that by (cases "pid' = pid") auto
  show ptes: "is_pte pm ?dirs k' q = is_pte pm dirs k q" for q
    unfolding is_pte_def using all_tab by metis
  have dir: "reserved_frame k d" if "dirs pid' = Some d" for pid' d
    using tinv that unfolding tables_inv_def by blast
  have "tables_inv pm ?dirs k'"
    unfolding tables_inv_def
  proof (intro conjI allI impI)
    fix pid1 d assume "?dirs pid1 = Some d"
    then show "reserved_frame k' d" using dir rf by (auto split: if_splits)
  next
    fix pid1 pid2 d assume "?dirs pid1 = Some d" "?dirs pid2 = Some d"
    moreover have "dirs pid1 = Some d \<Longrightarrow> dirs pid2 = Some d \<Longrightarrow> pid1 = pid2"
      using tinv unfolding tables_inv_def by blast
    ultimately show "pid1 = pid2" using dir nr by (auto split: if_splits)
  next
    fix pid1 x t assume "x < NUM_ENTRIES" "table_of pm ?dirs k' pid1 x = Some t"
    then show "reserved_frame k' t" using tinv all_tab rf unfolding tables_inv_def by metis
  next
    fix pid1 x pid2 y t assume "x < NUM_ENTRIES" "y < NUM_ENTRIES"
      "table_of pm ?dirs k' pid1 x = Some t" "table_of pm ?dirs k' pid2 y = Some t"
    then show "pid1 = pid2" "x = y" using tinv all_tab unfolding tables_inv_def by metis+
  next
    fix pid1 x pid2 t assume a: "x < NUM_ENTRIES" "table_of pm ?dirs k' pid1 x = Some t"
    then have t: "table_of pm dirs k pid1 x = Some t" using all_tab by simp
    then have "reserved_frame k t" "dirs pid2 \<noteq> Some t"
      using tinv a(1) unfolding tables_inv_def by blast+
    then show "?dirs pid2 \<noteq> Some t" using nr by auto
  qed
  moreover have "owners_inv pm ?dirs k'"
    unfolding owners_inv_def
  proof (intro conjI allI impI)
    fix q assume q: "is_pte pm ?dirs k' q" "entry_present (word_at k' q)"
    then have qk: "is_pte pm dirs k q" "word_at k' q = word_at k q" using ptes tf(10) by simp_all
    then obtain f where "f < NUM_PHYSICAL_PAGES" "entry_pointer pm (word_at k q) = PAGE_SIZE * f"
        "entry_mapping k ! f = Owner q"
      using present_frame [OF oinv qk(1)] q by auto
    moreover from this have "f \<noteq> i" using i(2) by auto
    ultimately show "\<exists>f < NUM_PHYSICAL_PAGES. entry_pointer pm (word_at k' q) = PAGE_SIZE * f \<and>
        entry_mapping k' ! f = Owner q"
      using qk map by auto
  next
    fix q f assume f: "f < NUM_PHYSICAL_PAGES" "entry_mapping k' ! f = Owner q"
    then have "f \<noteq> i" using map len i by auto
    then have own_q: "entry_mapping k ! f = Owner q" using f map by simp
    note q = owner_entry [OF oinv f(1) own_q]
    then show "is_pte pm ?dirs k' q" "entry_present (word_at k' q)"
        "entry_pointer pm (word_at k' q) = PAGE_SIZE * f"
      using ptes tf(10) by simp_all
  qed
  ultimately show "kernel_inv pm ?dirs k'" using inv map tf(3) by (simp add: kernel_inv_def)
  show "page_byte pm k' q off = page_byte pm k q off" if q: "is_pte pm dirs k q" "off < PAGE_SIZE" for q off
  proof (rule page_byte_cong [OF oinv q(1) tf(10) [OF q(1)]])
    fix f assume f: "f < NUM_PHYSICAL_PAGES" "entry_mapping k ! f = Owner q"
    then have "f \<noteq> i" using i(2) by auto
    then show "physical_memory k' (PAGE_SIZE * f + off) = physical_memory k (PAGE_SIZE * f + off)"
      using tf(4) frame_bytes_apart [of f i off] q(2) by simp
  qed (simp add: tf(3))
qed

lemma map_testing_ok:
  assumes pm: "page_aligned pm" and inv: "kernel_inv pm dirs k" and d: "dirs pid = Some d"
    and t: "table_of pm dirs k pid 0 = Some t" and u: "1 \<le> unreserved k" and j: "j < NUM_ENTRIES"
    and np: "\<not> entry_present (word_at k (t + 4 * j))"
  shows "\<exists>k'. map_testing_page pm d j k = Inr k' \<and> kernel_inv pm dirs k' \<and>
    (\<forall>pid x. x < NUM_ENTRIES \<longrightarrow> table_of pm dirs k' pid x = table_of pm dirs k pid x) \<and>
    (\<forall>q off. is_pte pm dirs k q \<longrightarrow> q \<noteq> t + 4 * j \<longrightarrow> off < PAGE_SIZE \<longrightarrow>
      page_byte pm k' q off = page_byte pm k q off) \<and>
    (\<forall>off < PAGE_SIZE. page_byte pm k' (t + 4 * j) off = 0) \<and> unreserved k' = unreserved k \<and>
    (\<forall>q. is_pte pm dirs k q \<longrightarrow> q \<noteq> t + 4 * j \<longrightarrow> \<not> entry_present (word_at k q) \<longrightarrow>
      \<not> entry_present (word_at k' q))"
proof -
  have tinv: "tables_inv pm dirs k" using inv by (simp add: kernel_inv_def)
  have 0: "0 < NUM_ENTRIES" by (simp add: NUM_ENTRIES_def)
  have p: "is_pte pm dirs k (t + 4 * j)" using t 0 j unfolding is_pte_def by blast
  have ptr: "get_system_pointer_from_pde pm d k = Inr t"
    using deref_structure [OF dir_word_structure [OF tinv d 0]] t
    by (auto simp: get_system_pointer_from_pde_def table_of_def d split: if_splits)
  obtain g where g: "g < NUM_PHYSICAL_PAGES" "entry_mapping k ! g \<noteq> RESERVED"
    using unreserved_one [OF u] by blast
  obtain k' where k': "install_frame pm (t + 4 * j) (Some (t + 4 * j)) k = Inr k'" "kernel_inv pm dirs k'"
      "\<forall>pid x. x < NUM_ENTRIES \<longrightarrow> table_of pm dirs k' pid x = table_of pm dirs k pid x"
      "\<forall>q off. is_pte pm dirs k q \<longrightarrow> q \<noteq> t + 4 * j \<longrightarrow> off < PAGE_SIZE \<longrightarrow>
        page_byte pm k' q off = page_byte pm k q off"
      "\<forall>off < PAGE_SIZE. page_byte pm k' (t + 4 * j) off = 0"
      "\<forall>f < NUM_PHYSICAL_PAGES. entry_mapping k' ! f = RESERVED \<longleftrightarrow> entry_mapping k ! f = RESERVED"
      "\<forall>q. is_pte pm dirs k q \<longrightarrow> q \<noteq> t + 4 * j \<longrightarrow> \<not> entry_present (word_at k q) \<longrightarrow>
        \<not> entry_present (word_at k' q)"
    using install_page [OF pm inv g p np] by blast
  have "map_testing_page pm d j k = Inr k'" using ptr k'(1) by (simp add: map_testing_page_def)
  with k' unreserved_same [OF k'(6)] show ?thesis by blast
qed

lemma testing_address:
  assumes "4096 \<le> unat va" and "unat va < 12288"
  shows "pd_idx va = 0" "pte_idx va = 1 \<or> pte_idx va = 2"
proof -
  show "pd_idx va = 0" using assms by (simp add: pd_idx_unat)
  have "1 \<le> unat va div 4096" "unat va div 4096 < 3"
    using assms by (simp_all add: less_mult_imp_div_less)
  moreover from this have "unat va div 4096 mod 1024 = unat va div 4096" by simp
  ultimately show "pte_idx va = 1 \<or> pte_idx va = 2" unfolding pte_idx_unat by linarith
qed

text \<open>The loop over the two testing pages.\<close>

lemma testing_pages_ok:
  assumes pm: "page_aligned pm" and inv: "kernel_inv pm dirs k" and d: "dirs pid = Some d"
    and t: "table_of pm dirs k pid 0 = Some t" and u: "1 \<le> unreserved k"
    and zero: "\<forall>j < NUM_ENTRIES. word_at k (t + 4 * j) = 0"
  shows "\<exists>k'. rfold (map_testing_page pm d) [1..<3] k = Inr k' \<and> kernel_inv pm dirs k' \<and>
    (\<forall>pid x. x < NUM_ENTRIES \<longrightarrow> table_of pm dirs k' pid x = table_of pm dirs k pid x) \<and>
    (\<forall>q off. is_pte pm dirs k q \<longrightarrow> (\<forall>j < NUM_ENTRIES. q \<noteq> t + 4 * j) \<longrightarrow> off < PAGE_SIZE \<longrightarrow>
      page_byte pm k' q off = page_byte pm k q off) \<and>
    (\<forall>off < PAGE_SIZE. page_byte pm k' (t + 4 * 1) off = 0 \<and> page_byte pm k' (t + 4 * 2) off = 0) \<and>
    unreserved k' = unreserved k"
proof -
  have js: "0 < NUM_ENTRIES" "1 < NUM_ENTRIES" "2 < NUM_ENTRIES" by (simp_all add: NUM_ENTRIES_def)
  have pte: "is_pte pm dirs k (t + 4 * j)" if "j < NUM_ENTRIES" for j
    using t js(1) that unfolding is_pte_def by blast
  have "\<not> entry_present (word_at k (t + 4 * 1))" "\<not> entry_present (word_at k (t + 4 * 2))"
    using zero js by (metis entry_present_0)+
  then obtain k4 where k4: "map_testing_page pm d 1 k = Inr k4" "kernel_inv pm dirs k4"
      "\<forall>pid x. x < NUM_ENTRIES \<longrightarrow> table_of pm dirs k4 pid x = table_of pm dirs k pid x"
      "\<forall>q off. is_pte pm dirs k q \<longrightarrow> q \<noteq> t + 4 * 1 \<longrightarrow> off < PAGE_SIZE \<longrightarrow>
        page_byte pm k4 q off = page_byte pm k q off"
      "\<forall>off < PAGE_SIZE. page_byte pm k4 (t + 4 * 1) off = 0" "unreserved k4 = unreserved k"
      "\<not> entry_present (word_at k4 (t + 4 * 2))"
    using map_testing_ok [OF pm inv d t u js(2)] pte [OF js(3)] by fastforce
  have t4: "table_of pm dirs k4 pid 0 = Some t" using k4(3) t js(1) by simp
  have u4: "1 \<le> unreserved k4" using k4(6) u by simp
  obtain k5 where k5: "map_testing_page pm d 2 k4 = Inr k5" "kernel_inv pm dirs k5"
      "\<forall>pid x. x < NUM_ENTRIES \<longrightarrow> table_of pm dirs k5 pid x = table_of pm dirs k4 pid x"
      "\<forall>q off. is_pte pm dirs k4 q \<longrightarrow> q \<noteq> t + 4 * 2 \<longrightarrow> off < PAGE_SIZE \<longrightarrow>
        page_byte pm k5 q off = page_byte pm k4 q off"
      "\<forall>off < PAGE_SIZE. page_byte pm k5 (t + 4 * 2) off = 0" "unreserved k5 = unreserved k4"
    using map_testing_ok [OF pm k4(2) d t4 u4 js(3) k4(7)] by blast
  have pte4: "is_pte pm dirs k4 q = is_pte pm dirs k q" for q
    by (rule is_pte_cong) (use k4(3) in blast)
  have "page_byte pm k5 q off = page_byte pm k q off"
    if "is_pte pm dirs k q" "\<forall>j < NUM_ENTRIES. q \<noteq> t + 4 * j" "off < PAGE_SIZE" for q off
    using k4(4) k5(4) pte4 that js by metis
  moreover have "page_byte pm k5 (t + 4 * 1) off = 0" if "off < PAGE_SIZE" for off
    using k5(4) k4(5) pte4 pte [OF js(2)] that by simp
  moreover have "rfold (map_testing_page pm d) [1..<3] k = Inr k5"
    using k4(1) k5(1) by (simp add: upt_rec numeral_eq_Suc)
  ultimately show ?thesis using k4(3,6) k5(2,3,5,6) by (intro exI [of _ k5]) auto
qed

text \<open>The whole sequence of allocations for a new process.\<close>

lemma new_process_kernel:
  assumes pm: "page_aligned pm" and inv: "kernel_inv pm dirs k" and new: "dirs pid = None"
    and u: "3 \<le> unreserved k"
  shows "\<exists>k2 k3 k5 a d t.
    ask_kernel_for_frame pm None k = Inr (k2, a) \<and> get_system_pointer_from_address pm a = d \<and>
    install_frame pm d None k2 = Inr k3 \<and> rfold (map_testing_page pm d) [1..<3] k3 = Inr k5 \<and>
    kernel_inv pm (dirs(pid \<mapsto> d)) k5 \<and> table_of pm (dirs(pid \<mapsto> d)) k5 pid 0 = Some t \<and>
    (\<forall>off < PAGE_SIZE. page_byte pm k5 (t + 4 * 1) off = 0 \<and> page_byte pm k5 (t + 4 * 2) off = 0) \<and>
    (\<forall>pid' x t'. x < NUM_ENTRIES \<longrightarrow> table_of pm dirs k pid' x = Some t' \<longrightarrow>
      table_of pm (dirs(pid \<mapsto> d)) k5 pid' x = Some t') \<and>
    (\<forall>q off. is_pte pm dirs k q \<longrightarrow> off < PAGE_SIZE \<longrightarrow> page_byte pm k5 q off = page_byte pm k q off) \<and>
    unreserved k \<le> unreserved k5 + 2"
proof -
  obtain g where g: "g < NUM_PHYSICAL_PAGES" "entry_mapping k ! g \<noteq> RESERVED"
    using unreserved_one [of k] u by auto
  obtain k1 i where k1: "ask_kernel_for_frame pm None k = Inr (take_frame pm None i k1)"
      "kernel_inv pm dirs k1" "same_view pm dirs k k1" "i < NUM_PHYSICAL_PAGES"
      "entry_mapping k1 ! i = Free"
      "\<forall>f < NUM_PHYSICAL_PAGES. entry_mapping k1 ! f = RESERVED \<longleftrightarrow> entry_mapping k ! f = RESERVED"
    using ask_ok [OF inv g, of None] by auto
  obtain k2 a where k2: "take_frame pm None i k1 = (k2, a)" by (cases "take_frame pm None i k1")
  define d where "d = PAGE_SIZE * i"
  let ?dirs = "dirs(pid \<mapsto> d)"
  note nd = new_directory [where dirs = dirs and pid = pid, OF k1(2) new k1(4,5) k2, folded d_def]
  have a: "get_system_pointer_from_address pm a = d"
    using take_frame_ok(1) [OF k1(2,4,5) k2] frame_address_pointer [OF k1(4)] by (simp add: d_def)
  have u2: "2 \<le> unreserved k2" "unreserved k \<le> Suc (unreserved k2)"
    using unreserved_drop [OF nd(6)] unreserved_same [OF k1(6)] u by simp_all
  obtain g2 where g2: "g2 < NUM_PHYSICAL_PAGES" "entry_mapping k2 ! g2 \<noteq> RESERVED"
    using unreserved_one [of k2] u2(1) by auto
  have 0: "0 < NUM_ENTRIES" by (simp add: NUM_ENTRIES_def)
  have d: "?dirs pid = Some d" by simp
  obtain k3 t where k3: "install_frame pm (d + 4 * 0) None k2 = Inr k3" "kernel_inv pm ?dirs k3"
      "\<forall>pid' y. y < NUM_ENTRIES \<longrightarrow> table_of pm ?dirs k3 pid' y =
        (if pid' = pid \<and> y = 0 then Some t else table_of pm ?dirs k2 pid' y)"
      "\<forall>q off. is_pte pm ?dirs k2 q \<longrightarrow> off < PAGE_SIZE \<longrightarrow> page_byte pm k3 q off = page_byte pm k2 q off"
      "unreserved k2 \<le> Suc (unreserved k3)" "\<forall>j < NUM_ENTRIES. word_at k3 (t + 4 * j) = 0"
    using install_table [OF pm nd(1) g2 d 0 nd(2) [OF 0]] unreserved_drop by blast
  have t3: "table_of pm ?dirs k3 pid 0 = Some t" using k3(3) 0 by simp
  have u3: "1 \<le> unreserved k3" using k3(5) u2 by simp
  obtain k5 where k5: "rfold (map_testing_page pm d) [1..<3] k3 = Inr k5" "kernel_inv pm ?dirs k5"
      "\<forall>pid x. x < NUM_ENTRIES \<longrightarrow> table_of pm ?dirs k5 pid x = table_of pm ?dirs k3 pid x"
      "\<forall>q off. is_pte pm ?dirs k3 q \<longrightarrow> (\<forall>j < NUM_ENTRIES. q \<noteq> t + 4 * j) \<longrightarrow> off < PAGE_SIZE \<longrightarrow>
        page_byte pm k5 q off = page_byte pm k3 q off"
      "\<forall>off < PAGE_SIZE. page_byte pm k5 (t + 4 * 1) off = 0 \<and> page_byte pm k5 (t + 4 * 2) off = 0"
      "unreserved k5 = unreserved k3"
    using testing_pages_ok [OF pm k3(2) d t3 u3 k3(6)] by blast
  have tab3: "table_of pm ?dirs k3 pid' x = Some t'" "pid' \<noteq> pid"
    if "x < NUM_ENTRIES" "table_of pm dirs k pid' x = Some t'" for pid' x t'
  proof -
    show "pid' \<noteq> pid" using that new by (auto simp: table_of_def)
    then show "table_of pm ?dirs k3 pid' x = Some t'"
      using that k3(3) nd(3) k1(3) by (simp add: same_view_def)
  qed
  have bytes: "page_byte pm k5 q off = page_byte pm k q off" if q: "is_pte pm dirs k q" "off < PAGE_SIZE" for q off
  proof -
    obtain pid' x t' j where t': "x < NUM_ENTRIES" "j < NUM_ENTRIES" "table_of pm dirs k pid' x = Some t'"
        "q = t' + 4 * j"
      using q(1) unfolding is_pte_def by blast
    have "t' \<noteq> t \<and> reserved_frame k3 t' \<and> reserved_frame k3 t"
      using t3 0 t'(1) tab3 [OF t'(1,3)] k3(2) unfolding kernel_inv_def tables_inv_def by blast
    then have "q \<noteq> t + 4 * j'" if "j' < NUM_ENTRIES" for j'
      using frames_words_apart [of k3 t' t j j'] t'(2,4) that by metis
    moreover have "is_pte pm ?dirs k3 q" using tab3(1) [OF t'(1,3)] t' unfolding is_pte_def by blast
    ultimately have "page_byte pm k5 q off = page_byte pm k3 q off" using k5(4) q(2) by blast
    moreover have q1: "is_pte pm dirs k1 q"
      using is_pte_cong [of pm dirs k1 k q] k1(3) q(1) by (simp add: same_view_def)
    ultimately show ?thesis
      using k3(4) nd(4,5) [of q] q k1(3) by (simp add: same_view_def)
  qed
  have "unreserved k \<le> unreserved k5 + 2" using u2 k3(5) k5(6) by simp
  moreover have "table_of pm ?dirs k5 pid 0 = Some t" using k5(3) t3 0 by simp
  ultimately show ?thesis
    using k1(1) k2 a k3(1) k5(1,2,3,5) tab3(1) bytes
    by (intro exI [of _ k2] exI [of _ k3] exI [of _ k5] exI [of _ a] exI [of _ d] exI [of _ t]) simp
qed

lemma add_process_ok:
  assumes pm: "page_aligned pm" and inv: "mmu_inv pm m" and pid: "pid < MAX_PROCESS_ID"
    and new: "page_directories m pid = None" and u: "3 \<le> unreserved (m_kernel m)"
  shows "\<exists>m'. mmu_add_process pm pid m = Inr m' \<and> mmu_inv pm m' \<and>
    page_directories m' pid \<noteq> None \<and> segmentations m' pid = Some initial_segments \<and>
    (\<forall>va. 4096 \<le> unat va \<longrightarrow> unat va < 12288 \<longrightarrow> vmem pm m' pid va = Some 0) \<and>
    (\<forall>pid' va b. vmem pm m pid' va = Some b \<longrightarrow> vmem pm m' pid' va = Some b) \<and>
    unreserved (m_kernel m) \<le> unreserved (m_kernel m') + 2"
proof -
  let ?dirs = "page_directories m" and ?k = "m_kernel m"
  have kinv: "kernel_inv pm ?dirs ?k" using inv by (simp add: mmu_inv_def)
  obtain k2 k3 k5 a d t where k: "ask_kernel_for_frame pm None ?k = Inr (k2, a)"
      "get_system_pointer_from_address pm a = d" "install_frame pm d None k2 = Inr k3"
      "rfold (map_testing_page pm d) [1..<3] k3 = Inr k5"
      "kernel_inv pm (?dirs(pid \<mapsto> d)) k5" "table_of pm (?dirs(pid \<mapsto> d)) k5 pid 0 = Some t"
      "\<forall>off < PAGE_SIZE. page_byte pm k5 (t + 4 * 1) off = 0 \<and> page_byte pm k5 (t + 4 * 2) off = 0"
      "\<forall>pid' x t'. x < NUM_ENTRIES \<longrightarrow> table_of pm ?dirs ?k pid' x = Some t' \<longrightarrow>
        table_of pm (?dirs(pid \<mapsto> d)) k5 pid' x = Some t'"
      "\<forall>q off. is_pte pm ?dirs ?k q \<longrightarrow> off < PAGE_SIZE \<longrightarrow> page_byte pm k5 q off = page_byte pm ?k q off"
      "unreserved ?k \<le> unreserved k5 + 2"
    using new_process_kernel [OF pm kinv new u] by blast
  define m' where "m' = m\<lparr>page_directories := ?dirs(pid \<mapsto> d),
    segmentations := (segmentations m)(pid \<mapsto> initial_segments), m_kernel := k5\<rparr>"
  have run: "mmu_add_process pm pid m = Inr m'"
    using pid k(1-4) by (simp add: mmu_add_process_def m'_def Let_def del: upt_rec_numeral)
  have idx: "pd_idx va < NUM_ENTRIES" "page_offset va < PAGE_SIZE" for va
    using pd_idx_less page_offset_less by (simp_all add: page_simps)
  have "tlb_inv pm ?dirs ?k (curr_pid m) (m_tlb m)" using inv by (simp add: mmu_inv_def)
  then have "tlb_inv pm (?dirs(pid \<mapsto> d)) k5 (curr_pid m) (m_tlb m)"
    using k(8) idx(1) unfolding tlb_inv_def by metis
  then have inv': "mmu_inv pm m'" using inv k(5) by (simp add: mmu_inv_def m'_def)
  have fresh: "vmem pm m' pid va = Some 0" if va: "4096 \<le> unat va" "unat va < 12288" for va
    using testing_address [OF va] k(6,7) idx(2) by (auto simp: vmem_def m'_def)
  have keep: "vmem pm m' pid' va = Some b" if b: "vmem pm m pid' va = Some b" for pid' va b
  proof -
    obtain t' where "table_of pm ?dirs ?k pid' (pd_idx va) = Some t'"
        "b = page_byte pm ?k (t' + 4 * pte_idx va) (page_offset va)"
      using b by (auto simp: vmem_def split: option.splits)
    then show ?thesis using k(8,9) pte_of_address idx by (simp add: vmem_def m'_def)
  qed
  show ?thesis
    using run inv' fresh keep k(10) by (intro exI [of _ m']) (simp add: m'_def)
qed

section \<open>The specification: a flat memory per process\<close>

datatype access = Read nat addr32 size_t | Write nat addr32 "byte list"
datatype outcome = Bytes "byte list option" | Done bool

type_synonym flat_memory = "nat \<Rightarrow> addr32 \<Rightarrow> byte"

text \<open>What a process without paging would see; \<open>may permission va pid\<close> are the rights.\<close>

fun flat_step :: "(addr32 \<Rightarrow> addr32 \<Rightarrow> nat \<Rightarrow> bool) \<Rightarrow> access \<Rightarrow> flat_memory \<Rightarrow> flat_memory \<times> outcome" where
  "flat_step may (Read pid va n) M =
     (M, Bytes (if may READ va pid
        then Some (map (\<lambda>j. M pid (va + word_of_nat j)) [0..<unat n]) else None))"
| "flat_step may (Write pid va bs) M =
     (if may WRITE va pid
      then (\<lambda>pid' va'. if pid' = pid \<and> unat (va' - va) < length bs then bs ! unat (va' - va)
              else M pid' va', Done True)
      else (M, Done False))"

fun flat_run :: "(addr32 \<Rightarrow> addr32 \<Rightarrow> nat \<Rightarrow> bool) \<Rightarrow> access list \<Rightarrow> flat_memory \<Rightarrow> outcome list" where
  "flat_run may [] M = []"
| "flat_run may (x # xs) M = (case flat_step may x M of (M, r) \<Rightarrow> r # flat_run may xs M)"

fun mmu_step :: "addr32 \<Rightarrow> access \<Rightarrow> mmu \<Rightarrow> (mmu \<times> outcome) result" where
  "mmu_step pm (Read pid va n) m =
     rbind (mmu_read_from_virtual_address pm va pid n m) (\<lambda>(m, r). Inr (m, Bytes r))"
| "mmu_step pm (Write pid va bs) m =
     rbind (mmu_write_to_virtual_address pm va pid bs m) (\<lambda>(m, ok). Inr (m, Done ok))"

fun mmu_run :: "addr32 \<Rightarrow> access list \<Rightarrow> mmu \<Rightarrow> (mmu \<times> outcome list) result" where
  "mmu_run pm [] m = Inr (m, [])"
| "mmu_run pm (x # xs) m = rbind (mmu_step pm x m) (\<lambda>(m, r).
     rbind (mmu_run pm xs m) (\<lambda>(m, rs). Inr (m, r # rs)))"

text \<open>An access by a process that exists, within one page, as the header of the unit demands.\<close>

fun proper :: "mmu \<Rightarrow> access \<Rightarrow> bool" where
  "proper m (Read pid va n) =
     (pid < MAX_PROCESS_ID \<and> page_directories m pid \<noteq> None \<and> page_offset va + unat n \<le> PAGE_SIZE)"
| "proper m (Write pid va bs) =
     (pid < MAX_PROCESS_ID \<and> page_directories m pid \<noteq> None \<and> page_offset va + length bs \<le> PAGE_SIZE)"

text \<open>\<open>M\<close> is a memory the processes may believe to have.\<close>

definition agrees :: "addr32 \<Rightarrow> mmu \<Rightarrow> flat_memory \<Rightarrow> bool" where
  "agrees pm m M \<longleftrightarrow> (\<forall>pid va b. vmem pm m pid va = Some b \<longrightarrow> M pid va = b)"

lemma in_range_iff:
  assumes "n \<le> PAGE_SIZE"
  shows "unat (va' - va :: addr32) < n \<longleftrightarrow> (\<exists>j < n. va' = va + word_of_nat j)"
proof
  assume "unat (va' - va) < n"
  then show "\<exists>j < n. va' = va + word_of_nat j"
    by (intro exI [of _ "unat (va' - va)"]) simp
next
  assume "\<exists>j < n. va' = va + word_of_nat j"
  then obtain j where j: "j < n" "va' = va + word_of_nat j" by blast
  have "j < 2 ^ 32" using j(1) assms by (simp add: PAGE_SIZE_def)
  then have "unat (word_of_nat j :: addr32) = j" by (simp add: unat_of_nat take_bit_nat_eq_self)
  moreover have "va' - va = word_of_nat j" using j(2) by simp
  ultimately show "unat (va' - va) < n" using j(1) by metis
qed

lemma step_refines:
  assumes pm: "page_aligned pm" and inv: "mmu_inv pm m" and ok: "proper m x"
    and u: "2 \<le> unreserved (m_kernel m)"
  shows "\<exists>m' r. mmu_step pm x m = Inr (m', r) \<and> mmu_inv pm m' \<and>
    page_directories m' = page_directories m \<and> segmentations m' = segmentations m \<and>
    unreserved (m_kernel m) \<le> Suc (unreserved (m_kernel m')) \<and>
    (\<forall>M'. agrees pm m' M' \<longrightarrow>
      (\<exists>M. agrees pm m M \<and> flat_step (\<lambda>perm va pid. permitted perm va pid m) x M = (M', r)))"
proof (cases x)
  case (Read pid va n)
  then have pre: "pid < MAX_PROCESS_ID" "page_directories m pid \<noteq> None" "page_offset va + unat n \<le> PAGE_SIZE"
    using ok by simp_all
  obtain m' r where m': "mmu_read_from_virtual_address pm va pid n m = Inr (m', r)" "mmu_inv pm m'"
      "keeps_vmem pm m m'" "unreserved (m_kernel m) \<le> Suc (unreserved (m_kernel m'))"
      "r \<noteq> None \<longleftrightarrow> permitted READ va pid m"
      "\<forall>bs. r = Some bs \<longrightarrow> length bs = unat n \<and>
        (\<forall>j < unat n. vmem pm m' pid (va + word_of_nat j) = Some (bs ! j))"
    using mmu_read_ok [OF pm inv pre(1,2) u pre(3)] by blast
  have "agrees pm m M' \<and> flat_step (\<lambda>perm va pid. permitted perm va pid m) x M' = (M', Bytes r)"
    if M': "agrees pm m' M'" for M'
  proof
    show "agrees pm m M'" using M' m'(3) by (simp add: agrees_def keeps_vmem_def)
    show "flat_step (\<lambda>perm va pid. permitted perm va pid m) x M' = (M', Bytes r)"
    proof (cases r)
      case (Some bs)
      have "bs = map (\<lambda>j. M' pid (va + word_of_nat j)) [0..<unat n]"
        using m'(6) Some M' by (intro nth_equalityI) (auto simp: agrees_def)
      then show ?thesis using Some m'(5) Read by simp
    qed (use m'(5) Read in simp)
  qed
  then show ?thesis
    using m'(1-4) Read by (intro exI [of _ m'] exI [of _ "Bytes r"]) (auto simp: keeps_vmem_def)
next
  case (Write pid va bs)
  then have pre: "pid < MAX_PROCESS_ID" "page_directories m pid \<noteq> None" "page_offset va + length bs \<le> PAGE_SIZE"
    using ok by simp_all
  obtain m' did where m': "mmu_write_to_virtual_address pm va pid bs m = Inr (m', did)" "mmu_inv pm m'"
      "page_directories m' = page_directories m" "segmentations m' = segmentations m"
      "unreserved (m_kernel m) \<le> Suc (unreserved (m_kernel m'))"
      "did \<longleftrightarrow> permitted WRITE va pid m"
      "did \<longrightarrow> (\<forall>j < length bs. vmem pm m' pid (va + word_of_nat j) = Some (bs ! j))"
      "\<forall>pid' va' b. vmem pm m pid' va' = Some b \<longrightarrow>
        \<not> (did \<and> pid' = pid \<and> (\<exists>j < length bs. va' = va + word_of_nat j)) \<longrightarrow>
        vmem pm m' pid' va' = Some b"
    using mmu_write_ok [OF pm inv pre(1,2) u pre(3)] by blast
  have len: "length bs \<le> PAGE_SIZE" using pre(3) by simp
  let ?hit = "\<lambda>pid' va'. did \<and> pid' = pid \<and> unat (va' - va) < length bs"
  have "\<exists>M. agrees pm m M \<and> flat_step (\<lambda>perm va pid. permitted perm va pid m) x M = (M', Done did)"
    if M': "agrees pm m' M'" for M'
  proof (intro exI conjI)
    let ?M = "\<lambda>pid' va'. if ?hit pid' va' then (case vmem pm m pid' va' of Some b \<Rightarrow> b | None \<Rightarrow> 0)
      else M' pid' va'"
    have keep: "M' pid' va' = b" if "vmem pm m pid' va' = Some b" "\<not> ?hit pid' va'" for pid' va' b
      using M' m'(8) that in_range_iff [OF len, of va' va] unfolding agrees_def by metis
    show "agrees pm m ?M" unfolding agrees_def using keep by (auto split: if_splits)
    have "M' pid va' = bs ! unat (va' - va)" if "did" "unat (va' - va) < length bs" for va'
    proof -
      have "va' = va + word_of_nat (unat (va' - va))" by simp
      then have "vmem pm m' pid va' = Some (bs ! unat (va' - va))" using m'(7) that by metis
      then show ?thesis using M' by (simp add: agrees_def)
    qed
    then show "flat_step (\<lambda>perm va pid. permitted perm va pid m) x ?M = (M', Done did)"
      using m'(6) Write by (cases did) (auto simp: fun_eq_iff)
  qed
  then show ?thesis
    using m'(1-5) Write by (intro exI [of _ m'] exI [of _ "Done did"]) auto
qed

lemma run_refines:
  assumes "page_aligned pm" and "mmu_inv pm m" and "\<forall>x \<in> set xs. proper m x"
    and "length xs < unreserved (m_kernel m)"
  shows "\<exists>m' rs. mmu_run pm xs m = Inr (m', rs) \<and> mmu_inv pm m' \<and>
    (\<exists>M. agrees pm m M \<and> rs = flat_run (\<lambda>perm va pid. permitted perm va pid m) xs M)"
  using assms(2-4)
proof (induction xs arbitrary: m)
  case Nil
  have "agrees pm m (\<lambda>pid va. case vmem pm m pid va of Some b \<Rightarrow> b | None \<Rightarrow> 0)"
    by (simp add: agrees_def)
  with Nil show ?case by auto
next
  case (Cons x xs)
  have "proper m x" "2 \<le> unreserved (m_kernel m)" using Cons.prems by auto
  from step_refines [OF assms(1) Cons.prems(1) this] obtain m1 r where m1:
      "mmu_step pm x m = Inr (m1, r)" "mmu_inv pm m1" "page_directories m1 = page_directories m"
      "segmentations m1 = segmentations m" "unreserved (m_kernel m) \<le> Suc (unreserved (m_kernel m1))"
      "\<forall>M'. agrees pm m1 M' \<longrightarrow>
        (\<exists>M. agrees pm m M \<and> flat_step (\<lambda>perm va pid. permitted perm va pid m) x M = (M', r))"
    by blast
  have "proper m1 y = proper m y" for y using m1(3) by (cases y) simp_all
  then obtain m' rs M' where IH: "mmu_run pm xs m1 = Inr (m', rs)" "mmu_inv pm m'" "agrees pm m1 M'"
      "rs = flat_run (\<lambda>perm va pid. permitted perm va pid m1) xs M'"
    using Cons.IH [OF m1(2)] Cons.prems m1(5) by auto
  have "permitted perm va pid m1 = permitted perm va pid m" for perm va pid
    using m1(4) by (simp add: permitted_def)
  then have rs: "rs = flat_run (\<lambda>perm va pid. permitted perm va pid m) xs M'"
    using IH(4) by simp
  obtain M where "agrees pm m M" "flat_step (\<lambda>perm va pid. permitted perm va pid m) x M = (M', r)"
    using m1(6) IH(3) by blast
  then show ?case using m1(1) IH(1,2) rs by (auto intro!: exI [of _ M])
qed


text \<open>C24: Adding a process while three frames are left succeeds: the process gets its segments
  and two zeroed testing pages, and the memory of the processes that were there is unchanged.\<close>

theorem mmu_add_process_correct:
  assumes "page_aligned pm" and "mmu_inv pm m" and "pid < MAX_PROCESS_ID"
    and "page_directories m pid = None" and "3 \<le> unreserved (m_kernel m)"
  shows "\<exists>m'. mmu_add_process pm pid m = Inr m' \<and> mmu_inv pm m' \<and>
    segmentations m' pid = Some initial_segments \<and>
    (\<forall>va. 4096 \<le> unat va \<and> unat va < 12288 \<longrightarrow> vmem pm m' pid va = Some 0) \<and>
    (\<forall>pid' va b. vmem pm m pid' va = Some b \<longrightarrow> vmem pm m' pid' va = Some b)"
  using add_process_ok [OF assms] by blast

section \<open>The segments of a new process\<close>

lemma initial_segments_members: "(\<exists>g \<in> set initial_segments. in_segment g va) \<longleftrightarrow>
  0x1000 \<le> va \<and> va \<le> 0x3000 \<or> 0x08048000 \<le> va \<and> va \<le> 0x08072000 \<or> va = 0xC07FE000"
  by (simp add: initial_segments_def in_segment_def PAGE_SIZE_def word_le_nat_alt word_unat_eq_iff)
    linarith

text \<open>The addresses a new process may use are the testing pages, the program, data and heap
  start, and the single address at which the mapped region starts, all ends included. The stack
  segment, whose start lies below its end although it grows down, contains no address.\<close>

theorem initial_address_space:
  "(address_in_segmentations initial_segments va \<longleftrightarrow>
     0x1000 \<le> va \<and> va \<le> 0x3000 \<or> 0x08048000 \<le> va \<and> va \<le> 0x08072000 \<or> va = 0xC07FE000) \<and>
   \<not> in_segment (initial_segments ! segment_index STACK) va"
proof
  show "\<not> in_segment (initial_segments ! segment_index STACK) va"
    by (auto simp: in_segment_def initial_segments_def word_le_nat_alt)
  have "address_in_segmentations initial_segments va \<longleftrightarrow>
      (\<exists>g \<in> set initial_segments. in_segment g va)"
    by (metis address_in_segmentations_def find_segment_none)
  then show "address_in_segmentations initial_segments va \<longleftrightarrow>
     0x1000 \<le> va \<and> va \<le> 0x3000 \<or> 0x08048000 \<le> va \<and> va \<le> 0x08072000 \<or> va = 0xC07FE000"
    unfolding initial_segments_members .
qed

section \<open>Swap files\<close>

lemma return_frame_swap: "return_frame_to_kernel pm p k = Inr k' \<Longrightarrow> swap_files k' = swap_files k"
  by (auto simp: return_frame_to_kernel_def split: if_splits)

lemma remove_page_swap:
  "remove_page pm pt i k = Inr k' \<Longrightarrow> swap_files k' (e, bin_suffix) = swap_files k (e, bin_suffix)"
  by (auto simp: remove_page_def rbind_eq_Inr remove_swap_file_def bin_suffix_def Let_def
      dest!: return_frame_swap split: if_splits)

lemma remove_pages_swap:
  "rfold (remove_page pm pt) xs k = Inr k' \<Longrightarrow>
    swap_files k' (e, bin_suffix) = swap_files k (e, bin_suffix)"
  using rfold_invariant [of "remove_page pm pt" xs k k'
      "\<lambda>k'. swap_files k' (e, bin_suffix) = swap_files k (e, bin_suffix)"] remove_page_swap by metis

lemma remove_table_swap:
  "remove_table pm pd i k = Inr k' \<Longrightarrow> swap_files k' (e, bin_suffix) = swap_files k (e, bin_suffix)"
  by (auto simp: remove_table_def rbind_eq_Inr Let_def
      dest!: return_frame_swap remove_pages_swap [where e = e] split: if_splits)

lemma remove_tables_swap:
  "rfold (remove_table pm pt) xs k = Inr k' \<Longrightarrow>
    swap_files k' (e, bin_suffix) = swap_files k (e, bin_suffix)"
  using rfold_invariant [of "remove_table pm pt" xs k k'
      "\<lambda>k'. swap_files k' (e, bin_suffix) = swap_files k (e, bin_suffix)"] remove_table_swap by metis

text \<open>Removing a process removes none of the swap files its pages were written to: the name
  that is removed is not the name that is written. A process that later gets the same page table
  frame reads the old page back on its first access.\<close>

theorem swap_files_survive_removal:
  assumes "mmu_remove_process pm pid m = Inr m'"
  shows "swap_files (m_kernel m') (e, bin_suffix) = swap_files (m_kernel m) (e, bin_suffix)"
  using assms
  by (auto simp: mmu_remove_process_def rbind_eq_Inr Let_def
      dest!: return_frame_swap remove_tables_swap [where e = e] split: if_splits option.splits)

section \<open>Witnesses\<close>

lemma mmu_create_inv: "mmu_inv pm (mmu_create kernel_start)"
  by (simp add: mmu_inv_def mmu_create_def kernel_inv_def kernel_start_def tables_inv_def
      owners_inv_def is_pte_def table_of_def tlb_inv_def tlb_create_def MAX_NODES_def)

lemma unreserved_start: "unreserved kernel_start = NUM_PHYSICAL_PAGES"
proof -
  have "{f. f < NUM_PHYSICAL_PAGES \<and> entry_mapping kernel_start ! f \<noteq> RESERVED} = {..<NUM_PHYSICAL_PAGES}"
    by (auto simp: kernel_start_def)
  then show ?thesis by (simp add: unreserved_def)
qed

lemma start_process:
  "page_aligned 0" "mmu_inv 0 (mmu_create kernel_start)" "1 < MAX_PROCESS_ID"
  "page_directories (mmu_create kernel_start) 1 = None"
  "3 \<le> unreserved (m_kernel (mmu_create kernel_start))"
  by (simp_all add: page_aligned_def mmu_create_inv MAX_PROCESS_ID_def)
    (simp_all add: mmu_create_def unreserved_start NUM_PHYSICAL_PAGES_def)

theorem mmu_add_process_correct_witness:
  "\<exists>m'. mmu_add_process 0 1 (mmu_create kernel_start) = Inr m' \<and> vmem 0 m' 1 4096 = Some 0"
proof -
  have "4096 \<le> unat (4096 :: addr32) \<and> unat (4096 :: addr32) < 12288" by simp
  then show ?thesis using mmu_add_process_correct [OF start_process] by blast
qed


text \<open>Removing a process that was never added.\<close>

theorem swap_files_survive_removal_witness:
  "\<exists>m'. mmu_remove_process 0 1 (mmu_create
      (kernel_start\<lparr>swap_files := [(8, bin_suffix) \<mapsto> [7]]\<rparr>)) = Inr m' \<and>
    swap_files (m_kernel m') (8, bin_suffix) = Some [7]"
proof -
  let ?m = "mmu_create (kernel_start\<lparr>swap_files := [(8, bin_suffix) \<mapsto> [7]]\<rparr>)"
  obtain m' where "mmu_remove_process 0 1 ?m = Inr m'"
    by (simp add: mmu_remove_process_def mmu_create_def MAX_PROCESS_ID_def Let_def)
  then show ?thesis
    using swap_files_survive_removal [of 0 1 ?m m' 8] by (simp add: mmu_create_def)
qed

end
