(* ===== verification/HashTable.thy ===== *)
theory HashTable
  imports Prelude
begin

text \<open>
  The hash table of \<open>nonstop_networking/common.c\<close>, by which the file server finds the session
  of a socket. A bucket of \<open>nodes\<close> is the chain of its nodes, front first; a node is reached
  only through its chain, so the chain is a list. Data are pointers; the operations that release
  them return the list of the pointers they free. An abstraction to a finite map gives the
  meaning of the operations, and the locale \<open>map_contract\<close> states what a client may rely on.
\<close>

section \<open>Data\<close>

definition HASH_TABLE_SIZE :: nat where
  "HASH_TABLE_SIZE = 10000"

datatype hashtable_rc_t =
    HASH_TABLE_OK
  | HASH_TABLE_INSERT_OVERWRITTEN_DATA
  | HASH_TABLE_KEY_NOT_EXISTS
  | HASH_TABLE_SEARCH_NO_RESULT
  | HASH_TABLE_KEY_ALREADY_EXISTS
  | HASH_TABLE_BAD_PARAMETER_HASHTABLE
  | HASH_TABLE_BAD_PARAMETER_KEY
  | HASH_TABLE_SYSTEM_ERROR
  | HASH_TABLE_CODE_MAX

record my_hash_node_t =
  node_key :: addr32
  node_data :: ptr

record my_hash_table_t =
  num_elements :: addr32
  nodes :: "nat \<Rightarrow> my_hash_node_t list"
  hashfunc :: "addr32 \<Rightarrow> addr32"
  table_name :: string

definition def_hashfunc :: "addr32 \<Rightarrow> addr32" where
  "def_hashfunc k = k mod of_nat HASH_TABLE_SIZE"

definition hashtable_ts_init :: "(addr32 \<Rightarrow> addr32) option \<Rightarrow> string \<Rightarrow> my_hash_table_t" where
  "hashtable_ts_init hf nm =
     \<lparr>num_elements = 0, nodes = (\<lambda>i. []),
      hashfunc = (case hf of None \<Rightarrow> def_hashfunc | Some h \<Rightarrow> h), table_name = nm\<rparr>"

section \<open>Operations\<close>

text \<open>
  The walk of \<open>hashtable_ts_insert\<close> along a chain: the node of the key gets the new data, and
  the data it had are freed when they are another pointer. \<^const>\<open>None\<close>: no node has the key.
\<close>

fun insert_walk ::
  "my_hash_node_t list \<Rightarrow> addr32 \<Rightarrow> ptr \<Rightarrow> (my_hash_node_t list \<times> hashtable_rc_t \<times> ptr list) option"
where
  "insert_walk [] k d = None"
| "insert_walk (n # ns) k d =
     (if node_key n = k
      then if node_data n \<noteq> NULL \<and> node_data n \<noteq> d
           then Some (n\<lparr>node_data := d\<rparr> # ns, HASH_TABLE_INSERT_OVERWRITTEN_DATA, [node_data n])
           else Some (n\<lparr>node_data := d\<rparr> # ns, HASH_TABLE_OK, [])
      else map_option (\<lambda>(ns', r). (n # ns', r)) (insert_walk ns k d))"

text \<open>
  The hash indexes \<open>nodes\<close> as it is: a hash function of the user that exceeds the table reads
  out of bounds. \<open>mem\<close> says whether \<open>malloc\<close> succeeds.
\<close>

definition hashtable_ts_insert ::
  "bool \<Rightarrow> my_hash_table_t option \<Rightarrow> addr32 \<Rightarrow> ptr
   \<Rightarrow> (my_hash_table_t option \<times> hashtable_rc_t \<times> ptr list) result"
where
  "hashtable_ts_insert mem T k d =
     (case T of None \<Rightarrow> Inr (None, HASH_TABLE_BAD_PARAMETER_HASHTABLE, [])
      | Some t \<Rightarrow>
          let hash = unat (hashfunc t k) in
          if HASH_TABLE_SIZE \<le> hash then Inl OutOfBounds
          else case insert_walk (nodes t hash) k d of
            Some (ns, rc, fr) \<Rightarrow> Inr (Some (t\<lparr>nodes := (nodes t)(hash := ns)\<rparr>), rc, fr)
          | None \<Rightarrow>
              if \<not> mem then Inr (Some t, HASH_TABLE_SYSTEM_ERROR, [])
              else Inr (Some (t\<lparr>nodes := (nodes t)(hash := \<lparr>node_key = k, node_data = d\<rparr> # nodes t hash),
                                num_elements := num_elements t + 1\<rparr>), HASH_TABLE_OK, []))"

text \<open>The walk of \<open>hashtable_ts_free\<close>: unlinks the node of the key and frees its data.\<close>

fun free_walk :: "my_hash_node_t list \<Rightarrow> addr32 \<Rightarrow> (my_hash_node_t list \<times> ptr list) option" where
  "free_walk [] k = None"
| "free_walk (n # ns) k =
     (if node_key n = k
      then Some (ns, if node_data n \<noteq> NULL then [node_data n] else [])
      else map_option (\<lambda>(ns', fr). (n # ns', fr)) (free_walk ns k))"

definition hashtable_ts_free ::
  "my_hash_table_t option \<Rightarrow> addr32 \<Rightarrow> (my_hash_table_t option \<times> hashtable_rc_t \<times> ptr list) result"
where
  "hashtable_ts_free T k =
     (case T of None \<Rightarrow> Inr (None, HASH_TABLE_BAD_PARAMETER_HASHTABLE, [])
      | Some t \<Rightarrow>
          let hash = unat (hashfunc t k) in
          if HASH_TABLE_SIZE \<le> hash then Inl OutOfBounds
          else case free_walk (nodes t hash) k of
            Some (ns, fr) \<Rightarrow>
              Inr (Some (t\<lparr>nodes := (nodes t)(hash := ns), num_elements := num_elements t - 1\<rparr>),
                   HASH_TABLE_OK, fr)
          | None \<Rightarrow> Inr (Some t, HASH_TABLE_KEY_NOT_EXISTS, []))"

fun get_walk :: "my_hash_node_t list \<Rightarrow> addr32 \<Rightarrow> ptr option" where
  "get_walk [] k = None"
| "get_walk (n # ns) k = (if node_key n = k then Some (node_data n) else get_walk ns k)"

text \<open>The result is the return code and what is stored through \<open>dataP\<close>.\<close>

definition hashtable_ts_get ::
  "my_hash_table_t option \<Rightarrow> addr32 \<Rightarrow> (hashtable_rc_t \<times> ptr) result"
where
  "hashtable_ts_get T k =
     (case T of None \<Rightarrow> Inr (HASH_TABLE_BAD_PARAMETER_HASHTABLE, NULL)
      | Some t \<Rightarrow>
          let hash = unat (hashfunc t k) in
          if HASH_TABLE_SIZE \<le> hash then Inl OutOfBounds
          else case get_walk (nodes t hash) k of
            Some d \<Rightarrow> Inr (HASH_TABLE_OK, d)
          | None \<Rightarrow> Inr (HASH_TABLE_KEY_NOT_EXISTS, NULL))"

section \<open>The abstract map\<close>

definition table_map :: "my_hash_table_t \<Rightarrow> addr32 \<Rightarrow> ptr option" where
  "table_map t k = get_walk (nodes t (unat (hashfunc t k))) k"

definition entry_count :: "my_hash_table_t \<Rightarrow> nat" where
  "entry_count t = (\<Sum>i<HASH_TABLE_SIZE. length (nodes t i))"

text \<open>
  The invariant of a table: its hash function stays within the buckets, every node is in the
  bucket of its key, no key occurs twice and \<open>num_elements\<close> counts the nodes.
\<close>

definition table_ok :: "my_hash_table_t \<Rightarrow> bool" where
  "table_ok t \<longleftrightarrow>
     (\<forall>k. unat (hashfunc t k) < HASH_TABLE_SIZE) \<and>
     (\<forall>i. distinct (map node_key (nodes t i))) \<and>
     (\<forall>i. \<forall>n \<in> set (nodes t i). unat (hashfunc t (node_key n)) = i) \<and>
     num_elements t = of_nat (entry_count t)"

lemma get_walk_None_iff: "get_walk ns k = None \<longleftrightarrow> k \<notin> node_key ` set ns"
  by (induction ns) auto

lemma insert_walk_None_iff: "insert_walk ns k d = None \<longleftrightarrow> k \<notin> node_key ` set ns"
  by (induction ns) auto

lemma free_walk_None_iff: "free_walk ns k = None \<longleftrightarrow> k \<notin> node_key ` set ns"
  by (induction ns) auto

lemmas walk_None_iff = get_walk_None_iff insert_walk_None_iff free_walk_None_iff

lemma insert_walk_keys:
  "insert_walk ns k d = Some (ns', rc, fr) \<Longrightarrow> map node_key ns' = map node_key ns"
  by (induction ns arbitrary: ns') (auto split: if_splits)

lemma insert_walk_get:
  "insert_walk ns k d = Some (ns', rc, fr) \<Longrightarrow> get_walk ns' j = (if j = k then Some d else get_walk ns j)"
  by (induction ns arbitrary: ns') (auto split: if_splits)

text \<open>What an insertion frees and reports, by the data the key had.\<close>

definition overwritten :: "ptr option \<Rightarrow> ptr \<Rightarrow> ptr list" where
  "overwritten e d = (case e of None \<Rightarrow> [] | Some x \<Rightarrow> if x \<noteq> NULL \<and> x \<noteq> d then [x] else [])"

definition released :: "ptr option \<Rightarrow> ptr list" where
  "released e = (case e of None \<Rightarrow> [] | Some x \<Rightarrow> if x \<noteq> NULL then [x] else [])"

lemma insert_walk_report:
  "insert_walk ns k d = Some (ns', rc, fr) \<Longrightarrow>
     fr = overwritten (get_walk ns k) d \<and>
     rc = (if fr = [] then HASH_TABLE_OK else HASH_TABLE_INSERT_OVERWRITTEN_DATA)"
  by (induction ns arbitrary: ns') (auto simp: overwritten_def split: if_splits)

lemma free_walk_report: "free_walk ns k = Some (ns', fr) \<Longrightarrow> fr = released (get_walk ns k)"
  by (induction ns arbitrary: ns') (auto simp: released_def split: if_splits)

lemma insert_walk_length: "insert_walk ns k d = Some (ns', rc, fr) \<Longrightarrow> length ns' = length ns"
  using insert_walk_keys by (metis length_map)

lemma free_walk_length: "free_walk ns k = Some (ns', fr) \<Longrightarrow> length ns = Suc (length ns')"
  by (induction ns arbitrary: ns') (auto split: if_splits)

lemma free_walk_subset: "free_walk ns k = Some (ns', fr) \<Longrightarrow> set ns' \<subseteq> set ns"
  by (induction ns arbitrary: ns') (auto split: if_splits)

lemma free_walk_distinct:
  "free_walk ns k = Some (ns', fr) \<Longrightarrow> distinct (map node_key ns) \<Longrightarrow> distinct (map node_key ns')"
  by (induction ns arbitrary: ns') (force split: if_splits dest: free_walk_subset)+

lemma free_walk_get:
  "free_walk ns k = Some (ns', fr) \<Longrightarrow> distinct (map node_key ns) \<Longrightarrow>
     get_walk ns' j = (if j = k then None else get_walk ns j)"
  by (induction ns arbitrary: ns') (auto simp: get_walk_None_iff simp del: not_None_eq split: if_splits)

section \<open>The operations implement the map\<close>

lemma table_map_upd:
  assumes "table_ok t" and "hashfunc t' = hashfunc t"
    and "nodes t' = (nodes t)(unat (hashfunc t k) := ns)"
    and "\<And>j. get_walk ns j = (if j = k then e else get_walk (nodes t (unat (hashfunc t k))) j)"
  shows "table_map t' = (table_map t)(k := e)"
  using assms(2-) by (auto simp: table_map_def fun_eq_iff)

lemma table_init_ok:
  assumes "\<And>h k. hf = Some h \<Longrightarrow> unat (h k) < HASH_TABLE_SIZE"
  shows "table_ok (hashtable_ts_init hf nm)" and "table_map (hashtable_ts_init hf nm) = Map.empty"
proof -
  have "unat (def_hashfunc k) < HASH_TABLE_SIZE" for k
    by (simp add: def_hashfunc_def HASH_TABLE_SIZE_def unat_mod)
  with assms show "table_ok (hashtable_ts_init hf nm)"
    by (auto simp: table_ok_def hashtable_ts_init_def entry_count_def split: option.split)
qed (simp add: hashtable_ts_init_def table_map_def fun_eq_iff)

lemma table_ok_bound: "table_ok t \<Longrightarrow> unat (hashfunc t k) < HASH_TABLE_SIZE"
  by (simp add: table_ok_def)

lemma get_refines:
  assumes "table_ok t"
  shows "hashtable_ts_get (Some t) k =
           Inr (case table_map t k of None \<Rightarrow> (HASH_TABLE_KEY_NOT_EXISTS, NULL)
                | Some d \<Rightarrow> (HASH_TABLE_OK, d))"
  using table_ok_bound [OF assms, of k]
  by (simp add: hashtable_ts_get_def table_map_def Let_def split: option.split)

lemma entry_count_upd:
  assumes "i < HASH_TABLE_SIZE" and "nodes t' = (nodes t)(i := ns)"
  shows "entry_count t' + length (nodes t i) = entry_count t + length ns"
proof -
  have "entry_count u = length (nodes u i) + (\<Sum>j \<in> {..<HASH_TABLE_SIZE} - {i}. length (nodes u j))" for u
    unfolding entry_count_def using assms(1) by (simp add: sum.remove)
  moreover have "(\<Sum>j \<in> {..<HASH_TABLE_SIZE} - {i}. length (nodes t' j)) =
      (\<Sum>j \<in> {..<HASH_TABLE_SIZE} - {i}. length (nodes t j))"
    using assms(2) by (intro sum.cong) auto
  ultimately show ?thesis using assms(2) by simp
qed

lemma table_ok_upd:
  assumes "table_ok t" and "hashfunc t' = hashfunc t"
    and "nodes t' = (nodes t)(unat (hashfunc t k) := ns)"
    and "distinct (map node_key ns)"
    and "\<forall>n \<in> set ns. node_key n = k \<or> n \<in> set (nodes t (unat (hashfunc t k)))
           \<or> node_key n \<in> node_key ` set (nodes t (unat (hashfunc t k)))"
    and "num_elements t' = of_nat (entry_count t')"
  shows "table_ok t'"
  using assms by (auto simp: table_ok_def)

lemma insert_refines:
  assumes "table_ok t"
  shows "\<exists>t'. hashtable_ts_insert True (Some t) k d =
           Inr (Some t', if overwritten (table_map t k) d = [] then HASH_TABLE_OK
                         else HASH_TABLE_INSERT_OVERWRITTEN_DATA, overwritten (table_map t k) d) \<and>
         table_ok t' \<and> table_map t' = (table_map t)(k \<mapsto> d)"
proof (cases "insert_walk (nodes t (unat (hashfunc t k))) k d")
  case None
  define t' where "t' = t\<lparr>nodes := (nodes t)(unat (hashfunc t k) :=
      \<lparr>node_key = k, node_data = d\<rparr> # nodes t (unat (hashfunc t k))), num_elements := num_elements t + 1\<rparr>"
  have e: "entry_count t' = Suc (entry_count t)"
    using entry_count_upd [OF table_ok_bound [OF assms, of k], of t' t
        "\<lparr>node_key = k, node_data = d\<rparr> # nodes t (unat (hashfunc t k))"] by (simp add: t'_def)
  have "table_map t k = None" using None by (simp add: table_map_def walk_None_iff)
  then have "hashtable_ts_insert True (Some t) k d = Inr (Some t', HASH_TABLE_OK, [])"
    using None table_ok_bound [OF assms, of k]
    by (simp add: hashtable_ts_insert_def Let_def t'_def)
  moreover have "table_ok t'"
    using assms None [unfolded walk_None_iff] e
    by (intro table_ok_upd [OF assms, where k = k]) (auto simp: t'_def table_ok_def add.commute)
  moreover have "table_map t' = (table_map t)(k \<mapsto> d)"
    by (rule table_map_upd [OF assms]) (auto simp: t'_def)
  ultimately show ?thesis using \<open>table_map t k = None\<close> by (simp add: overwritten_def)
next
  case (Some r)
  obtain ns rc fr where r: "r = (ns, rc, fr)" by (cases r)
  note w = Some [unfolded r]
  define t' where "t' = t\<lparr>nodes := (nodes t)(unat (hashfunc t k) := ns)\<rparr>"
  have e: "entry_count t' = entry_count t"
    using entry_count_upd [OF table_ok_bound [OF assms, of k], of t' t ns] insert_walk_length [OF w]
    by (simp add: t'_def)
  have "hashtable_ts_insert True (Some t) k d = Inr (Some t', rc, fr)"
    using w table_ok_bound [OF assms, of k] by (simp add: hashtable_ts_insert_def Let_def t'_def)
  moreover have "table_ok t'"
  proof (rule table_ok_upd [OF assms])
    have "node_key ` set ns = node_key ` set (nodes t (unat (hashfunc t k)))"
      using insert_walk_keys [OF w] by (metis list.set_map)
    then show "\<forall>n \<in> set ns. node_key n = k \<or> n \<in> set (nodes t (unat (hashfunc t k)))
           \<or> node_key n \<in> node_key ` set (nodes t (unat (hashfunc t k)))" by blast
  qed (use assms e insert_walk_keys [OF w] in \<open>auto simp: t'_def table_ok_def\<close>)
  moreover have "table_map t' = (table_map t)(k \<mapsto> d)"
    by (rule table_map_upd [OF assms]) (auto simp: t'_def insert_walk_get [OF w])
  ultimately show ?thesis using insert_walk_report [OF w] by (auto simp: table_map_def)
qed

lemma free_refines:
  assumes "table_ok t"
  shows "\<exists>t'. hashtable_ts_free (Some t) k =
           Inr (Some t', if table_map t k = None then HASH_TABLE_KEY_NOT_EXISTS else HASH_TABLE_OK,
                released (table_map t k)) \<and>
         table_ok t' \<and> table_map t' = (table_map t)(k := None)"
proof (cases "free_walk (nodes t (unat (hashfunc t k))) k")
  case None
  then have "table_map t k = None" by (simp add: table_map_def walk_None_iff)
  then show ?thesis
    using None assms table_ok_bound [OF assms, of k]
    by (auto simp: hashtable_ts_free_def Let_def released_def fun_eq_iff)
next
  case (Some r)
  obtain ns fr where r: "r = (ns, fr)" by (cases r)
  note w = Some [unfolded r]
  have d: "distinct (map node_key (nodes t (unat (hashfunc t k))))"
    using assms by (simp add: table_ok_def)
  define t' where "t' = t\<lparr>nodes := (nodes t)(unat (hashfunc t k) := ns), num_elements := num_elements t - 1\<rparr>"
  have e: "entry_count t = Suc (entry_count t')"
    using entry_count_upd [OF table_ok_bound [OF assms, of k], of t' t ns] free_walk_length [OF w]
    by (simp add: t'_def)
  have "num_elements t' = num_elements t - 1" by (simp add: t'_def)
  then have c: "num_elements t' = of_nat (entry_count t')"
    using e assms by (simp add: table_ok_def)
  have "table_map t k \<noteq> None"
    using w walk_None_iff(1,3) by (metis option.distinct(1) table_map_def)
  moreover have "hashtable_ts_free (Some t) k = Inr (Some t', HASH_TABLE_OK, fr)"
    using w table_ok_bound [OF assms, of k] by (simp add: hashtable_ts_free_def Let_def t'_def)
  moreover have "table_ok t'"
    by (rule table_ok_upd [OF assms])
      (use c free_walk_distinct [OF w d] free_walk_subset [OF w] in \<open>auto simp: t'_def\<close>)
  moreover have "table_map t' = (table_map t)(k := None)"
    by (rule table_map_upd [OF assms]) (auto simp: t'_def free_walk_get [OF w d])
  ultimately show ?thesis using free_walk_report [OF w] by (simp add: table_map_def)
qed

section \<open>The contract of a map\<close>

text \<open>
  What the table promises its client, on the success of \<open>malloc\<close>: an insertion and a removal
  always succeed, keep the invariant, and change the entry of their key alone.
\<close>

locale map_contract =
  fixes ok :: "'t \<Rightarrow> bool"
    and lookup :: "'t \<Rightarrow> 'k \<Rightarrow> 'd option"
    and put :: "'t \<Rightarrow> 'k \<Rightarrow> 'd \<Rightarrow> 't"
    and remove :: "'t \<Rightarrow> 'k \<Rightarrow> 't"
  assumes put_ok: "ok t \<Longrightarrow> ok (put t k d)"
    and lookup_put: "ok t \<Longrightarrow> lookup (put t k d) = (lookup t)(k \<mapsto> d)"
    and remove_ok: "ok t \<Longrightarrow> ok (remove t k)"
    and lookup_remove: "ok t \<Longrightarrow> lookup (remove t k) = (lookup t)(k := None)"
begin

lemma put_remove: "ok t \<Longrightarrow> lookup t k = None \<Longrightarrow> lookup (remove (put t k d) k) = lookup t"
  by (simp add: put_ok lookup_put lookup_remove fun_upd_idem)

lemma other_key: "ok t \<Longrightarrow> j \<noteq> k \<Longrightarrow> lookup (put t k d) j = lookup t j"
  by (simp add: lookup_put)

end

text \<open>The table that \<open>hashtable_ts_insert\<close> and \<open>hashtable_ts_free\<close> leave.\<close>

definition table_of :: "(my_hash_table_t option \<times> hashtable_rc_t \<times> ptr list) result \<Rightarrow> my_hash_table_t" where
  "table_of r = (case r of Inr (Some t, _, _) \<Rightarrow> t | _ \<Rightarrow> hashtable_ts_init None [])"

definition table_put :: "my_hash_table_t \<Rightarrow> addr32 \<Rightarrow> ptr \<Rightarrow> my_hash_table_t" where
  "table_put t k d = table_of (hashtable_ts_insert True (Some t) k d)"

definition table_remove :: "my_hash_table_t \<Rightarrow> addr32 \<Rightarrow> my_hash_table_t" where
  "table_remove t k = table_of (hashtable_ts_free (Some t) k)"

lemma table_put:
  assumes "table_ok t"
  shows "table_ok (table_put t k d)" "table_map (table_put t k d) = (table_map t)(k \<mapsto> d)"
    "hashtable_ts_insert True (Some t) k d =
       Inr (Some (table_put t k d), if overwritten (table_map t k) d = [] then HASH_TABLE_OK
            else HASH_TABLE_INSERT_OVERWRITTEN_DATA, overwritten (table_map t k) d)"
  using insert_refines [OF assms, of k d] by (auto simp: table_put_def table_of_def)

lemma table_remove:
  assumes "table_ok t"
  shows "table_ok (table_remove t k)" "table_map (table_remove t k) = (table_map t)(k := None)"
    "hashtable_ts_free (Some t) k =
       Inr (Some (table_remove t k), if table_map t k = None then HASH_TABLE_KEY_NOT_EXISTS
            else HASH_TABLE_OK, released (table_map t k))"
  using free_refines [OF assms, of k] by (auto simp: table_remove_def table_of_def)

interpretation session_map: map_contract table_ok table_map table_put table_remove
  by unfold_locales (simp_all add: table_put table_remove)

text \<open>
  A history of calls of the C functions, each with the return code it gives; a call that
  faults ends the history.
\<close>

datatype table_call = Insert addr32 ptr | Free addr32

fun run_call :: "table_call \<Rightarrow> my_hash_table_t option \<times> hashtable_rc_t list
    \<Rightarrow> (my_hash_table_t option \<times> hashtable_rc_t list) result" where
  "run_call (Insert k d) (T, rcs) =
     rbind (hashtable_ts_insert True T k d) (\<lambda>(T', rc, fr). Inr (T', rcs @ [rc]))"
| "run_call (Free k) (T, rcs) =
     rbind (hashtable_ts_free T k) (\<lambda>(T', rc, fr). Inr (T', rcs @ [rc]))"

text \<open>The same calls on the abstract map.\<close>

fun spec_call :: "table_call \<Rightarrow> (addr32 \<rightharpoonup> ptr) \<times> hashtable_rc_t list
    \<Rightarrow> (addr32 \<rightharpoonup> ptr) \<times> hashtable_rc_t list" where
  "spec_call (Insert k d) (m, rcs) =
     (m(k \<mapsto> d), rcs @ [if overwritten (m k) d = [] then HASH_TABLE_OK
                      else HASH_TABLE_INSERT_OVERWRITTEN_DATA])"
| "spec_call (Free k) (m, rcs) =
     (m(k := None), rcs @ [if m k = None then HASH_TABLE_KEY_NOT_EXISTS else HASH_TABLE_OK])"

lemma run_call_refines:
  assumes "table_ok t"
  obtains t' rcs' where "run_call c (Some t, rcs) = Inr (Some t', rcs')" "table_ok t'"
    "spec_call c (table_map t, rcs) = (table_map t', rcs')"
proof (cases c)
  case (Insert k d)
  show ?thesis
    by (rule that [of "table_put t k d"])
      (simp_all add: Insert table_put [OF assms] session_map.put_ok assms)
next
  case (Free k)
  show ?thesis
    by (rule that [of "table_remove t k"])
      (simp_all add: Free table_remove [OF assms] session_map.remove_ok assms)
qed

lemma run_calls_refine:
  assumes "table_ok t"
  shows "\<exists>t' rcs'. rfold run_call cs (Some t, rcs) = Inr (Some t', rcs') \<and> table_ok t' \<and>
           fold spec_call cs (table_map t, rcs) = (table_map t', rcs')"
  using assms
proof (induction cs arbitrary: t rcs)
  case (Cons c cs)
  obtain t' rcs' where "run_call c (Some t, rcs) = Inr (Some t', rcs')" "table_ok t'"
    "spec_call c (table_map t, rcs) = (table_map t', rcs')"
    using run_call_refines [OF Cons.prems] by metis
  with Cons.IH [of t' rcs'] show ?case by simp
qed simp

lemma card_dom_entries:
  assumes "table_ok t"
  shows "card (dom (table_map t)) = entry_count t"
proof -
  have d: "dom (table_map t) = (\<Union>i<HASH_TABLE_SIZE. node_key ` set (nodes t i))"
  proof (intro equalityI subsetI)
    fix k assume "k \<in> dom (table_map t)"
    then have "k \<in> node_key ` set (nodes t (unat (hashfunc t k)))"
      using get_walk_None_iff by (metis domIff table_map_def)
    with table_ok_bound [OF assms, of k] show "k \<in> (\<Union>i<HASH_TABLE_SIZE. node_key ` set (nodes t i))"
      by blast
  next
    fix k assume "k \<in> (\<Union>i<HASH_TABLE_SIZE. node_key ` set (nodes t i))"
    then obtain i where i: "k \<in> node_key ` set (nodes t i)" by blast
    with assms have "unat (hashfunc t k) = i" by (auto simp: table_ok_def)
    with i show "k \<in> dom (table_map t)"
      using get_walk_None_iff by (metis domIff table_map_def)
  qed
  have "card (dom (table_map t)) = (\<Sum>i<HASH_TABLE_SIZE. card (node_key ` set (nodes t i)))"
    unfolding d
  proof (intro card_UN_disjoint ballI impI)
    have b: "unat (hashfunc t k) = i" if "k \<in> node_key ` set (nodes t i)" for k i
      using that assms by (auto simp: table_ok_def)
    fix i j :: nat assume "i \<noteq> j"
    then show "node_key ` set (nodes t i) \<inter> node_key ` set (nodes t j) = {}"
      using b [of _ i] b [of _ j] by blast
  qed simp_all
  also have "\<dots> = entry_count t"
    unfolding entry_count_def
  proof (intro sum.cong refl)
    fix i :: nat
    have "distinct (map node_key (nodes t i))" using assms by (simp add: table_ok_def)
    from distinct_card [OF this] show "card (node_key ` set (nodes t i)) = length (nodes t i)" by simp
  qed
  finally show ?thesis .
qed


text \<open>A hash function of the user is not reduced to the size of the table, whatever the comment
  of \<open>hashtable_ts_insert\<close> says: one that exceeds it makes the very first insertion, lookup
  and removal access \<open>nodes\<close> out of bounds.\<close>

theorem user_hash_not_reduced:
  "hashtable_ts_insert True (Some (hashtable_ts_init (Some (\<lambda>k. k)) nm)) (of_nat HASH_TABLE_SIZE) d
     = Inl OutOfBounds \<and>
   hashtable_ts_get (Some (hashtable_ts_init (Some (\<lambda>k. k)) nm)) (of_nat HASH_TABLE_SIZE)
     = Inl OutOfBounds \<and>
   hashtable_ts_free (Some (hashtable_ts_init (Some (\<lambda>k. k)) nm)) (of_nat HASH_TABLE_SIZE)
     = Inl OutOfBounds"
  by (simp_all add: hashtable_ts_insert_def hashtable_ts_get_def hashtable_ts_free_def
      hashtable_ts_init_def HASH_TABLE_SIZE_def)

end
