(* ===== verification/Wire.thy ===== *)
theory Wire
  imports Prelude
begin

text \<open>
  What the two programs of \<open>nonstop_networking\<close> share on the wire: text is a list of characters,
  a file size is the eight bytes of a \<open>size_t\<close> in the order of a little-endian machine, and a
  system call that moves bytes may move fewer than asked. The calls take their outcomes from a
  list (an oracle); an exhausted list stands for calls that move everything.
\<close>

section \<open>Constants and text\<close>

definition BUFSIZ :: nat where
  "BUFSIZ = 8192"

abbreviation NUL :: char where
  "NUL \<equiv> CHR 0x00"

abbreviation NL :: char where
  "NL \<equiv> CHR 0x0A"

abbreviation SP :: char where
  "SP \<equiv> CHR 0x20"

text \<open>The C string at the start of a byte array.\<close>

definition cstr :: "string \<Rightarrow> string" where
  "cstr s = takeWhile (\<lambda>c. c \<noteq> NUL) s"

lemma cstr_id: "NUL \<notin> set s \<Longrightarrow> cstr s = s"
  unfolding cstr_def by (subst takeWhile_eq_all_conv) auto

lemma cstr_append_NUL: "NUL \<notin> set s \<Longrightarrow> cstr (s @ NUL # t) = s"
  unfolding cstr_def by (subst takeWhile_append2) auto

section \<open>Sizes on the wire\<close>

fun le_bytes :: "nat \<Rightarrow> nat \<Rightarrow> string" where
  "le_bytes 0 n = []"
| "le_bytes (Suc k) n = char_of (n mod 256) # le_bytes k (n div 256)"

fun le_value :: "string \<Rightarrow> nat" where
  "le_value [] = 0"
| "le_value (c # cs) = of_char c + 256 * le_value cs"

lemma length_le_bytes [simp]: "length (le_bytes k n) = k"
  by (induction k arbitrary: n) auto

lemma le_value_le_bytes: "le_value (le_bytes k n) = n mod 256 ^ k"
proof (induction k arbitrary: n)
  case (Suc k)
  have "n mod 256 ^ Suc k = n mod 256 + 256 * (n div 256 mod 256 ^ k)"
    by (simp add: mod_mult2_eq)
  with Suc show ?case by simp
qed simp

lemma le_value_bound: "le_value cs < 256 ^ length cs"
proof (induction cs)
  case (Cons c cs)
  have "of_char c < (256 :: nat)" by simp
  moreover define P :: nat where "P = 256 ^ length cs"
  moreover have "le_value cs < P" using Cons P_def by simp
  ultimately have "of_char c + 256 * le_value cs < 256 * P" by linarith
  then show ?case by (simp add: P_def)
qed simp

lemma le_bytes_le_value: "le_bytes (length cs) (le_value cs) = cs"
proof (induction cs)
  case (Cons c cs)
  have "of_char c < (256 :: nat)" by simp
  with Cons show ?case by simp
qed simp

text \<open>\<open>insert_size_into_mem\<close> copies the eight bytes of a \<open>size_t\<close>.\<close>

definition insert_size_into_mem :: "nat \<Rightarrow> string" where
  "insert_size_into_mem n = le_bytes 8 n"

text \<open>The \<open>memcpy\<close> of eight bytes into a \<open>size_t\<close>; bytes past the end of what was received are 0.\<close>

definition size_at :: "string \<Rightarrow> nat \<Rightarrow> nat" where
  "size_at s k = le_value (take 8 (drop k s @ replicate 8 NUL))"

lemma size_at_value:
  assumes "n < 2 ^ 64"
  shows "size_at (p @ insert_size_into_mem n @ q) (length p) = n"
proof -
  have "le_value (le_bytes 8 n) = n mod 256 ^ 8" by (rule le_value_le_bytes)
  also have "\<dots> = n" using assms by simp
  finally show ?thesis by (simp add: size_at_def insert_size_into_mem_def)
qed

section \<open>Calls that move bytes\<close>

datatype send_res = Again | Failed | Sent nat

text \<open>
  The loop of \<open>send_all\<close>: the bytes the socket takes and the outcomes left. \<open>Again\<close> is
  \<open>EAGAIN\<close>, after which the loop tests its condition; 0 bytes sent means a closed
  connection. A call never takes more than it is given.
\<close>

fun send_loop :: "send_res list \<Rightarrow> string \<Rightarrow> string \<times> send_res list" where
  "send_loop [] buf = (buf, [])"
| "send_loop (Again # rs) buf = (if buf = [] then ([], rs) else send_loop rs buf)"
| "send_loop (Failed # rs) buf = ([], rs)"
| "send_loop (Sent n # rs) buf =
     (let k = min n (length buf) in
      if k = 0 then ([], rs)
      else if k < length buf
      then (let (out, rs') = send_loop rs (drop k buf) in (take k buf @ out, rs'))
      else (buf, rs))"

lemma send_loop_prefix: "\<exists>t. buf = fst (send_loop rs buf) @ t"
proof (induction rs buf rule: send_loop.induct)
  case (4 n rs buf)
  show ?case
  proof (cases "0 < n \<and> n < length buf")
    case True
    with 4 obtain t where "drop n buf = fst (send_loop rs (drop n buf)) @ t"
      by (auto simp: min_def)
    then have "buf = take n buf @ fst (send_loop rs (drop n buf)) @ t"
      by (metis append_take_drop_id)
    with True show ?thesis by (auto simp: Let_def split: prod.split) 
  qed (auto simp: Let_def min_def)
qed auto

text \<open>A connection that stays open takes every byte, however the kernel cuts the transfer.\<close>

definition live :: "send_res list \<Rightarrow> bool" where
  "live rs \<longleftrightarrow> Failed \<notin> set rs \<and> Sent 0 \<notin> set rs"

lemma live_simps [simp]:
  "live []" "live (Again # rs) = live rs" "\<not> live (Failed # rs)"
  "live (Sent n # rs) \<longleftrightarrow> 0 < n \<and> live rs"
  by (auto simp: live_def)

lemma send_loop_live:
  "live rs \<Longrightarrow> fst (send_loop rs buf) = buf \<and> live (snd (send_loop rs buf))"
  by (induction rs buf rule: send_loop.induct) (auto simp: Let_def min_def split: prod.split)

text \<open>
  The loop of \<open>write_all\<close> on a stdio stream: an outcome is the number of bytes one \<open>fwrite\<close>
  accepts; 0 (a full disk, or nothing to write) ends the loop.
\<close>

fun write_loop :: "nat list \<Rightarrow> string \<Rightarrow> string \<times> nat list" where
  "write_loop [] buf = (buf, [])"
| "write_loop (n # rs) buf =
     (let k = min n (length buf) in
      if k = 0 then ([], rs)
      else if k < length buf
      then (let (out, rs') = write_loop rs (drop k buf) in (take k buf @ out, rs'))
      else (buf, rs))"

lemma write_loop_all: "0 \<notin> set rs \<Longrightarrow> fst (write_loop rs buf) = buf \<and> 0 \<notin> set (snd (write_loop rs buf))"
  by (induction rs buf rule: write_loop.induct) (auto simp: Let_def min_def split: prod.split)

end
