(* ===== verification/Server.thy ===== *)
theory Server
  imports HashTable Wire
begin

text \<open>
  The file server of \<open>nonstop_networking/server.c\<close>: streams, sessions, the handlers of the four
  verbs, and the event loop. The state is one record: the static variables of the file, the heap
  of sessions, and the world the server acts on (its files, the bytes its sockets have accepted,
  and the outcomes still to come of \<open>send\<close> and \<open>fwrite\<close>). Paths are compared as text, and a
  stdio stream writes through to its file. The vector library that holds the directory listing
  is not part of the repository: its operations are the parameter \<open>V\<close>.
\<close>

section \<open>The vector library\<close>

record 'v vec_ops =
  v_create :: 'v
  v_size :: "'v \<Rightarrow> nat"
  v_get :: "'v \<Rightarrow> nat \<Rightarrow> string"
  v_push_back :: "'v \<Rightarrow> string \<Rightarrow> 'v"
  v_erase :: "'v \<Rightarrow> nat \<Rightarrow> 'v"

text \<open>\<open>VECTOR_FOR_EACH\<close> visits the elements from \<open>vector_begin\<close> to \<open>vector_end\<close>.\<close>

definition vector_items :: "'v vec_ops \<Rightarrow> 'v \<Rightarrow> string list" where
  "vector_items V v = map (v_get V v) [0..<v_size V v]"

section \<open>State\<close>

record Stream =
  buffer :: string
  socket :: nat
  position :: nat
  bytesInBuffer :: nat
  atEnd :: bool
  inError :: bool

datatype session_state =
    STATE_WRITING
  | STATE_READING_HEADER
  | STATE_SENDING_GET
  | STATE_READING_PUT_SIZE
  | STATE_READING_PUT_DATA
  | STATE_WRITING_LIST
  | STATE_INTERNAL_ERROR
  | STATE_DONE

datatype session_status = STATUS_SESSION_WAIT | STATUS_SESSION_END | STATUS_SESSION_ERROR

text \<open>An open \<open>FILE\<close>: the inode it was opened on and the offset of the next write.\<close>

record file_handle =
  fh_inode :: nat
  fh_pos :: nat

text \<open>
  \<open>input\<close> holds the bytes stored so far in the array of \<open>2 * BUFSIZ\<close> bytes, which \<open>calloc\<close>
  clears: past them it is zero. \<open>inputPos\<close> is the next index to store at.
\<close>

record Session =
  stream :: Stream
  state :: session_state
  input :: string
  filename :: string
  inputPos :: nat
  fd :: "file_handle option"
  status :: session_status
  listData :: "string option"
  listDataPos :: nat
  reading :: bool
  headersize :: nat
  totalBytesForPut :: nat
  totalWritten :: nat

text \<open>
  The server and its world. \<open>names\<close> maps a path to its inode, \<open>content\<close> an inode to its bytes;
  \<open>creatable\<close> says for which paths \<open>fopen\<close> for writing succeeds; \<open>mem\<close> whether the
  allocators succeed; \<open>outs\<close> is what each socket has accepted, \<open>watched\<close> the sockets
  registered with \<open>epoll\<close>.
\<close>

record 'v server =
  base_temp_dir :: string
  directory :: 'v
  sock_to_session_hashtable :: my_hash_table_t
  sessions :: "ptr \<Rightarrow> Session option"
  next_session :: ptr
  mem :: bool
  names :: "string \<Rightarrow> nat option"
  content :: "nat \<Rightarrow> string"
  next_inode :: nat
  creatable :: "string \<Rightarrow> bool"
  outs :: "nat \<Rightarrow> string"
  sends :: "send_res list"
  writes :: "nat list"
  watched :: "nat list"

text \<open>An operation on a session also acts on the server.\<close>

type_synonym 'v work = "'v server \<times> Session"

section \<open>System calls\<close>

text \<open>\<open>snprintf(buffer, BUFSIZ, "%s/%s", base_temp_dir, filename)\<close> cuts a long path.\<close>

definition fullpath :: "'v server \<Rightarrow> string \<Rightarrow> string" where
  "fullpath w name = take (BUFSIZ - 1) (base_temp_dir w @ ''/'' @ name)"

definition send_all :: "string \<Rightarrow> nat \<Rightarrow> 'v server \<Rightarrow> 'v server" where
  "send_all buf sock w =
     (let (out, rs) = send_loop (sends w) buf in
      w\<lparr>outs := (outs w)(sock := outs w sock @ out), sends := rs\<rparr>)"

text \<open>Bytes written at an offset; a gap past the end of the file reads as zeros.\<close>

definition overwrite :: "string \<Rightarrow> nat \<Rightarrow> string \<Rightarrow> string" where
  "overwrite c pos bs =
     take pos c @ replicate (pos - length c) NUL @ bs @ drop (pos + length bs) c"

definition write_all :: "file_handle \<Rightarrow> string \<Rightarrow> 'v server \<Rightarrow> file_handle \<times> 'v server" where
  "write_all h buf w =
     (let (out, rs) = write_loop (writes w) buf in
      (h\<lparr>fh_pos := fh_pos h + length out\<rparr>,
       w\<lparr>content := (content w)(fh_inode h := overwrite (content w (fh_inode h)) (fh_pos h) out),
         writes := rs\<rparr>))"

text \<open>\<open>fopen(path, "wb")\<close> creates the file or empties it.\<close>

definition fopen_wb :: "string \<Rightarrow> 'v server \<Rightarrow> file_handle option \<times> 'v server" where
  "fopen_wb path w =
     (if \<not> creatable w path then (None, w)
      else case names w path of
        Some i \<Rightarrow> (Some \<lparr>fh_inode = i, fh_pos = 0\<rparr>, w\<lparr>content := (content w)(i := [])\<rparr>)
      | None \<Rightarrow> (Some \<lparr>fh_inode = next_inode w, fh_pos = 0\<rparr>,
                 w\<lparr>names := (names w)(path \<mapsto> next_inode w),
                   content := (content w)(next_inode w := []), next_inode := Suc (next_inode w)\<rparr>))"

definition fopen_rb :: "string \<Rightarrow> 'v server \<Rightarrow> string option" where
  "fopen_rb path w = map_option (content w) (names w path)"

text \<open>\<open>unlink\<close> returns whether it succeeded.\<close>

definition unlink :: "string \<Rightarrow> 'v server \<Rightarrow> bool \<times> 'v server" where
  "unlink path w = (names w path \<noteq> None, w\<lparr>names := (names w)(path := None)\<rparr>)"

section \<open>Streams\<close>

definition Stream_Reset :: "Stream \<Rightarrow> nat \<Rightarrow> Stream" where
  "Stream_Reset st sock =
     st\<lparr>socket := sock, position := 0, bytesInBuffer := 0, atEnd := False, inError := False\<rparr>"

text \<open>\<^const>\<open>None\<close> is \<open>STREAM_END\<close>.\<close>

definition Stream_GetNext :: "Stream \<Rightarrow> (Stream \<times> char option) result" where
  "Stream_GetNext st =
     (if atEnd st \<or> inError st then Inl AssertFail
      else if position st < bytesInBuffer st
      then if position st < length (buffer st)
           then Inr (st\<lparr>position := position st + 1\<rparr>, Some (buffer st ! position st))
           else Inl OutOfBounds
      else Inr (st, None))"

section \<open>Responses\<close>

text \<open>The texts of \<open>format.c\<close>.\<close>

definition err_bad_request :: string where
  "err_bad_request = ''Bad request'' @ [NL]"

definition err_bad_file_size :: string where
  "err_bad_file_size = ''Bad file size'' @ [NL]"

definition err_no_such_file :: string where
  "err_no_such_file = ''No such file'' @ [NL]"

text \<open>The callers pass literals: \<open>msgcode\<close> is never \<open>NULL\<close> and the text fits \<open>errmsg\<close>.\<close>

definition send_header_response :: "string \<Rightarrow> string option \<Rightarrow> 'v work \<Rightarrow> 'v work" where
  "send_header_response msgcode msg = (\<lambda>(w, s).
     let errmsg = msgcode @ [NL] @ (case msg of None \<Rightarrow> [] | Some m \<Rightarrow> m @ [NL]) in
     (send_all errmsg (socket (stream s)) w,
      s\<lparr>state := STATE_DONE,
        status := (if msgcode = ''OK'' then STATUS_SESSION_END else STATUS_SESSION_ERROR)\<rparr>))"

definition exist_in_vector :: "'v vec_ops \<Rightarrow> 'v \<Rightarrow> string \<Rightarrow> bool" where
  "exist_in_vector V v name = list_ex (\<lambda>item. name = item) (vector_items V v)"

text \<open>The index loops that look for a name in the directory stop at its first occurrence.\<close>

fun find_name :: "'v vec_ops \<Rightarrow> 'v \<Rightarrow> string \<Rightarrow> nat list \<Rightarrow> nat option" where
  "find_name V v name [] = None"
| "find_name V v name (i # is) = (if name = v_get V v i then Some i else find_name V v name is)"

definition directory_index :: "'v vec_ops \<Rightarrow> 'v \<Rightarrow> string \<Rightarrow> nat option" where
  "directory_index V v name = find_name V v name [0..<v_size V v]"

text \<open>
  \<open>Stream_WriteNext\<close> (which nothing calls) fills a buffer that it never empties: its local
  \<open>result\<close> is the constant 0, not \<open>STREAM_OK\<close>. The result is the code it returns.
\<close>

definition STREAM_END :: int where "STREAM_END = 1001"

definition STREAM_OK :: int where "STREAM_OK = 1005"

definition Stream_WriteNext :: "Stream \<Rightarrow> char \<Rightarrow> (Stream \<times> int) result" where
  "Stream_WriteNext st c =
     (if atEnd st \<or> inError st then Inl AssertFail
      else if position st = BUFSIZ
      then let result = 0 in
           if result \<noteq> STREAM_OK then Inr (st, result)
           else Inl AssertFail
      else Inr (st, STREAM_END))"

section \<open>The request line\<close>

text \<open>
  \<open>input[k]\<close> of the cleared array; \<open>strncmp(input, cmd, n) = 0\<close> for a command without
  \<open>NUL\<close> compares the first bytes; \<open>strchr(input, '\n')\<close> looks no further than the first
  \<open>NUL\<close>.
\<close>

definition input_at :: "Session \<Rightarrow> nat \<Rightarrow> char" where
  "input_at s k = (if k < length (input s) then input s ! k else NUL)"

definition has_prefix :: "Session \<Rightarrow> string \<Rightarrow> bool" where
  "has_prefix s cmd = (take (length cmd) (input s) = cmd)"

definition newline_index :: "Session \<Rightarrow> nat option" where
  "newline_index s =
     (let line = takeWhile (\<lambda>c. c \<noteq> NL) (cstr (input s)) in
      if length line < length (cstr (input s)) then Some (length line) else None)"

definition bad_request :: "'v work \<Rightarrow> bool \<times> 'v work" where
  "bad_request ws = (False, send_header_response ''ERROR'' (Some err_bad_request) ws)"

text \<open>A name of \<open>BUFSIZ\<close> bytes or more does not fit \<open>filename\<close> and its terminator.\<close>

definition TryParse :: "string \<Rightarrow> bool \<Rightarrow> 'v work \<Rightarrow> (bool \<times> 'v work) result" where
  "TryParse cmd hasFilename = (\<lambda>(w, s).
     let cmdLen = length cmd in
     if \<not> has_prefix s cmd then Inr (False, w, s)
     else if hasFilename
     then if input_at s cmdLen \<noteq> SP then Inr (bad_request (w, s))
          else case newline_index s of
            None \<Rightarrow> Inr (bad_request (w, s))
          | Some nl \<Rightarrow>
              if nl - (cmdLen + 1) < BUFSIZ
              then Inr (True, w, s\<lparr>filename := take (nl - (cmdLen + 1)) (drop (cmdLen + 1) (input s))\<rparr>)
              else Inl OutOfBounds
     else if input_at s cmdLen \<noteq> NL then Inr (bad_request (w, s))
     else Inr (True, w, s))"

section \<open>LIST, GET and DELETE\<close>

text \<open>The header \<open>"OK\n"\<close> followed by the eight bytes of the size.\<close>

definition ok_header :: "nat \<Rightarrow> string" where
  "ok_header n = ''OK'' @ [NL] @ insert_size_into_mem n"

definition list_data :: "'v vec_ops \<Rightarrow> 'v \<Rightarrow> string" where
  "list_data V v = concat (map (\<lambda>item. item @ [NL]) (vector_items V v))"

definition session_start_list :: "'v vec_ops \<Rightarrow> 'v work \<Rightarrow> 'v work" where
  "session_start_list V = (\<lambda>(w, s).
     let sizeCount = sum_list (map (\<lambda>item. length item + 1) (vector_items V (directory w))) in
     if \<not> mem w
     then (w, s\<lparr>listData := None, state := STATE_INTERNAL_ERROR, status := STATUS_SESSION_ERROR\<rparr>)
     else let data = list_data V (directory w); sock = socket (stream s) in
       (send_all data sock (send_all (ok_header sizeCount) sock w),
        s\<lparr>listData := None, state := STATE_DONE, status := STATUS_SESSION_END\<rparr>))"

text \<open>
  The loop that sends a file: \<open>rest\<close> is what \<open>fread\<close> has not returned yet, \<open>sent\<close> is
  \<open>bytes_read\<close>. The result is false when \<open>fread\<close> returned nothing.
\<close>

function get_loop :: "string \<Rightarrow> nat \<Rightarrow> nat \<Rightarrow> nat \<Rightarrow> 'v server \<Rightarrow> bool \<times> 'v server" where
  "get_loop rest sent st_size sock w =
     (if rest = [] then (False, w)
      else let chunk = take BUFSIZ rest;
               w' = send_all chunk sock w in
           if sent + length chunk < st_size
           then get_loop (drop BUFSIZ rest) (sent + length chunk) st_size sock w'
           else (True, w'))"
  by pat_completeness auto
termination
  by (relation "measure (\<lambda>(rest, _). length rest)") (auto simp: BUFSIZ_def)

declare get_loop.simps [simp del]

definition sending_get_response :: "'v work \<Rightarrow> 'v work" where
  "sending_get_response = (\<lambda>(w, s).
     if filename s = [] then send_header_response ''ERROR'' (Some err_no_such_file) (w, s)
     else case fopen_rb (fullpath w (filename s)) w of
       None \<Rightarrow> send_header_response ''ERROR'' (Some err_no_such_file) (w, s)
     | Some bytes \<Rightarrow>
         let sock = socket (stream s);
             (ok, w') = get_loop bytes 0 (length bytes) sock (send_all (ok_header (length bytes)) sock w) in
         if ok then (w', s\<lparr>state := STATE_DONE, status := STATUS_SESSION_END\<rparr>)
         else (w', s\<lparr>state := STATE_INTERNAL_ERROR, status := STATUS_SESSION_ERROR\<rparr>))"

definition session_start_get :: "'v work \<Rightarrow> 'v work" where
  "session_start_get ws = (let (w, s) = sending_get_response ws in (w, s\<lparr>state := STATE_SENDING_GET\<rparr>))"

definition session_start_delete :: "'v vec_ops \<Rightarrow> 'v work \<Rightarrow> 'v work" where
  "session_start_delete V = (\<lambda>(w, s).
     let (path, w1) = (case directory_index V (directory w) (filename s) of
           None \<Rightarrow> ([], w)
         | Some i \<Rightarrow> (fullpath w (filename s), w\<lparr>directory := v_erase V (directory w) i\<rparr>));
         (result, w2) = unlink path w1 in
     if result then send_header_response ''OK'' None (w2, s)
     else send_header_response ''ERROR'' (Some err_no_such_file) (w2, s))"

section \<open>Reading a request\<close>

text \<open>
  The loop that moves the bytes of the stream to \<open>input\<close> while \<open>go\<close> holds (the header loop
  goes on while the state is \<open>STATE_READING_HEADER\<close>, the loop of PUT until the stream ends).
  Nothing compares \<open>inputPos\<close> with the size of the array.
\<close>

definition store_input :: "char \<Rightarrow> Session \<Rightarrow> Session result" where
  "store_input c s =
     (if inputPos s < 2 * BUFSIZ then Inr (s\<lparr>input := input s @ [c], inputPos := inputPos s + 1\<rparr>)
      else Inl OutOfBounds)"

function fill_input :: "(Session \<Rightarrow> bool) \<Rightarrow> Session \<Rightarrow> Session result" where
  "fill_input go s =
     (case Stream_GetNext (stream s) of
        Inl e \<Rightarrow> Inl e
      | Inr (st, None) \<Rightarrow> Inr (s\<lparr>stream := st\<rparr>)
      | Inr (st, Some c) \<Rightarrow>
          (case store_input c (s\<lparr>stream := st\<rparr>) of
             Inl e \<Rightarrow> Inl e
           | Inr s' \<Rightarrow> if go s' then fill_input go s' else Inr s'))"
  by pat_completeness auto
termination
  by (relation "measure (\<lambda>(_, s). bytesInBuffer (stream s) - position (stream s))")
    (auto simp: Stream_GetNext_def store_input_def split: if_splits)

declare fill_input.simps [simp del]

definition continue_reading_put :: "'v work \<Rightarrow> 'v work result" where
  "continue_reading_put = (\<lambda>(w, s).
     if state s = STATE_READING_PUT_SIZE
     then rbind (fill_input (\<lambda>_. True) s) (\<lambda>s.
       if headersize s + 8 \<le> inputPos s
       then let s1 = s\<lparr>totalBytesForPut := size_at (input s) (headersize s)\<rparr>;
                (h, w1) = fopen_wb (fullpath w (filename s)) w;
                s2 = s1\<lparr>fd := h\<rparr> in
            case h of
              None \<Rightarrow> Inr (send_header_response ''ERROR'' (Some ''An internal error ocurred'') (w1, s2))
            | Some f \<Rightarrow>
                let nowWritingBytes = inputPos s - headersize s - 8;
                    (w2, s3) = (if nowWritingBytes > 0
                      then let (f', w') = write_all f (drop (headersize s + 8) (input s)) w1 in
                           (w', s2\<lparr>fd := Some f', totalWritten := nowWritingBytes\<rparr>)
                      else (w1, s2)) in
                Inr (w2, s3\<lparr>state := STATE_READING_PUT_DATA\<rparr>)
       else Inr (w, s))
     else case fd s of
       None \<Rightarrow> Inl NullDeref
     | Some f \<Rightarrow>
         let (f', w') = write_all f (take (bytesInBuffer (stream s)) (buffer (stream s))) w in
         Inr (w', s\<lparr>fd := Some f', totalWritten := totalWritten s + bytesInBuffer (stream s)\<rparr>))"

definition session_start_put :: "nat \<Rightarrow> 'v work \<Rightarrow> 'v work result" where
  "session_start_put cmdLen = (\<lambda>(w, s).
     continue_reading_put
       (w, s\<lparr>headersize := cmdLen + length (filename s) + 2, state := STATE_READING_PUT_SIZE\<rparr>))"

text \<open>
  The check of \<open>continue_reading_header\<close> for a request that cannot become one of the four verbs.
  It is reached only when no verb of \<open>TryParse\<close> was seen.
\<close>

definition unknown_request :: "Session \<Rightarrow> bool" where
  "unknown_request s =
     (if input_at s 0 \<notin> {CHR ''G'', CHR ''P'', CHR ''L'', CHR ''D''} then True
      else if 3 \<le> inputPos s \<and> input_at s 0 = CHR ''G'' \<and> \<not> has_prefix s ''GET'' then True
      else if 3 \<le> inputPos s \<and> input_at s 0 = CHR ''P'' \<and> \<not> has_prefix s ''PUT'' then True
      else if 4 \<le> inputPos s \<and> input_at s 0 = CHR ''L'' \<and> \<not> has_prefix s ''LIST'' then True
      else 6 \<le> inputPos s \<and> input_at s 0 = CHR ''D'' \<and> \<not> has_prefix s ''DELETE'')"

definition continue_reading_header :: "'v vec_ops \<Rightarrow> 'v work \<Rightarrow> 'v work result" where
  "continue_reading_header V = (\<lambda>(w, s).
     rbind (fill_input (\<lambda>s. state s = STATE_READING_HEADER) s) (\<lambda>s.
     rbind (TryParse ''LIST'' False (w, s)) (\<lambda>(ok, ws).
     if ok then Inr (session_start_list V ws) else
     rbind (TryParse ''GET'' True ws) (\<lambda>(ok, ws).
     if ok then Inr (session_start_get ws) else
     rbind (TryParse ''PUT'' True ws) (\<lambda>(ok, ws).
     if ok then session_start_put 3 ws else
     rbind (TryParse ''DELETE'' True ws) (\<lambda>(ok, ws).
     if ok then Inr (session_start_delete V ws) else
     if state (snd ws) = STATE_READING_HEADER \<and> unknown_request (snd ws)
     then Inr (send_header_response ''ERROR'' (Some err_bad_request) ws)
     else Inr ws))))))"

text \<open>
  \<open>sending_put_response\<close> ends an upload: on success the name enters the directory listing unless
  it is there; otherwise the file and the name are removed.
\<close>

definition sending_put_response :: "'v vec_ops \<Rightarrow> string \<Rightarrow> string option \<Rightarrow> 'v work \<Rightarrow> 'v work result" where
  "sending_put_response V msgcode msg = (\<lambda>(w, s).
     if fd s = None then Inl NullDeref
     else let (w1, s1) = send_header_response msgcode msg (w, s);
              exist = exist_in_vector V (directory w1) (filename s1) in
       if msgcode = ''OK''
       then Inr ((if exist then w1
                  else w1\<lparr>directory := v_push_back V (directory w1) (filename s1)\<rparr>), s1)
       else let (_, w2) = unlink (fullpath w1 (filename s1)) w1 in
         Inr ((if exist
               then case directory_index V (directory w2) (filename s1) of
                      Some i \<Rightarrow> w2\<lparr>directory := v_erase V (directory w2) i\<rparr>
                    | None \<Rightarrow> w2
               else w2), s1))"

section \<open>Sessions\<close>

definition Session_create :: "nat \<Rightarrow> Session" where
  "Session_create sock =
     \<lparr>stream = Stream_Reset \<lparr>buffer = [], socket = 0, position = 0, bytesInBuffer = 0,
                             atEnd = False, inError = False\<rparr> sock,
      state = STATE_READING_HEADER, input = [], filename = [], inputPos = 0, fd = None,
      status = STATUS_SESSION_WAIT, listData = None, listDataPos = 0, reading = True,
      headersize = 0, totalBytesForPut = 0, totalWritten = 0\<rparr>"

text \<open>\<open>calloc\<close> of the session: its address, or \<open>NULL\<close>.\<close>

definition alloc_session :: "nat \<Rightarrow> 'v server \<Rightarrow> ptr \<times> 'v server" where
  "alloc_session sock w =
     (if mem w
      then (next_session w, w\<lparr>sessions := (sessions w)(next_session w \<mapsto> Session_create sock),
                              next_session := next_session w + 1\<rparr>)
      else (NULL, w))"

text \<open>Every handler returns false, so the loop of \<open>Session_processNext\<close> makes one pass.\<close>

definition Session_processNext :: "'v vec_ops \<Rightarrow> 'v work \<Rightarrow> 'v work result" where
  "Session_processNext V = (\<lambda>(w, s).
     case state s of
       STATE_WRITING \<Rightarrow> Inr (w, s)
     | STATE_READING_HEADER \<Rightarrow> continue_reading_header V (w, s)
     | STATE_SENDING_GET \<Rightarrow> Inr (w, s)
     | STATE_READING_PUT_SIZE \<Rightarrow> continue_reading_put (w, s)
     | STATE_READING_PUT_DATA \<Rightarrow> continue_reading_put (w, s)
     | STATE_WRITING_LIST \<Rightarrow> Inr (w, s)
     | STATE_INTERNAL_ERROR \<Rightarrow> Inr (w, s)
     | STATE_DONE \<Rightarrow> Inr (w, s\<lparr>status := STATUS_SESSION_END\<rparr>))"

text \<open>The accesses of the event loop through the pointer of a session.\<close>

definition with_session :: "ptr \<Rightarrow> ('v work \<Rightarrow> 'v work result) \<Rightarrow> 'v server \<Rightarrow> 'v server result" where
  "with_session p f w =
     (if p = NULL then Inl NullDeref
      else case sessions w p of
        None \<Rightarrow> Inl UseAfterFree
      | Some s \<Rightarrow> rbind (f (w, s)) (\<lambda>(w', s'). Inr (w'\<lparr>sessions := (sessions w')(p \<mapsto> s')\<rparr>)))"

definition free_sessions :: "ptr list \<Rightarrow> 'v server \<Rightarrow> 'v server" where
  "free_sessions ps w = w\<lparr>sessions := (\<lambda>p. if p \<in> set ps then None else sessions w p)\<rparr>"

definition sock_key :: "nat \<Rightarrow> addr32" where
  "sock_key sock = of_nat sock"

definition end_session :: "nat \<Rightarrow> 'v server \<Rightarrow> 'v server result" where
  "end_session sock w =
     (let w1 = w\<lparr>watched := removeAll sock (watched w)\<rparr> in
      rbind (hashtable_ts_free (Some (sock_to_session_hashtable w1)) (sock_key sock)) (\<lambda>(T, rc, fr).
      Inr (free_sessions fr (w1\<lparr>sock_to_session_hashtable := the T\<rparr>))))"

section \<open>The event loop\<close>

text \<open>
  What one \<open>recv\<close> of at most \<open>BUFSIZ\<close> bytes gives: data, the end of the connection, no more
  data for now (\<open>EAGAIN\<close>), or another error.
\<close>

datatype recv_res = Data string | Eof | Would_block | Recv_error

text \<open>
  The session of a socket: the one the hash table has, or a new one, which is entered. The second
  component is the pointer, \<open>NULL\<close> when \<open>calloc\<close> failed.
\<close>

definition find_session :: "nat \<Rightarrow> 'v server \<Rightarrow> ('v server \<times> ptr) result" where
  "find_session sock w =
     rbind (hashtable_ts_get (Some (sock_to_session_hashtable w)) (sock_key sock)) (\<lambda>(rc, p).
     if rc = HASH_TABLE_OK then Inr (w, p)
     else let (p, w1) = alloc_session sock w in
       rbind (hashtable_ts_insert (mem w1) (Some (sock_to_session_hashtable w1)) (sock_key sock) p)
         (\<lambda>(T, rc, fr). Inr (free_sessions fr (w1\<lparr>sock_to_session_hashtable := the T\<rparr>), p)))"

text \<open>A \<open>recv\<close> stores its bytes at the start of the buffer of the stream.\<close>

definition stream_data :: "string \<Rightarrow> Session \<Rightarrow> Session" where
  "stream_data bs s =
     s\<lparr>stream := (stream s)\<lparr>buffer := bs @ drop (length bs) (buffer (stream s)),
                            bytesInBuffer := length bs\<rparr>\<rparr>"

definition rewind_stream :: "Session \<Rightarrow> Session" where
  "rewind_stream s = s\<lparr>stream := (stream s)\<lparr>position := 0\<rparr>\<rparr>"

text \<open>
  The loop that reads all a socket has. The result is the server, the session and \<open>done\<close>. An
  exhausted list of outcomes is a \<open>recv\<close> that would block.
\<close>

fun read_loop :: "'v vec_ops \<Rightarrow> nat \<Rightarrow> recv_res list \<Rightarrow> 'v server \<Rightarrow> ('v server \<times> ptr \<times> bool) result" where
  "read_loop V sock rs w =
     rbind (find_session sock w) (\<lambda>(w, p).
     rbind (with_session p (\<lambda>(w, s). Inr (w, rewind_stream s)) w) (\<lambda>w.
     case rs of
       [] \<Rightarrow> Inr (w, p, False)
     | Would_block # _ \<Rightarrow> Inr (w, p, False)
     | Recv_error # _ \<Rightarrow> Inr (w, p, True)
     | Eof # _ \<Rightarrow> Inr (w, p, True)
     | Data bs # rs' \<Rightarrow>
         if bs = [] then Inr (w, p, True)
         else rbind (with_session p (\<lambda>(w, s).
                Session_processNext V (w, stream_data (take BUFSIZ bs) s)) w) (\<lambda>w.
              read_loop V sock rs' w)))"

text \<open>What the loop does after the reads of a connection that has ended.\<close>

definition finish_upload :: "'v vec_ops \<Rightarrow> 'v work \<Rightarrow> 'v work result" where
  "finish_upload V = (\<lambda>(w, s).
     if totalWritten s < totalBytesForPut s
     then sending_put_response V ''ERROR'' (Some err_bad_file_size) (w, s)
     else if totalWritten s = totalBytesForPut s
     then sending_put_response V ''OK'' None (w, s)
     else sending_put_response V ''ERROR'' (Some err_bad_file_size) (w, s))"

definition finish_size :: "'v work \<Rightarrow> 'v work result" where
  "finish_size = (\<lambda>(w, s).
     if headersize s = 0 \<or> inputPos s < headersize s + 8
     then Inr (send_header_response ''ERROR'' (Some err_bad_request) (w, s))
     else Inr (w, s))"

definition handle_readable :: "'v vec_ops \<Rightarrow> nat \<Rightarrow> recv_res list \<Rightarrow> 'v server \<Rightarrow> 'v server result" where
  "handle_readable V sock rs w =
     rbind (read_loop V sock rs w) (\<lambda>(w, p, done).
     if \<not> done then Inr w
     else rbind (with_session p (\<lambda>(w, s).
            if state s = STATE_READING_PUT_SIZE then finish_size (w, s)
            else if state s = STATE_READING_PUT_DATA then finish_upload V (w, s)
            else Inr (w, s)) w) (\<lambda>w.
          end_session sock w))"

text \<open>
  One event of \<open>epoll_wait\<close>. \<open>Hangup\<close> is an event with \<open>EPOLLERR\<close>, \<open>EPOLLHUP\<close> or neither
  \<open>EPOLLIN\<close> nor \<open>EPOLLOUT\<close>; \<open>Incoming\<close> is one on the listening socket, with the
  descriptors that \<open>accept\<close> returns before it fails, and for each whether it could be made
  non-blocking and registered.
\<close>

datatype event = Hangup nat | Incoming "(nat \<times> bool) list" | Readable nat "recv_res list" | Writable nat

fun accept_loop :: "(nat \<times> bool) list \<Rightarrow> 'v server \<Rightarrow> 'v server result" where
  "accept_loop [] w = Inr w"
| "accept_loop ((infd, ok) # cs) w =
     (if \<not> ok then Inl (Exit 1) else accept_loop cs (w\<lparr>watched := infd # watched w\<rparr>))"

fun handle_event :: "'v vec_ops \<Rightarrow> event \<Rightarrow> 'v server \<Rightarrow> 'v server result" where
  "handle_event V (Hangup sock) w = Inr (w\<lparr>watched := removeAll sock (watched w)\<rparr>)"
| "handle_event V (Incoming cs) w = accept_loop cs w"
| "handle_event V (Readable sock rs) w = handle_readable V sock rs w"
| "handle_event V (Writable sock) w = Inr w"

definition event_loop :: "'v vec_ops \<Rightarrow> event list \<Rightarrow> 'v server \<Rightarrow> 'v server result" where
  "event_loop V evs w = rfold (handle_event V) evs w"

section \<open>Start-up\<close>

fun parse_args_from :: "string list \<Rightarrow> int" where
  "parse_args_from [] = 0"
| "parse_args_from (arg # args) = (if arg = ''--noverbose'' then parse_args_from args else - 1)"

definition parse_args :: "string list \<Rightarrow> int" where
  "parse_args argv = parse_args_from (drop 2 argv)"

text \<open>\<open>atoi\<close> of the standard library: blanks, a sign, then digits.\<close>

fun digits_value :: "int \<Rightarrow> string \<Rightarrow> int" where
  "digits_value acc [] = acc"
| "digits_value acc (c # cs) =
     (if 48 \<le> (of_char c :: nat) \<and> (of_char c :: nat) \<le> 57 then digits_value (acc * 10 + (of_char c - 48)) cs else acc)"

definition atoi :: "string \<Rightarrow> int" where
  "atoi s =
     (case dropWhile (\<lambda>c. c \<in> {SP, CHR 0x09, NL, CHR 0x0B, CHR 0x0C, CHR 0x0D}) s of
        [] \<Rightarrow> 0
      | c # cs \<Rightarrow> if c = CHR ''-'' then - digits_value 0 cs
                  else if c = CHR ''+'' then digits_value 0 cs else digits_value 0 (c # cs))"

text \<open>
  The results of the calls that open the listening socket; \<open>socket\<close> is tested against 0 where
  its error is \<open>-1\<close>, which the next call then reports.
\<close>

definition create_and_bind :: "int \<Rightarrow> (int \<Rightarrow> bool) \<Rightarrow> (int \<Rightarrow> bool) \<Rightarrow> (int \<Rightarrow> bool) \<Rightarrow> int result" where
  "create_and_bind sfd reuseaddr_ok reuseport_ok bind_ok =
     (if sfd = 0 then Inl (Exit 1)
      else if \<not> reuseaddr_ok sfd then Inl (Exit 1)
      else if \<not> reuseport_ok sfd then Inl (Exit 1)
      else if \<not> bind_ok sfd then Inl (Exit 1)
      else Inr sfd)"

text \<open>\<open>fcntl\<close>: the flags it reads (\<open>-1\<close> an error) and whether it sets the new ones.\<close>

definition O_NONBLOCK :: int32 where "O_NONBLOCK = 2048"

definition make_socket_non_blocking :: "int32 \<Rightarrow> (int32 \<Rightarrow> bool) \<Rightarrow> int32" where
  "make_socket_non_blocking flags setfl_ok =
     (if flags = - 1 then - 1
      else if \<not> setfl_ok (flags OR O_NONBLOCK) then - 1 else 0)"

definition initialize :: "'v vec_ops \<Rightarrow> string option \<Rightarrow> 'v server \<Rightarrow> 'v server result" where
  "initialize V mkdtemp w =
     (case mkdtemp of
        None \<Rightarrow> Inl (Exit 1)
      | Some tmp_dir \<Rightarrow>
          Inr (w\<lparr>base_temp_dir := take (BUFSIZ - 1) tmp_dir,
                 sock_to_session_hashtable := hashtable_ts_init None ''sock_to_session_hashtable'',
                 directory := v_create V\<rparr>))"

text \<open>\<open>set_sighandler\<close> installs the handler for five signals and stops at the first refusal.\<close>

datatype signo = SIGINT | SIGPIPE | SIGCHLD | SIGTERM | SIGHUP

definition set_sighandler :: "(signo \<Rightarrow> bool) \<Rightarrow> signo list \<times> int" where
  "set_sighandler ok =
     (let sigs = [SIGINT, SIGPIPE, SIGCHLD, SIGTERM, SIGHUP];
          installed = takeWhile ok sigs in
      (installed, if installed = sigs then 0 else - 1))"

text \<open>The answers of the system to the calls of \<open>main\<close> before its loop.\<close>

record boot =
  sig_ok :: "signo \<Rightarrow> bool"
  mkdtemp :: "string option"
  socket_fd :: int
  reuseaddr_ok :: "int \<Rightarrow> bool"
  reuseport_ok :: "int \<Rightarrow> bool"
  bind_ok :: "int \<Rightarrow> bool"
  getfl :: int32
  setfl_ok :: "int32 \<Rightarrow> bool"
  listen_ok :: bool
  epoll_fd :: int
  epoll_ctl_ok :: bool

definition server_main ::
  "'v vec_ops \<Rightarrow> string list \<Rightarrow> boot \<Rightarrow> event list \<Rightarrow> 'v server \<Rightarrow> 'v server result"
where
  "server_main V argv b evs w =
     (if length argv < 2 then Inl (Exit (- 1))
      else if atoi (argv ! 1) < 1024 then Inl (Exit (- 1))
      else if parse_args argv \<noteq> 0 then Inl (Exit (- 1))
      else if snd (set_sighandler (sig_ok b)) \<noteq> 0 then Inl (Exit (- 1))
      else rbind (initialize V (mkdtemp b) w) (\<lambda>w.
        rbind (create_and_bind (socket_fd b) (reuseaddr_ok b) (reuseport_ok b) (bind_ok b)) (\<lambda>server_fd.
        if server_fd = - 1 then Inl (Exit 1)
        else if make_socket_non_blocking (getfl b) (setfl_ok b) = - 1 then Inl (Exit 1)
        else if \<not> listen_ok b then Inl (Exit 1)
        else if epoll_fd b = - 1 then Inl (Exit 1)
        else if \<not> epoll_ctl_ok b then Inl (Exit 1)
        else event_loop V evs w)))"

end
