(* ===== verification/Cleanup.thy ===== *)
theory Cleanup
  imports Server
begin

text \<open>
  The removal of the server's directory when it is interrupted: \<open>remove_directory\<close> and the
  signal handler \<open>sig_usr_un\<close> of \<open>nonstop_networking/server.c\<close>, on a tree of files. What the
  system permits is a parameter.
\<close>

datatype fsnode = File | Dir "(string \<times> fsnode) list"

text \<open>Which paths may be opened, examined, unlinked and removed, and whether \<open>malloc\<close> succeeds.\<close>

record permits =
  can_open :: "string \<Rightarrow> bool"
  can_malloc :: "string \<Rightarrow> bool"
  can_stat :: "string \<Rightarrow> bool"
  can_unlink :: "string \<Rightarrow> bool"
  can_rmdir :: "string \<Rightarrow> bool"

definition is_dot :: "string \<Rightarrow> bool" where
  "is_dot name \<longleftrightarrow> name = ''.'' \<or> name = ''..''"

text \<open>
  The result is whether \<open>remove_directory\<close> returned 0, and what is left: \<^const>\<open>None\<close> when the
  directory is gone. \<open>rmdir\<close> succeeds on a directory with no entries but the dots. The loop over
  the entries stops at the first failure.
\<close>

fun remove_directory :: "permits \<Rightarrow> string \<Rightarrow> fsnode \<Rightarrow> bool \<times> fsnode option"
and remove_entries :: "permits \<Rightarrow> string \<Rightarrow> (string \<times> fsnode) list \<Rightarrow> bool \<times> (string \<times> fsnode) list"
where
  "remove_directory P path File = (False, Some File)"
| "remove_directory P path (Dir es) =
     (if \<not> can_open P path then (False, Some (Dir es))
      else let (r, es') = remove_entries P path es in
        if r \<and> list_all (\<lambda>(n, _). is_dot n) es' \<and> can_rmdir P path then (True, None)
        else (False, Some (Dir es')))"
| "remove_entries P path [] = (True, [])"
| "remove_entries P path ((n, x) # es) =
     (if is_dot n
      then let (r, es') = remove_entries P path es in (r, (n, x) # es')
      else let buf = path @ ''/'' @ n in
        if \<not> can_malloc P buf \<or> \<not> can_stat P buf then (False, (n, x) # es)
        else case x of
          Dir ds \<Rightarrow>
            (let (r, left) = remove_directory P buf (Dir ds) in
             if r then remove_entries P path es
             else (False, (n, case left of None \<Rightarrow> x | Some y \<Rightarrow> y) # es))
        | File \<Rightarrow>
            if can_unlink P buf then remove_entries P path es else (False, (n, x) # es))"

text \<open>
  \<open>sig_usr_un\<close>: two of the signals are ignored; every other one removes the directory and ends
  the program. The result is the status the program exits with, if it does, and the directory.
\<close>

definition sig_usr_un :: "permits \<Rightarrow> string \<Rightarrow> signo \<Rightarrow> fsnode \<Rightarrow> int option \<times> fsnode option" where
  "sig_usr_un P base_dir sig tree =
     (if sig = SIGCHLD \<or> sig = SIGPIPE then (None, Some tree)
      else (Some 0, snd (remove_directory P base_dir tree)))"

section \<open>Everything is removed\<close>

definition allowed :: "permits \<Rightarrow> bool" where
  "allowed P \<longleftrightarrow> (\<forall>p. can_open P p \<and> can_malloc P p \<and> can_stat P p \<and> can_unlink P p \<and> can_rmdir P p)"

lemma remove_all:
  assumes "allowed P"
  shows "(\<exists>es. t = Dir es) \<Longrightarrow> remove_directory P path t = (True, None)"
    and "fst (remove_entries P path es) \<and> list_all (\<lambda>(n, _). is_dot n) (snd (remove_entries P path es))"
  using assms
  by (induction P path t and P path es rule: remove_directory_remove_entries.induct)
    (auto simp: allowed_def Let_def split_beta split: fsnode.splits)

text \<open>An interrupt removes the whole tree, to any depth; a broken pipe leaves it alone.\<close>

lemma interrupt_removes_tree:
  assumes "allowed P"
  shows "sig_usr_un P dir SIGINT (Dir es) = (Some 0, None)" "sig_usr_un P dir SIGPIPE t = (None, Some t)"
  using remove_all(1) [OF assms, of "Dir es"] by (simp_all add: sig_usr_un_def)

end
