(* ===== verification/Client.thy ===== *)
theory Client
  imports Wire
begin

text \<open>
  The client of \<open>nonstop_networking/client.c\<close>: the request it sends, the buffered reader of the
  answer and the handlers of the four answers, and \<open>main\<close>. A function that can leave the program
  by \<open>exit\<close> gives an \<open>outcome\<close>, which keeps the state of the world at that point; standard
  output is a string of it, standard error is not modelled.
\<close>

section \<open>The world of the client\<close>

text \<open>
  What the socket still delivers is a list of chunks, at whose end the server has closed;
  \<open>Read_error\<close> is a \<open>read\<close> that fails.
\<close>

datatype read_res = Got string | Read_error

record client =
  incoming :: "read_res list"
  sent_bytes :: string
  send_outcomes :: "send_res list"
  stdout :: string
  local_files :: "string \<Rightarrow> string option"
  can_write :: "string \<Rightarrow> bool"
  file_writes :: "nat list"

datatype 'a outcome = Ok 'a client | Quit int client | Undefined fault

fun obind :: "'a outcome \<Rightarrow> ('a \<Rightarrow> client \<Rightarrow> 'b outcome) \<Rightarrow> 'b outcome" where
  "obind (Ok x c) f = f x c"
| "obind (Quit n c) f = Quit n c"
| "obind (Undefined e) f = Undefined e"

definition MAX_BUF_SIZE :: nat where
  "MAX_BUF_SIZE = 2048"

definition print_text :: "string \<Rightarrow> client \<Rightarrow> client" where
  "print_text s c = c\<lparr>stdout := stdout c @ s\<rparr>"

section \<open>The texts of \<open>format.c\<close>\<close>

definition print_connection_closed :: "client \<Rightarrow> client" where
  "print_connection_closed = print_text (''Connection closed'' @ [NL])"

definition print_error_message :: "string \<Rightarrow> client \<Rightarrow> client" where
  "print_error_message err = print_text (err @ [NL])"

definition print_invalid_response :: "client \<Rightarrow> client" where
  "print_invalid_response = print_text (''Invalid response'' @ [NL])"

definition print_received_too_much_data :: "client \<Rightarrow> client" where
  "print_received_too_much_data = print_text (''Received too much data'' @ [NL])"

definition print_too_little_data :: "client \<Rightarrow> client" where
  "print_too_little_data = print_text (''Received too little data'' @ [NL])"

definition print_success :: "client \<Rightarrow> client" where
  "print_success = print_text (''DELETE/PUT successful'' @ [NL])"

abbreviation TAB :: string where
  "TAB \<equiv> [CHR 0x09]"

definition usage_indent :: string where
  "usage_indent = [NL, SP] @ replicate 8 SP"

definition print_client_usage :: "client \<Rightarrow> client" where
  "print_client_usage = print_text (
     ''./client <host>:<port> <method> [remote] [local]'' @
     usage_indent @ ''<host>'' @ TAB @ TAB @ ''Address to conenct to.'' @
     usage_indent @ ''<port>'' @ TAB @ TAB @ ''Port to set up connection on.'' @
     usage_indent @ ''<method>'' @ TAB @ ''Method of request to send.'' @
     usage_indent @ ''[remote]'' @ TAB @ ''Optional argument refering to remote filename'' @
     usage_indent @ ''[local]'' @ TAB @ ''Optional argument refering to file on local system'' @
     usage_indent @ ''If <method> is any PUT, GET, or DELETE then [remote] and/or [local] are required'' @ [NL])"

definition print_client_help :: "client \<Rightarrow> client" where
  "print_client_help c = print_text (
     ''Methods:'' @
     usage_indent @ ''LIST'' @ TAB @ TAB @ TAB @ ''Requests a list of files on the server.'' @
     usage_indent @ ''PUT <remote> <local>'' @ TAB @ ''Uploads <local> file to serve as filename <remote>.'' @
     usage_indent @ ''GET <remote>'' @ TAB @ TAB @ ''Downloads file named <remote> from server.'' @
     usage_indent @ ''DELETE <remote>'' @ TAB @ ''Deletes file named <remote> on server.'' @ [NL])
     (print_client_usage c)"

section \<open>Sending\<close>

text \<open>The loop of \<open>send_all\<close> with, third, whether it ended the program.\<close>

fun client_send_loop :: "send_res list \<Rightarrow> string \<Rightarrow> string \<times> send_res list \<times> bool" where
  "client_send_loop [] buf = (buf, [], buf = [])"
| "client_send_loop (Again # rs) buf = (if buf = [] then ([], rs, False) else client_send_loop rs buf)"
| "client_send_loop (Failed # rs) buf = ([], rs, True)"
| "client_send_loop (Sent n # rs) buf =
     (let k = min n (length buf) in
      if k = 0 then ([], rs, True)
      else if k < length buf
      then (let (out, rs', quit) = client_send_loop rs (drop k buf) in (take k buf @ out, rs', quit))
      else (buf, rs, False))"

definition client_send_all :: "string \<Rightarrow> client \<Rightarrow> unit outcome" where
  "client_send_all buf c =
     (let (out, rs, quit) = client_send_loop (send_outcomes c) buf;
          c' = c\<lparr>sent_bytes := sent_bytes c @ out, send_outcomes := rs\<rparr> in
      if quit then Quit 1 (print_connection_closed c') else Ok () c')"

text \<open>\<open>filename = NULL\<close> is \<^const>\<open>None\<close>; the text must fit the buffer of \<open>main\<close>.\<close>

definition create_message :: "string \<Rightarrow> string option \<Rightarrow> string" where
  "create_message verb_as_char fname =
     (case fname of
        Some f \<Rightarrow> if f \<noteq> [] then verb_as_char @ [SP] @ f @ [NL] else verb_as_char @ [NL]
      | None \<Rightarrow> verb_as_char @ [NL])"

text \<open>
  The loop of \<open>send_file\<close>: \<open>rest\<close> is what \<open>fread\<close> has not returned; reading nothing, as at once
  in an empty file, is taken for an error.
\<close>

function send_file_loop :: "string \<Rightarrow> nat \<Rightarrow> nat \<Rightarrow> client \<Rightarrow> unit outcome" where
  "send_file_loop rest bytes_written st_size c =
     (if rest = [] then Quit 1 c
      else obind (client_send_all (take MAX_BUF_SIZE rest) c) (\<lambda>_ c.
        let written = bytes_written + length (take MAX_BUF_SIZE rest) in
        if written < st_size then send_file_loop (drop MAX_BUF_SIZE rest) written st_size c else Ok () c))"
  by pat_completeness auto
termination
  by (relation "measure (\<lambda>(rest, _). length rest)") (auto simp: MAX_BUF_SIZE_def)

declare send_file_loop.simps [simp del]

definition send_file :: "string \<Rightarrow> client \<Rightarrow> unit outcome" where
  "send_file fname c =
     (case local_files c fname of
        None \<Rightarrow> Quit 1 c
      | Some bytes \<Rightarrow>
          obind (client_send_all (insert_size_into_mem (length bytes)) c) (\<lambda>_ c.
            send_file_loop bytes 0 (length bytes) c))"

section \<open>Reading the answer\<close>

text \<open>\<open>rest\<close> are the \<open>bytes_left\<close> bytes at \<open>pNext\<close>.\<close>

record ReadState =
  rest :: string
  ended :: bool

definition start_read :: "string \<Rightarrow> ReadState" where
  "start_read bytes = \<lparr>rest = bytes, ended = False\<rparr>"

text \<open>\<open>read\<close> of at most \<open>n\<close> bytes: \<^const>\<open>None\<close> is an error, no byte the end of the connection.\<close>

definition sock_read :: "nat \<Rightarrow> client \<Rightarrow> string option \<times> client" where
  "sock_read n c =
     (case incoming c of
        [] \<Rightarrow> (Some [], c)
      | Read_error # rs \<Rightarrow> (None, c\<lparr>incoming := rs\<rparr>)
      | Got bs # rs \<Rightarrow>
          if length bs \<le> n then (Some bs, c\<lparr>incoming := rs\<rparr>)
          else (Some (take n bs), c\<lparr>incoming := Got (drop n bs) # rs\<rparr>))"

text \<open>\<^const>\<open>None\<close> is \<open>MY_EOF\<close>.\<close>

definition read_next :: "ReadState \<Rightarrow> client \<Rightarrow> (char option \<times> ReadState) outcome" where
  "read_next st c =
     (if ended st then Ok (None, st) c
      else case rest st of
        x # xs \<Rightarrow> Ok (Some x, st\<lparr>rest := xs\<rparr>) c
      | [] \<Rightarrow>
          (case sock_read MAX_BUF_SIZE c of
             (None, c) \<Rightarrow> Quit 1 (print_connection_closed c)
           | (Some [], c) \<Rightarrow> Ok (None, st\<lparr>ended := True\<rparr>) c
           | (Some (x # xs), c) \<Rightarrow> Ok (Some x, st\<lparr>rest := xs\<rparr>) c))"

text \<open>The bytes still to come, and that a byte read is one of them.\<close>

fun chunk_bytes :: "read_res list \<Rightarrow> nat" where
  "chunk_bytes [] = 0"
| "chunk_bytes (Got bs # rs) = length bs + chunk_bytes rs"
| "chunk_bytes (Read_error # rs) = chunk_bytes rs"

lemma take_Cons_length: "take n bs = x # xs \<Longrightarrow> n < length bs \<Longrightarrow> n = Suc (length xs)"
  by (metis length_Cons length_take min.absorb2 less_imp_le)

lemma read_next_less:
  "read_next st c = Ok (Some x, st') c' \<Longrightarrow>
     length (rest st') + chunk_bytes (incoming c') < length (rest st) + chunk_bytes (incoming c)"
  by (auto simp: read_next_def sock_read_def not_le split: if_splits list.splits option.splits prod.splits
      read_res.splits dest: take_Cons_length)

text \<open>
  \<open>read_line\<close> stores the bytes up to a newline or \<open>NUL\<close>, and a terminator, in a buffer of
  \<open>cap\<close> bytes that it does not check; \<open>acc\<close> holds what is stored.
\<close>

function read_line :: "nat \<Rightarrow> bool \<Rightarrow> string \<Rightarrow> ReadState \<Rightarrow> client \<Rightarrow> (string \<times> ReadState) outcome" where
  "read_line cap formatError acc st c =
     (case read_next st c of
        Quit n c \<Rightarrow> Quit n c
      | Undefined e \<Rightarrow> Undefined e
      | Ok (None, st) c \<Rightarrow>
          Quit 1 (if formatError then print_invalid_response c else print_too_little_data c)
      | Ok (Some x, st) c \<Rightarrow>
          if cap \<le> length acc then Undefined OutOfBounds
          else if x = NL \<or> x = NUL
          then (if cap \<le> length acc + 1 then Undefined OutOfBounds else Ok (acc @ [x], st) c)
          else read_line cap formatError (acc @ [x]) st c)"
  by pat_completeness auto
termination
  by (relation "measure (\<lambda>(_, _, _, st, c). length (rest st) + chunk_bytes (incoming c))")
    (auto dest: read_next_less)

declare read_line.simps [simp del]

fun read_size_loop :: "nat \<Rightarrow> string \<Rightarrow> ReadState \<Rightarrow> client \<Rightarrow> (string \<times> ReadState) outcome" where
  "read_size_loop 0 acc st c = Ok (acc, st) c"
| "read_size_loop (Suc n) acc st c =
     obind (read_next st c) (\<lambda>(x, st) c.
       case x of
         None \<Rightarrow> Quit 1 (print_invalid_response c)
       | Some x \<Rightarrow> read_size_loop n (acc @ [x]) st c)"

definition read_size :: "ReadState \<Rightarrow> client \<Rightarrow> (nat \<times> ReadState) outcome" where
  "read_size st c = obind (read_size_loop 8 [] st c) (\<lambda>(bs, st) c. Ok (le_value bs, st) c)"

section \<open>The handlers of the answers\<close>

text \<open>The line read, as a C string, decides: \<open>ERROR\<close> prints the next line and ends the program.\<close>

definition print_response_status :: "nat \<Rightarrow> string \<Rightarrow> ReadState \<Rightarrow> client \<Rightarrow> ReadState outcome" where
  "print_response_status cap line st c =
     (if take 6 (cstr line) = ''ERROR'' @ [NL]
      then obind (read_line cap True [] st c) (\<lambda>(msg, st) c. Quit 1 (print_error_message (cstr msg) c))
      else if take 3 (cstr line) \<noteq> ''OK'' @ [NL] then Quit 1 (print_invalid_response c)
      else Ok st c)"

fun list_loop :: "nat \<Rightarrow> ReadState \<Rightarrow> client \<Rightarrow> ReadState outcome" where
  "list_loop 0 st c = Ok st c"
| "list_loop (Suc n) st c =
     obind (read_next st c) (\<lambda>(x, st) c.
       case x of
         None \<Rightarrow> Quit 1 (print_too_little_data c)
       | Some x \<Rightarrow> list_loop n st (print_text [x] c))"

text \<open>After the answer the connection must be at its end; a \<open>NUL\<close> is let pass.\<close>

definition expect_end :: "ReadState \<Rightarrow> client \<Rightarrow> unit outcome" where
  "expect_end st c =
     obind (read_next st c) (\<lambda>(x, st) c.
       if x \<noteq> None \<and> x \<noteq> Some NUL then Quit 1 (print_received_too_much_data c) else Ok () c)"

definition handle_list_response :: "string \<Rightarrow> client \<Rightarrow> unit outcome" where
  "handle_list_response bytes c =
     obind (read_line MAX_BUF_SIZE True [] (start_read bytes) c) (\<lambda>(line, st) c.
     obind (print_response_status MAX_BUF_SIZE line st c) (\<lambda>st c.
     obind (read_size st c) (\<lambda>(size, st) c.
     obind (list_loop size st c) (\<lambda>st c.
     expect_end st c))))"

definition handle_delete_response :: "string \<Rightarrow> client \<Rightarrow> unit outcome" where
  "handle_delete_response bytes c =
     obind (read_line MAX_BUF_SIZE True [] (start_read bytes) c) (\<lambda>(line, st) c.
     obind (print_response_status MAX_BUF_SIZE line st c) (\<lambda>st c.
     expect_end st c))"

definition handle_put_response :: "string \<Rightarrow> client \<Rightarrow> unit outcome" where
  "handle_put_response bytes c =
     obind (read_line MAX_BUF_SIZE True [] (start_read bytes) c) (\<lambda>(line, st) c.
     obind (print_response_status MAX_BUF_SIZE line st c) (\<lambda>st c.
     expect_end st c))"

text \<open>\<open>fwrite\<close> at the end of the file that \<open>fopen\<close> has emptied; nothing is written for no bytes.\<close>

definition client_write_all :: "string \<Rightarrow> string \<Rightarrow> client \<Rightarrow> client" where
  "client_write_all fname buf c =
     (if buf = [] then c
      else let (out, rs) = write_loop (file_writes c) buf in
        c\<lparr>local_files := (local_files c)(fname := Some (the (local_files c fname) @ out)), file_writes := rs\<rparr>)"

definition GET_BUF_SIZE :: nat where
  "GET_BUF_SIZE = 81920"

lemma sock_read_less:
  "sock_read n c = (Some (x # xs), c') \<Longrightarrow>
     chunk_bytes (incoming c') < chunk_bytes (incoming c)"
  by (auto simp: sock_read_def not_le split: if_splits list.splits read_res.splits dest: take_Cons_length)

function get_response_loop :: "string \<Rightarrow> nat \<Rightarrow> nat \<Rightarrow> client \<Rightarrow> nat outcome" where
  "get_response_loop fname sz readcount c =
     (case sock_read GET_BUF_SIZE c of
        (None, c) \<Rightarrow> Quit 1 (print_connection_closed c)
      | (Some [], c) \<Rightarrow> Ok readcount c
      | (Some (x # xs), c) \<Rightarrow>
          let readcount = readcount + length (x # xs) in
          if sz < readcount then Quit 1 (print_received_too_much_data c)
          else get_response_loop fname sz readcount (client_write_all fname (x # xs) c))"
  by pat_completeness auto
termination
  by (relation "measure (\<lambda>(_, _, _, c). chunk_bytes (incoming c))")
    (auto simp: client_write_all_def split_beta dest: sock_read_less [OF sym])

declare get_response_loop.simps [simp del]

definition handle_get_response :: "string \<Rightarrow> string \<Rightarrow> client \<Rightarrow> unit outcome" where
  "handle_get_response fname bytes c =
     obind (read_line GET_BUF_SIZE True [] (start_read bytes) c) (\<lambda>(line, st) c.
     obind (print_response_status GET_BUF_SIZE line st c) (\<lambda>st c.
     if \<not> can_write c fname then Quit 1 c
     else let c = c\<lparr>local_files := (local_files c)(fname \<mapsto> [])\<rparr> in
     obind (read_size st c) (\<lambda>(size, st) c.
     let c = client_write_all fname (rest st) c in
     obind (get_response_loop fname size (length (rest st)) c) (\<lambda>readcount c.
     Ok () (if readcount < size then print_too_little_data c else c)))))"

section \<open>\<open>main\<close>\<close>

datatype verb = GET | PUT | DELETE | LIST | V_UNKNOWN

text \<open>
  The arguments are an array with a null pointer at its end: index \<open>length argv\<close> is \<open>NULL\<close>, a
  larger one out of bounds.
\<close>

definition arg :: "string list \<Rightarrow> nat \<Rightarrow> string option result" where
  "arg argv i =
     (if i < length argv then Inr (Some (argv ! i))
      else if i = length argv then Inr None else Inl OutOfBounds)"

definition check_args :: "string list \<Rightarrow> client \<Rightarrow> verb outcome" where
  "check_args argv c =
     (case arg argv 2 of
        Inl e \<Rightarrow> Undefined e
      | Inr None \<Rightarrow> Undefined NullDeref
      | Inr (Some command) \<Rightarrow>
          if command = ''LIST'' then Ok LIST c
          else if command = ''GET'' then (if arg argv 3 \<noteq> Inr None then Ok GET c else Quit 1 (print_client_help c))
          else if command = ''DELETE'' then (if arg argv 3 \<noteq> Inr None then Ok DELETE c else Quit 1 (print_client_help c))
          else if command = ''PUT'' then (if arg argv 3 = Inr None then Quit 1 (print_client_help c) else Ok PUT c)
          else Quit 1 (print_client_help c))"

text \<open>
  \<open>strtok(argv[1], ":")\<close> twice: the host and the port, \<^const>\<open>None\<close> when there is none.
\<close>

definition host_port :: "string \<Rightarrow> string option \<times> string option" where
  "host_port s =
     (let is_colon = (\<lambda>x. x = CHR '':'');
          s1 = dropWhile is_colon s;
          host = takeWhile (\<lambda>x. \<not> is_colon x) s1;
          s2 = dropWhile is_colon (dropWhile (\<lambda>x. \<not> is_colon x) s1);
          port = takeWhile (\<lambda>x. \<not> is_colon x) s2 in
      (if s1 = [] then None else Some host, if s2 = [] then None else Some port))"

text \<open>How the system answers the calls that set up the connection, and \<open>shutdown\<close>.\<close>

record network =
  socket_ok :: bool
  address_known :: "string \<Rightarrow> bool"
  address_valid :: "string \<Rightarrow> bool"
  connect_ok :: bool
  shutdown_ok :: bool
  epipe :: bool

text \<open>The part of \<open>main\<close> that sends the request; the names are the arguments after the verb.\<close>

definition send_request :: "verb \<Rightarrow> string \<Rightarrow> string option \<Rightarrow> string option \<Rightarrow> client \<Rightarrow> unit outcome" where
  "send_request v verb_as_char firstFile secondFile c =
     (let msg = create_message verb_as_char firstFile in
      if MAX_BUF_SIZE \<le> length msg then Undefined OutOfBounds
      else obind (client_send_all msg c) (\<lambda>_ c.
        if v = PUT then (case secondFile of None \<Rightarrow> Undefined NullDeref | Some f \<Rightarrow> send_file f c)
        else Ok () c))"

definition receive_response :: "verb \<Rightarrow> string option \<Rightarrow> client \<Rightarrow> int outcome" where
  "receive_response v secondFile c =
     (case sock_read MAX_BUF_SIZE c of
        (None, c) \<Rightarrow> Ok (- 1) (print_error_message ''Read error'' c)
      | (Some bytes, c) \<Rightarrow>
          (case v of
             LIST \<Rightarrow> obind (handle_list_response bytes c) (\<lambda>_. Quit 0)
           | DELETE \<Rightarrow> obind (handle_delete_response bytes c) (\<lambda>_ c. Quit 0 (print_success c))
           | GET \<Rightarrow> (case secondFile of None \<Rightarrow> Undefined NullDeref
                     | Some f \<Rightarrow> obind (handle_get_response f bytes c) (\<lambda>_. Quit 0))
           | PUT \<Rightarrow> obind (handle_put_response bytes c) (\<lambda>_ c. Quit 0 (print_success c))
           | V_UNKNOWN \<Rightarrow> Ok 1 (print_client_usage c)))"

text \<open>\<open>main\<close>; its return value, or the status of an \<open>exit\<close>.\<close>

definition client_main :: "string list \<Rightarrow> network \<Rightarrow> client \<Rightarrow> int outcome" where
  "client_main argv net c =
     (case arg argv 1 of
        Inl e \<Rightarrow> Undefined e
      | Inr None \<Rightarrow> Undefined NullDeref
      | Inr (Some hp) \<Rightarrow>
          let (host, strport) = host_port hp in
          if strport = None then Ok (- 1) (print_client_help c)
          else obind (check_args argv c) (\<lambda>v c.
            let firstFile = (if 3 < length argv then Some (argv ! 3) else None);
                secondFile = (if 4 < length argv then Some (argv ! 4) else firstFile) in
            if \<not> socket_ok net then Ok (- 1) (print_error_message ''Socket creation error'' c)
            else if \<not> address_known net (the host) then Ok (- 1) c
            else if \<not> address_valid net (the host)
            then Ok (- 1) (print_error_message ''Invalid address/ Address not supported'' c)
            else if \<not> connect_ok net then Ok (- 1) (print_error_message ''Connection failed'' c)
            else obind (send_request v (argv ! 2) firstFile secondFile c) (\<lambda>_ c.
              if \<not> shutdown_ok net \<and> \<not> epipe net then Quit 1 c
              else receive_response v secondFile c)))"

end
