(* ===== verification/ClientLemmas.thy ===== *)
theory ClientLemmas
  imports Client
begin

text \<open>
  How the reader of the client consumes an answer: whatever the chunks in which the socket
  delivers it, each function takes its bytes from the front of what is pending.
\<close>

section \<open>Sending\<close>

lemma client_send_loop_live:
  "live rs \<Longrightarrow> buf \<noteq> [] \<Longrightarrow> \<exists>rs'. client_send_loop rs buf = (buf, rs', False) \<and> live rs'"
proof (induction rs buf rule: client_send_loop.induct)
  case (4 n rs buf)
  show ?case
  proof (cases "n < length buf")
    case True
    with 4 obtain rs' where "client_send_loop rs (drop n buf) = (drop n buf, rs', False)" "live rs'"
      by (auto simp: min_def)
    with True 4 show ?thesis by (simp add: Let_def min_def)
  next
    case False
    with 4 show ?thesis by (simp add: Let_def min_def)
  qed
qed auto

text \<open>The world after bytes have been sent.\<close>

definition sent_more :: "string \<Rightarrow> client \<Rightarrow> client \<Rightarrow> bool" where
  "sent_more bs c c' \<longleftrightarrow> live (send_outcomes c') \<and>
     (\<exists>rs. c' = c\<lparr>sent_bytes := sent_bytes c @ bs, send_outcomes := rs\<rparr>)"

lemma sent_more_trans: "sent_more a c c1 \<Longrightarrow> sent_more b c1 c2 \<Longrightarrow> sent_more (a @ b) c c2"
  by (auto simp: sent_more_def)

lemma sent_more_live: "sent_more bs c c' \<Longrightarrow> live (send_outcomes c')"
  by (simp add: sent_more_def)

lemma client_send_all_live:
  assumes "live (send_outcomes c)" and "buf \<noteq> []"
  obtains c' where "client_send_all buf c = Ok () c'" "sent_more buf c c'"
proof -
  obtain rs' where "client_send_loop (send_outcomes c) buf = (buf, rs', False)" "live rs'"
    using client_send_loop_live [OF assms] by blast
  then show ?thesis
    by (intro that [of "c\<lparr>sent_bytes := sent_bytes c @ buf, send_outcomes := rs'\<rparr>"])
      (auto simp: client_send_all_def sent_more_def)
qed

lemma send_file_loop_live:
  assumes "live (send_outcomes c)" and "r \<noteq> []" and "z = n + length r"
  shows "\<exists>c'. send_file_loop r n z c = Ok () c' \<and> sent_more r c c'"
  using assms
proof (induction r n z c rule: send_file_loop.induct)
  case (1 r n z c)
  have "take MAX_BUF_SIZE r \<noteq> []" using "1.prems" by (simp add: MAX_BUF_SIZE_def)
  then obtain c1 where c1: "client_send_all (take MAX_BUF_SIZE r) c = Ok () c1"
    "sent_more (take MAX_BUF_SIZE r) c c1"
    using client_send_all_live "1.prems"(1) by blast
  show ?case
  proof (cases "MAX_BUF_SIZE < length r")
    case True
    then have "n + length (take MAX_BUF_SIZE r) < z" "drop MAX_BUF_SIZE r \<noteq> []"
      "z = n + length (take MAX_BUF_SIZE r) + length (drop MAX_BUF_SIZE r)"
      using "1.prems" by simp_all
    then obtain c' where "send_file_loop (drop MAX_BUF_SIZE r) (n + length (take MAX_BUF_SIZE r)) z c1 = Ok () c'"
      "sent_more (drop MAX_BUF_SIZE r) c1 c'"
      using "1.IH" [OF "1.prems"(2) refl _ sent_more_live [OF c1(2)]] by blast
    with c1 "1.prems" True sent_more_trans [OF c1(2)] show ?thesis
      by (subst send_file_loop.simps) (fastforce simp: Let_def)
  next
    case False
    with c1 "1.prems" show ?thesis by (subst send_file_loop.simps) (simp add: Let_def)
  qed
qed

lemma send_file_live:
  assumes "live (send_outcomes c)" and "local_files c f = Some bytes" and "bytes \<noteq> []"
  shows "\<exists>c'. send_file f c = Ok () c' \<and> sent_more (insert_size_into_mem (length bytes) @ bytes) c c'"
proof -
  have "insert_size_into_mem (length bytes) \<noteq> []"
    by (metis insert_size_into_mem_def length_0_conv length_le_bytes zero_neq_numeral)
  then obtain c1 where c1: "client_send_all (insert_size_into_mem (length bytes)) c = Ok () c1"
    "sent_more (insert_size_into_mem (length bytes)) c c1"
    using client_send_all_live [OF assms(1)] by blast
  obtain c2 where "send_file_loop bytes 0 (length bytes) c1 = Ok () c2" "sent_more bytes c1 c2"
    using send_file_loop_live [OF sent_more_live [OF c1(2)] assms(3), of "length bytes" 0] by auto
  with c1 sent_more_trans [OF c1(2)] assms(2) show ?thesis by (auto simp: send_file_def)
qed

section \<open>Reading\<close>

fun chunk_text :: "read_res \<Rightarrow> string" where
  "chunk_text (Got bs) = bs"
| "chunk_text Read_error = []"

definition pending :: "ReadState \<Rightarrow> client \<Rightarrow> string" where
  "pending st c = rest st @ concat (map chunk_text (incoming c))"

text \<open>A connection without errors, all of whose reads give something until it ends.\<close>

definition smooth :: "read_res list \<Rightarrow> bool" where
  "smooth rs \<longleftrightarrow> (\<forall>r \<in> set rs. \<exists>bs. r = Got bs \<and> bs \<noteq> [])"

definition reader_ok :: "ReadState \<Rightarrow> client \<Rightarrow> bool" where
  "reader_ok st c \<longleftrightarrow> \<not> ended st \<and> smooth (incoming c)"

text \<open>\<open>only_read c c'\<close>: the client has done nothing but read.\<close>

definition only_read :: "client \<Rightarrow> client \<Rightarrow> bool" where
  "only_read c c' \<longleftrightarrow> (\<exists>i. c' = c\<lparr>incoming := i\<rparr>)"

lemma only_read_refl [simp]: "only_read c c"
  unfolding only_read_def by (rule exI [of _ "incoming c"]) simp

lemma only_read_trans [trans]: "only_read a b \<Longrightarrow> only_read b c \<Longrightarrow> only_read a c"
  by (auto simp: only_read_def)

lemma only_read_fields:
  "only_read c c' \<Longrightarrow> stdout c' = stdout c \<and> local_files c' = local_files c \<and>
     can_write c' = can_write c \<and> file_writes c' = file_writes c"
  by (auto simp: only_read_def)

text \<open>A read of at least one byte, on a smooth connection, takes a piece from the front.\<close>

lemma sock_read_smooth:
  assumes "smooth (incoming c)" and "0 < n"
  obtains (more) bs c' where "sock_read n c = (Some bs, c')" "bs \<noteq> []" "only_read c c'"
      "smooth (incoming c')" "concat (map chunk_text (incoming c)) = bs @ concat (map chunk_text (incoming c'))"
  | (eof) "sock_read n c = (Some [], c)" "concat (map chunk_text (incoming c)) = []"
proof (cases "incoming c")
  case Nil
  then show ?thesis by (intro eof) (simp_all add: sock_read_def)
next
  case (Cons r rs)
  then obtain bs where r: "r = Got bs" "bs \<noteq> []" "smooth rs" using assms(1) by (auto simp: smooth_def)
  show ?thesis
  proof (cases "length bs \<le> n")
    case True
    with Cons r show ?thesis
      by (intro more [of bs "c\<lparr>incoming := rs\<rparr>"]) (auto simp: sock_read_def only_read_def)
  next
    case False
    with Cons r assms(2) show ?thesis
      by (intro more [of "take n bs" "c\<lparr>incoming := Got (drop n bs) # rs\<rparr>"])
        (auto simp: sock_read_def only_read_def smooth_def)
  qed
qed

lemma read_next_some:
  assumes "reader_ok st c" and "pending st c = x # xs"
  obtains st' c' where "read_next st c = Ok (Some x, st') c'" "pending st' c' = xs" "reader_ok st' c'"
    "only_read c c'"
proof (cases "rest st")
  case (Cons y ys)
  with assms show ?thesis
    by (intro that [of "st\<lparr>rest := ys\<rparr>" c]) (auto simp: read_next_def pending_def reader_ok_def)
next
  case Nil
  have s: "smooth (incoming c)" "0 < MAX_BUF_SIZE" using assms(1) by (simp_all add: reader_ok_def MAX_BUF_SIZE_def)
  show ?thesis
  proof (cases rule: sock_read_smooth [OF s])
    case (1 bs c')
    then obtain y ys where b: "bs = y # ys" by (cases bs) auto
    with 1 Nil assms show ?thesis
      by (intro that [of "st\<lparr>rest := ys\<rparr>" c']) (auto simp: read_next_def pending_def reader_ok_def)
  next
    case 2
    with assms(2) Nil show ?thesis by (simp add: pending_def)
  qed
qed

lemma read_next_none:
  assumes "reader_ok st c" and "pending st c = []"
  shows "read_next st c = Ok (None, st\<lparr>ended := True\<rparr>) c"
proof -
  have "incoming c = []"
  proof (rule ccontr)
    assume "incoming c \<noteq> []"
    then obtain r rs where "incoming c = r # rs" by (cases "incoming c") auto
    with assms show False by (auto simp: reader_ok_def smooth_def pending_def)
  qed
  with assms show ?thesis by (simp add: read_next_def sock_read_def reader_ok_def pending_def)
qed

text \<open>A line that fits its buffer.\<close>

lemma read_line_ok:
  assumes "reader_ok st c" and "pending st c = l @ NL # r" and "NL \<notin> set l" and "NUL \<notin> set l"
    and "length acc + length l + 1 < cap"
  shows "\<exists>st' c'. read_line cap e acc st c = Ok (acc @ l @ [NL], st') c' \<and> pending st' c' = r \<and>
           reader_ok st' c' \<and> only_read c c'"
  using assms
proof (induction l arbitrary: acc st c)
  case Nil
  then obtain st' c' where "read_next st c = Ok (Some NL, st') c'" "pending st' c' = r" "reader_ok st' c'"
    "only_read c c'" using read_next_some [OF Nil.prems(1)] by auto
  with Nil show ?case by (subst read_line.simps) simp
next
  case (Cons x l)
  from Cons.prems(2) obtain st1 c1 where 1: "read_next st c = Ok (Some x, st1) c1"
    "pending st1 c1 = l @ NL # r" "reader_ok st1 c1" "only_read c c1"
    using read_next_some [OF Cons.prems(1)] by auto
  have x: "x \<noteq> NL" "x \<noteq> NUL" "NL \<notin> set l" "NUL \<notin> set l" "length (acc @ [x]) + length l + 1 < cap"
    using Cons.prems by auto
  obtain st' c' where 2: "read_line cap e (acc @ [x]) st1 c1 = Ok ((acc @ [x]) @ l @ [NL], st') c'"
    "pending st' c' = r" "reader_ok st' c'" "only_read c1 c'"
    using Cons.IH [OF 1(3,2) x(3-5)] by blast
  have "read_line cap e acc st c = read_line cap e (acc @ [x]) st1 c1"
    using 1(1) x Cons.prems(5) by (subst read_line.simps) simp
  with 2 only_read_trans [OF 1(4)] show ?case by auto
qed

lemma read_size_loop_ok:
  assumes "reader_ok st c" and "pending st c = bs @ r" and "length bs = n"
  shows "\<exists>st' c'. read_size_loop n acc st c = Ok (acc @ bs, st') c' \<and> pending st' c' = r \<and>
           reader_ok st' c' \<and> only_read c c'"
  using assms
proof (induction n arbitrary: acc bs st c)
  case (Suc n)
  then obtain x xs where b: "bs = x # xs" "length xs = n" by (cases bs) auto
  obtain st1 c1 where 1: "read_next st c = Ok (Some x, st1) c1" "pending st1 c1 = xs @ r"
    "reader_ok st1 c1" "only_read c c1"
    using read_next_some [OF Suc.prems(1)] Suc.prems(2) b(1) by auto
  from Suc.IH [OF 1(3,2) b(2), of "acc @ [x]"] 1 b(1) show ?case by (auto intro: only_read_trans)
qed simp

lemma read_size_ok:
  assumes "reader_ok st c" and "pending st c = le_bytes 8 n @ r" and "n < 2 ^ 64"
  shows "\<exists>st' c'. read_size st c = Ok (n, st') c' \<and> pending st' c' = r \<and> reader_ok st' c' \<and> only_read c c'"
proof -
  have "le_value (le_bytes 8 n) = n" using assms(3) by (simp add: le_value_le_bytes)
  with read_size_loop_ok [OF assms(1,2), of 8 "[]"] show ?thesis by (auto simp: read_size_def)
qed

text \<open>The status line of a good answer.\<close>

lemma status_ok:
  "print_response_status cap [CHR ''O'', CHR ''K'', NL] st c = Ok st c"
  by (simp add: print_response_status_def cstr_def)

lemma status_error:
  "print_response_status cap [CHR ''E'', CHR ''R'', CHR ''R'', CHR ''O'', CHR ''R'', NL] st c =
     obind (read_line cap True [] st c) (\<lambda>(msg, st) c. Quit 1 (print_error_message (cstr msg) c))"
  by (simp add: print_response_status_def cstr_def)

lemma read_ok_line:
  assumes "reader_ok st c" and "pending st c = ''OK'' @ [NL] @ r" and "4 \<le> cap"
  shows "\<exists>st' c'. read_line cap e [] st c = Ok (''OK'' @ [NL], st') c' \<and> pending st' c' = r \<and>
           reader_ok st' c' \<and> only_read c c'"
  using read_line_ok [of st c "''OK''" r "[]" cap e] assms by simp

lemma expect_end_ok:
  "reader_ok st c \<Longrightarrow> pending st c = [] \<Longrightarrow> expect_end st c = Ok () c"
  by (simp add: expect_end_def read_next_none)

lemma list_loop_ok:
  assumes "reader_ok st c" and "pending st c = data @ r" and "length data = n"
  shows "\<exists>st' c'. list_loop n st c = Ok st' c' \<and> pending st' c' = r \<and> reader_ok st' c' \<and>
           only_read (print_text data c) c'"
  using assms
proof (induction n arbitrary: data st c)
  case 0
  then show ?case by (simp add: print_text_def)
next
  case (Suc n)
  then obtain x xs where b: "data = x # xs" "length xs = n" by (cases data) auto
  obtain st1 c1 where 1: "read_next st c = Ok (Some x, st1) c1" "pending st1 c1 = xs @ r"
    "reader_ok st1 c1" "only_read c c1"
    using read_next_some [OF Suc.prems(1)] Suc.prems(2) b(1) by auto
  then have p: "pending st1 (print_text [x] c1) = xs @ r" "reader_ok st1 (print_text [x] c1)"
    by (simp_all add: pending_def reader_ok_def print_text_def)
  from Suc.IH [OF p(2,1) b(2)] obtain st' c' where
    "list_loop n st1 (print_text [x] c1) = Ok st' c'" "pending st' c' = r" "reader_ok st' c'"
    "only_read (print_text xs (print_text [x] c1)) c'" by blast
  moreover have "only_read (print_text data c) (print_text xs (print_text [x] c1))"
  proof -
    obtain i where "c1 = c\<lparr>incoming := i\<rparr>" using 1(4) by (auto simp: only_read_def)
    with b(1) show ?thesis unfolding only_read_def by (intro exI [of _ i]) (simp add: print_text_def)
  qed
  ultimately show ?case using 1(1) by (auto intro: only_read_trans)
qed

end
