(* ===== verification/ServerLemmas.thy ===== *)
theory ServerLemmas
  imports Server
begin

text \<open>
  The facts about the operations of the file server that its properties share: the laws of the
  vector library, the fields each operation leaves alone, what the system calls do on a live
  connection, and the lookup of sessions.
\<close>

section \<open>The vector library\<close>

text \<open>What \<open>includes/vector.h\<close> documents of the operations the server calls.\<close>

definition vec_laws :: "'v vec_ops \<Rightarrow> bool" where
  "vec_laws V \<longleftrightarrow>
     v_size V (v_create V) = 0 \<and>
     (\<forall>v x. v_size V (v_push_back V v x) = Suc (v_size V v)) \<and>
     (\<forall>v x i. i \<le> v_size V v \<longrightarrow> v_get V (v_push_back V v x) i = (if i < v_size V v then v_get V v i else x)) \<and>
     (\<forall>v i. i < v_size V v \<longrightarrow> v_size V (v_erase V v i) = v_size V v - 1) \<and>
     (\<forall>v i j. i < v_size V v \<longrightarrow> j < v_size V v - 1 \<longrightarrow>
        v_get V (v_erase V v i) j = (if j < i then v_get V v j else v_get V v (Suc j)))"

text \<open>The library of lists satisfies the laws.\<close>

definition list_vec :: "string list vec_ops" where
  "list_vec = \<lparr>v_create = [], v_size = length, v_get = (!), v_push_back = (\<lambda>v x. v @ [x]),
     v_erase = (\<lambda>v i. take i v @ drop (Suc i) v)\<rparr>"

lemma vec_laws_list: "vec_laws list_vec"
  by (auto simp: vec_laws_def list_vec_def nth_append min_def)

lemma length_vector_items [simp]: "length (vector_items V v) = v_size V v"
  by (simp add: vector_items_def)

lemma nth_vector_items [simp]: "i < v_size V v \<Longrightarrow> vector_items V v ! i = v_get V v i"
  by (simp add: vector_items_def)

lemma vector_items_create: "vec_laws V \<Longrightarrow> vector_items V (v_create V) = []"
  by (simp add: vector_items_def vec_laws_def)

lemma vector_items_push_back:
  assumes "vec_laws V"
  shows "vector_items V (v_push_back V v x) = vector_items V v @ [x]"
  using assms by (intro nth_equalityI) (auto simp: vec_laws_def nth_append less_Suc_eq)

lemma vector_items_erase:
  assumes "vec_laws V" and "i < v_size V v"
  shows "vector_items V (v_erase V v i) = take i (vector_items V v) @ drop (Suc i) (vector_items V v)"
  using assms by (intro nth_equalityI) (auto simp: vec_laws_def nth_append min_def)

lemma exist_in_vector_iff [simp]: "exist_in_vector V v name \<longleftrightarrow> name \<in> set (vector_items V v)"
  by (auto simp: exist_in_vector_def list_ex_iff)

lemma find_name_None: "find_name V v name is = None \<longleftrightarrow> name \<notin> v_get V v ` set is"
  by (induction "is") auto

lemma find_name_Some:
  "find_name V v name is = Some i \<Longrightarrow>
     \<exists>xs ys. is = xs @ i # ys \<and> name = v_get V v i \<and> name \<notin> v_get V v ` set xs"
proof (induction "is")
  case (Cons j js)
  show ?case
  proof (cases "name = v_get V v j")
    case True
    with Cons.prems show ?thesis by (intro exI [of _ "[]"] exI [of _ js]) auto
  next
    case False
    with Cons obtain xs ys where "js = xs @ i # ys" "name = v_get V v i" "name \<notin> v_get V v ` set xs"
      by auto
    with False show ?thesis by (intro exI [of _ "j # xs"] exI [of _ ys]) auto
  qed
qed simp

lemma directory_index_None: "directory_index V v name = None \<longleftrightarrow> name \<notin> set (vector_items V v)"
  by (auto simp: directory_index_def find_name_None vector_items_def)

lemma upt_split: "[0..<n] = xs @ i # ys \<Longrightarrow> i < n \<and> xs = [0..<i] \<and> ys = [Suc i..<n]"
proof -
  assume a: "[0..<n] = xs @ i # ys"
  then have l: "length xs < n" by (metis add_Suc_right diff_zero length_append length_upt list.size(4)
        less_add_Suc1)
  have "[0..<n] ! length xs = i" using a by simp
  with l have i: "length xs = i" by simp
  have "xs = take i [0..<n]" "ys = drop (Suc i) [0..<n]" using a i by simp_all
  with l i show ?thesis by (auto simp: take_upt)
qed

lemma directory_index_Some:
  assumes "directory_index V v name = Some i"
  shows "i < v_size V v" "vector_items V v = take i (vector_items V v) @ name # drop (Suc i) (vector_items V v)"
    "name \<notin> set (take i (vector_items V v))"
proof -
  from find_name_Some [OF assms [unfolded directory_index_def]] obtain xs ys where
    *: "[0..<v_size V v] = xs @ i # ys" "name = v_get V v i" "name \<notin> v_get V v ` set xs" by blast
  from upt_split [OF this(1)] have i: "i < v_size V v" and xs: "xs = [0..<i]" by auto
  from i show "i < v_size V v" .
  show "vector_items V v = take i (vector_items V v) @ name # drop (Suc i) (vector_items V v)"
    using id_take_nth_drop [of i "vector_items V v"] i *(2) by simp
  have "take i (vector_items V v) = map (v_get V v) [0..<i]"
    using i by (simp add: vector_items_def take_map take_upt)
  with *(3) xs show "name \<notin> set (take i (vector_items V v))" by simp
qed

text \<open>Erasing at the index found removes the first occurrence of the name.\<close>

lemma vector_items_erase_found:
  assumes "vec_laws V" and "directory_index V v name = Some i"
  shows "vector_items V (v_erase V v i) = remove1 name (vector_items V v)"
proof -
  note d = directory_index_Some [OF assms(2)]
  have "remove1 name (vector_items V v) = take i (vector_items V v) @ drop (Suc i) (vector_items V v)"
    by (subst d(2)) (simp add: remove1_append d(3))
  with vector_items_erase [OF assms(1) d(1)] show ?thesis by simp
qed

section \<open>System calls\<close>

named_theorems frame_simps \<open>fields that an operation of the server leaves alone\<close>

lemma send_all_frame [simp, frame_simps]:
  "base_temp_dir (send_all b k w) = base_temp_dir w" "directory (send_all b k w) = directory w"
  "sock_to_session_hashtable (send_all b k w) = sock_to_session_hashtable w"
  "sessions (send_all b k w) = sessions w" "next_session (send_all b k w) = next_session w"
  "mem (send_all b k w) = mem w" "names (send_all b k w) = names w"
  "content (send_all b k w) = content w" "next_inode (send_all b k w) = next_inode w"
  "creatable (send_all b k w) = creatable w" "writes (send_all b k w) = writes w"
  "watched (send_all b k w) = watched w" "fullpath (send_all b k w) f = fullpath w f"
  "fopen_rb f (send_all b k w) = fopen_rb f w"
  by (simp_all add: send_all_def fullpath_def fopen_rb_def split: prod.split)

lemma send_all_live [simp]:
  assumes "live (sends w)"
  shows "outs (send_all b k w) = (outs w)(k := outs w k @ b)" and "live (sends (send_all b k w))"
  using send_loop_live [OF assms, of b] by (simp_all add: send_all_def split_beta)

lemma send_all_other: "j \<noteq> k \<Longrightarrow> outs (send_all b k w) j = outs w j"
  by (simp add: send_all_def split: prod.split)

lemma write_all_frame [simp, frame_simps]:
  "base_temp_dir (snd (write_all h b w)) = base_temp_dir w"
  "directory (snd (write_all h b w)) = directory w"
  "sock_to_session_hashtable (snd (write_all h b w)) = sock_to_session_hashtable w"
  "sessions (snd (write_all h b w)) = sessions w" "next_session (snd (write_all h b w)) = next_session w"
  "mem (snd (write_all h b w)) = mem w" "names (snd (write_all h b w)) = names w"
  "next_inode (snd (write_all h b w)) = next_inode w" "creatable (snd (write_all h b w)) = creatable w"
  "sends (snd (write_all h b w)) = sends w" "outs (snd (write_all h b w)) = outs w"
  "watched (snd (write_all h b w)) = watched w" "fullpath (snd (write_all h b w)) f = fullpath w f"
  by (simp_all add: write_all_def fullpath_def split: prod.split)

lemma write_all_all:
  assumes "0 \<notin> set (writes w)"
  shows "fst (write_all h b w) = h\<lparr>fh_pos := fh_pos h + length b\<rparr>"
    and "content (snd (write_all h b w)) =
           (content w)(fh_inode h := overwrite (content w (fh_inode h)) (fh_pos h) b)"
    and "0 \<notin> set (writes (snd (write_all h b w)))"
  using write_loop_all [OF assms, of b] by (simp_all add: write_all_def split_beta)

lemma overwrite_end: "pos = length c \<Longrightarrow> overwrite c pos bs = c @ bs"
  by (simp add: overwrite_def)

lemma fopen_wb_frame [simp, frame_simps]:
  "base_temp_dir (snd (fopen_wb f w)) = base_temp_dir w"
  "directory (snd (fopen_wb f w)) = directory w"
  "sock_to_session_hashtable (snd (fopen_wb f w)) = sock_to_session_hashtable w"
  "sessions (snd (fopen_wb f w)) = sessions w" "next_session (snd (fopen_wb f w)) = next_session w"
  "mem (snd (fopen_wb f w)) = mem w" "creatable (snd (fopen_wb f w)) = creatable w"
  "sends (snd (fopen_wb f w)) = sends w" "outs (snd (fopen_wb f w)) = outs w"
  "writes (snd (fopen_wb f w)) = writes w" "watched (snd (fopen_wb f w)) = watched w"
  "fullpath (snd (fopen_wb f w)) g = fullpath w g"
  by (simp_all add: fopen_wb_def fullpath_def split: option.split)

text \<open>An open for writing that succeeds leaves an empty file under the path.\<close>

lemma fopen_wb_ok:
  assumes "creatable w path"
  obtains i where "fst (fopen_wb path w) = Some \<lparr>fh_inode = i, fh_pos = 0\<rparr>"
    "names (snd (fopen_wb path w)) = (names w)(path \<mapsto> i)" "content (snd (fopen_wb path w)) i = []"
    "\<And>p. p \<noteq> path \<Longrightarrow> names w p \<noteq> Some i \<Longrightarrow> names w p \<noteq> Some (next_inode w) \<Longrightarrow>
        fopen_rb p (snd (fopen_wb path w)) = fopen_rb p w"
proof (cases "names w path")
  case None
  with assms show ?thesis by (intro that [of "next_inode w"])
      (auto simp: fopen_wb_def fopen_rb_def split: option.split intro!: option.map_cong)
next
  case (Some i)
  with assms show ?thesis by (intro that [of i])
      (auto simp: fopen_wb_def fopen_rb_def fun_upd_idem split: option.split intro!: option.map_cong)
qed

lemma unlink_frame [simp, frame_simps]:
  "base_temp_dir (snd (unlink f w)) = base_temp_dir w" "directory (snd (unlink f w)) = directory w"
  "sock_to_session_hashtable (snd (unlink f w)) = sock_to_session_hashtable w"
  "sessions (snd (unlink f w)) = sessions w" "next_session (snd (unlink f w)) = next_session w"
  "mem (snd (unlink f w)) = mem w" "creatable (snd (unlink f w)) = creatable w"
  "sends (snd (unlink f w)) = sends w" "outs (snd (unlink f w)) = outs w"
  "writes (snd (unlink f w)) = writes w" "watched (snd (unlink f w)) = watched w"
  "content (snd (unlink f w)) = content w" "next_inode (snd (unlink f w)) = next_inode w"
  "fullpath (snd (unlink f w)) g = fullpath w g" "names (snd (unlink f w)) = (names w)(f := None)"
  "fst (unlink f w) \<longleftrightarrow> names w f \<noteq> None"
  by (simp_all add: unlink_def fullpath_def)

lemma send_header_response_alt:
  "send_header_response code msg (w, s) =
     (send_all (code @ [NL] @ (case msg of None \<Rightarrow> [] | Some m \<Rightarrow> m @ [NL])) (socket (stream s)) w,
      s\<lparr>state := STATE_DONE, status := (if code = ''OK'' then STATUS_SESSION_END else STATUS_SESSION_ERROR)\<rparr>)"
  by (simp add: send_header_response_def)

text \<open>The loop of GET sends the whole file.\<close>

lemma get_loop_frame:
  "names (snd (get_loop r n z k w)) = names w \<and> content (snd (get_loop r n z k w)) = content w \<and>
   directory (snd (get_loop r n z k w)) = directory w \<and>
   sock_to_session_hashtable (snd (get_loop r n z k w)) = sock_to_session_hashtable w \<and>
   sessions (snd (get_loop r n z k w)) = sessions w \<and>
   next_session (snd (get_loop r n z k w)) = next_session w \<and> mem (snd (get_loop r n z k w)) = mem w \<and>
   base_temp_dir (snd (get_loop r n z k w)) = base_temp_dir w \<and>
   next_inode (snd (get_loop r n z k w)) = next_inode w \<and>
   creatable (snd (get_loop r n z k w)) = creatable w \<and>
   writes (snd (get_loop r n z k w)) = writes w \<and>
   watched (snd (get_loop r n z k w)) = watched w \<and>
   (\<forall>j. j \<noteq> k \<longrightarrow> outs (snd (get_loop r n z k w)) j = outs w j)"
proof (induction r n z k w rule: get_loop.induct)
  case (1 r n z k w)
  then show ?case by (subst (1 2 3 4 5 6 7 8 9 10 11 12 13) get_loop.simps) (auto simp: Let_def send_all_other)
qed

lemma get_loop_live:
  assumes "live (sends w)" and "z = n + length r" and "r \<noteq> []"
  shows "fst (get_loop r n z k w) \<and> live (sends (snd (get_loop r n z k w))) \<and>
    outs (snd (get_loop r n z k w)) = (outs w)(k := outs w k @ r)"
  using assms
proof (induction r n z k w rule: get_loop.induct)
  case (1 r n z k w)
  show ?case
  proof (cases "BUFSIZ < length r")
    case True
    then have "n + length (take BUFSIZ r) < z" "drop BUFSIZ r \<noteq> []" using 1 by simp_all
    with 1 show ?thesis
      by (subst (1 2 3) get_loop.simps) (simp add: Let_def True min_absorb2 fun_eq_iff)
  next
    case False
    with 1 show ?thesis by (subst (1 2 3) get_loop.simps) (simp add: Let_def)
  qed
qed

section \<open>What a handler leaves alone\<close>

text \<open>
  A handler that serves socket \<open>k\<close> keeps the session table, the heap, the environment and
  whatever the other sockets have been sent; it also keeps the socket of its session.
\<close>

definition frame :: "nat \<Rightarrow> 'v server \<Rightarrow> 'v server \<Rightarrow> bool" where
  "frame k w w' \<longleftrightarrow>
     base_temp_dir w' = base_temp_dir w \<and>
     sock_to_session_hashtable w' = sock_to_session_hashtable w \<and>
     sessions w' = sessions w \<and> next_session w' = next_session w \<and> mem w' = mem w \<and>
     creatable w' = creatable w \<and> watched w' = watched w \<and>
     (\<forall>j. j \<noteq> k \<longrightarrow> outs w' j = outs w j)"

lemma frame_refl [simp]: "frame k w w"
  by (simp add: frame_def)

lemma frame_trans [trans]: "frame k w w1 \<Longrightarrow> frame k w1 w2 \<Longrightarrow> frame k w w2"
  by (auto simp: frame_def)

lemma frame_send_all [simp]: "frame k w (send_all b k w)"
  by (simp add: frame_def send_all_other)

lemma frame_write_all [simp]: "frame k w (snd (write_all h b w))"
  by (simp add: frame_def)

lemma frame_fopen_wb [simp]: "frame k w (snd (fopen_wb f w))"
  by (simp add: frame_def)

lemma frame_unlink [simp]: "frame k w (snd (unlink f w))"
  by (simp add: frame_def)

lemma frame_directory [simp]: "frame k w (w\<lparr>directory := d\<rparr>)"
  by (simp add: frame_def)

lemma frame_get_loop [simp]: "frame k w (snd (get_loop r n z k w))"
  using get_loop_frame [of r n z k w] by (simp add: frame_def)

text \<open>The frame of a step on a session and its server.\<close>

definition step_frame :: "'v work \<Rightarrow> 'v work \<Rightarrow> bool" where
  "step_frame ws ws' \<longleftrightarrow>
     frame (socket (stream (snd ws))) (fst ws) (fst ws') \<and>
     socket (stream (snd ws')) = socket (stream (snd ws))"

lemma step_frame_trans: "step_frame a b \<Longrightarrow> step_frame b c \<Longrightarrow> step_frame a c"
  unfolding step_frame_def by (metis frame_trans)

lemma step_frame_refl [simp]: "step_frame ws ws"
  by (simp add: step_frame_def)

lemma step_frame_response [simp]: "step_frame (w, s) (send_header_response c m (w, s))"
  by (simp add: step_frame_def send_header_response_alt)

lemma Stream_GetNext_socket:
  "Stream_GetNext st = Inr (st', c) \<Longrightarrow> socket st' = socket st \<and> buffer st' = buffer st \<and>
     bytesInBuffer st' = bytesInBuffer st \<and> atEnd st' = atEnd st \<and> inError st' = inError st"
  by (auto simp: Stream_GetNext_def split: if_splits)

lemma fill_input_socket: "fill_input g s = Inr s' \<Longrightarrow> socket (stream s') = socket (stream s)"
proof (induction g s arbitrary: s' rule: fill_input.induct)
  case (1 g s)
  note unfold = fill_input.simps [of g s]
  show ?case
  proof (cases "Stream_GetNext (stream s)")
    case (Inl e)
    with "1.prems" show ?thesis by (simp add: unfold)
  next
    case (Inr r)
    obtain st c where r: "r = (st, c)" by (cases r)
    note k = Stream_GetNext_socket [OF Inr [unfolded r]]
    show ?thesis
    proof (cases c)
      case None
      with "1.prems" Inr r k show ?thesis by (auto simp: unfold)
    next
      case (Some x)
      with "1.prems" Inr r obtain s1 where s1: "store_input x (s\<lparr>stream := st\<rparr>) = Inr s1"
        by (auto simp: unfold split: sum.splits)
      then have "socket (stream s1) = socket (stream s)"
        using k by (auto simp: store_input_def split: if_splits)
      with "1.prems" "1.IH" [OF Inr r [symmetric] Some s1] Inr r Some s1 show ?thesis
        by (auto simp: unfold split: if_splits)
    qed
  qed
qed

lemma TryParse_frame: "TryParse c h (w, s) = Inr (ok, ws) \<Longrightarrow> step_frame (w, s) ws"
  by (auto simp: TryParse_def bad_request_def Let_def step_frame_def send_header_response_alt
      split: if_splits option.splits)

lemma TryParse_branch:
  assumes "rbind (TryParse c h x) (\<lambda>(ok, ws). if ok then A ws else B ws) = Inr y"
    and "\<And>ws. A ws = Inr y \<Longrightarrow> step_frame ws y"
    and "\<And>ws. B ws = Inr y \<Longrightarrow> step_frame ws y"
  shows "step_frame x y"
proof -
  from assms(1) obtain ok ws where t: "TryParse c h x = Inr (ok, ws)"
    and r: "(if ok then A ws else B ws) = Inr y"
    by (auto simp: rbind_eq_Inr)
  have "step_frame x ws" using t TryParse_frame by (cases x) simp
  moreover have "step_frame ws y" using r assms(2,3) by (simp split: if_splits)
  ultimately show ?thesis by (rule step_frame_trans)
qed

lemma list_frame: "step_frame (w, s) (session_start_list V (w, s))"
  by (simp add: session_start_list_def step_frame_def Let_def frame_trans [OF frame_send_all frame_send_all])

lemma get_frame: "step_frame (w, s) (session_start_get (w, s))"
proof -
  have "frame k w (snd (get_loop b n z k (send_all h k w)))" for b n z k h
    using frame_trans [OF frame_send_all frame_get_loop] .
  then show ?thesis
    by (auto simp: session_start_get_def sending_get_response_def step_frame_def Let_def split_beta
        send_header_response_alt split: option.split)
qed

lemma delete_frame: "step_frame (w, s) (session_start_delete V (w, s))"
proof -
  have "frame k w (send_all b k (snd (unlink f (w\<lparr>directory := d\<rparr>))))" for k b f d
    by (rule frame_trans [OF _ frame_send_all], rule frame_trans [OF frame_directory frame_unlink])
  moreover have "frame k w (send_all b k (snd (unlink f w)))" for k b f
    by (rule frame_trans [OF frame_unlink frame_send_all])
  ultimately show ?thesis
    by (simp add: session_start_delete_def step_frame_def Let_def split_beta
        send_header_response_alt split: option.split)
qed

lemma put_frame: "continue_reading_put (w, s) = Inr ws \<Longrightarrow> step_frame (w, s) ws"
proof -
  assume a: "continue_reading_put (w, s) = Inr ws"
  have "frame k w (snd (write_all h b (snd (fopen_wb f w))))" for k h b f
    by (rule frame_trans [OF frame_fopen_wb frame_write_all])
  moreover have "frame k w (send_all b k (snd (fopen_wb f w)))" for k b f
    by (rule frame_trans [OF frame_fopen_wb frame_send_all])
  ultimately show ?thesis using a
    by (auto simp: continue_reading_put_def step_frame_def Let_def split_beta rbind_eq_Inr
        send_header_response_alt dest!: fill_input_socket split: if_splits option.splits)
qed

lemma put_start_frame: "session_start_put k (w, s) = Inr y \<Longrightarrow> step_frame (w, s) y"
  unfolding session_start_put_def by (simp, drule put_frame) (simp add: step_frame_def)

lemma header_frame:
  assumes "continue_reading_header V (w, s) = Inr ws"
  shows "step_frame (w, s) ws"
proof -
  have e1: "Inr (session_start_list V x) = Inr y \<Longrightarrow> step_frame x y" for x y
    using list_frame by (metis old.sum.inject(2) surj_pair)
  have e2: "Inr (session_start_get x) = Inr y \<Longrightarrow> step_frame x y" for x y :: "'a work"
    using get_frame by (metis old.sum.inject(2) surj_pair)
  have e3: "session_start_put 3 x = Inr y \<Longrightarrow> step_frame x y" for x y :: "'a work"
    using put_start_frame by (metis surj_pair)
  have e4: "Inr (session_start_delete V x) = Inr y \<Longrightarrow> step_frame x y" for x y
    using delete_frame by (metis old.sum.inject(2) surj_pair)
  have e5: "(if P then Inr (send_header_response c m x) else Inr x) = Inr y \<Longrightarrow> step_frame x y"
    for x y :: "'a work" and c m P
    by (cases x) (auto split: if_splits)
  from assms obtain s1 where s1: "fill_input (\<lambda>s. state s = STATE_READING_HEADER) s = Inr s1"
    and t: "rbind (TryParse ''LIST'' False (w, s1)) (\<lambda>(ok, ws).
     if ok then Inr (session_start_list V ws) else
     rbind (TryParse ''GET'' True ws) (\<lambda>(ok, ws).
     if ok then Inr (session_start_get ws) else
     rbind (TryParse ''PUT'' True ws) (\<lambda>(ok, ws).
     if ok then session_start_put 3 ws else
     rbind (TryParse ''DELETE'' True ws) (\<lambda>(ok, ws).
     if ok then Inr (session_start_delete V ws) else
     if state (snd ws) = STATE_READING_HEADER \<and> unknown_request (snd ws)
     then Inr (send_header_response ''ERROR'' (Some err_bad_request) ws)
     else Inr ws)))) = Inr ws"
    unfolding continue_reading_header_def by (auto simp: rbind_eq_Inr)
  from t have "step_frame (w, s1) ws"
    by (rule TryParse_branch) ((erule e1 e2 e3 e4 e5 TryParse_branch)+)
  with fill_input_socket [OF s1] show ?thesis by (simp add: step_frame_def)
qed

lemma processNext_frame:
  "Session_processNext V (w, s) = Inr ws \<Longrightarrow> step_frame (w, s) ws"
  by (auto simp: Session_processNext_def step_frame_def split: session_state.splits
      dest!: header_frame put_frame)

lemma put_response_frame:
  "sending_put_response V c m (w, s) = Inr ws \<Longrightarrow> step_frame (w, s) ws"
proof -
  assume a: "sending_put_response V c m (w, s) = Inr ws"
  have "frame k w ((send_all b k w)\<lparr>directory := d\<rparr>)" for k b d
    by (rule frame_trans [OF frame_send_all frame_directory])
  moreover have "frame k w (snd (unlink f (send_all b k w)))" for k b f
    by (rule frame_trans [OF frame_send_all frame_unlink])
  moreover have "frame k w ((snd (unlink f (send_all b k w)))\<lparr>directory := d\<rparr>)" for k b f d
    by (rule frame_trans [OF _ frame_directory], rule frame_trans [OF frame_send_all frame_unlink])
  ultimately show ?thesis using a
    by (auto simp: sending_put_response_def step_frame_def Let_def split_beta
        send_header_response_alt split: if_splits option.splits)
qed

section \<open>The session table\<close>

text \<open>
  The invariant between events: every entry of the hash table is the live session of its socket.
  \<open>session_at\<close> is the session the server has for a key.
\<close>

definition server_ok :: "'v server \<Rightarrow> bool" where
  "server_ok w \<longleftrightarrow>
     table_ok (sock_to_session_hashtable w) \<and> 0 < next_session w \<and>
     (\<forall>k p. table_map (sock_to_session_hashtable w) k = Some p \<longrightarrow>
        p \<noteq> NULL \<and> p < next_session w \<and>
        (\<exists>s. sessions w p = Some s \<and> sock_key (socket (stream s)) = k))"

lemma server_okI:
  assumes "table_ok (sock_to_session_hashtable w)" and "0 < next_session w"
    and "\<And>k p. table_map (sock_to_session_hashtable w) k = Some p \<Longrightarrow>
        p \<noteq> NULL \<and> p < next_session w \<and> (\<exists>s. sessions w p = Some s \<and> sock_key (socket (stream s)) = k)"
  shows "server_ok w"
  using assms unfolding server_ok_def by blast

definition session_at :: "addr32 \<Rightarrow> 'v server \<Rightarrow> Session option" where
  "session_at k w =
     (case table_map (sock_to_session_hashtable w) k of None \<Rightarrow> None | Some p \<Rightarrow> sessions w p)"

lemma server_okD:
  assumes "server_ok w" and "table_map (sock_to_session_hashtable w) k = Some p"
  shows "p \<noteq> NULL" "p < next_session w" "\<exists>s. sessions w p = Some s \<and> sock_key (socket (stream s)) = k"
  using assms by (auto simp: server_ok_def)

lemma server_ok_inj:
  assumes "server_ok w" and "table_map (sock_to_session_hashtable w) k = Some p"
    and "table_map (sock_to_session_hashtable w) j = Some p"
  shows "j = k"
  using server_okD(3) [OF assms(1,2)] server_okD(3) [OF assms(1,3)] by auto

lemma find_session_known:
  assumes "server_ok w" and "table_map (sock_to_session_hashtable w) (sock_key sock) = Some p"
  shows "find_session sock w = Inr (w, p)"
  using assms by (simp add: find_session_def server_ok_def get_refines)

text \<open>The server in which a new session has been entered.\<close>

definition with_new_session :: "nat \<Rightarrow> 'v server \<Rightarrow> 'v server" where
  "with_new_session sock w =
     w\<lparr>sessions := (sessions w)(next_session w \<mapsto> Session_create sock),
       next_session := next_session w + 1,
       sock_to_session_hashtable :=
         table_put (sock_to_session_hashtable w) (sock_key sock) (next_session w)\<rparr>"

lemma free_no_sessions [simp]: "free_sessions [] w = w"
  by (simp add: free_sessions_def)

lemma overwritten_None [simp]: "overwritten None d = []"
  by (simp add: overwritten_def)

lemma find_session_new:
  assumes "server_ok w" and "table_map (sock_to_session_hashtable w) (sock_key sock) = None" and "mem w"
  shows "find_session sock w = Inr (with_new_session sock w, next_session w)"
  using assms
  by (simp add: find_session_def server_ok_def get_refines alloc_session_def table_put(3)
      with_new_session_def)

lemma find_session_no_memory:
  assumes "server_ok w" and "table_map (sock_to_session_hashtable w) (sock_key sock) = None" and "\<not> mem w"
  shows "\<exists>w'. find_session sock w = Inr (w', NULL) \<or> (\<exists>e. find_session sock w = Inl e)"
  using assms
  by (auto simp: find_session_def server_ok_def get_refines alloc_session_def rbind_def
      hashtable_ts_insert_def Let_def split: sum.splits option.splits prod.splits)

lemma server_ok_new:
  assumes "server_ok w"
  shows "server_ok (with_new_session sock w)"
  using assms
  by (auto simp: server_ok_def with_new_session_def session_map.put_ok session_map.lookup_put
      Session_create_def Stream_Reset_def intro: less_SucI)

lemma session_at_new:
  assumes "server_ok w"
  shows "session_at k (with_new_session sock w) =
           (if k = sock_key sock then Some (Session_create sock) else session_at k w)"
  using assms server_okD(2) [OF assms]
  by (fastforce simp: session_at_def with_new_session_def server_ok_def session_map.lookup_put
      split: option.splits)

lemma table_map_new:
  assumes "server_ok w"
  shows "table_map (sock_to_session_hashtable (with_new_session sock w)) (sock_key sock) = Some (next_session w)"
  using assms by (simp add: with_new_session_def server_ok_def session_map.lookup_put)

text \<open>An operation on the session of a socket.\<close>

lemma with_session_run:
  assumes "server_ok w" and "table_map (sock_to_session_hashtable w) k = Some p"
    and "session_at k w = Some s"
  shows "with_session p f w =
           rbind (f (w, s)) (\<lambda>(w', s'). Inr (w'\<lparr>sessions := (sessions w')(p \<mapsto> s')\<rparr>))"
  using assms server_okD(1) [OF assms(1,2)] by (simp add: with_session_def session_at_def)

lemma session_at_some:
  assumes "server_ok w" and "table_map (sock_to_session_hashtable w) k = Some p"
  obtains s where "session_at k w = Some s" "sock_key (socket (stream s)) = k"
  using server_okD(3) [OF assms] assms(2) by (auto simp: session_at_def)

lemma server_ok_upd:
  assumes "server_ok w" and "table_map (sock_to_session_hashtable w) k = Some p"
    and "frame q w w'" and "sock_key (socket (stream s')) = k"
  shows "server_ok (w'\<lparr>sessions := (sessions w')(p \<mapsto> s')\<rparr>)"
    and "session_at j (w'\<lparr>sessions := (sessions w')(p \<mapsto> s')\<rparr>) =
           (if j = k then Some s' else session_at j w)"
    and "table_map (sock_to_session_hashtable (w'\<lparr>sessions := (sessions w')(p \<mapsto> s')\<rparr>)) k = Some p"
proof -
  have t: "sock_to_session_hashtable w' = sock_to_session_hashtable w" "sessions w' = sessions w"
    "next_session w' = next_session w"
    using assms(3) by (simp_all add: frame_def)
  show "server_ok (w'\<lparr>sessions := (sessions w')(p \<mapsto> s')\<rparr>)"
  proof (rule server_okI)
    fix j q
    assume "table_map (sock_to_session_hashtable (w'\<lparr>sessions := (sessions w')(p \<mapsto> s')\<rparr>)) j = Some q"
    then have q: "table_map (sock_to_session_hashtable w) j = Some q" by (simp add: t)
    show "q \<noteq> NULL \<and> q < next_session (w'\<lparr>sessions := (sessions w')(p \<mapsto> s')\<rparr>) \<and>
        (\<exists>s. sessions (w'\<lparr>sessions := (sessions w')(p \<mapsto> s')\<rparr>) q = Some s \<and> sock_key (socket (stream s)) = j)"
      using server_okD [OF assms(1) q] server_ok_inj [OF assms(1,2), of j] q assms(4)
      by (cases "q = p") (simp_all add: t)
  qed (use assms(1) in \<open>simp_all add: t server_ok_def\<close>)
  show "session_at j (w'\<lparr>sessions := (sessions w')(p \<mapsto> s')\<rparr>) =
           (if j = k then Some s' else session_at j w)"
  proof (cases "j = k")
    case False
    then have "table_map (sock_to_session_hashtable w) j \<noteq> Some p"
      using server_ok_inj [OF assms(1,2), of j] by blast
    then show ?thesis using False by (simp add: session_at_def t split: option.split)
  qed (use assms(2) in \<open>simp add: session_at_def t\<close>)
  show "table_map (sock_to_session_hashtable (w'\<lparr>sessions := (sessions w')(p \<mapsto> s')\<rparr>)) k = Some p"
    using assms(2) by (simp add: t)
qed

text \<open>The end of a session removes it and no other.\<close>

lemma end_session_run:
  assumes "server_ok w" and "table_map (sock_to_session_hashtable w) (sock_key k) = Some p"
  shows "end_session k w = Inr (w\<lparr>watched := removeAll k (watched w),
      sock_to_session_hashtable := table_remove (sock_to_session_hashtable w) (sock_key k),
      sessions := (sessions w)(p := None)\<rparr>)"
  using assms server_okD(1) [OF assms]
  by (auto simp: end_session_def server_ok_def table_remove(3) released_def free_sessions_def Let_def fun_eq_iff)

lemma server_ok_end:
  assumes "server_ok w" and "table_map (sock_to_session_hashtable w) k = Some p"
    and w'_def: "w' = w\<lparr>watched := ws,
      sock_to_session_hashtable := table_remove (sock_to_session_hashtable w) k,
      sessions := (sessions w)(p := None)\<rparr>"
  shows "server_ok w'" and "session_at j w' = (if j = k then None else session_at j w)"
proof -
  note inj = server_ok_inj [OF assms(1,2)]
  have t: "table_ok (sock_to_session_hashtable w)" using assms(1) by (simp add: server_ok_def)
  show "server_ok w'"
  proof (rule server_okI)
    fix j q
    assume "table_map (sock_to_session_hashtable w') j = Some q"
    then have q: "table_map (sock_to_session_hashtable w) j = Some q" "j \<noteq> k"
      by (auto simp: w'_def session_map.lookup_remove t split: if_splits)
    moreover have "q \<noteq> p" using q inj [of j] by auto
    ultimately show "q \<noteq> NULL \<and> q < next_session w' \<and>
        (\<exists>s. sessions w' q = Some s \<and> sock_key (socket (stream s)) = j)"
      using server_okD [OF assms(1) q(1)] by (simp add: w'_def)
  qed (use assms(1) in \<open>simp_all add: w'_def session_map.remove_ok t server_ok_def\<close>)
  show "session_at j w' = (if j = k then None else session_at j w)"
  proof (cases "j = k")
    case False
    then have "table_map (sock_to_session_hashtable w) j \<noteq> Some p"
      using inj [of j] by blast
    then show ?thesis using False
      by (simp add: session_at_def w'_def session_map.lookup_remove t split: option.split)
  qed (simp add: session_at_def w'_def session_map.lookup_remove t)
qed

end
