(* ===== verification/ServerRun.thy ===== *)
theory ServerRun
  imports ServerLemmas
begin

text \<open>
  How the event loop runs a session: what one readable event does to the session of its socket,
  the exact effect of reading a chunk into \<open>input\<close>, an invariant rule for a connection whose
  bytes arrive in any cut, and the isolation of the sessions from each other.
\<close>

section \<open>Reading into the input array\<close>

definition unread :: "Stream \<Rightarrow> string" where
  "unread st = drop (position st) (take (bytesInBuffer st) (buffer st))"

definition viable :: "Stream \<Rightarrow> bool" where
  "viable st \<longleftrightarrow> \<not> atEnd st \<and> \<not> inError st \<and> bytesInBuffer st \<le> length (buffer st)"

lemma Stream_GetNext_unread:
  assumes "viable st"
  shows "Stream_GetNext st =
    (case unread st of [] \<Rightarrow> Inr (st, None) | c # cs \<Rightarrow> Inr (st\<lparr>position := position st + 1\<rparr>, Some c))"
proof (cases "position st < bytesInBuffer st")
  case True
  then have "unread st = buffer st ! position st # drop (Suc (position st)) (take (bytesInBuffer st) (buffer st))"
    using assms by (simp add: unread_def viable_def Cons_nth_drop_Suc [symmetric])
  with True assms show ?thesis by (auto simp: Stream_GetNext_def viable_def)
next
  case False
  with assms show ?thesis by (auto simp: Stream_GetNext_def viable_def unread_def)
qed

lemma unread_step:
  assumes "viable st" and "unread st = c # cs"
  shows "unread (st\<lparr>position := position st + 1\<rparr>) = cs"
proof -
  have "drop 1 (unread st) = unread (st\<lparr>position := position st + 1\<rparr>)" by (simp add: unread_def)
  with assms(2) show ?thesis by simp
qed

text \<open>The whole of the unread bytes moves to \<open>input\<close>, if it fits.\<close>

lemma fill_input_all:
  assumes "viable (stream s)" and "\<forall>x. state x = state s \<longrightarrow> g x"
    and "inputPos s + length (unread (stream s)) \<le> 2 * BUFSIZ"
  shows "fill_input g s = Inr (s\<lparr>
      stream := (stream s)\<lparr>position := position (stream s) + length (unread (stream s))\<rparr>,
      input := input s @ unread (stream s), inputPos := inputPos s + length (unread (stream s))\<rparr>)"
  using assms
proof (induction "unread (stream s)" arbitrary: s)
  case Nil
  then have u: "unread (stream s) = []" by simp
  show ?case
    using Nil(2) by (subst fill_input.simps) (simp add: Stream_GetNext_unread u)
next
  case (Cons c cs)
  define st where "st = (stream s)\<lparr>position := position (stream s) + 1\<rparr>"
  define s1 where "s1 = s\<lparr>stream := st, input := input s @ [c], inputPos := inputPos s + 1\<rparr>"
  have u: "unread (stream s) = c # cs" using Cons(2) by simp
  have u1: "unread (stream s1) = cs"
    using unread_step [OF Cons(3) u] by (simp add: s1_def st_def)
  have "fill_input g s = fill_input g s1"
    using Cons(3-) u
    by (subst fill_input.simps)
      (simp add: Stream_GetNext_unread store_input_def s1_def st_def)
  also have "\<dots> = Inr (s1\<lparr>stream := (stream s1)\<lparr>position := position (stream s1) + length cs\<rparr>,
      input := input s1 @ cs, inputPos := inputPos s1 + length cs\<rparr>)"
    using Cons(1) [of s1] Cons(3-) u u1 by (simp add: s1_def st_def viable_def)
  finally show ?case by (simp add: u s1_def st_def)
qed

text \<open>One byte too many is written past the array.\<close>

lemma fill_input_overflow:
  assumes "viable (stream s)" and "\<forall>x. state x = state s \<longrightarrow> g x"
    and "2 * BUFSIZ < inputPos s + length (unread (stream s))" and "inputPos s \<le> 2 * BUFSIZ"
  shows "fill_input g s = Inl OutOfBounds"
  using assms
proof (induction "unread (stream s)" arbitrary: s)
  case Nil
  then show ?case by simp
next
  case (Cons c cs)
  define st where "st = (stream s)\<lparr>position := position (stream s) + 1\<rparr>"
  define s1 where "s1 = s\<lparr>stream := st, input := input s @ [c], inputPos := inputPos s + 1\<rparr>"
  have u: "unread (stream s) = c # cs" using Cons(2) by simp
  have u1: "unread (stream s1) = cs"
    using unread_step [OF Cons(3) u] by (simp add: s1_def st_def)
  show ?case
  proof (cases "inputPos s < 2 * BUFSIZ")
    case True
    then have "fill_input g s = fill_input g s1"
      using Cons(3-) u
      by (subst fill_input.simps)
        (simp add: Stream_GetNext_unread store_input_def s1_def st_def)
    also have "\<dots> = Inl OutOfBounds"
      using Cons(1) [of s1] Cons(3-) u u1 True by (simp add: s1_def st_def viable_def)
    finally show ?thesis .
  next
    case False
    then show ?thesis using Cons(3-) u
      by (subst fill_input.simps) (simp add: Stream_GetNext_unread store_input_def)
  qed
qed

text \<open>The session after a \<open>recv\<close> of \<open>bs\<close> has only these bytes to read.\<close>

lemma received [simp]:
  "unread (stream (stream_data bs (rewind_stream s))) = bs"
  "socket (stream (stream_data bs (rewind_stream s))) = socket (stream s)"
  "state (stream_data bs (rewind_stream s)) = state s"
  "input (stream_data bs (rewind_stream s)) = input s"
  "inputPos (stream_data bs (rewind_stream s)) = inputPos s"
  "filename (stream_data bs (rewind_stream s)) = filename s"
  "fd (stream_data bs (rewind_stream s)) = fd s"
  "headersize (stream_data bs (rewind_stream s)) = headersize s"
  "totalBytesForPut (stream_data bs (rewind_stream s)) = totalBytesForPut s"
  "totalWritten (stream_data bs (rewind_stream s)) = totalWritten s"
  "status (stream_data bs (rewind_stream s)) = status s"
  "bytesInBuffer (stream (stream_data bs (rewind_stream s))) = length bs"
  "take (length bs) (buffer (stream (stream_data bs (rewind_stream s)))) = bs"
  by (simp_all add: stream_data_def rewind_stream_def unread_def)

lemma socket_rewind [simp]: "socket (stream (rewind_stream s)) = socket (stream s)"
  by (simp add: rewind_stream_def)

lemma viable_received [simp]:
  "viable (stream (stream_data bs (rewind_stream s))) \<longleftrightarrow> \<not> atEnd (stream s) \<and> \<not> inError (stream s)"
  by (simp add: stream_data_def rewind_stream_def viable_def)

section \<open>One socket in the event loop\<close>

declare read_loop.simps [simp del]

text \<open>Two servers that differ at most in their sessions.\<close>

definition same_world :: "'v server \<Rightarrow> 'v server \<Rightarrow> bool" where
  "same_world w w' \<longleftrightarrow>
     base_temp_dir w' = base_temp_dir w \<and> directory w' = directory w \<and> mem w' = mem w \<and>
     names w' = names w \<and> content w' = content w \<and> next_inode w' = next_inode w \<and>
     creatable w' = creatable w \<and> outs w' = outs w \<and> sends w' = sends w \<and>
     writes w' = writes w \<and> watched w' = watched w"

lemma same_world_refl [simp]: "same_world w w"
  by (simp add: same_world_def)

lemma same_world_trans [trans]: "same_world a b \<Longrightarrow> same_world b c \<Longrightarrow> same_world a c"
  by (simp add: same_world_def)

lemma same_world_sessions [simp]: "same_world w (w\<lparr>sessions := x\<rparr>)"
  by (simp add: same_world_def)

text \<open>
  \<open>others w w'\<close>: the servers have the same sessions but for the key \<open>k\<close>; both are well formed.
\<close>

definition others :: "addr32 \<Rightarrow> 'v server \<Rightarrow> 'v server \<Rightarrow> bool" where
  "others k w w' \<longleftrightarrow> server_ok w' \<and> (\<forall>j. j \<noteq> k \<longrightarrow> session_at j w' = session_at j w)"

lemma others_trans [trans]: "others k a b \<Longrightarrow> others k b c \<Longrightarrow> others k a c"
  by (simp add: others_def)

lemma others_refl: "server_ok w \<Longrightarrow> others k w w"
  by (simp add: others_def)

definition session_for :: "nat \<Rightarrow> 'v server \<Rightarrow> Session" where
  "session_for sock w = (case session_at (sock_key sock) w of None \<Rightarrow> Session_create sock | Some s \<Rightarrow> s)"

text \<open>The server has the session \<open>s\<close> at the pointer \<open>p\<close> for a key.\<close>

definition entered :: "nat \<Rightarrow> ptr \<Rightarrow> Session \<Rightarrow> 'v server \<Rightarrow> bool" where
  "entered sock p s w \<longleftrightarrow> server_ok w \<and>
     table_map (sock_to_session_hashtable w) (sock_key sock) = Some p \<and>
     session_at (sock_key sock) w = Some s \<and> sock_key (socket (stream s)) = sock_key sock"

lemma find_session_enters:
  assumes "server_ok w" and "mem w"
  obtains w1 p where "find_session sock w = Inr (w1, p)" "same_world w w1"
    "others (sock_key sock) w w1" "entered sock p (session_for sock w) w1"
proof (cases "table_map (sock_to_session_hashtable w) (sock_key sock)")
  case None
  then have s: "session_at (sock_key sock) w = None" by (simp add: session_at_def)
  note new = session_at_new [OF assms(1), of _ sock]
  have f: "session_for sock w = Session_create sock" using s by (simp add: session_for_def)
  show ?thesis
  proof (rule that)
    show "find_session sock w = Inr (with_new_session sock w, next_session w)"
      using find_session_new [OF assms(1) None assms(2)] .
    show "same_world w (with_new_session sock w)" by (simp add: same_world_def with_new_session_def)
    show "others (sock_key sock) w (with_new_session sock w)"
      unfolding others_def by (simp add: new server_ok_new [OF assms(1)])
    show "entered sock (next_session w) (session_for sock w) (with_new_session sock w)"
      unfolding entered_def f
      by (simp add: new server_ok_new [OF assms(1)] table_map_new [OF assms(1)])
        (simp add: Session_create_def Stream_Reset_def)
  qed
next
  case (Some p)
  obtain s where "session_at (sock_key sock) w = Some s" "sock_key (socket (stream s)) = sock_key sock"
    using session_at_some [OF assms(1) Some] .
  then show ?thesis
    by (intro that [of w p])
      (simp_all add: find_session_known assms Some others_def entered_def session_for_def)
qed

lemma with_session_entered:
  assumes "entered sock p s w"
  shows "with_session p f w =
           rbind (f (w, s)) (\<lambda>(w', s'). Inr (w'\<lparr>sessions := (sessions w')(p \<mapsto> s')\<rparr>))"
  using assms unfolding entered_def by (blast intro: with_session_run)

lemma entered_upd:
  assumes "entered sock p s w" and "frame q w w'" and "socket (stream s') = socket (stream s)"
  shows "entered sock p s' (w'\<lparr>sessions := (sessions w')(p \<mapsto> s')\<rparr>)"
    and "others (sock_key sock) w (w'\<lparr>sessions := (sessions w')(p \<mapsto> s')\<rparr>)"
proof -
  have w: "server_ok w" "table_map (sock_to_session_hashtable w) (sock_key sock) = Some p"
    and k: "sock_key (socket (stream s')) = sock_key sock"
    using assms by (auto simp: entered_def)
  note u = server_ok_upd [OF w assms(2) k]
  show "entered sock p s' (w'\<lparr>sessions := (sessions w')(p \<mapsto> s')\<rparr>)"
    unfolding entered_def using u k by simp
  show "others (sock_key sock) w (w'\<lparr>sessions := (sessions w')(p \<mapsto> s')\<rparr>)"
    unfolding others_def using u by simp
qed

lemma others_entered: "others k w w' \<Longrightarrow> server_ok w'"
  by (simp add: others_def)

lemma session_for_entered: "entered sock p s w \<Longrightarrow> session_for sock w = s"
  by (simp add: entered_def session_for_def)

text \<open>One pass of the loop after the lookup of the session.\<close>

definition one_pass :: "'v vec_ops \<Rightarrow> nat \<Rightarrow> ptr \<Rightarrow> recv_res list \<Rightarrow> 'v server \<Rightarrow> ('v server \<times> ptr \<times> bool) result"
where
  "one_pass V sock p rs w1 =
    (case rs of
       [] \<Rightarrow> Inr (w1, p, False)
     | Would_block # _ \<Rightarrow> Inr (w1, p, False)
     | Recv_error # _ \<Rightarrow> Inr (w1, p, True)
     | Eof # _ \<Rightarrow> Inr (w1, p, True)
     | Data bs # rs' \<Rightarrow>
         if bs = [] then Inr (w1, p, True)
         else rbind (with_session p (\<lambda>(w, s).
                Session_processNext V (w, stream_data (take BUFSIZ bs) s)) w1) (\<lambda>w.
              read_loop V sock rs' w))"

text \<open>The head of every pass: the session is there and its stream rewound.\<close>

lemma read_loop_head:
  assumes "server_ok w" and "mem w"
  obtains w1 p where "same_world w w1" "others (sock_key sock) w w1"
    "entered sock p (rewind_stream (session_for sock w)) w1"
    "\<forall>rs. read_loop V sock rs w = one_pass V sock p rs w1"
proof -
  obtain w0 p where 0: "find_session sock w = Inr (w0, p)" "same_world w w0"
    "others (sock_key sock) w w0" "entered sock p (session_for sock w) w0"
    using find_session_enters [OF assms] .
  let ?s = "rewind_stream (session_for sock w)"
  let ?w1 = "w0\<lparr>sessions := (sessions w0)(p \<mapsto> ?s)\<rparr>"
  have e: "entered sock p ?s ?w1" "others (sock_key sock) w0 ?w1"
    using entered_upd [OF 0(4) frame_refl, of ?s] by (simp_all add: rewind_stream_def)
  show ?thesis
  proof (rule that [OF _ _ e(1)])
    show "same_world w ?w1" using 0(2) same_world_sessions by (rule same_world_trans)
    show "others (sock_key sock) w ?w1" using 0(3) e(2) by (rule others_trans)
  qed (subst read_loop.simps, simp add: 0(1) with_session_entered [OF 0(4)] one_pass_def)
qed

text \<open>A chunk runs the session on the bytes received; the next pass finds the session it leaves.\<close>

lemma read_loop_chunk:
  assumes "server_ok w" and "mem w" and "bs \<noteq> []" and "length bs \<le> BUFSIZ"
  obtains w1 p where "same_world w w1" "others (sock_key sock) w w1"
    "entered sock p (rewind_stream (session_for sock w)) w1"
    "read_loop V sock (Data bs # rs) w =
       rbind (Session_processNext V (w1, stream_data bs (rewind_stream (session_for sock w))))
         (\<lambda>(w', s'). read_loop V sock rs (w'\<lparr>sessions := (sessions w')(p \<mapsto> s')\<rparr>))"
proof -
  obtain w1 p where 1: "same_world w w1" "others (sock_key sock) w w1"
    "entered sock p (rewind_stream (session_for sock w)) w1"
    and r: "\<forall>rs. read_loop V sock rs w = one_pass V sock p rs w1"
    using read_loop_head [OF assms(1,2), of sock V] .
  have "read_loop V sock (Data bs # rs) w =
       rbind (Session_processNext V (w1, stream_data bs (rewind_stream (session_for sock w))))
         (\<lambda>(w', s'). read_loop V sock rs (w'\<lparr>sessions := (sessions w')(p \<mapsto> s')\<rparr>))"
    unfolding r [rule_format] one_pass_def
    by (cases "Session_processNext V (w1, stream_data bs (rewind_stream (session_for sock w)))")
      (auto simp: with_session_entered [OF 1(3)] assms(3,4) split: prod.split)
  with 1 show ?thesis by (rule that)
qed

section \<open>An invariant of a connection\<close>

text \<open>
  A property \<open>P b\<close> of a session that has received the bytes \<open>b\<close>, which each chunk carries on,
  holds after any cut of the bytes into chunks. \<open>ok b c\<close> are the chunks allowed after \<open>b\<close>.
\<close>

fun cut_ok :: "(string \<Rightarrow> string \<Rightarrow> bool) \<Rightarrow> string \<Rightarrow> string list \<Rightarrow> bool" where
  "cut_ok ok b [] \<longleftrightarrow> True"
| "cut_ok ok b (c # cs) \<longleftrightarrow> c \<noteq> [] \<and> length c \<le> BUFSIZ \<and> ok b c \<and> cut_ok ok (b @ c) cs"

definition carried ::
  "'v vec_ops \<Rightarrow> (string \<Rightarrow> string \<Rightarrow> bool) \<Rightarrow> (string \<Rightarrow> 'v work \<Rightarrow> bool) \<Rightarrow> bool"
where
  "carried V ok P \<longleftrightarrow>
     (\<forall>b c w s. P b (w, s) \<longrightarrow> c \<noteq> [] \<longrightarrow> length c \<le> BUFSIZ \<longrightarrow> ok b c \<longrightarrow>
        (\<exists>w' s'. Session_processNext V (w, stream_data c (rewind_stream s)) = Inr (w', s') \<and> P (b @ c) (w', s'))) \<and>
     (\<forall>b w w' s. P b (w, s) \<longrightarrow> same_world w w' \<longrightarrow> P b (w', s)) \<and>
     (\<forall>b w s. P b (w, s) \<longrightarrow> mem w \<and> P b (w, rewind_stream s))"

lemma read_loop_carried:
  assumes "carried V ok P" and "server_ok w" and "P b (w, session_for sock w)" and "cut_ok ok b cs"
  shows "\<exists>w'. read_loop V sock (map Data cs @ rs) w = read_loop V sock rs w' \<and>
           P (b @ concat cs) (w', session_for sock w') \<and> others (sock_key sock) w w'"
  using assms(2-)
proof (induction cs arbitrary: b w)
  case Nil
  then show ?case by (auto intro: others_refl)
next
  case (Cons c cs)
  let ?s = "session_for sock w"
  have "mem w" using assms(1) Cons.prems(2) by (auto simp: carried_def)
  from Cons.prems(3) have c: "c \<noteq> []" "length c \<le> BUFSIZ" "ok b c" "cut_ok ok (b @ c) cs" by auto
  obtain w1 p where 1: "same_world w w1" "others (sock_key sock) w w1"
    "entered sock p (rewind_stream ?s) w1"
    "read_loop V sock (Data c # map Data cs @ rs) w =
       rbind (Session_processNext V (w1, stream_data c (rewind_stream ?s)))
         (\<lambda>(w', s'). read_loop V sock (map Data cs @ rs) (w'\<lparr>sessions := (sessions w')(p \<mapsto> s')\<rparr>))"
    using read_loop_chunk [OF Cons.prems(1) \<open>mem w\<close> c(1,2)] .
  have "P b (w1, ?s)" using assms(1) Cons.prems(2) 1(1) by (simp add: carried_def)
  then obtain w2 s2 where 2: "Session_processNext V (w1, stream_data c (rewind_stream ?s)) = Inr (w2, s2)"
    "P (b @ c) (w2, s2)"
    using assms(1) c unfolding carried_def by blast
  let ?w3 = "w2\<lparr>sessions := (sessions w2)(p \<mapsto> s2)\<rparr>"
  have f: "frame (socket (stream ?s)) w1 w2" "socket (stream s2) = socket (stream (rewind_stream ?s))"
    using processNext_frame [OF 2(1)] by (simp_all add: step_frame_def)
  note u = entered_upd [OF 1(3) f]
  have "P (b @ c) (?w3, s2)" using assms(1) 2(2) same_world_sessions unfolding carried_def by blast
  then have P3: "P (b @ c) (?w3, session_for sock ?w3)" by (simp only: session_for_entered [OF u(1)])
  from Cons.IH [OF _ P3 c(4)] others_entered [OF u(2)] obtain w' where
    "read_loop V sock (map Data cs @ rs) ?w3 = read_loop V sock rs w'"
    "P ((b @ c) @ concat cs) (w', session_for sock w')" "others (sock_key sock) ?w3 w'" by blast
  moreover have "others (sock_key sock) w ?w3" using 1(2) u(2) by (rule others_trans)
  ultimately show ?case by (intro exI [of _ w']) (auto simp: 1(4) 2(1) intro: others_trans)
qed

text \<open>An event that leaves the connection open carries the property on.\<close>

lemma handle_readable_open:
  assumes "carried V ok P" and "server_ok w" and "P b (w, session_for sock w)" and "cut_ok ok b cs"
  obtains w' where "handle_readable V sock (map Data cs) w = Inr w'"
    "P (b @ concat cs) (w', session_for sock w')" "others (sock_key sock) w w'"
proof -
  obtain w1 where 1: "read_loop V sock (map Data cs) w = read_loop V sock [] w1"
    "P (b @ concat cs) (w1, session_for sock w1)" "others (sock_key sock) w w1"
    using read_loop_carried [OF assms, of "[]"] by auto
  have m: "server_ok w1" "mem w1" using 1 assms(1) by (auto simp: others_def carried_def)
  obtain w2 p where 2: "same_world w1 w2" "others (sock_key sock) w1 w2"
    "entered sock p (rewind_stream (session_for sock w1)) w2"
    "\<forall>rs. read_loop V sock rs w1 = one_pass V sock p rs w2"
    using read_loop_head [OF m, of sock V] .
  have "P (b @ concat cs) (w2, rewind_stream (session_for sock w1))"
    using assms(1) 1(2) 2(1) unfolding carried_def by blast
  then show ?thesis
    by (intro that [of w2])
      (use 1 2 in \<open>auto simp: handle_readable_def one_pass_def session_for_entered intro: others_trans\<close>)
qed

text \<open>The end of the connection, by a close or an error, runs \<open>finish\<close> and removes the session.\<close>

definition finish :: "'v vec_ops \<Rightarrow> 'v work \<Rightarrow> 'v work result" where
  "finish V = (\<lambda>(w, s).
     if state s = STATE_READING_PUT_SIZE then finish_size (w, s)
     else if state s = STATE_READING_PUT_DATA then finish_upload V (w, s)
     else Inr (w, s))"

lemma finish_frame: "finish V (w, s) = Inr ws \<Longrightarrow> step_frame (w, s) ws"
  by (auto simp: finish_def finish_size_def finish_upload_def dest: put_response_frame split: if_splits)

lemma handle_readable_close:
  assumes "carried V ok P" and "server_ok w" and "P b (w, session_for sock w)" and "cut_ok ok b cs"
    and "r \<in> {Eof, Recv_error}"
  obtains w1 s1 where "P (b @ concat cs) (w1, s1)" "sock_key (socket (stream s1)) = sock_key sock"
    "\<And>w2 s2. finish V (w1, s1) = Inr (w2, s2) \<Longrightarrow>
       \<exists>w'. handle_readable V sock (map Data cs @ [r]) w = Inr w' \<and> session_at (sock_key sock) w' = None \<and>
         others (sock_key sock) w w' \<and> same_world (w2\<lparr>watched := removeAll sock (watched w2)\<rparr>) w'"
proof -
  obtain w0 where 1: "read_loop V sock (map Data cs @ [r]) w = read_loop V sock [r] w0"
    "P (b @ concat cs) (w0, session_for sock w0)" "others (sock_key sock) w w0"
    using read_loop_carried [OF assms(1-4), of "[r]"] by auto
  have m: "server_ok w0" "mem w0" using 1 assms(1) by (auto simp: others_def carried_def)
  obtain w1 p where 2: "same_world w0 w1" "others (sock_key sock) w0 w1"
    "entered sock p (rewind_stream (session_for sock w0)) w1"
    "\<forall>rs. read_loop V sock rs w0 = one_pass V sock p rs w1"
    using read_loop_head [OF m, of sock V] .
  let ?s1 = "rewind_stream (session_for sock w0)"
  show ?thesis
  proof (rule that [of w1 ?s1])
    show "P (b @ concat cs) (w1, ?s1)" using assms(1) 1(2) 2(1) unfolding carried_def by blast
    show "sock_key (socket (stream ?s1)) = sock_key sock" using 2(3) by (simp add: entered_def)
    fix w2 s2
    assume f: "finish V (w1, ?s1) = Inr (w2, s2)"
    let ?w3 = "w2\<lparr>sessions := (sessions w2)(p \<mapsto> s2)\<rparr>"
    have u: "entered sock p s2 ?w3" "others (sock_key sock) w1 ?w3"
      using entered_upd [OF 2(3)] finish_frame [OF f] by (auto simp: step_frame_def)
    have t: "server_ok ?w3" "table_map (sock_to_session_hashtable ?w3) (sock_key sock) = Some p"
      using u(1) by (simp_all add: entered_def)
    let ?w4 = "?w3\<lparr>watched := removeAll sock (watched ?w3),
      sock_to_session_hashtable := table_remove (sock_to_session_hashtable ?w3) (sock_key sock),
      sessions := (sessions ?w3)(p := None)\<rparr>"
    have "read_loop V sock (map Data cs @ [r]) w = Inr (w1, p, True)"
      using 1(1) 2(4) assms(5) by (auto simp: one_pass_def)
    then have "handle_readable V sock (map Data cs @ [r]) w = Inr ?w4"
      using end_session_run [OF t] f [unfolded finish_def]
      by (simp add: handle_readable_def with_session_entered [OF 2(3)])
    moreover have "others (sock_key sock) ?w3 ?w4" "session_at (sock_key sock) ?w4 = None"
      using server_ok_end [OF t refl] by (simp_all add: others_def)
    moreover have "same_world (w2\<lparr>watched := removeAll sock (watched w2)\<rparr>) ?w4"
      by (simp add: same_world_def)
    ultimately show "\<exists>w'. handle_readable V sock (map Data cs @ [r]) w = Inr w' \<and>
        session_at (sock_key sock) w' = None \<and> others (sock_key sock) w w' \<and>
        same_world (w2\<lparr>watched := removeAll sock (watched w2)\<rparr>) w'"
      using 1(3) 2(2) u(2) by (intro exI [of _ ?w4]) (blast intro: others_trans)
  qed
qed

end
