(* ===== verification/ServerPut.thy ===== *)
theory ServerPut
  imports ServerRun
begin

text \<open>
  The PUT request from the first byte to the answer: an invariant of the session after any prefix
  of the bytes, carried on by every chunk, and the outcome when the client closes the
  connection: the file is stored and listed when the declared size is the size received, and
  removed otherwise.
\<close>

section \<open>The invariant\<close>

definition put_header :: "string \<Rightarrow> string" where
  "put_header name = ''PUT '' @ name @ [NL]"

text \<open>A name that the server can take: no terminator or newline in it, and room for the size.\<close>

definition name_ok :: "string \<Rightarrow> bool" where
  "name_ok name \<longleftrightarrow> NUL \<notin> set name \<and> NL \<notin> set name \<and> length name + 5 + 7 \<le> BUFSIZ"

text \<open>
  What is common to all stages: the stream works, the connection is live, the disk takes the
  data, and nothing has been answered or listed yet.
\<close>

definition put_env :: "string \<Rightarrow> 'v server \<Rightarrow> nat \<Rightarrow> 'v work \<Rightarrow> bool" where
  "put_env name w0 k = (\<lambda>(w, s).
     socket (stream s) = k \<and> \<not> atEnd (stream s) \<and> \<not> inError (stream s) \<and>
     live (sends w) \<and> 0 \<notin> set (writes w) \<and> mem w \<and> base_temp_dir w = base_temp_dir w0 \<and>
     creatable w (fullpath w name) \<and> directory w = directory w0 \<and> outs w k = outs w0 k)"

definition put_stage :: "string \<Rightarrow> 'v server \<Rightarrow> string \<Rightarrow> 'v work \<Rightarrow> bool" where
  "put_stage name w0 d = (\<lambda>(w, s).
     filename s = name \<and> headersize s = length (put_header name) \<and>
     (if length d < 8
      then state s = STATE_READING_PUT_SIZE \<and> input s = put_header name @ d \<and>
           inputPos s = length (put_header name @ d) \<and> totalWritten s = 0 \<and> names w = names w0
      else state s = STATE_READING_PUT_DATA \<and> totalBytesForPut s = size_at d 0 \<and>
           totalWritten s = length d - 8 \<and>
           (\<exists>i. fd s = Some \<lparr>fh_inode = i, fh_pos = length d - 8\<rparr> \<and>
                names w = (names w0)(fullpath w name \<mapsto> i) \<and> content w i = drop 8 d)))"

definition put_inv :: "string \<Rightarrow> 'v server \<Rightarrow> nat \<Rightarrow> string \<Rightarrow> 'v work \<Rightarrow> bool" where
  "put_inv name w0 k b = (\<lambda>(w, s).
     put_env name w0 k (w, s) \<and>
     (if b = []
      then state s = STATE_READING_HEADER \<and> input s = [] \<and> inputPos s = 0 \<and> totalWritten s = 0 \<and>
           names w = names w0
      else \<exists>d. b = put_header name @ d \<and> put_stage name w0 d (w, s)))"

text \<open>The first chunk must hold the whole request line.\<close>

definition put_cut :: "string \<Rightarrow> string \<Rightarrow> string \<Rightarrow> bool" where
  "put_cut name b c \<longleftrightarrow> (b = [] \<longrightarrow> (\<exists>d. c = put_header name @ d))"

section \<open>The steps\<close>

lemma length_put_header [simp]: "length (put_header name) = length name + 5"
  by (simp add: put_header_def)

lemma put_env_upd:
  assumes "put_env name w0 k (w, s)" and "stream s' = (stream s)\<lparr>position := x\<rparr>"
  shows "put_env name w0 k (w, s')"
  using assms by (simp add: put_env_def)

lemma size_at_append: "length h = n \<Longrightarrow> 8 \<le> length d \<Longrightarrow> size_at (h @ d) n = size_at d 0"
  by (simp add: size_at_def)

text \<open>
  The second half of \<open>continue_reading_put\<close> while the size is read: all bytes so far are in
  \<open>input\<close>.
\<close>

lemma put_size_step:
  assumes env: "put_env name w0 k (w, s)" and st: "state s = STATE_READING_PUT_SIZE"
    and s: "filename s = name" "headersize s = length (put_header name)" "totalWritten s = 0"
    and n: "names w = names w0" and v: "viable (stream s)"
    and i: "inputPos s = length (input s)" "input s @ unread (stream s) = put_header name @ d"
    and b: "length (put_header name @ d) \<le> 2 * BUFSIZ"
  shows "\<exists>w' s'. continue_reading_put (w, s) = Inr (w', s') \<and> put_env name w0 k (w', s') \<and>
           put_stage name w0 d (w', s')"
proof -
  let ?s1 = "s\<lparr>stream := (stream s)\<lparr>position := position (stream s) + length (unread (stream s))\<rparr>,
      input := input s @ unread (stream s), inputPos := inputPos s + length (unread (stream s))\<rparr>"
  have l: "inputPos s + length (unread (stream s)) = length (put_header name @ d)"
    using i by (metis length_append)
  have f: "fill_input (\<lambda>_. True) s = Inr ?s1"
    using v b l by (intro fill_input_all) simp_all
  have e1: "put_env name w0 k (w, ?s1)" using env by (rule put_env_upd) simp
  have h: "headersize ?s1 = length (put_header name)" "input ?s1 = put_header name @ d"
      "inputPos ?s1 = length (put_header name @ d)" "filename ?s1 = name" "totalWritten ?s1 = 0"
      "state ?s1 = STATE_READING_PUT_SIZE"
    using s i(2) l st by simp_all
  show ?thesis
  proof (cases "length d < 8")
    case True
    then have "continue_reading_put (w, s) = Inr (w, ?s1)"
      using f h st by (simp add: continue_reading_put_def)
    moreover have "put_stage name w0 d (w, ?s1)" using True h n by (simp add: put_stage_def)
    ultimately show ?thesis using e1 by blast
  next
    case False
    define s2 where "s2 = ?s1\<lparr>totalBytesForPut := size_at d 0\<rparr>"
    have s2: "headersize s2 = length (put_header name)" "input s2 = put_header name @ d"
      "inputPos s2 = length (put_header name @ d)" "filename s2 = name" "totalWritten s2 = 0"
      "totalBytesForPut s2 = size_at d 0" "put_env name w0 k (w, s2)"
      using h e1 by (simp_all add: s2_def put_env_def)
    have c: "creatable w (fullpath w name)" "0 \<notin> set (writes w)" using env by (simp_all add: put_env_def)
    obtain i where i: "fst (fopen_wb (fullpath w name) w) = Some \<lparr>fh_inode = i, fh_pos = 0\<rparr>"
      "names (snd (fopen_wb (fullpath w name) w)) = (names w)(fullpath w name \<mapsto> i)"
      "content (snd (fopen_wb (fullpath w name) w)) i = []"
      using fopen_wb_ok [OF c(1)] by metis
    define w1 where "w1 = snd (fopen_wb (fullpath w name) w)"
    have o: "fopen_wb (fullpath w name) w = (Some \<lparr>fh_inode = i, fh_pos = 0\<rparr>, w1)"
      using i(1) by (simp add: w1_def prod_eq_iff)
    have w1: "put_env name w0 k (w1, s2)" "names w1 = (names w0)(fullpath w name \<mapsto> i)"
      "content w1 i = []" "fullpath w1 name = fullpath w name" "0 \<notin> set (writes w1)"
      using s2(7) i n c by (simp_all add: put_env_def w1_def)
    have run: "continue_reading_put (w, s) =
      (let (w2, s3) = (if length d - 8 > 0
             then let (f', w') = write_all \<lparr>fh_inode = i, fh_pos = 0\<rparr> (drop 8 d) w1 in
                  (w', s2\<lparr>fd := Some f', totalWritten := length d - 8\<rparr>)
             else (w1, s2\<lparr>fd := Some \<lparr>fh_inode = i, fh_pos = 0\<rparr>\<rparr>)) in
       Inr (w2, s3\<lparr>state := STATE_READING_PUT_DATA\<rparr>))"
      using f h st False size_at_append [of "put_header name" "length name + 5" d] o
      by (simp add: continue_reading_put_def s2_def Let_def)
    show ?thesis
    proof (cases "length d = 8")
      case True
      then have "continue_reading_put (w, s) = Inr (w1, s2\<lparr>fd := Some \<lparr>fh_inode = i, fh_pos = 0\<rparr>,
          state := STATE_READING_PUT_DATA\<rparr>)"
        using run by simp
      with True w1 s2 show ?thesis by (simp add: put_stage_def put_env_def)
    next
      case F: False
      note a = write_all_all [OF w1(5), of "\<lparr>fh_inode = i, fh_pos = 0\<rparr>" "drop 8 d"]
      let ?W = "write_all \<lparr>fh_inode = i, fh_pos = 0\<rparr> (drop 8 d) w1"
      have "continue_reading_put (w, s) = Inr (snd ?W, s2\<lparr>fd := Some (fst ?W),
          totalWritten := length d - 8, state := STATE_READING_PUT_DATA\<rparr>)"
        using run False F by (simp add: Let_def split_beta)
      with False w1 s2 a show ?thesis
        by (simp add: put_stage_def put_env_def overwrite_end)
    qed
  qed
qed

lemma put_data_step:
  assumes "put_env name w0 k (w, s)" and "put_stage name w0 d (w, s)" and "8 \<le> length d"
    and "take (bytesInBuffer (stream s)) (buffer (stream s)) = c" and "bytesInBuffer (stream s) = length c"
  shows "\<exists>w' s'. continue_reading_put (w, s) = Inr (w', s') \<and> put_env name w0 k (w', s') \<and>
           put_stage name w0 (d @ c) (w', s')"
proof -
  from assms(2,3) obtain i where i: "fd s = Some \<lparr>fh_inode = i, fh_pos = length d - 8\<rparr>"
    "names w = (names w0)(fullpath w name \<mapsto> i)" "content w i = drop 8 d"
    and st: "state s = STATE_READING_PUT_DATA" "filename s = name" "headersize s = length name + 5"
      "totalBytesForPut s = size_at d 0" "totalWritten s = length d - 8"
    by (auto simp: put_stage_def)
  let ?h = "\<lparr>fh_inode = i, fh_pos = length d - 8\<rparr>"
  let ?W = "write_all ?h c w"
  have "0 \<notin> set (writes w)" using assms(1) by (simp add: put_env_def)
  note a = write_all_all [OF this, of ?h c]
  have "continue_reading_put (w, s) =
      Inr (snd ?W, s\<lparr>fd := Some (fst ?W), totalWritten := totalWritten s + bytesInBuffer (stream s)\<rparr>)"
    using i(1) st(1) assms(4) by (simp add: continue_reading_put_def Let_def split_beta)
  moreover have "size_at (d @ c) 0 = size_at d 0" using assms(3) by (simp add: size_at_def)
  ultimately show ?thesis
    using assms a i st by (simp add: put_stage_def put_env_def overwrite_end)
qed

section \<open>The request line\<close>

lemma newline_index_line:
  assumes "NL \<notin> set l" and "NUL \<notin> set l" and "input s = l @ NL # r"
  shows "newline_index s = Some (length l)"
proof -
  have "cstr (input s) = l @ NL # cstr r"
    using assms(2) unfolding cstr_def assms(3) by (subst takeWhile_append2) auto
  moreover have "takeWhile (\<lambda>c. c \<noteq> NL) (l @ NL # cstr r) = l"
    using assms(1) by (subst takeWhile_append2) auto
  ultimately show ?thesis by (simp add: newline_index_def)
qed

text \<open>A verb with a file name, on a complete request line.\<close>

lemma TryParse_name:
  assumes "input s = cmd @ [SP] @ name @ [NL] @ r" and "NL \<notin> set (cmd @ name)" and "NUL \<notin> set (cmd @ name)"
    and "length name < BUFSIZ"
  shows "TryParse cmd True (w, s) = Inr (True, w, s\<lparr>filename := name\<rparr>)"
proof -
  have "newline_index s = Some (length (cmd @ [SP] @ name))"
    by (rule newline_index_line [of _ _ r]) (use assms in auto)
  with assms show ?thesis by (simp add: TryParse_def has_prefix_def input_at_def nth_append)
qed

lemma TryParse_no: "\<not> has_prefix s cmd \<Longrightarrow> TryParse cmd h (w, s) = Inr (False, w, s)"
  by (simp add: TryParse_def)

text \<open>The session when the loop of the header has taken all the bytes received.\<close>

definition header_read :: "Session \<Rightarrow> Session" where
  "header_read s = s\<lparr>stream := (stream s)\<lparr>position := position (stream s) + length (unread (stream s))\<rparr>,
      input := input s @ unread (stream s), inputPos := inputPos s + length (unread (stream s))\<rparr>"

lemma header_read_simps [simp]:
  "input (header_read s) = input s @ unread (stream s)" "state (header_read s) = state s"
  "inputPos (header_read s) = inputPos s + length (unread (stream s))"
  "socket (stream (header_read s)) = socket (stream s)" "filename (header_read s) = filename s"
  "unread (stream (header_read s)) = []" "viable (stream (header_read s)) = viable (stream s)"
  "totalWritten (header_read s) = totalWritten s" "fd (header_read s) = fd s"
  "atEnd (stream (header_read s)) = atEnd (stream s)"
  "inError (stream (header_read s)) = inError (stream s)"
  "headersize (header_read s) = headersize s" "totalBytesForPut (header_read s) = totalBytesForPut s"
  by (auto simp: header_read_def unread_def viable_def)

lemma header_fill:
  assumes "viable (stream s)" and "state s = STATE_READING_HEADER"
    and "inputPos s + length (unread (stream s)) \<le> 2 * BUFSIZ"
  shows "fill_input (\<lambda>s. state s = STATE_READING_HEADER) s = Inr (header_read s)"
  unfolding header_read_def using assms by (intro fill_input_all) auto

lemma header_put:
  assumes "viable (stream s)" and "state s = STATE_READING_HEADER"
    and "inputPos s + length (unread (stream s)) \<le> 2 * BUFSIZ"
    and "input s @ unread (stream s) = put_header name @ d" and "name_ok name"
  shows "continue_reading_header V (w, s) = session_start_put 3 (w, (header_read s)\<lparr>filename := name\<rparr>)"
proof -
  let ?s = "header_read s"
  have i: "input ?s = ''PUT'' @ [SP] @ name @ [NL] @ d" using assms(4) by (simp add: put_header_def)
  have "\<not> has_prefix ?s ''LIST''" "\<not> has_prefix ?s ''GET''"
    unfolding has_prefix_def i by simp_all
  then have no: "TryParse ''LIST'' False (w, ?s) = Inr (False, w, ?s)"
      "TryParse ''GET'' True (w, ?s) = Inr (False, w, ?s)"
    by (simp_all add: TryParse_no)
  have "TryParse ''PUT'' True (w, ?s) = Inr (True, w, ?s\<lparr>filename := name\<rparr>)"
    using assms(5) i by (intro TryParse_name [where r = d]) (auto simp: name_ok_def)
  with no show ?thesis
    unfolding continue_reading_header_def using header_fill [OF assms(1-3)] by simp
qed

lemma put_inv_same:
  assumes "put_inv name w0 k b (w, s)" and "same_world w w'"
  shows "put_inv name w0 k b (w', s)"
proof -
  have "fullpath w' name = fullpath w name" using assms(2) by (simp add: same_world_def fullpath_def)
  with assms(2) have "put_env name w0 k (w', s) = put_env name w0 k (w, s)"
    "put_stage name w0 d (w', s) = put_stage name w0 d (w, s)" "names w' = names w" for d
    by (simp_all add: put_env_def put_stage_def same_world_def)
  with assms(1) show ?thesis by (simp add: put_inv_def)
qed

lemma put_inv_rewind:
  assumes "put_inv name w0 k b (w, s)"
  shows "put_inv name w0 k b (w, rewind_stream s)"
proof -
  have "put_env name w0 k (w, rewind_stream s) = put_env name w0 k (w, s)"
    "put_stage name w0 d (w, rewind_stream s) = put_stage name w0 d (w, s)" for d
    by (simp_all add: put_env_def put_stage_def rewind_stream_def)
  with assms show ?thesis by (simp add: put_inv_def rewind_stream_def)
qed

lemma put_inv_mem: "put_inv name w0 k b (w, s) \<Longrightarrow> mem w"
  by (simp add: put_inv_def put_env_def)

lemma put_carried: "name_ok name \<Longrightarrow> carried V (put_cut name) (put_inv name w0 k)"
  unfolding carried_def
proof (intro conjI allI impI)
  fix b c and w :: "'a server" and s
  assume nm: "name_ok name" and inv: "put_inv name w0 k b (w, s)"
    and c: "c \<noteq> []" "length c \<le> BUFSIZ" "put_cut name b c"
  let ?r = "stream_data c (rewind_stream s)"
  have env: "put_env name w0 k (w, ?r)" and v: "viable (stream ?r)"
    using inv by (auto simp: put_inv_def put_env_def stream_data_def rewind_stream_def viable_def)
  show "\<exists>w' s'. Session_processNext V (w, ?r) = Inr (w', s') \<and> put_inv name w0 k (b @ c) (w', s')"
  proof (cases "b = []")
    case True
    with inv have h: "state s = STATE_READING_HEADER" "input s = []" "inputPos s = 0" "totalWritten s = 0"
      "names w = names w0" by (auto simp: put_inv_def)
    obtain d where d: "c = put_header name @ d" using c(3) True by (auto simp: put_cut_def)
    let ?s = "(header_read ?r)\<lparr>filename := name, headersize := 3 + length name + 2,
        state := STATE_READING_PUT_SIZE\<rparr>"
    have "continue_reading_header V (w, ?r) = session_start_put 3 (w, (header_read ?r)\<lparr>filename := name\<rparr>)"
      using v h c d nm by (intro header_put) simp_all
    then have "Session_processNext V (w, ?r) = continue_reading_put (w, ?s)"
      using h by (simp add: Session_processNext_def session_start_put_def)
    moreover have "\<exists>w' s'. continue_reading_put (w, ?s) = Inr (w', s') \<and>
        put_env name w0 k (w', s') \<and> put_stage name w0 d (w', s')"
      using env v h c(2) d by (intro put_size_step) (simp_all add: put_env_def)
    ultimately show ?thesis using True d c(1) by (auto simp: put_inv_def)
  next
    case False
    with inv obtain d where d: "b = put_header name @ d" "put_stage name w0 d (w, s)"
      by (auto simp: put_inv_def)
    then have d': "put_stage name w0 d (w, ?r)" by (simp add: put_stage_def)
    have "\<exists>w' s'. continue_reading_put (w, ?r) = Inr (w', s') \<and> put_env name w0 k (w', s') \<and>
        put_stage name w0 (d @ c) (w', s')"
    proof (cases "length d < 8")
      case True
      with d' show ?thesis using env v nm c(2)
        by (intro put_size_step) (auto simp: put_stage_def name_ok_def)
    next
      case False
      with d' show ?thesis using env by (intro put_data_step) simp_all
    qed
    moreover have "Session_processNext V (w, ?r) = continue_reading_put (w, ?r)"
      using d(2) by (auto simp: put_stage_def Session_processNext_def split: if_splits)
    ultimately show ?thesis using d(1) c(1) by (auto simp: put_inv_def)
  qed
qed (simp_all add: put_inv_same put_inv_rewind put_inv_mem)

section \<open>The end of the upload\<close>

lemma put_response_ok:
  assumes "vec_laws V" and "put_env name w0 k (w, s)" and "filename s = name" and "fd s = Some f"
  shows "\<exists>w' s'. sending_put_response V ''OK'' None (w, s) = Inr (w', s') \<and>
    outs w' k = outs w0 k @ ''OK'' @ [NL] \<and> names w' = names w \<and> content w' = content w \<and>
    vector_items V (directory w') =
      (let l = vector_items V (directory w0) in if name \<in> set l then l else l @ [name])"
  using assms
  by (simp add: sending_put_response_def put_env_def send_header_response_alt Let_def
      vector_items_push_back)

lemma put_response_error:
  assumes "vec_laws V" and "put_env name w0 k (w, s)" and "filename s = name" and "fd s = Some f"
  shows "\<exists>w' s'. sending_put_response V ''ERROR'' (Some m) (w, s) = Inr (w', s') \<and>
    outs w' k = outs w0 k @ ''ERROR'' @ [NL] @ m @ [NL] \<and> names w' = (names w)(fullpath w name := None) \<and>
    vector_items V (directory w') = remove1 name (vector_items V (directory w0))"
proof (cases "directory_index V (directory w) name")
  case None
  with assms show ?thesis
    by (simp add: sending_put_response_def put_env_def send_header_response_alt Let_def split_beta
        directory_index_None remove1_idem)
next
  case (Some i)
  then have "name \<in> set (vector_items V (directory w))"
    using directory_index_None by (metis option.distinct(1))
  with Some assms show ?thesis
    by (simp add: sending_put_response_def put_env_def send_header_response_alt Let_def split_beta
        vector_items_erase_found)
qed

text \<open>The answer to a complete upload of \<open>body\<close> whose declared size is \<open>n\<close>.\<close>

definition put_outcome :: "'v vec_ops \<Rightarrow> string \<Rightarrow> nat \<Rightarrow> nat \<Rightarrow> string \<Rightarrow> 'v server \<Rightarrow> 'v server \<Rightarrow> bool" where
  "put_outcome V name k n body w w' \<longleftrightarrow>
     (let l = vector_items V (directory w); l' = vector_items V (directory w'); path = fullpath w name in
      if length body = n
      then outs w' k = outs w k @ ''OK'' @ [NL] \<and> fopen_rb path w' = Some body \<and>
           l' = (if name \<in> set l then l else l @ [name])
      else outs w' k = outs w k @ ''ERROR'' @ [NL] @ err_bad_file_size @ [NL] \<and>
           fopen_rb path w' = None \<and> l' = remove1 name l)"

lemma put_outcome_same:
  "put_outcome V name k n body w w1 \<Longrightarrow> same_world (w1\<lparr>watched := x\<rparr>) w' \<Longrightarrow> put_outcome V name k n body w w'"
  unfolding put_outcome_def Let_def same_world_def fopen_rb_def by simp

lemma finish_put:
  assumes "vec_laws V" and "put_inv name w0 k (put_header name @ insert_size_into_mem n @ body) (w, s)"
    and "n < 2 ^ 64"
  shows "\<exists>w' s'. finish V (w, s) = Inr (w', s') \<and> put_outcome V name k n body w0 w'"
proof -
  let ?d = "insert_size_into_mem n @ body"
  from assms(2) have env: "put_env name w0 k (w, s)" and stage: "put_stage name w0 ?d (w, s)"
    by (auto simp: put_inv_def put_header_def)
  have l: "length ?d = 8 + length body" and z: "size_at ?d 0 = n"
    using size_at_value [OF assms(3), of "[]" body] by (simp_all add: insert_size_into_mem_def)
  from stage obtain i where s: "filename s = name" "state s = STATE_READING_PUT_DATA"
    "totalBytesForPut s = n" "totalWritten s = length body"
    "fd s = Some \<lparr>fh_inode = i, fh_pos = length body\<rparr>"
    "names w = (names w0)(fullpath w name \<mapsto> i)" "content w i = body"
    using l z by (auto simp: put_stage_def insert_size_into_mem_def)
  have p: "fullpath w name = fullpath w0 name" using env by (simp add: put_env_def fullpath_def)
  show ?thesis
  proof (cases "length body = n")
    case True
    with put_response_ok [OF assms(1) env s(1,5)] s p show ?thesis
      by (auto simp: finish_def finish_upload_def put_outcome_def fopen_rb_def Let_def)
  next
    case False
    then have "finish V (w, s) = sending_put_response V ''ERROR'' (Some err_bad_file_size) (w, s)"
      using s by (simp add: finish_def finish_upload_def)
    with put_response_error [OF assms(1) env s(1,5), of err_bad_file_size] s(6) p False show ?thesis
      by (auto simp: put_outcome_def fopen_rb_def Let_def)
  qed
qed

section \<open>The whole connection\<close>

text \<open>
  The events of one connection: the chunks come in groups, one group an event, and the client
  closes after the last.
\<close>

definition upload_events :: "nat \<Rightarrow> string list list \<Rightarrow> string list \<Rightarrow> event list" where
  "upload_events sock css cs =
     map (\<lambda>g. Readable sock (map Data g)) css @ [Readable sock (map Data cs @ [Eof])]"

lemma cut_ok_append:
  "cut_ok ok b (xs @ ys) \<longleftrightarrow> cut_ok ok b xs \<and> cut_ok ok (b @ concat xs) ys"
  by (induction xs arbitrary: b) auto

lemma event_groups:
  assumes "carried V ok P" and "server_ok w" and "P b (w, session_for sock w)"
    and "cut_ok ok b (concat css)"
  shows "\<exists>w'. event_loop V (map (\<lambda>g. Readable sock (map Data g)) css) w = Inr w' \<and>
           P (b @ concat (concat css)) (w', session_for sock w') \<and> others (sock_key sock) w w'"
  using assms(2-)
proof (induction css arbitrary: b w)
  case Nil
  then show ?case by (simp add: event_loop_def others_refl)
next
  case (Cons g css)
  then have c: "cut_ok ok b g" "cut_ok ok (b @ concat g) (concat css)" by (simp_all add: cut_ok_append)
  obtain w1 where 1: "handle_readable V sock (map Data g) w = Inr w1"
    "P (b @ concat g) (w1, session_for sock w1)" "others (sock_key sock) w w1"
    using handle_readable_open [OF assms(1) Cons.prems(1,2) c(1)] .
  from Cons.IH [OF others_entered [OF 1(3)] 1(2) c(2)] obtain w2 where
    "event_loop V (map (\<lambda>g. Readable sock (map Data g)) css) w1 = Inr w2"
    "P ((b @ concat g) @ concat (concat css)) (w2, session_for sock w2)" "others (sock_key sock) w1 w2"
    by blast
  with 1 show ?case by (intro exI [of _ w2]) (auto simp: event_loop_def intro: others_trans)
qed

lemma put_inv_start:
  assumes "session_at (sock_key sock) w = None" and "live (sends w)" and "0 \<notin> set (writes w)" and "mem w"
    and "creatable w (fullpath w name)"
  shows "put_inv name w sock [] (w, session_for sock w)"
  using assms by (simp add: put_inv_def put_env_def session_for_def Session_create_def Stream_Reset_def)

lemma put_cut_rest: "b \<noteq> [] \<Longrightarrow> \<forall>c \<in> set cs. c \<noteq> [] \<and> length c \<le> BUFSIZ \<Longrightarrow> cut_ok (put_cut name) b cs"
  by (induction cs arbitrary: b) (auto simp: put_cut_def)

text \<open>A list of chunks that a client may send: none empty, none larger than one \<open>recv\<close>.\<close>

definition chunks_ok :: "string list \<Rightarrow> bool" where
  "chunks_ok cs \<longleftrightarrow> (\<forall>c \<in> set cs. c \<noteq> [] \<and> length c \<le> BUFSIZ)"

text \<open>A server on which a new connection can upload the name.\<close>

definition ready_for :: "nat \<Rightarrow> string \<Rightarrow> 'v server \<Rightarrow> bool" where
  "ready_for sock name w \<longleftrightarrow> server_ok w \<and> session_at (sock_key sock) w = None \<and> live (sends w) \<and>
     0 \<notin> set (writes w) \<and> mem w \<and> creatable w (fullpath w name)"

lemma upload_run:
  assumes "ready_for sock name w" and "name_ok name" and "chunks_ok (concat css @ cs)"
    and "concat css @ cs = (put_header name @ d0) # rest"
    and "\<And>w1 s1. put_inv name w sock (concat (concat css @ cs)) (w1, s1) \<Longrightarrow>
           \<exists>w2 s2. finish V (w1, s1) = Inr (w2, s2) \<and> Q w2"
    and "\<And>w2 w' x. Q w2 \<Longrightarrow> same_world (w2\<lparr>watched := x\<rparr>) w' \<Longrightarrow> Q w'"
  shows "\<exists>w'. event_loop V (upload_events sock css cs) w = Inr w' \<and> Q w' \<and>
           session_at (sock_key sock) w' = None \<and> others (sock_key sock) w w'"
proof -
  note car = put_carried [OF assms(2), of V w sock]
  have "cut_ok (put_cut name) [] ((put_header name @ d0) # rest)"
    using assms(3,4) by (auto simp: chunks_ok_def put_cut_def put_header_def intro: put_cut_rest)
  then have cut: "cut_ok (put_cut name) [] (concat css)" "cut_ok (put_cut name) (concat (concat css)) cs"
    unfolding assms(4) [symmetric] by (simp_all add: cut_ok_append)
  have ok: "server_ok w" and start: "put_inv name w sock [] (w, session_for sock w)"
    using assms(1) by (auto simp: ready_for_def intro: put_inv_start)
  obtain w1 where 1: "event_loop V (map (\<lambda>g. Readable sock (map Data g)) css) w = Inr w1"
    "put_inv name w sock (concat (concat css)) (w1, session_for sock w1)" "others (sock_key sock) w w1"
    using event_groups [OF car ok start cut(1)] by auto
  obtain w2 s2 where 2: "put_inv name w sock (concat (concat css) @ concat cs) (w2, s2)"
    and e: "\<And>w3 s3. finish V (w2, s2) = Inr (w3, s3) \<Longrightarrow>
       \<exists>w'. handle_readable V sock (map Data cs @ [Eof]) w1 = Inr w' \<and> session_at (sock_key sock) w' = None \<and>
         others (sock_key sock) w1 w' \<and> same_world (w3\<lparr>watched := removeAll sock (watched w3)\<rparr>) w'"
    by (rule handle_readable_close [OF car others_entered [OF 1(3)] 1(2) cut(2), of Eof]) simp_all
  obtain w3 s3 where 3: "finish V (w2, s2) = Inr (w3, s3)" "Q w3" using assms(5) [of w2 s2] 2 by auto
  from e [OF 3(1)] obtain w' where 4: "handle_readable V sock (map Data cs @ [Eof]) w1 = Inr w'"
    "session_at (sock_key sock) w' = None" "others (sock_key sock) w1 w'"
    "same_world (w3\<lparr>watched := removeAll sock (watched w3)\<rparr>) w'" by blast
  have "event_loop V (upload_events sock css cs) w = Inr w'"
    using 1(1) 4(1) by (simp add: event_loop_def upload_events_def rfold_append)
  moreover have "others (sock_key sock) w w'" using 1(3) 4(3) by (rule others_trans)
  ultimately show ?thesis using 4(2) assms(6) [OF 3(2) 4(4)] by blast
qed

lemma put_stores_file_ok:
  assumes "vec_laws V" and "ready_for sock name w" and "name_ok name" and "n < 2 ^ 64"
    and "chunks_ok (concat css @ cs)" and "concat css @ cs = (put_header name @ d0) # rest"
    and "concat (concat css @ cs) = put_header name @ insert_size_into_mem n @ body"
  shows "\<exists>w'. event_loop V (upload_events sock css cs) w = Inr w' \<and>
           put_outcome V name sock n body w w' \<and> session_at (sock_key sock) w' = None \<and>
           others (sock_key sock) w w'"
proof (rule upload_run [OF assms(2,3,5,6)])
  fix w1 :: "'a server" and s1
  assume "put_inv name w sock (concat (concat css @ cs)) (w1, s1)"
  then show "\<exists>w2 s2. finish V (w1, s1) = Inr (w2, s2) \<and> put_outcome V name sock n body w w2"
    unfolding assms(7) by (rule finish_put [OF assms(1) _ assms(4)])
qed (rule put_outcome_same)

end
