(* ===== verification/ServerVerbs.thy ===== *)
theory ServerVerbs
  imports ServerPut
begin

text \<open>
  The requests that are answered at once: LIST, GET, DELETE and a malformed request line. A
  connection of this kind is settled by its first chunk, and ignores whatever follows.
\<close>

section \<open>Connections settled by the first chunk\<close>

definition settled :: "session_state \<Rightarrow> bool" where
  "settled st \<longleftrightarrow> st \<in> {STATE_DONE, STATE_SENDING_GET, STATE_INTERNAL_ERROR}"

definition fresh_session :: "nat \<Rightarrow> Session \<Rightarrow> bool" where
  "fresh_session k s \<longleftrightarrow> socket (stream s) = k \<and> \<not> atEnd (stream s) \<and> \<not> inError (stream s) \<and>
     state s = STATE_READING_HEADER \<and> input s = [] \<and> inputPos s = 0"

definition one_shot :: "'v server \<Rightarrow> nat \<Rightarrow> ('v server \<Rightarrow> bool) \<Rightarrow> string \<Rightarrow> 'v work \<Rightarrow> bool" where
  "one_shot w0 k R b = (\<lambda>(w, s). mem w \<and>
     (if b = [] then same_world w0 w \<and> fresh_session k s else settled (state s) \<and> R w))"

definition first_chunk :: "string \<Rightarrow> string \<Rightarrow> string \<Rightarrow> bool" where
  "first_chunk line b c \<longleftrightarrow> (b = [] \<longrightarrow> c = line)"

definition world_property :: "('v server \<Rightarrow> bool) \<Rightarrow> bool" where
  "world_property R \<longleftrightarrow> (\<forall>w w'. R w \<longrightarrow> same_world w w' \<longrightarrow> R w')"

lemma settled_step:
  assumes "settled (state s)"
  obtains s' where "Session_processNext V (w, s) = Inr (w, s')" "state s' = state s"
  using assms by (auto simp: settled_def Session_processNext_def)

text \<open>
  What has to be shown of a request: the step on its line answers it, whatever the sessions of
  the server.
\<close>

definition answers :: "'v vec_ops \<Rightarrow> 'v server \<Rightarrow> nat \<Rightarrow> string \<Rightarrow> ('v server \<Rightarrow> bool) \<Rightarrow> bool" where
  "answers V w0 k line R \<longleftrightarrow>
     (\<forall>w s. same_world w0 w \<longrightarrow> viable (stream s) \<longrightarrow> socket (stream s) = k \<longrightarrow>
        state s = STATE_READING_HEADER \<longrightarrow> input s = [] \<longrightarrow> inputPos s = 0 \<longrightarrow> unread (stream s) = line \<longrightarrow>
        (\<exists>w' s'. continue_reading_header V (w, s) = Inr (w', s') \<and> settled (state s') \<and> mem w' \<and> R w'))"

lemma one_shot_carried:
  assumes "answers V w0 k line R" and "world_property R"
  shows "carried V (first_chunk line) (one_shot w0 k R)"
  unfolding carried_def
proof (intro conjI allI impI)
  fix b c w s
  assume inv: "one_shot w0 k R b (w, s)" and c: "c \<noteq> []" "length c \<le> BUFSIZ" "first_chunk line b c"
  let ?r = "stream_data c (rewind_stream s)"
  show "\<exists>w' s'. Session_processNext V (w, ?r) = Inr (w', s') \<and> one_shot w0 k R (b @ c) (w', s')"
  proof (cases "b = []")
    case True
    then have "c = line" "same_world w0 w" "fresh_session k s"
      using inv c(3) by (simp_all add: one_shot_def first_chunk_def)
    moreover from this have "Session_processNext V (w, ?r) = continue_reading_header V (w, ?r)"
      by (simp add: fresh_session_def Session_processNext_def)
    moreover have "\<exists>w' s'. continue_reading_header V (w, ?r) = Inr (w', s') \<and> settled (state s') \<and>
        mem w' \<and> R w'"
      using assms(1) calculation(1-3) unfolding answers_def fresh_session_def
      by (elim allE [of _ w] allE [of _ ?r]) simp
    ultimately show ?thesis using c(1) by (auto simp: one_shot_def)
  next
    case False
    then have s: "settled (state ?r)" "R w" "mem w" using inv by (simp_all add: one_shot_def)
    obtain s' where "Session_processNext V (w, ?r) = Inr (w, s')" "state s' = state ?r"
      using settled_step [OF s(1)] .
    with s c(1) show ?thesis by (auto simp: one_shot_def)
  qed
next
  fix b w w' s
  assume "one_shot w0 k R b (w, s)" "same_world w w'"
  then show "one_shot w0 k R b (w', s)"
    using assms(2) by (auto simp: one_shot_def world_property_def same_world_def)
qed (auto simp: one_shot_def fresh_session_def rewind_stream_def)

text \<open>
  A new connection whose first chunk is the line: while it stays open, and when it ends, the
  request has been answered once and the later bytes have been dropped.
\<close>

lemma one_shot_run:
  assumes "answers V w sock line R" and "world_property R" and "server_ok w" and "mem w"
    and "session_at (sock_key sock) w = None"
    and "line \<noteq> []" and "length line \<le> BUFSIZ" and "chunks_ok cs"
  shows "\<exists>w'. handle_readable V sock (map Data (line # cs)) w = Inr w' \<and> R w' \<and> others (sock_key sock) w w'"
proof -
  have "one_shot w sock R [] (w, session_for sock w)"
    using assms(4,5)
    by (simp add: one_shot_def session_for_def Session_create_def Stream_Reset_def fresh_session_def)
  moreover have "cut_ok (first_chunk line) [] (line # cs)"
  proof -
    have "b \<noteq> [] \<Longrightarrow> cut_ok (first_chunk line) b cs" for b
      using assms(8) by (induction cs arbitrary: b) (auto simp: chunks_ok_def first_chunk_def)
    with assms(6,7) show ?thesis by (simp add: first_chunk_def)
  qed
  ultimately obtain w' where "handle_readable V sock (map Data (line # cs)) w = Inr w'"
    "one_shot w sock R ([] @ concat (line # cs)) (w', session_for sock w')" "others (sock_key sock) w w'"
    by (rule handle_readable_open [OF one_shot_carried [OF assms(1,2)] assms(3)])
  with assms(6) show ?thesis by (auto simp: one_shot_def)
qed

section \<open>The request lines\<close>

lemma no_prefix: "input s = l @ r \<Longrightarrow> take (length cmd) (l @ r) \<noteq> cmd \<Longrightarrow> \<not> has_prefix s cmd"
  by (simp add: has_prefix_def)

text \<open>\<open>name_fits\<close>: a name that a single chunk can carry.\<close>

definition name_fits :: "string \<Rightarrow> bool" where
  "name_fits name \<longleftrightarrow> NUL \<notin> set name \<and> NL \<notin> set name \<and> length name + 8 \<le> BUFSIZ"

lemma header_start:
  assumes "viable (stream s)" and "state s = STATE_READING_HEADER" and "input s = []" and "inputPos s = 0"
    and "length (unread (stream s)) \<le> BUFSIZ"
  shows "fill_input (\<lambda>s. state s = STATE_READING_HEADER) s = Inr (header_read s)"
  using assms by (intro header_fill) simp_all

lemma header_get:
  assumes "viable (stream s)" and "state s = STATE_READING_HEADER" and "input s = []" and "inputPos s = 0"
    and "unread (stream s) = ''GET'' @ [SP] @ name @ [NL] @ d" and "length (unread (stream s)) \<le> BUFSIZ"
    and "name_fits name"
  shows "continue_reading_header V (w, s) = Inr (session_start_get (w, (header_read s)\<lparr>filename := name\<rparr>))"
proof -
  let ?s = "header_read s"
  have i: "input ?s = ''GET'' @ [SP] @ name @ [NL] @ d" using assms(3,5) by simp
  have "\<not> has_prefix ?s ''LIST''" unfolding has_prefix_def i by simp
  moreover have "TryParse ''GET'' True (w, ?s) = Inr (True, w, ?s\<lparr>filename := name\<rparr>)"
    using assms(7) i by (intro TryParse_name [where r = d]) (auto simp: name_fits_def)
  ultimately show ?thesis
    unfolding continue_reading_header_def using header_start [OF assms(1-4,6)] by (simp add: TryParse_no)
qed

lemma header_delete:
  assumes "viable (stream s)" and "state s = STATE_READING_HEADER" and "input s = []" and "inputPos s = 0"
    and "unread (stream s) = ''DELETE'' @ [SP] @ name @ [NL] @ d" and "length (unread (stream s)) \<le> BUFSIZ"
    and "name_fits name"
  shows "continue_reading_header V (w, s) = Inr (session_start_delete V (w, (header_read s)\<lparr>filename := name\<rparr>))"
proof -
  let ?s = "header_read s"
  have i: "input ?s = ''DELETE'' @ [SP] @ name @ [NL] @ d" using assms(3,5) by simp
  have "\<not> has_prefix ?s ''LIST''" "\<not> has_prefix ?s ''GET''" "\<not> has_prefix ?s ''PUT''"
    unfolding has_prefix_def i by simp_all
  moreover have "TryParse ''DELETE'' True (w, ?s) = Inr (True, w, ?s\<lparr>filename := name\<rparr>)"
    using assms(7) i by (intro TryParse_name [where r = d]) (auto simp: name_fits_def)
  ultimately show ?thesis
    unfolding continue_reading_header_def using header_start [OF assms(1-4,6)] by (simp add: TryParse_no)
qed

lemma header_list:
  assumes "viable (stream s)" and "state s = STATE_READING_HEADER" and "input s = []" and "inputPos s = 0"
    and "unread (stream s) = ''LIST'' @ [NL] @ d" and "length (unread (stream s)) \<le> BUFSIZ"
  shows "continue_reading_header V (w, s) = Inr (session_start_list V (w, header_read s))"
proof -
  let ?s = "header_read s"
  have i: "input ?s = ''LIST'' @ [NL] @ d" using assms(3,5) by simp
  have "TryParse ''LIST'' False (w, ?s) = Inr (True, w, ?s)"
    using assms(3,5) by (simp add: TryParse_def has_prefix_def input_at_def)
  then show ?thesis
    unfolding continue_reading_header_def using header_start [OF assms(1-4,6)] by simp
qed

section \<open>The answers\<close>

text \<open>GET sends the size and the bytes of the file and changes nothing else.\<close>

definition get_answer :: "string \<Rightarrow> nat \<Rightarrow> string \<Rightarrow> 'v server \<Rightarrow> 'v server \<Rightarrow> bool" where
  "get_answer name k bytes w w' \<longleftrightarrow>
     outs w' = (outs w)(k := outs w k @ ok_header (length bytes) @ bytes) \<and>
     names w' = names w \<and> content w' = content w \<and> directory w' = directory w"

lemma get_answers:
  assumes "live (sends w0)" and "mem w0" and "fopen_rb (fullpath w0 name) w0 = Some bytes" and "name \<noteq> []"
    and "name_fits name" and "line = ''GET'' @ [SP] @ name @ [NL] @ d" and "length line \<le> BUFSIZ"
  shows "answers V w0 k line (get_answer name k bytes w0)"
  unfolding answers_def
proof (intro allI impI)
  fix w and s :: Session
  assume same: "same_world w0 w" and s: "viable (stream s)" "socket (stream s) = k"
    "state s = STATE_READING_HEADER" "input s = []" "inputPos s = 0" "unread (stream s) = line"
  let ?s = "(header_read s)\<lparr>filename := name\<rparr>"
  let ?w1 = "send_all (ok_header (length bytes)) k w"
  let ?r = "get_loop bytes 0 (length bytes) k ?w1"
  have h: "continue_reading_header V (w, s) = Inr (session_start_get (w, ?s))"
    using s assms(5-7) by (intro header_get) simp_all
  have f: "fopen_rb (fullpath w name) w = Some bytes" "live (sends w)" "mem w"
    using same assms(1-3) by (simp_all add: same_world_def fullpath_def fopen_rb_def)
  then have g: "fst (session_start_get (w, ?s)) = snd ?r"
    "state (snd (session_start_get (w, ?s))) = STATE_SENDING_GET"
    using s(2) assms(4)
    by (simp_all add: session_start_get_def sending_get_response_def Let_def split_beta)
  have o: "outs (snd ?r) = (outs w)(k := outs w k @ ok_header (length bytes) @ bytes)"
  proof (cases "bytes = []")
    case True
    then show ?thesis using f(2) by (simp add: get_loop.simps)
  next
    case False
    then show ?thesis using get_loop_live [of ?w1 "length bytes" 0 bytes k] f(2) by simp
  qed
  have "get_answer name k bytes w0 (snd ?r)" "mem (snd ?r)"
    using get_loop_frame [of bytes 0 "length bytes" k ?w1] same f(3) o
    by (simp_all add: get_answer_def same_world_def)
  with h g show "\<exists>w' s'. continue_reading_header V (w, s) = Inr (w', s') \<and> settled (state s') \<and> mem w' \<and>
      get_answer name k bytes w0 w'"
    by (intro exI [of _ "snd ?r"] exI [of _ "snd (session_start_get (w, ?s))"])
      (simp add: settled_def prod_eq_iff)
qed

text \<open>LIST sends the length of the listing and the names, one a line, in the order of upload.\<close>

definition list_answer :: "'v vec_ops \<Rightarrow> nat \<Rightarrow> 'v server \<Rightarrow> 'v server \<Rightarrow> bool" where
  "list_answer V k w w' \<longleftrightarrow>
     (let data = concat (map (\<lambda>name. name @ [NL]) (vector_items V (directory w))) in
      outs w' = (outs w)(k := outs w k @ ok_header (length data) @ data)) \<and>
     names w' = names w \<and> content w' = content w \<and> directory w' = directory w"

lemma list_data_size:
  "sum_list (map (\<lambda>item. Suc (length item)) xs) = length (concat (map (\<lambda>item. item @ [NL]) xs))"
  by (induction xs) auto

lemma list_answers:
  assumes "live (sends w0)" and "mem w0" and "line = ''LIST'' @ [NL] @ d" and "length line \<le> BUFSIZ"
  shows "answers V w0 k line (list_answer V k w0)"
  unfolding answers_def
proof (intro allI impI)
  fix w and s :: Session
  assume same: "same_world w0 w" and s: "viable (stream s)" "socket (stream s) = k"
    "state s = STATE_READING_HEADER" "input s = []" "inputPos s = 0" "unread (stream s) = line"
  have h: "continue_reading_header V (w, s) = Inr (session_start_list V (w, header_read s))"
    using s assms(3,4) by (intro header_list) simp_all
  have f: "live (sends w)" "mem w" using same assms(1,2) by (simp_all add: same_world_def)
  let ?r = "session_start_list V (w, header_read s)"
  have "settled (state (snd ?r))" "mem (fst ?r)" "list_answer V k w0 (fst ?r)"
    using f s(2) same
    by (simp_all add: session_start_list_def settled_def list_answer_def list_data_size list_data_def
        Let_def same_world_def)
  with h show "\<exists>w' s'. continue_reading_header V (w, s) = Inr (w', s') \<and> settled (state s') \<and> mem w' \<and>
      list_answer V k w0 w'"
    by (metis prod.collapse)
qed

text \<open>
  DELETE of a listed name whose file exists removes both; a name that is not listed gets
  \<open>No such file\<close>, and nothing else changes.
\<close>

definition delete_answer :: "'v vec_ops \<Rightarrow> string \<Rightarrow> nat \<Rightarrow> 'v server \<Rightarrow> 'v server \<Rightarrow> bool" where
  "delete_answer V name k w w' \<longleftrightarrow>
     (let l = vector_items V (directory w); path = fullpath w name in
      outs w' = (outs w)(k := outs w k @
        (if name \<in> set l \<and> names w path \<noteq> None then ''OK'' @ [NL]
         else ''ERROR'' @ [NL] @ err_no_such_file @ [NL])) \<and>
      vector_items V (directory w') = remove1 name l \<and>
      names w' = (if name \<in> set l then (names w)(path := None) else names w)) \<and>
     content w' = content w"

lemma delete_answers:
  assumes "vec_laws V" and "live (sends w0)" and "mem w0" and "names w0 [] = None"
    and "name_fits name" and "line = ''DELETE'' @ [SP] @ name @ [NL] @ d" and "length line \<le> BUFSIZ"
  shows "answers V w0 k line (delete_answer V name k w0)"
  unfolding answers_def
proof (intro allI impI)
  fix w and s :: Session
  assume same: "same_world w0 w" and s: "viable (stream s)" "socket (stream s) = k"
    "state s = STATE_READING_HEADER" "input s = []" "inputPos s = 0" "unread (stream s) = line"
  let ?s = "(header_read s)\<lparr>filename := name\<rparr>"
  let ?r = "session_start_delete V (w, ?s)"
  have h: "continue_reading_header V (w, s) = Inr ?r"
    using s assms(5-7) by (intro header_delete) simp_all
  have f: "live (sends w)" "mem w" "names w [] = None" "directory w = directory w0" "names w = names w0"
    "content w = content w0" "outs w = outs w0" "fullpath w name = fullpath w0 name"
    using same assms(2-4) by (simp_all add: same_world_def fullpath_def)
  have "delete_answer V name k w0 (fst ?r) \<and> mem (fst ?r) \<and> settled (state (snd ?r))"
  proof (cases "directory_index V (directory w0) name")
    case None
    then have "name \<notin> set (vector_items V (directory w0))" by (simp add: directory_index_None)
    with None s(2) f show ?thesis
      by (simp add: session_start_delete_def delete_answer_def send_header_response_alt split_beta
          settled_def remove1_idem fun_upd_idem)
  next
    case (Some i)
    then have n: "name \<in> set (vector_items V (directory w0))"
      using directory_index_None by (metis option.distinct(1))
    show ?thesis
    proof (cases "names w0 (fullpath w0 name) = None")
      case True
      with Some n s(2) f assms(1) show ?thesis
        by (simp add: session_start_delete_def delete_answer_def send_header_response_alt split_beta
            settled_def vector_items_erase_found unlink_def)
    next
      case False
      with Some n s(2) f assms(1) show ?thesis
        by (auto simp add: session_start_delete_def delete_answer_def send_header_response_alt split_beta
            settled_def vector_items_erase_found unlink_def)
    qed
  qed
  with h show "\<exists>w' s'. continue_reading_header V (w, s) = Inr (w', s') \<and> settled (state s') \<and> mem w' \<and>
      delete_answer V name k w0 w'"
    by (metis prod.collapse)
qed

text \<open>
  A first chunk that has a verb but no end of line (or no space after the verb) is refused, even
  when the rest of the line is on its way; later bytes are dropped.
\<close>

definition refused :: "nat \<Rightarrow> 'v server \<Rightarrow> 'v server \<Rightarrow> bool" where
  "refused k w w' \<longleftrightarrow>
     outs w' = (outs w)(k := outs w k @ ''ERROR'' @ [NL] @ err_bad_request @ [NL]) \<and>
     names w' = names w \<and> content w' = content w \<and> directory w' = directory w"

lemma newline_index_None: "NL \<notin> set (input s) \<Longrightarrow> newline_index s = None"
proof -
  assume "NL \<notin> set (input s)"
  then have "\<forall>c \<in> set (cstr (input s)). c \<noteq> NL"
    unfolding cstr_def by (metis set_takeWhileD)
  then have "takeWhile (\<lambda>c. c \<noteq> NL) (cstr (input s)) = cstr (input s)"
    by (simp only: takeWhile_eq_all_conv)
  then show ?thesis unfolding newline_index_def Let_def by (simp only: less_irrefl if_False)
qed

lemma TryParse_unfinished:
  assumes "has_prefix s cmd" and "NL \<notin> set (input s)"
  shows "TryParse cmd h (w, s) = Inr (bad_request (w, s))"
proof -
  have "input_at s (length cmd) \<noteq> NL"
    using assms(2) by (auto simp: input_at_def in_set_conv_nth)
  with assms newline_index_None [OF assms(2)] show ?thesis by (simp add: TryParse_def Let_def)
qed

definition verbs :: "string list" where
  "verbs = [''LIST'', ''GET'', ''PUT'', ''DELETE'']"

lemma has_prefix_excl:
  "has_prefix s v \<Longrightarrow> v \<in> set verbs \<Longrightarrow> u \<in> set verbs \<Longrightarrow> u \<noteq> v \<Longrightarrow> \<not> has_prefix s u"
  by (auto simp: verbs_def has_prefix_def take_Cons' dest!: arg_cong [where f = hd] split: if_splits)

lemma unfinished_answers:
  assumes "live (sends w0)" and "mem w0" and "v \<in> set verbs" and "take (length v) line = v"
    and "NL \<notin> set line" and "length line \<le> BUFSIZ"
  shows "answers V w0 k line (refused k w0)"
  unfolding answers_def
proof (intro allI impI)
  fix w and s :: Session
  assume same: "same_world w0 w" and s: "viable (stream s)" "socket (stream s) = k"
    "state s = STATE_READING_HEADER" "input s = []" "inputPos s = 0" "unread (stream s) = line"
  let ?s = "header_read s"
  let ?r = "snd (bad_request (w, ?s))"
  have i: "input ?s = line" using s by simp
  have p: "has_prefix ?s v" unfolding has_prefix_def i by (rule assms(4))
  have n: "NL \<notin> set (input ?s)" unfolding i by (rule assms(5))
  have bad: "TryParse v h (w, ?s) = Inr (False, ?r)" for h
    using TryParse_unfinished [OF p n] by (simp add: bad_request_def)
  have st: "state (snd ?r) = STATE_DONE" "input (snd ?r) = line"
    using i by (simp_all add: bad_request_def send_header_response_alt)
  have other: "TryParse u h (w, ?s) = Inr (False, w, ?s)" if "u \<in> set verbs" "u \<noteq> v" for u h
    using TryParse_no [OF has_prefix_excl [OF p assms(3) that]] .
  have "has_prefix (snd ?r) x = has_prefix ?s x" for x
    unfolding has_prefix_def st(2) i ..
  then have after: "TryParse u h ?r = Inr (False, ?r)" if "u \<in> set verbs" "u \<noteq> v" for u h
    using TryParse_no has_prefix_excl [OF p assms(3) that] by (metis prod.collapse)
  have "continue_reading_header V (w, s) = Inr ?r"
    unfolding continue_reading_header_def
    using header_start [OF s(1,3,4,5)] s(6) assms(3,6) bad other after st(1)
    by (auto simp: verbs_def)
  moreover have "refused k w0 (fst ?r)" "mem (fst ?r)"
    using same assms(1,2) s(2)
    by (simp_all add: refused_def bad_request_def send_header_response_alt same_world_def)
  ultimately show "\<exists>w' s'. continue_reading_header V (w, s) = Inr (w', s') \<and> settled (state s') \<and> mem w' \<and>
      refused k w0 w'"
    using st(1) by (metis prod.collapse settled_def insertI1)
qed

end
