(* ===== verification/ServerSafety.thy ===== *)
theory ServerSafety
  imports ServerVerbs
begin

text \<open>
  What holds of every run of the server: the sessions stay well formed, so that no event makes
  the server dereference a null or dangling pointer or fail an assertion; the only fault left is
  the write past \<open>input\<close> that a very long file name makes possible. The sessions are isolated
  from each other, and the listing never has a name twice.
\<close>

section \<open>The cases of a request line\<close>

definition start_verb :: "'v vec_ops \<Rightarrow> string \<Rightarrow> 'v work \<Rightarrow> 'v work result" where
  "start_verb V v ws =
     (if v = ''LIST'' then Inr (session_start_list V ws)
      else if v = ''GET'' then Inr (session_start_get ws)
      else if v = ''PUT'' then session_start_put 3 ws
      else Inr (session_start_delete V ws))"

lemma TryParse_after_bad:
  assumes "has_prefix s v" and "v \<in> set verbs" and "u \<in> set verbs" and "u \<noteq> v"
  shows "TryParse u h (snd (bad_request (w, s))) = Inr (False, snd (bad_request (w, s)))"
proof -
  have "has_prefix (snd (snd (bad_request (w, s)))) u = has_prefix s u"
    by (simp add: bad_request_def send_header_response_alt has_prefix_def)
  with has_prefix_excl [OF assms] show ?thesis by (metis TryParse_no prod.collapse)
qed

text \<open>\<open>TryParse\<close> accepts the line, refuses it, or (for a name that does not fit) overflows.\<close>

lemma TryParse_cases:
  assumes "has_prefix s v" and "newline_index s = None \<or> the (newline_index s) - (length v + 1) < BUFSIZ"
  shows "TryParse v h (w, s) = Inr (bad_request (w, s)) \<or>
    (\<exists>nm. TryParse v h (w, s) = Inr (True, w, s\<lparr>filename := nm\<rparr>))"
proof -
  have "s\<lparr>filename := filename s\<rparr> = s" by simp
  then have "\<exists>nm. s = s\<lparr>filename := nm\<rparr>" by metis
  with assms show ?thesis by (auto simp: TryParse_def Let_def split: option.splits)
qed

lemma header_verb:
  assumes "fill_input (\<lambda>s. state s = STATE_READING_HEADER) s = Inr s1"
    and "has_prefix s1 v" and "v \<in> set verbs"
    and "newline_index s1 = None \<or> the (newline_index s1) - (length v + 1) < BUFSIZ"
  shows "continue_reading_header V (w, s) = Inr (send_header_response ''ERROR'' (Some err_bad_request) (w, s1)) \<or>
    (\<exists>nm. continue_reading_header V (w, s) = start_verb V v (w, s1\<lparr>filename := nm\<rparr>))"
proof -
  have no: "TryParse u h (w, s1) = Inr (False, w, s1)" if "u \<in> set verbs" "u \<noteq> v" for u h
    using TryParse_no [OF has_prefix_excl [OF assms(2,3) that]] .
  let ?r = "send_header_response ''ERROR'' (Some err_bad_request) (w, s1)"
  have r: "snd (bad_request (w, s1)) = ?r" "fst (bad_request (w, s1)) = False"
    "state (snd ?r) = STATE_DONE"
    by (simp_all add: bad_request_def send_header_response_alt)
  have after: "TryParse u h ?r = Inr (False, ?r)" if "u \<in> set verbs" "u \<noteq> v" for u h
    using TryParse_after_bad [OF assms(2,3) that, of h w] unfolding r(1) .
  define h where "h = (v \<noteq> ''LIST'')"
  from TryParse_cases [OF assms(2,4), of h w] show ?thesis
  proof
    assume b: "TryParse v h (w, s1) = Inr (bad_request (w, s1))"
    then have "TryParse v h (w, s1) = Inr (False, ?r)" by (simp add: bad_request_def)
    then have "continue_reading_header V (w, s) = Inr ?r"
      unfolding continue_reading_header_def
      using assms(1,3) no after r by (auto simp: verbs_def h_def)
    then show ?thesis ..
  next
    assume "\<exists>nm. TryParse v h (w, s1) = Inr (True, w, s1\<lparr>filename := nm\<rparr>)"
    then obtain nm where t: "TryParse v h (w, s1) = Inr (True, w, s1\<lparr>filename := nm\<rparr>)" ..
    define s2 where "s2 = s1\<lparr>filename := nm\<rparr>"
    note t = t [folded s2_def]
    have "v = ''LIST'' \<or> v = ''GET'' \<or> v = ''PUT'' \<or> v = ''DELETE''"
      using assms(3) by (simp add: verbs_def)
    then have "continue_reading_header V (w, s) = start_verb V v (w, s2)"
      unfolding continue_reading_header_def
      using assms(1) t no by (elim disjE) (simp_all add: verbs_def h_def start_verb_def)
    then have "continue_reading_header V (w, s) = start_verb V v (w, s1\<lparr>filename := nm\<rparr>)"
      unfolding s2_def .
    then show ?thesis by blast
  qed
qed

lemma header_no_verb:
  assumes "fill_input (\<lambda>s. state s = STATE_READING_HEADER) s = Inr s1"
    and "\<forall>v \<in> set verbs. \<not> has_prefix s1 v" and "state s1 = STATE_READING_HEADER"
  shows "continue_reading_header V (w, s) =
    Inr (if unknown_request s1 then send_header_response ''ERROR'' (Some err_bad_request) (w, s1) else (w, s1))"
  unfolding continue_reading_header_def using assms by (simp add: verbs_def TryParse_no)

section \<open>Well-formed sessions\<close>

text \<open>
  While the request line is incomplete, \<open>input\<close> is shorter than the verb its first character
  starts; while the size is incomplete, it lacks part of the eight bytes; an upload has a file.
\<close>

definition header_wf :: "Session \<Rightarrow> bool" where
  "header_wf s \<longleftrightarrow> inputPos s = length (input s) \<and>
     (input s = [] \<or> (\<exists>v \<in> set verbs. hd (input s) = hd v \<and> length (input s) < length v))"

definition session_wf :: "Session \<Rightarrow> bool" where
  "session_wf s \<longleftrightarrow> \<not> atEnd (stream s) \<and> \<not> inError (stream s) \<and>
     (state s = STATE_READING_HEADER \<longrightarrow> header_wf s) \<and>
     (state s = STATE_READING_PUT_SIZE \<longrightarrow> inputPos s = length (input s) \<and> inputPos s < headersize s + 8) \<and>
     (state s = STATE_READING_PUT_DATA \<longrightarrow> fd s \<noteq> None)"

lemma session_wf_create: "session_wf (Session_create k)"
  by (simp add: session_wf_def header_wf_def Session_create_def Stream_Reset_def)

lemma session_wf_rewind [simp]: "session_wf (rewind_stream s) = session_wf s"
  by (simp add: session_wf_def header_wf_def rewind_stream_def)

lemma session_wf_received [simp]: "session_wf (stream_data c (rewind_stream s)) = session_wf s"
proof -
  have "atEnd (stream (stream_data c (rewind_stream s))) = atEnd (stream s)"
    "inError (stream (stream_data c (rewind_stream s))) = inError (stream s)"
    by (simp_all add: stream_data_def rewind_stream_def)
  then show ?thesis by (simp add: session_wf_def header_wf_def)
qed

lemma session_wf_response: "session_wf s \<or> (\<not> atEnd (stream s) \<and> \<not> inError (stream s)) \<Longrightarrow>
    session_wf (snd (send_header_response c m (w, s)))"
  by (auto simp: session_wf_def send_header_response_alt)

text \<open>A line that starts with the verb \<open>v\<close> after a short beginning: the newline is within reach.\<close>

lemma header_wf_newline:
  assumes "header_wf s" and "length c \<le> BUFSIZ" and "input s1 = input s @ c" and "has_prefix s1 v"
    and "v \<in> set verbs"
  shows "newline_index s1 = None \<or> the (newline_index s1) - (length v + 1) < BUFSIZ"
proof -
  have "length (cstr (input s1)) \<le> length (input s1)"
    unfolding cstr_def by (rule length_takeWhile_le)
  then have n: "nl < length (input s1)" if "newline_index s1 = Some nl" for nl
    using that by (auto simp: newline_index_def Let_def split: if_splits)
  have "length (input s) < length v \<or> input s = []"
  proof (cases "input s = []")
    case False
    then obtain u where u: "u \<in> set verbs" "hd (input s) = hd u" "length (input s) < length u"
      using assms(1) by (auto simp: header_wf_def)
    have "hd v = hd (input s1)" using assms(4,5) by (auto simp: has_prefix_def verbs_def take_Cons' dest!: arg_cong [where f = hd] split: if_splits)
    also have "\<dots> = hd u" using False u(2) assms(3) by simp
    finally have "u = v" using u(1) assms(5) by (auto simp: verbs_def)
    with u(3) show ?thesis by simp
  qed simp
  then have "length (input s1) \<le> length v + BUFSIZ"
    using assms(2,3) by auto
  with n show ?thesis by (cases "newline_index s1") (fastforce simp: BUFSIZ_def)+
qed

section \<open>The steps keep sessions well formed\<close>

text \<open>
  The size stage of an upload, when the bytes fit: the session stays well formed. A verb other
  than PUT settles the session.
\<close>

lemma write_state [simp]:
  "atEnd (stream (snd (send_header_response c m (w, s)))) = atEnd (stream s)"
  "inError (stream (snd (send_header_response c m (w, s)))) = inError (stream s)"
  by (simp_all add: send_header_response_alt)

lemma put_size_wf:
  assumes "viable (stream s)" and "state s = STATE_READING_PUT_SIZE" and "inputPos s = length (input s)"
    and "length (input s) + length (unread (stream s)) \<le> 2 * BUFSIZ"
  shows "\<exists>w' s'. continue_reading_put (w, s) = Inr (w', s') \<and> session_wf s'"
proof -
  let ?s1 = "header_read s"
  have f: "fill_input (\<lambda>_. True) s = Inr ?s1"
    unfolding header_read_def using assms by (intro fill_input_all) simp_all
  have s1: "\<not> atEnd (stream ?s1)" "\<not> inError (stream ?s1)" using assms(1) by (simp_all add: viable_def)
  show ?thesis
  proof (cases "headersize s + 8 \<le> inputPos ?s1")
    case False
    then have "continue_reading_put (w, s) = Inr (w, ?s1)"
      using f assms(2) by (simp add: continue_reading_put_def)
    moreover have "session_wf ?s1" using False s1 assms(2,3) by (simp add: session_wf_def)
    ultimately show ?thesis by blast
  next
    case True
    then show ?thesis
      using f assms(2) s1
      by (auto simp: continue_reading_put_def Let_def split_beta session_wf_def
          send_header_response_alt split: option.splits)
  qed
qed

lemma put_data_wf:
  assumes "session_wf s" and "state s = STATE_READING_PUT_DATA"
  shows "\<exists>w' s'. continue_reading_put (w, s) = Inr (w', s') \<and> session_wf s'"
  using assms
  by (auto simp: continue_reading_put_def session_wf_def Let_def split_beta split: option.splits)

lemma start_verb_wf:
  assumes "v \<in> set verbs" and "viable (stream s)" and "unread (stream s) = []"
    and "inputPos s = length (input s)" and "length (input s) \<le> 2 * BUFSIZ"
  shows "\<exists>w' s'. start_verb V v (w, s) = Inr (w', s') \<and> session_wf s'"
proof (cases "v = ''PUT''")
  case True
  then show ?thesis
    using assms unfolding start_verb_def session_start_put_def by (auto intro!: put_size_wf)
next
  case False
  have f: "\<not> atEnd (stream s)" "\<not> inError (stream s)" using assms(2) by (simp_all add: viable_def)
  have "session_wf (snd (session_start_list V (w, s)))" "session_wf (snd (session_start_get (w, s)))"
    "session_wf (snd (session_start_delete V (w, s)))"
    using f by (auto simp: session_wf_def session_start_list_def session_start_get_def
        session_start_delete_def sending_get_response_def send_header_response_alt Let_def split_beta
        split: option.split)
  with False show ?thesis unfolding start_verb_def by (metis prod.collapse)
qed

text \<open>A line that is neither a verb nor unknown is still a proper beginning of a verb.\<close>

lemma undecided_wf:
  assumes "\<not> unknown_request s" and "\<forall>v \<in> set verbs. \<not> has_prefix s v" and "inputPos s = length (input s)"
  shows "header_wf s"
proof -
  have l: "length (input s) < length v" if "v \<in> set verbs" "input_at s 0 = hd v" for v
    using that assms by (auto simp: unknown_request_def verbs_def split: if_splits)
  have "input_at s 0 \<in> hd ` set verbs"
    using assms(1) by (auto simp: unknown_request_def verbs_def split: if_splits)
  then obtain v where "v \<in> set verbs" "input_at s 0 = hd v" by auto
  with l [OF this] show ?thesis
    using assms(3) by (cases "input s") (auto simp: header_wf_def input_at_def)
qed

lemma header_step_wf:
  assumes "viable (stream s)" and "state s = STATE_READING_HEADER" and "header_wf s"
    and "length (unread (stream s)) \<le> BUFSIZ"
  shows "\<exists>w' s'. continue_reading_header V (w, s) = Inr (w', s') \<and> session_wf s'"
proof -
  let ?s1 = "header_read s"
  have "length (input s) \<le> 6" using assms(3) by (auto simp: header_wf_def verbs_def)
  then have b: "inputPos s + length (unread (stream s)) \<le> 2 * BUFSIZ" "length (input ?s1) \<le> 2 * BUFSIZ"
    "inputPos ?s1 = length (input ?s1)"
    using assms(3,4) by (auto simp: header_wf_def BUFSIZ_def)
  note f = header_fill [OF assms(1,2) b(1)]
  have fl: "\<not> atEnd (stream ?s1)" "\<not> inError (stream ?s1)" using assms(1) by (simp_all add: viable_def)
  let ?r = "send_header_response ''ERROR'' (Some err_bad_request) (w, ?s1)"
  have r: "session_wf (snd ?r)" using fl by (intro session_wf_response) simp
  show ?thesis
  proof (cases "\<exists>v \<in> set verbs. has_prefix ?s1 v")
    case True
    then obtain v where v: "v \<in> set verbs" "has_prefix ?s1 v" by blast
    have n: "newline_index ?s1 = None \<or> the (newline_index ?s1) - (length v + 1) < BUFSIZ"
      by (rule header_wf_newline [OF assms(3,4) _ v(2,1)]) simp
    from header_verb [OF f v(2,1) n, of V w] show ?thesis
    proof
      assume "continue_reading_header V (w, s) = Inr ?r"
      with r show ?thesis by (metis prod.collapse)
    next
      assume "\<exists>nm. continue_reading_header V (w, s) = start_verb V v (w, ?s1\<lparr>filename := nm\<rparr>)"
      then obtain nm where "continue_reading_header V (w, s) = start_verb V v (w, ?s1\<lparr>filename := nm\<rparr>)" ..
      moreover have "\<exists>w' s'. start_verb V v (w, ?s1\<lparr>filename := nm\<rparr>) = Inr (w', s') \<and> session_wf s'"
        using v(1) assms(1) b by (intro start_verb_wf) simp_all
      ultimately show ?thesis by simp
    qed
  next
    case False
    then have no: "\<forall>v \<in> set verbs. \<not> has_prefix ?s1 v" by blast
    have e: "continue_reading_header V (w, s) = Inr (if unknown_request ?s1 then ?r else (w, ?s1))"
      by (rule header_no_verb [OF f no]) (simp add: assms(2))
    show ?thesis
    proof (cases "unknown_request ?s1")
      case True
      then have "continue_reading_header V (w, s) = Inr (fst ?r, snd ?r)" using e by simp
      with r show ?thesis by blast
    next
      case False
      then have "header_wf ?s1" using undecided_wf no b(3) by blast
      then have "session_wf ?s1" using fl assms(2) by (simp add: session_wf_def)
      with False e show ?thesis by auto
    qed
  qed
qed

text \<open>
  One chunk: no fault, unless the size of an upload is still incomplete after a request line so
  long that the chunk no longer fits \<open>input\<close>.
\<close>

definition chunk_fits :: "string \<Rightarrow> Session \<Rightarrow> bool" where
  "chunk_fits c s \<longleftrightarrow> state s = STATE_READING_PUT_SIZE \<longrightarrow> length (input s) + length c \<le> 2 * BUFSIZ"

lemma processNext_wf:
  assumes "session_wf s" and "length c \<le> BUFSIZ" and "chunk_fits c s"
  shows "\<exists>w' s'. Session_processNext V (w, stream_data c (rewind_stream s)) = Inr (w', s') \<and> session_wf s'"
proof -
  let ?r = "stream_data c (rewind_stream s)"
  have v: "viable (stream ?r)" using assms(1) by (simp add: session_wf_def)
  have wf: "session_wf ?r" using assms(1) by simp
  show ?thesis
  proof (cases "state s")
    case STATE_READING_HEADER
    then have "header_wf ?r" using wf by (simp add: session_wf_def)
    with STATE_READING_HEADER v assms(2) header_step_wf [of ?r V w] show ?thesis
      by (simp add: Session_processNext_def)
  next
    case STATE_READING_PUT_SIZE
    then have "inputPos ?r = length (input ?r)" using wf by (simp add: session_wf_def)
    with STATE_READING_PUT_SIZE v assms(3) put_size_wf [of ?r w] show ?thesis
      by (simp add: Session_processNext_def chunk_fits_def)
  next
    case STATE_READING_PUT_DATA
    with put_data_wf [OF wf] show ?thesis by (simp add: Session_processNext_def)
  qed (use wf in \<open>simp_all add: Session_processNext_def session_wf_def\<close>)
qed

lemma fill_input_too_long:
  assumes "viable (stream s)" and "\<forall>x. state x = state s \<longrightarrow> g x"
    and "2 * BUFSIZ < inputPos s + length (unread (stream s))" and "unread (stream s) \<noteq> []"
  shows "fill_input g s = Inl OutOfBounds"
proof (cases "inputPos s \<le> 2 * BUFSIZ")
  case True
  with assms show ?thesis by (intro fill_input_overflow)
next
  case False
  with assms show ?thesis
    by (simp add: fill_input.simps [of g s] Stream_GetNext_unread store_input_def split: list.split)
qed

text \<open>Without that condition the only fault is the write past the array.\<close>

lemma processNext_fault:
  assumes "session_wf s" and "length c \<le> BUFSIZ" and "c \<noteq> []"
    and "Session_processNext V (w, stream_data c (rewind_stream s)) = Inl e"
  shows "e = OutOfBounds"
proof -
  let ?r = "stream_data c (rewind_stream s)"
  have "\<not> chunk_fits c s" using processNext_wf [OF assms(1,2), of V w] assms(4) by auto
  then have st: "state s = STATE_READING_PUT_SIZE" and l: "2 * BUFSIZ < length (input s) + length c"
    by (auto simp: chunk_fits_def)
  have i: "inputPos s = length (input s)" using assms(1) st by (simp add: session_wf_def)
  have "fill_input (\<lambda>_. True) ?r = Inl OutOfBounds"
    using assms(1,3) i l by (intro fill_input_too_long) (auto simp: session_wf_def)
  with assms(4) st show ?thesis by (simp add: Session_processNext_def continue_reading_put_def)
qed

lemma processNext_keeps_wf:
  assumes "session_wf s" and "length c \<le> BUFSIZ" and "c \<noteq> []"
    and "Session_processNext V (w, stream_data c (rewind_stream s)) = Inr (w', s')"
  shows "session_wf s'"
proof (cases "chunk_fits c s")
  case True
  with processNext_wf [OF assms(1,2) True, of V w] assms(4) show ?thesis by auto
next
  case False
  let ?r = "stream_data c (rewind_stream s)"
  from False have st: "state s = STATE_READING_PUT_SIZE" and l: "2 * BUFSIZ < length (input s) + length c"
    by (auto simp: chunk_fits_def)
  have i: "inputPos s = length (input s)" using assms(1) st by (simp add: session_wf_def)
  have "fill_input (\<lambda>_. True) ?r \<noteq> Inr x" for x
    using fill_input_too_long [of ?r "\<lambda>_. True"] assms(1,3) i l by (auto simp: session_wf_def)
  with assms(4) st show ?thesis
    by (auto simp: Session_processNext_def continue_reading_put_def rbind_eq_Inr)
qed

section \<open>Runs of the server\<close>

definition server_wf :: "'v server \<Rightarrow> bool" where
  "server_wf w \<longleftrightarrow> server_ok w \<and> mem w \<and> (\<forall>k s. session_at k w = Some s \<longrightarrow> session_wf s)"

text \<open>
  What an event on one socket keeps: the server is well formed, and every other connection has
  its session and has been sent what it had been sent.
\<close>

definition isolated :: "nat \<Rightarrow> 'v server \<Rightarrow> 'v server \<Rightarrow> bool" where
  "isolated sock w w' \<longleftrightarrow> server_wf w' \<and>
     (\<forall>j. sock_key j \<noteq> sock_key sock \<longrightarrow>
        session_at (sock_key j) w' = session_at (sock_key j) w \<and> outs w' j = outs w j)"

lemma isolated_trans [trans]: "isolated k a b \<Longrightarrow> isolated k b c \<Longrightarrow> isolated k a c"
  by (simp add: isolated_def)

lemma isolated_refl: "server_wf w \<Longrightarrow> isolated k w w"
  by (simp add: isolated_def)

lemma isolated_enter:
  assumes "server_wf w" and "same_world w w1" and "others (sock_key sock) w w1"
    and "entered sock p s w1" and "session_wf s"
  shows "isolated sock w w1"
proof -
  have "session_wf t" if "session_at k w1 = Some t" for k t
  proof (cases "k = sock_key sock")
    case True
    with that assms(4,5) show ?thesis by (simp add: entered_def)
  next
    case False
    with that assms(1,3) show ?thesis by (auto simp: others_def server_wf_def)
  qed
  then show ?thesis
    using assms by (simp add: isolated_def server_wf_def others_def same_world_def)
qed

text \<open>A step of the session that the server has entered.\<close>

lemma isolated_step:
  assumes "server_wf w" and "entered sock p s w" and "step_frame (w, s) (w', s')" and "session_wf s'"
  shows "isolated sock w (w'\<lparr>sessions := (sessions w')(p \<mapsto> s')\<rparr>)"
    and "entered sock p s' (w'\<lparr>sessions := (sessions w')(p \<mapsto> s')\<rparr>)"
proof -
  let ?w = "w'\<lparr>sessions := (sessions w')(p \<mapsto> s')\<rparr>"
  have f: "frame (socket (stream s)) w w'" "socket (stream s') = socket (stream s)"
    using assms(3) by (simp_all add: step_frame_def)
  note u = entered_upd [OF assms(2) f]
  have "session_wf t" if "session_at k ?w = Some t" for k t
  proof (cases "k = sock_key sock")
    case True
    with that u(1) assms(4) show ?thesis unfolding entered_def by simp
  next
    case False
    with that u(2) assms(1) show ?thesis unfolding others_def server_wf_def by simp
  qed
  moreover have "outs ?w j = outs w j" if "sock_key j \<noteq> sock_key sock" for j
  proof -
    have "j \<noteq> socket (stream s)" using that assms(2) by (auto simp: entered_def)
    with f(1) show ?thesis by (simp add: frame_def)
  qed
  moreover have "mem ?w" using f(1) assms(1) by (simp add: frame_def server_wf_def)
  ultimately show "isolated sock w ?w"
    using u(2) unfolding isolated_def others_def server_wf_def by blast
  show "entered sock p s' ?w" by (rule u(1))
qed

lemma session_wf_for: "server_wf w \<Longrightarrow> session_wf (session_for sock w)"
  by (simp add: server_wf_def session_for_def session_wf_create split: option.split)

lemma read_loop_wf:
  assumes "server_wf w"
  shows "case read_loop V sock rs w of
      Inl e \<Rightarrow> e = OutOfBounds
    | Inr (w', p, d) \<Rightarrow> isolated sock w w' \<and> (\<exists>s. entered sock p s w' \<and> session_wf s)"
  using assms
proof (induction rs arbitrary: w)
  case Nil
  obtain w1 p where 1: "same_world w w1" "others (sock_key sock) w w1"
    "entered sock p (rewind_stream (session_for sock w)) w1"
    "\<forall>rs. read_loop V sock rs w = one_pass V sock p rs w1"
    using read_loop_head [of w sock V] Nil by (auto simp: server_wf_def)
  with isolated_enter [OF Nil 1(1-3)] session_wf_for [OF Nil] show ?case
    by (auto simp: one_pass_def)
next
  case (Cons r rs)
  let ?s = "rewind_stream (session_for sock w)"
  obtain w1 p where 1: "same_world w w1" "others (sock_key sock) w w1" "entered sock p ?s w1"
    "\<forall>rs. read_loop V sock rs w = one_pass V sock p rs w1"
    using read_loop_head [of w sock V] Cons.prems by (auto simp: server_wf_def)
  have i1: "isolated sock w w1" using isolated_enter [OF Cons.prems 1(1-3)] session_wf_for [OF Cons.prems] by simp
  have stop: ?case if "one_pass V sock p (r # rs) w1 = Inr (w1, p, d)" for d
    using that 1(3,4) i1 session_wf_for [OF Cons.prems] by auto
  show ?case
  proof (cases "\<exists>bs. r = Data bs \<and> bs \<noteq> []")
    case False
    then have "\<exists>d. one_pass V sock p (r # rs) w1 = Inr (w1, p, d)"
      by (cases r) (auto simp: one_pass_def)
    with stop show ?thesis by blast
  next
    case True
    then obtain bs where r: "r = Data bs" "bs \<noteq> []" by blast
    let ?r = "stream_data (take BUFSIZ bs) ?s"
    have e: "read_loop V sock (r # rs) w = rbind (Session_processNext V (w1, ?r))
        (\<lambda>(w', s'). read_loop V sock rs (w'\<lparr>sessions := (sessions w')(p \<mapsto> s')\<rparr>))"
      using r by (cases "Session_processNext V (w1, ?r)")
        (auto simp: 1(4)[rule_format] one_pass_def with_session_entered [OF 1(3)])
    have wf: "session_wf (session_for sock w)" by (rule session_wf_for [OF Cons.prems])
    show ?thesis
    proof (cases "Session_processNext V (w1, ?r)")
      case (Inl e')
      have "e' = OutOfBounds" by (rule processNext_fault [OF wf _ _ Inl]) (use r(2) in \<open>simp_all add: BUFSIZ_def\<close>)
      with Inl e show ?thesis by simp
    next
      case (Inr x)
      obtain w2 s2 where x: "x = (w2, s2)" by (cases x)
      have s2: "session_wf s2" by (rule processNext_keeps_wf [OF wf _ _ Inr [unfolded x]]) (use r(2) in \<open>simp_all add: BUFSIZ_def\<close>)
      have "step_frame (w1, ?s) (w2, s2)"
        using processNext_frame [OF Inr [unfolded x]] by (simp add: step_frame_def)
      note st = isolated_step [OF _ 1(3) this s2]
      let ?w = "w2\<lparr>sessions := (sessions w2)(p \<mapsto> s2)\<rparr>"
      have i2: "isolated sock w1 ?w" using st(1) i1 by (simp add: isolated_def)
      then have "server_wf ?w" by (simp add: isolated_def)
      from Cons.IH [OF this] e Inr x isolated_trans [OF isolated_trans [OF i1 i2]] show ?thesis
        by (auto split: sum.splits prod.splits)
    qed
  qed
qed

lemma finish_wf:
  assumes "session_wf s"
  shows "\<exists>w' s'. finish V (w, s) = Inr (w', s') \<and> session_wf s'"
proof -
  have "\<exists>w' s'. sending_put_response V c m (w, s) = Inr (w', s') \<and> session_wf s'" if "fd s \<noteq> None" for c m
    using that assms
    by (auto simp: sending_put_response_def Let_def split_beta session_wf_def send_header_response_alt)
  then show ?thesis
    using assms
    by (auto simp: finish_def finish_size_def finish_upload_def session_wf_def send_header_response_alt)
qed

lemma handle_readable_wf:
  assumes "server_wf w"
  shows "case handle_readable V sock rs w of Inl e \<Rightarrow> e = OutOfBounds | Inr w' \<Rightarrow> isolated sock w w'"
proof (cases "read_loop V sock rs w")
  case (Inl e)
  with read_loop_wf [where V = V and sock = sock and rs = rs, OF assms] show ?thesis by (simp add: handle_readable_def)
next
  case (Inr x)
  obtain w1 p d where x: "x = (w1, p, d)" by (cases x)
  with read_loop_wf [where V = V and sock = sock and rs = rs, OF assms] Inr obtain s where
    1: "isolated sock w w1" "entered sock p s w1" "session_wf s" by auto
  show ?thesis
  proof (cases d)
    case False
    with Inr x 1 show ?thesis by (simp add: handle_readable_def)
  next
    case True
    obtain w2 s2 where f: "finish V (w1, s) = Inr (w2, s2)" "session_wf s2"
      using finish_wf [OF 1(3)] by blast
    let ?w3 = "w2\<lparr>sessions := (sessions w2)(p \<mapsto> s2)\<rparr>"
    have i: "isolated sock w1 ?w3" "entered sock p s2 ?w3"
      using isolated_step [OF _ 1(2) finish_frame [OF f(1)] f(2)] 1(1) by (simp_all add: isolated_def)
    have t: "server_ok ?w3" "table_map (sock_to_session_hashtable ?w3) (sock_key sock) = Some p"
      using i(2) by (simp_all add: entered_def)
    let ?w4 = "?w3\<lparr>watched := removeAll sock (watched ?w3),
      sock_to_session_hashtable := table_remove (sock_to_session_hashtable ?w3) (sock_key sock),
      sessions := (sessions ?w3)(p := None)\<rparr>"
    note e = server_ok_end [OF t refl]
    have "isolated sock ?w3 ?w4"
      using i(1) e by (auto simp: isolated_def server_wf_def split: if_splits)
    moreover have "handle_readable V sock rs w = Inr ?w4"
      using Inr x True f(1) [unfolded finish_def] end_session_run [OF t]
      by (simp add: handle_readable_def with_session_entered [OF 1(2)])
    ultimately show ?thesis using isolated_trans [OF isolated_trans [OF 1(1) i(1)]] by simp
  qed
qed

text \<open>The sockets an event is about.\<close>

fun event_sock :: "event \<Rightarrow> nat option" where
  "event_sock (Readable sock rs) = Some sock"
| "event_sock _ = None"

lemma isolated_watched: "server_wf w \<Longrightarrow> isolated j w (w\<lparr>watched := x\<rparr>)"
proof -
  assume wf: "server_wf w"
  have "session_at k (w\<lparr>watched := x\<rparr>) = session_at k w" for k
    by (simp add: session_at_def split: option.split)
  with wf show ?thesis by (simp add: isolated_def server_wf_def server_ok_def)
qed

lemma accept_loop_wf:
  "server_wf w \<Longrightarrow> (case accept_loop cs w of Inl e \<Rightarrow> e = Exit 1 | Inr w' \<Rightarrow> \<forall>k. isolated k w w')"
proof (induction cs w rule: accept_loop.induct)
  case (2 k ok cs w)
  have i: "isolated j w (w\<lparr>watched := k # watched w\<rparr>)" for j
    using "2.prems" by (rule isolated_watched)
  then have "server_wf (w\<lparr>watched := k # watched w\<rparr>)" by (simp add: isolated_def)
  from "2.IH" [OF _ this] isolated_trans [OF i] show ?case by (auto split: sum.splits)
qed (simp add: isolated_refl)

lemma handle_event_wf:
  assumes "server_wf w"
  shows "case handle_event V ev w of Inl e \<Rightarrow> e \<in> {OutOfBounds, Exit 1}
    | Inr w' \<Rightarrow> (\<forall>k. event_sock ev \<in> {None, Some k} \<longrightarrow> isolated k w w')"
proof (cases ev)
  case (Hangup k)
  with isolated_watched [OF assms] show ?thesis by simp
next
  case (Incoming cs)
  with accept_loop_wf [where cs = cs, OF assms] show ?thesis by (auto split: sum.splits)
next
  case (Readable sock rs)
  with handle_readable_wf [where V = V and sock = sock and rs = rs, OF assms] show ?thesis by (auto split: sum.splits)
next
  case (Writable k)
  with assms show ?thesis by (simp add: isolated_refl)
qed

lemma event_loop_wf:
  assumes "server_wf w" and "\<forall>ev \<in> set evs. \<forall>k. event_sock ev = Some k \<longrightarrow> sock_key k \<noteq> sock_key j"
  shows "case event_loop V evs w of Inl e \<Rightarrow> e \<in> {OutOfBounds, Exit 1}
    | Inr w' \<Rightarrow> server_wf w' \<and> session_at (sock_key j) w' = session_at (sock_key j) w \<and> outs w' j = outs w j"
  using assms
proof (induction evs arbitrary: w)
  case Nil
  then show ?case by (simp add: event_loop_def)
next
  case (Cons ev evs)
  define k where "k = (case event_sock ev of None \<Rightarrow> Suc j | Some k \<Rightarrow> k)"
  have k: "event_sock ev \<in> {None, Some k}" by (simp add: k_def split: option.split)
  have kj: "sock_key j \<noteq> sock_key k"
  proof (cases "event_sock ev")
    case None
    then show ?thesis by (simp add: k_def sock_key_def)
  next
    case (Some i)
    with Cons.prems(2) have "sock_key i \<noteq> sock_key j" by simp
    with Some show ?thesis by (simp add: k_def)
  qed
  show ?case
  proof (cases "handle_event V ev w")
    case (Inl e)
    with handle_event_wf [where V = V and ev = ev, OF Cons.prems(1)] show ?thesis by (simp add: event_loop_def)
  next
    case (Inr w1)
    with handle_event_wf [where V = V and ev = ev, OF Cons.prems(1)] have i: "\<forall>k. event_sock ev \<in> {None, Some k} \<longrightarrow> isolated k w w1"
      by simp
    have j: "session_at (sock_key j) w1 = session_at (sock_key j) w \<and> outs w1 j = outs w j" "server_wf w1"
      using i k kj by (auto simp: isolated_def)
    from Cons.IH [OF j(2)] Cons.prems(2) j(1) Inr show ?thesis
      by (auto simp: event_loop_def split: sum.splits)
  qed
qed

lemma event_loop_faults:
  "server_wf w \<Longrightarrow> event_loop V evs w = Inl e \<Longrightarrow> e \<in> {OutOfBounds, Exit 1}"
proof (induction evs arbitrary: w)
  case (Cons ev evs)
  show ?case
  proof (cases "handle_event V ev w")
    case (Inl x)
    with handle_event_wf [where V = V and ev = ev, OF Cons.prems(1)] Cons.prems(2) show ?thesis
      by (simp add: event_loop_def)
  next
    case (Inr w1)
    have "\<exists>k. event_sock ev \<in> {None, Some k}" by (cases "event_sock ev") auto
    with handle_event_wf [where V = V and ev = ev, OF Cons.prems(1)] Inr have "server_wf w1"
      by (auto simp: isolated_def)
    with Cons.IH [of w1] Cons.prems(2) Inr show ?thesis by (simp add: event_loop_def)
  qed
qed (simp add: event_loop_def)

end
