(* ===== verification/ServerFiles.thy ===== *)
theory ServerFiles
  imports ServerSafety
begin

text \<open>
  Invariants of the world of the server rather than of its sessions: a rule that lifts a property
  kept by the handlers to whole runs, and the two properties that matter: the listing has no
  name twice, and no two paths share a file.
\<close>

section \<open>Invariants of the world\<close>

text \<open>A property of the world does not read the sessions or the registered sockets.\<close>

definition of_world :: "('v server \<Rightarrow> bool) \<Rightarrow> bool" where
  "of_world I \<longleftrightarrow> (\<forall>w w' x. I w \<longrightarrow> same_world (w\<lparr>watched := x\<rparr>) w' \<longrightarrow> I w')"

lemma of_worldD: "of_world I \<Longrightarrow> I w \<Longrightarrow> same_world (w\<lparr>watched := x\<rparr>) w' \<Longrightarrow> I w'"
  unfolding of_world_def by blast

lemma same_world_watched: "same_world w w' \<Longrightarrow> same_world (w\<lparr>watched := watched w\<rparr>) w'"
  by simp

lemma of_world_same: "of_world I \<Longrightarrow> I w \<Longrightarrow> same_world w w' \<Longrightarrow> I w'"
  by (rule of_worldD [OF _ _ same_world_watched])

lemma find_session_same: "find_session sock w = Inr (w', p) \<Longrightarrow> same_world w w'"
  by (auto simp: find_session_def alloc_session_def rbind_eq_Inr same_world_def free_sessions_def Let_def
      split: if_splits)

lemma with_session_inv:
  assumes "with_session p f w = Inr w'" and "of_world I" and "I w"
    and "\<And>s w1 s1. f (w, s) = Inr (w1, s1) \<Longrightarrow> I w1"
  shows "I w'"
proof -
  from assms(1) obtain s w1 s1 where "f (w, s) = Inr (w1, s1)" "w' = w1\<lparr>sessions := (sessions w1)(p \<mapsto> s1)\<rparr>"
    by (auto simp: with_session_def rbind_eq_Inr split: if_splits option.splits)
  moreover from this(1) have "I w1" by (rule assms(4))
  ultimately show ?thesis using of_world_same [OF assms(2) _ same_world_sessions] by simp
qed

lemma end_session_inv:
  assumes "end_session sock w = Inr w'" and "of_world I" and "I w"
  shows "I w'"
proof -
  from assms(1) have "same_world (w\<lparr>watched := removeAll sock (watched w)\<rparr>) w'"
    by (auto simp: end_session_def rbind_eq_Inr free_sessions_def same_world_def Let_def)
  with assms(2,3) show ?thesis by (rule of_worldD)
qed

text \<open>The rule: what the handlers of a session keep, every event keeps.\<close>

definition kept :: "'v vec_ops \<Rightarrow> ('v server \<Rightarrow> bool) \<Rightarrow> bool" where
  "kept V I \<longleftrightarrow> of_world I \<and>
     (\<forall>w s w' s'. I w \<longrightarrow> Session_processNext V (w, s) = Inr (w', s') \<longrightarrow> I w') \<and>
     (\<forall>w s w' s'. I w \<longrightarrow> finish V (w, s) = Inr (w', s') \<longrightarrow> I w')"

lemma keptD:
  assumes "kept V I"
  shows "of_world I"
    and "I w \<Longrightarrow> Session_processNext V (w, s) = Inr (w', s') \<Longrightarrow> I w'"
    and "I w \<Longrightarrow> finish V (w, s) = Inr (w', s') \<Longrightarrow> I w'"
  using assms unfolding kept_def by blast+

lemma read_loop_pass:
  assumes "of_world I" and "I w" and "read_loop V sock rs w = Inr r"
  obtains w1 q where "I w1" "one_pass V sock q rs w1 = Inr r"
proof -
  from assms(3) obtain w0 q w1 where w: "find_session sock w = Inr (w0, q)"
    "with_session q (\<lambda>(w, s). Inr (w, rewind_stream s)) w0 = Inr w1" "one_pass V sock q rs w1 = Inr r"
    by (subst (asm) read_loop.simps) (auto simp: rbind_eq_Inr one_pass_def)
  have 0: "I w0" using of_world_same [OF assms(1,2) find_session_same [OF w(1)]] .
  have "I w1" by (rule with_session_inv [OF w(2) assms(1) 0]) (use 0 in auto)
  then show ?thesis using w(3) by (rule that)
qed

lemma read_loop_inv:
  assumes "kept V I" and "I w" and "read_loop V sock rs w = Inr (w', p, d)"
  shows "I w'"
  using assms(2,3)
proof (induction rs arbitrary: w)
  case Nil
  obtain w1 q where "I w1" "one_pass V sock q [] w1 = Inr (w', p, d)"
    using read_loop_pass [OF keptD(1) [OF assms(1)] Nil] .
  then show ?case by (simp add: one_pass_def)
next
  case (Cons r rs)
  obtain w1 q where w1: "I w1" "one_pass V sock q (r # rs) w1 = Inr (w', p, d)"
    using read_loop_pass [OF keptD(1) [OF assms(1)] Cons.prems] .
  show ?case
  proof (cases "\<exists>bs. r = Data bs \<and> bs \<noteq> []")
    case False
    with w1 show ?thesis by (auto simp: one_pass_def split: recv_res.splits if_splits)
  next
    case True
    then obtain bs where r: "r = Data bs" "bs \<noteq> []" by blast
    with w1(2) obtain w2 where w2: "with_session q (\<lambda>(w, s).
          Session_processNext V (w, stream_data (take BUFSIZ bs) s)) w1 = Inr w2"
      "read_loop V sock rs w2 = Inr (w', p, d)"
      by (auto simp: one_pass_def rbind_eq_Inr)
    have "I w2"
      by (rule with_session_inv [OF w2(1) keptD(1) [OF assms(1)] w1(1)])
        (simp, rule keptD(2) [OF assms(1) w1(1)])
    from Cons.IH [OF this w2(2)] show ?thesis .
  qed
qed

lemma handle_readable_finish:
  "handle_readable V sock rs w = rbind (read_loop V sock rs w) (\<lambda>(w, p, d).
     if \<not> d then Inr w else rbind (with_session p (finish V) w) (end_session sock))"
  unfolding handle_readable_def finish_def by (rule refl)

lemma handle_event_inv:
  assumes "kept V I" and "I w" and "handle_event V ev w = Inr w'"
  shows "I w'"
proof (cases ev)
  case (Hangup k)
  with assms show ?thesis
    by (auto intro: of_worldD [OF keptD(1) [OF assms(1)] assms(2), of "removeAll k (watched w)"])
next
  case (Incoming cs)
  have "accept_loop cs w = Inr w' \<Longrightarrow> I w \<Longrightarrow> I w'" for w
  proof (induction cs w rule: accept_loop.induct)
    case (2 k ok cs w)
    have "I (w\<lparr>watched := k # watched w\<rparr>)"
      by (rule of_worldD [OF keptD(1) [OF assms(1)] "2.prems"(2), of "k # watched w"]) simp
    with 2 show ?case by (simp split: if_splits)
  qed simp
  with assms(2,3) Incoming show ?thesis by simp
next
  case (Readable sock rs)
  with assms(3) obtain w1 p d where 1: "read_loop V sock rs w = Inr (w1, p, d)"
    and r: "(if \<not> d then Inr w1 else rbind (with_session p (finish V) w1) (end_session sock)) = Inr w'"
    by (auto simp: handle_readable_finish rbind_eq_Inr)
  have i: "I w1" by (rule read_loop_inv [OF assms(1,2) 1])
  show ?thesis
  proof (cases d)
    case True
    with r obtain w2 where w2: "with_session p (finish V) w1 = Inr w2" "end_session sock w2 = Inr w'"
      by (auto simp: rbind_eq_Inr)
    have "I w2"
      by (rule with_session_inv [OF w2(1) keptD(1) [OF assms(1)] i]) (rule keptD(3) [OF assms(1) i])
    then show ?thesis by (rule end_session_inv [OF w2(2) keptD(1) [OF assms(1)]])
  qed (use r i in simp)
next
  case (Writable k)
  with assms show ?thesis by simp
qed

lemma event_loop_inv:
  "kept V I \<Longrightarrow> I w \<Longrightarrow> event_loop V evs w = Inr w' \<Longrightarrow> I w'"
  unfolding event_loop_def by (rule rfold_invariant) (auto intro: handle_event_inv)

section \<open>The listing and the files\<close>

text \<open>
  The listing has no name twice; a path has an inode that was allocated, and two paths never
  the same one, so that an upload under one name cannot change the file of another.
\<close>

definition world_ok :: "'v vec_ops \<Rightarrow> 'v server \<Rightarrow> bool" where
  "world_ok V w \<longleftrightarrow> distinct (vector_items V (directory w)) \<and>
     (\<forall>p i. names w p = Some i \<longrightarrow> i < next_inode w) \<and>
     (\<forall>p q i. names w p = Some i \<longrightarrow> names w q = Some i \<longrightarrow> p = q)"

lemma world_ok_of_world: "of_world (world_ok V)"
  by (simp add: of_world_def world_ok_def same_world_def)

lemma world_ok_cong:
  "world_ok V w \<Longrightarrow> directory w' = directory w \<Longrightarrow> names w' = names w \<Longrightarrow> next_inode w' = next_inode w
     \<Longrightarrow> world_ok V w'"
  by (simp add: world_ok_def)

lemma world_ok_send_all [simp]: "world_ok V (send_all b k w) = world_ok V w"
  by (simp add: world_ok_def)

lemma world_ok_write_all [simp]: "world_ok V (snd (write_all h b w)) = world_ok V w"
  by (simp add: world_ok_def)

lemma world_ok_response [simp]: "world_ok V (fst (send_header_response c m (w, s))) = world_ok V w"
  by (simp add: send_header_response_alt)

lemma world_ok_get_loop [simp]: "world_ok V (snd (get_loop r n z k w)) = world_ok V w"
  using get_loop_frame [of r n z k w] by (simp add: world_ok_def)

lemma world_ok_unlink: "world_ok V w \<Longrightarrow> world_ok V (snd (unlink f w))"
  by (simp add: world_ok_def unlink_def)

lemma world_ok_fopen_wb: "world_ok V w \<Longrightarrow> world_ok V (snd (fopen_wb f w))"
  by (auto simp: world_ok_def fopen_wb_def intro: less_SucI split: option.splits)

lemma world_ok_push:
  "vec_laws V \<Longrightarrow> world_ok V w \<Longrightarrow> d = directory w \<Longrightarrow> n \<notin> set (vector_items V d) \<Longrightarrow>
     world_ok V (w\<lparr>directory := v_push_back V d n\<rparr>)"
  by (simp add: world_ok_def vector_items_push_back)

lemma world_ok_erase:
  "vec_laws V \<Longrightarrow> world_ok V w \<Longrightarrow> d = directory w \<Longrightarrow> directory_index V d n = Some i \<Longrightarrow>
     world_ok V (w\<lparr>directory := v_erase V d i\<rparr>)"
  by (simp add: world_ok_def vector_items_erase_found)

section \<open>The handlers keep the invariant\<close>

lemma TryParse_world: "world_ok V (fst ws) \<Longrightarrow> TryParse c h ws = Inr (ok, ws') \<Longrightarrow> world_ok V (fst ws')"
  by (cases ws) (auto simp: TryParse_def bad_request_def Let_def split: if_splits option.splits)

lemma TryParse_world_branch:
  assumes "rbind (TryParse c h x) (\<lambda>(ok, ws). if ok then A ws else B ws) = Inr y" and "world_ok V (fst x)"
    and "\<And>ws. A ws = Inr y \<Longrightarrow> world_ok V (fst ws) \<Longrightarrow> world_ok V (fst y)"
    and "\<And>ws. B ws = Inr y \<Longrightarrow> world_ok V (fst ws) \<Longrightarrow> world_ok V (fst y)"
  shows "world_ok V (fst y)"
proof -
  from assms(1) obtain ok ws where t: "TryParse c h x = Inr (ok, ws)"
    and r: "(if ok then A ws else B ws) = Inr y"
    by (auto simp: rbind_eq_Inr)
  have "world_ok V (fst ws)" using assms(2) t by (rule TryParse_world)
  with r assms(3,4) show ?thesis by (simp split: if_splits)
qed

lemma list_world: "world_ok V (fst ws) \<Longrightarrow> world_ok V (fst (session_start_list V ws))"
  by (cases ws) (simp add: session_start_list_def Let_def)

lemma get_world: "world_ok V (fst ws) \<Longrightarrow> world_ok V (fst (session_start_get ws))"
  by (cases ws) (simp add: session_start_get_def sending_get_response_def Let_def split_beta split: option.split)

lemma delete_world:
  "vec_laws V \<Longrightarrow> world_ok V (fst ws) \<Longrightarrow> world_ok V (fst (session_start_delete V ws))"
  by (cases ws) (simp add: session_start_delete_def split_beta world_ok_unlink world_ok_erase split: option.split)

lemma put_world: "world_ok V (fst ws) \<Longrightarrow> continue_reading_put ws = Inr ws' \<Longrightarrow> world_ok V (fst ws')"
  by (cases ws) (auto simp: continue_reading_put_def Let_def split_beta rbind_eq_Inr world_ok_fopen_wb
      split: if_splits option.splits)

lemma header_world:
  assumes "vec_laws V" and "world_ok V w" and "continue_reading_header V (w, s) = Inr ws"
  shows "world_ok V (fst ws)"
proof -
  have e1: "Inr (session_start_list V x) = Inr y \<Longrightarrow> world_ok V (fst x) \<Longrightarrow> world_ok V (fst y)" for x y
    by (metis list_world old.sum.inject(2))
  have e2: "Inr (session_start_get x) = Inr y \<Longrightarrow> world_ok V (fst x) \<Longrightarrow> world_ok V (fst y)" for x y
    by (metis get_world old.sum.inject(2))
  have e3: "session_start_put 3 x = Inr y \<Longrightarrow> world_ok V (fst x) \<Longrightarrow> world_ok V (fst y)" for x y
    by (cases x) (simp add: session_start_put_def, erule put_world [rotated], simp)
  have e4: "Inr (session_start_delete V x) = Inr y \<Longrightarrow> world_ok V (fst x) \<Longrightarrow> world_ok V (fst y)" for x y
    by (metis delete_world [OF assms(1)] old.sum.inject(2))
  have e5: "(if P then Inr (send_header_response c m x) else Inr x) = Inr y \<Longrightarrow> world_ok V (fst x) \<Longrightarrow>
      world_ok V (fst y)" for x y c m P
    by (cases x) (auto split: if_splits)
  from assms(3) obtain s1 where
    t: "rbind (TryParse ''LIST'' False (w, s1)) (\<lambda>(ok, ws).
     if ok then Inr (session_start_list V ws) else
     rbind (TryParse ''GET'' True ws) (\<lambda>(ok, ws).
     if ok then Inr (session_start_get ws) else
     rbind (TryParse ''PUT'' True ws) (\<lambda>(ok, ws).
     if ok then session_start_put 3 ws else
     rbind (TryParse ''DELETE'' True ws) (\<lambda>(ok, ws).
     if ok then Inr (session_start_delete V ws) else
     if state (snd ws) = STATE_READING_HEADER \<and> unknown_request (snd ws)
     then Inr (send_header_response ''ERROR'' (Some err_bad_request) ws)
     else Inr ws)))) = Inr ws"
    unfolding continue_reading_header_def by (auto simp: rbind_eq_Inr)
  have "world_ok V (fst (w, s1))" using assms(2) by simp
  with t show ?thesis
    by (rule TryParse_world_branch) ((erule (1) e1 e2 e3 e4 e5 TryParse_world_branch)+)
qed

lemma put_response_world:
  assumes "vec_laws V" and "world_ok V w" and "sending_put_response V c m (w, s) = Inr (w', s')"
  shows "world_ok V w'"
  using assms
  by (auto simp: sending_put_response_def Let_def split_beta send_header_response_alt world_ok_push
      world_ok_erase world_ok_unlink split: if_splits option.splits)

lemma world_ok_kept:
  assumes "vec_laws V"
  shows "kept V (world_ok V)"
  unfolding kept_def
proof (intro conjI allI impI)
  show "of_world (world_ok V)" by (rule world_ok_of_world)
next
  fix w s w' s'
  assume w: "world_ok V w" and p: "Session_processNext V (w, s) = Inr (w', s')"
  show "world_ok V w'"
    using p w header_world [OF assms w] put_world [of V "(w, s)"]
    by (cases "state s") (fastforce simp: Session_processNext_def)+
next
  fix w s w' s'
  assume w: "world_ok V w" and p: "finish V (w, s) = Inr (w', s')"
  show "world_ok V w'"
    using p w put_response_world [OF assms w]
    by (auto simp: finish_def finish_size_def finish_upload_def send_header_response_alt split: if_splits)
qed

end
