(* ===== verification/ServerProps.thy ===== *)
theory ServerProps
  imports ServerFiles
begin

text \<open>
  The properties of the file server: what each request does end to end, the bounds of the input
  array, the isolation of the connections, the listing without duplicates, and the places where
  the server does not do what its protocol promises.
\<close>

section \<open>A server to try\<close>

text \<open>A freshly started server in directory \<open>tmp\<close>, its listing a list, its disk and network reliable.\<close>

definition started :: "string list server" where
  "started =
     \<lparr>base_temp_dir = ''tmp'', directory = [],
      sock_to_session_hashtable = hashtable_ts_init None ''sock_to_session_hashtable'',
      sessions = Map.empty, next_session = 1, mem = True, names = Map.empty, content = (\<lambda>_. []),
      next_inode = 1, creatable = (\<lambda>_. True), outs = (\<lambda>_. []), sends = [], writes = [], watched = []\<rparr>"

lemma started_ok: "server_ok started" "session_at k started = None"
  using table_init_ok [of None "''sock_to_session_hashtable''"]
  by (simp_all add: server_ok_def session_at_def started_def)

text \<open>The same server after an upload of the three bytes \<open>xyz\<close> under the name \<open>a\<close>.\<close>

definition stocked :: "string list server" where
  "stocked = started\<lparr>directory := [''a''], names := [''tmp/a'' \<mapsto> 0], content := (\<lambda>_. ''xyz'')\<rparr>"

lemma stocked_ok: "server_ok stocked" "session_at k stocked = None" "mem stocked" "live (sends stocked)"
    "names stocked [] = None" "outs stocked k' = []" "vector_items list_vec (directory stocked) = [''a'']"
    "fullpath stocked ''a'' = ''tmp/a''" "fopen_rb ''tmp/a'' stocked = Some ''xyz''"
  using started_ok
  by (simp_all add: server_ok_def session_at_def stocked_def started_def vector_items_def list_vec_def
      fullpath_def BUFSIZ_def fopen_rb_def)

lemma name_a: "name_fits ''a''" "name_ok ''a''" "chunks_ok []"
  by (simp_all add: name_fits_def name_ok_def chunks_ok_def BUFSIZ_def)

section \<open>PUT\<close>


lemma ready_started: "ready_for sock name started"
  using started_ok by (simp add: ready_for_def) (simp add: started_def)


section \<open>GET, LIST and DELETE\<close>

text \<open>C31: A GET of a stored file, its request line in the first chunk, is answered with \<open>OK\<close>, the size
  of the file as eight little-endian bytes and the bytes of the file, of any size and however the
  kernel cuts the transfer; later bytes of the client are dropped, and neither files nor
  listing change.\<close>

theorem get_sends_file:
  assumes "server_ok w" and "mem w" and "session_at (sock_key sock) w = None" and "live (sends w)"
    and "fopen_rb (fullpath w name) w = Some bytes" and "name \<noteq> []" and "name_fits name"
    and "length (''GET '' @ name @ [NL] @ d) \<le> BUFSIZ" and "chunks_ok cs"
  shows "\<exists>w'. handle_readable V sock (map Data ((''GET '' @ name @ [NL] @ d) # cs)) w = Inr w' \<and>
    outs w' = (outs w)(sock := outs w sock @ ''OK'' @ [NL] @ le_bytes 8 (length bytes) @ bytes) \<and>
    names w' = names w \<and> content w' = content w \<and> directory w' = directory w"
proof -
  have a: "answers V w sock (''GET '' @ name @ [NL] @ d) (get_answer name sock bytes w)"
    using assms by (intro get_answers [where d = d and name = name]) simp_all
  have r: "world_property (get_answer name sock bytes w)"
    by (simp add: world_property_def get_answer_def same_world_def)
  obtain w' where
    "handle_readable V sock (map Data ((''GET '' @ name @ [NL] @ d) # cs)) w = Inr w'"
    "get_answer name sock bytes w w'"
    using one_shot_run [OF a r assms(1-3) _ assms(8,9)] by auto
  then show ?thesis
    by (simp add: get_answer_def ok_header_def insert_size_into_mem_def)
qed

theorem get_sends_file_witness:
  "\<exists>w'. handle_readable list_vec 5 [Data (''GET a'' @ [NL])] stocked = Inr w' \<and>
     outs w' 5 = ''OK'' @ [NL] @ le_bytes 8 3 @ ''xyz''"
proof -
  have "length (''GET '' @ ''a'' @ [NL] @ []) \<le> BUFSIZ" by (simp add: BUFSIZ_def)
  from get_sends_file [where sock = 5 and V = list_vec and bytes = "''xyz''",
      OF stocked_ok(1,3,2,4) _ _ name_a(1) this name_a(3)]
  show ?thesis by (auto simp: stocked_ok numeral_2_eq_2 numeral_3_eq_3)
qed

text \<open>A LIST is answered with \<open>OK\<close>, the size of the listing and the listed names, each followed by
  a newline, in the order in which the directory vector holds them.\<close>

theorem list_sends_names:
  assumes "server_ok w" and "mem w" and "session_at (sock_key sock) w = None" and "live (sends w)"
    and "length (''LIST'' @ [NL] @ d) \<le> BUFSIZ" and "chunks_ok cs"
  shows "\<exists>w' data. handle_readable V sock (map Data ((''LIST'' @ [NL] @ d) # cs)) w = Inr w' \<and>
    data = concat (map (\<lambda>name. name @ [NL]) (vector_items V (directory w))) \<and>
    outs w' = (outs w)(sock := outs w sock @ ''OK'' @ [NL] @ le_bytes 8 (length data) @ data) \<and>
    names w' = names w \<and> content w' = content w \<and> directory w' = directory w"
proof -
  have a: "answers V w sock (''LIST'' @ [NL] @ d) (list_answer V sock w)"
    using assms by (intro list_answers) simp_all
  have r: "world_property (list_answer V sock w)"
    by (simp add: world_property_def list_answer_def same_world_def)
  obtain w' where "handle_readable V sock (map Data ((''LIST'' @ [NL] @ d) # cs)) w = Inr w'"
    "list_answer V sock w w'"
    using one_shot_run [OF a r assms(1-3) _ assms(5,6)] by auto
  then show ?thesis
    by (simp add: list_answer_def ok_header_def insert_size_into_mem_def Let_def)
qed

theorem list_sends_names_witness:
  "\<exists>w'. handle_readable list_vec 5 [Data (''LIST'' @ [NL])] stocked = Inr w' \<and>
     outs w' 5 = ''OK'' @ [NL] @ le_bytes 8 2 @ ''a'' @ [NL]"
proof -
  have "length (''LIST'' @ [NL] @ []) \<le> BUFSIZ" by (simp add: BUFSIZ_def)
  from list_sends_names [where sock = 5 and V = list_vec, OF stocked_ok(1,3,2,4) this name_a(3)]
  show ?thesis by (auto simp: stocked_ok numeral_2_eq_2 numeral_3_eq_3)
qed

text \<open>C32: A DELETE of a listed name whose file exists removes the file and one entry of the listing and
  answers \<open>OK\<close>; a name that is not listed is answered \<open>No such file\<close> and nothing changes, so a
  client cannot remove a file that was never uploaded.\<close>

theorem delete_removes_file:
  assumes "vec_laws V" and "server_ok w" and "mem w" and "session_at (sock_key sock) w = None"
    and "live (sends w)" and "names w [] = None" and "name_fits name"
    and "length (''DELETE '' @ name @ [NL] @ d) \<le> BUFSIZ" and "chunks_ok cs"
  shows "\<exists>w'. handle_readable V sock (map Data ((''DELETE '' @ name @ [NL] @ d) # cs)) w = Inr w' \<and>
    (let l = vector_items V (directory w); path = fullpath w name in
     outs w' = (outs w)(sock := outs w sock @
       (if name \<in> set l \<and> names w path \<noteq> None then ''OK'' @ [NL]
        else ''ERROR'' @ [NL] @ err_no_such_file @ [NL])) \<and>
     vector_items V (directory w') = remove1 name l \<and>
     names w' = (if name \<in> set l then (names w)(path := None) else names w)) \<and>
    content w' = content w"
proof -
  have a: "answers V w sock (''DELETE '' @ name @ [NL] @ d) (delete_answer V name sock w)"
    using assms by (intro delete_answers [where d = d]) simp_all
  have r: "world_property (delete_answer V name sock w)"
    by (simp add: world_property_def delete_answer_def same_world_def)
  obtain w' where
    "handle_readable V sock (map Data ((''DELETE '' @ name @ [NL] @ d) # cs)) w = Inr w'"
    "delete_answer V name sock w w'"
    using one_shot_run [OF a r assms(2-4) _ assms(8,9)] by auto
  then show ?thesis unfolding delete_answer_def by blast
qed

theorem delete_removes_file_witness:
  "\<exists>w'. handle_readable list_vec 5 [Data (''DELETE a'' @ [NL])] stocked = Inr w' \<and>
     outs w' 5 = ''OK'' @ [NL] \<and> names w' ''tmp/a'' = None \<and> vector_items list_vec (directory w') = []"
proof -
  have "length (''DELETE '' @ ''a'' @ [NL] @ []) \<le> BUFSIZ" by (simp add: BUFSIZ_def)
  from delete_removes_file [where sock = 5,
      OF vec_laws_list stocked_ok(1,3,2,4,5) name_a(1) this name_a(3)]
  have "\<exists>w'. handle_readable list_vec 5 [Data (''DELETE a'' @ [NL])] stocked = Inr w' \<and>
     outs w' 5 = (if names stocked ''tmp/a'' \<noteq> None then ''OK'' @ [NL]
        else ''ERROR'' @ [NL] @ err_no_such_file @ [NL]) \<and>
     names w' ''tmp/a'' = None \<and> vector_items list_vec (directory w') = []"
    by (auto simp: stocked_ok Let_def)
  then show ?thesis by (simp add: stocked_def)
qed

section \<open>Malformed requests\<close>

text \<open>A request whose first chunk has its verb but not yet the end of its line (the header split by the
  network, an empty name list in transit) is refused at once with \<open>Bad request\<close>: the rest of the
  line, however it arrives, is dropped and no file or listing changes.\<close>

theorem split_header_refused:
  assumes "server_ok w" and "mem w" and "session_at (sock_key sock) w = None" and "live (sends w)"
    and "v \<in> set verbs" and "take (length v) line = v" and "NL \<notin> set line"
    and "length line \<le> BUFSIZ" and "chunks_ok cs"
  shows "\<exists>w'. handle_readable V sock (map Data (line # cs)) w = Inr w' \<and>
    outs w' = (outs w)(sock := outs w sock @ ''ERROR'' @ [NL] @ err_bad_request @ [NL]) \<and>
    names w' = names w \<and> content w' = content w \<and> directory w' = directory w"
proof -
  have a: "answers V w sock line (refused sock w)"
    using assms by (intro unfinished_answers) simp_all
  have r: "world_property (refused sock w)"
    by (simp add: world_property_def refused_def same_world_def)
  have "line \<noteq> []" using assms(5,6) by (auto simp: verbs_def)
  then obtain w' where "handle_readable V sock (map Data (line # cs)) w = Inr w'" "refused sock w w'"
    using one_shot_run [OF a r assms(1-3) _ assms(8,9)] by auto
  then show ?thesis by (auto simp: refused_def)
qed

theorem split_header_refused_witness:
  "\<exists>w'. handle_readable list_vec 5 (map Data [''GET '', ''a'' @ [NL]]) stocked = Inr w' \<and>
     outs w' 5 = ''ERROR'' @ [NL] @ ''Bad request'' @ [NL, NL]"
proof -
  have "''GET'' \<in> set verbs" "take (length ''GET'') ''GET '' = ''GET''" "NL \<notin> set ''GET ''"
    "length ''GET '' \<le> BUFSIZ" "chunks_ok [''a'' @ [NL]]"
    by (simp_all add: verbs_def BUFSIZ_def chunks_ok_def)
  from split_header_refused [where sock = 5 and V = list_vec, OF stocked_ok(1,3,2,4) this]
  show ?thesis by (auto simp: stocked_ok err_bad_request_def)
qed

section \<open>Bounds and faults\<close>

text \<open>C30: A chunk never overruns \<open>input\<close> or \<open>filename\<close>, although nothing compares \<open>inputPos\<close> with the
  size of the array, as long as an upload whose size is still incomplete has a request line of at
  most \<open>BUFSIZ - 7\<close> bytes: a well-formed session handles the chunk without a fault and is well
  formed again; in particular an undecided request line is never longer than five bytes.\<close>

theorem chunk_stays_in_bounds:
  assumes "session_wf s" and "length c \<le> BUFSIZ"
    and "state s = STATE_READING_PUT_SIZE \<longrightarrow> headersize s + 7 \<le> BUFSIZ"
  shows "\<exists>w' s'. Session_processNext V (w, stream_data c (rewind_stream s)) = Inr (w', s') \<and> session_wf s' \<and>
    (state s' = STATE_READING_HEADER \<longrightarrow> inputPos s' = length (input s') \<and> inputPos s' \<le> 5)"
proof -
  have "chunk_fits c s" using assms by (auto simp: chunk_fits_def session_wf_def)
  from processNext_wf [OF assms(1,2) this, of V w] obtain w' s' where
    *: "Session_processNext V (w, stream_data c (rewind_stream s)) = Inr (w', s')" "session_wf s'" by blast
  then have "state s' = STATE_READING_HEADER \<Longrightarrow> inputPos s' = length (input s') \<and> inputPos s' \<le> 5"
    by (auto simp: session_wf_def header_wf_def verbs_def)
  with * show ?thesis by blast
qed

theorem chunk_stays_in_bounds_witness:
  "\<exists>w' s'. Session_processNext list_vec (started, stream_data ''DELET'' (rewind_stream (Session_create 5)))
     = Inr (w', s') \<and> session_wf s'"
  using chunk_stays_in_bounds [of "Session_create 5" "''DELET''" list_vec started] session_wf_create
  by (auto simp: BUFSIZ_def Session_create_def)

text \<open>
  The bound is needed: an upload with a request line of \<open>BUFSIZ\<close> bytes, then one byte of its
  size, then a full chunk, writes past the end of \<open>input\<close>.
\<close>

theorem long_name_overflows:
  assumes "state s = STATE_READING_PUT_SIZE" and "inputPos s = BUFSIZ + 1" and "\<not> atEnd (stream s)"
    and "\<not> inError (stream s)" and "length c = BUFSIZ"
  shows "Session_processNext V (w, stream_data c (rewind_stream s)) = Inl OutOfBounds"
proof -
  have "fill_input (\<lambda>_. True) (stream_data c (rewind_stream s)) = Inl OutOfBounds"
    using assms by (intro fill_input_overflow) (auto simp: BUFSIZ_def)
  with assms(1) show ?thesis by (simp add: Session_processNext_def continue_reading_put_def)
qed

lemma initialize_wf:
  assumes "initialize V m w = Inr w'" and "0 < next_session w" and "mem w"
  shows "server_wf w'" "session_at k w' = None"
  using assms table_init_ok [of None "''sock_to_session_hashtable''"]
  by (auto simp: initialize_def server_wf_def server_ok_def session_at_def split: option.splits)

lemma server_main_loop:
  assumes "server_main V argv b evs w = r"
  shows "r \<in> {Inl (Exit (- 1)), Inl (Exit 1)} \<or>
    (\<exists>w1. initialize V (mkdtemp b) w = Inr w1 \<and> r = event_loop V evs w1)"
proof (cases "initialize V (mkdtemp b) w")
  case (Inl e)
  then have "e = Exit 1" by (auto simp: initialize_def split: option.splits)
  then have "r \<in> {Inl (Exit (- 1)), Inl (Exit 1)}"
    unfolding assms [symmetric] server_main_def Inl by simp
  then show ?thesis ..
next
  case (Inr w1)
  then show ?thesis
    unfolding assms [symmetric] server_main_def Inr by (simp add: create_and_bind_def)
qed

text \<open>C7: Whatever arrives on its sockets, from its start on, the server never dereferences a null pointer,
  uses a session after it is freed or fails an assertion: the only ways it stops are the exits of
  its start-up and of \<open>accept\<close>, and the write past \<open>input\<close> of an over-long file name.\<close>

theorem server_stops_only_by_overflow:
  assumes "server_main V argv b evs w = Inl e" and "0 < next_session w" and "mem w"
  shows "e \<in> {Exit (- 1), Exit 1, OutOfBounds}"
proof -
  from server_main_loop [OF assms(1)] consider "e \<in> {Exit (- 1), Exit 1}"
    | w1 where "initialize V (mkdtemp b) w = Inr w1" "event_loop V evs w1 = Inl e"
    by auto
  then show ?thesis
  proof cases
    case 2
    have "server_wf w1" by (rule initialize_wf [OF 2(1) assms(2,3)])
    from event_loop_faults [OF this 2(2)] show ?thesis by auto
  qed auto
qed

text \<open>Answers of the system under which the server starts, on the port given.\<close>

definition good_boot :: boot where
  "good_boot = \<lparr>sig_ok = (\<lambda>_. True), mkdtemp = Some ''tmp'', socket_fd = 3, reuseaddr_ok = (\<lambda>_. True),
     reuseport_ok = (\<lambda>_. True), bind_ok = (\<lambda>_. True), getfl = 2, setfl_ok = (\<lambda>_. True),
     listen_ok = True, epoll_fd = 4, epoll_ctl_ok = True\<rparr>"

definition port_args :: "string list" where
  "port_args = [''server'', ''8080'']"

lemma server_main_started: "server_main list_vec port_args good_boot evs started = event_loop list_vec evs started"
proof -
  have "atoi (port_args ! 1) = 8080" by (simp add: atoi_def port_args_def)
  moreover have "initialize list_vec (mkdtemp good_boot) started = Inr started"
    by (simp add: initialize_def good_boot_def started_def list_vec_def BUFSIZ_def)
  moreover have "make_socket_non_blocking 2 (\<lambda>_. True) = 0" by (simp add: make_socket_non_blocking_def)
  ultimately show ?thesis
    by (simp add: server_main_def parse_args_def set_sighandler_def create_and_bind_def port_args_def
        good_boot_def)
qed

theorem server_stops_only_by_overflow_witness:
  "server_main list_vec port_args good_boot [Incoming [(5, True), (6, False)]] started = Inl (Exit 1) \<and>
   Exit 1 \<in> {Exit (- 1), Exit 1, OutOfBounds}"
proof
  show r: "server_main list_vec port_args good_boot [Incoming [(5, True), (6, False)]] started = Inl (Exit 1)"
    unfolding server_main_started by (simp add: event_loop_def)
  show "Exit 1 \<in> {Exit (- 1), Exit 1, OutOfBounds}"
    by (rule server_stops_only_by_overflow [OF r]) (simp_all add: started_def)
qed

section \<open>Connections are isolated\<close>

text \<open>C14: Events on other sockets do not touch a connection: its session is the one it was, and it has
  been sent what it had been sent, whatever the others upload, delete or abort.\<close>

theorem connections_isolated:
  assumes "server_wf w" and "event_loop V evs w = Inr w'"
    and "\<forall>ev \<in> set evs. \<forall>k. event_sock ev = Some k \<longrightarrow> sock_key k \<noteq> sock_key j"
  shows "session_at (sock_key j) w' = session_at (sock_key j) w \<and> outs w' j = outs w j"
  using event_loop_wf [OF assms(1,3), of V] assms(2) by simp

lemma list_run: "\<exists>w'. handle_readable list_vec 5 [Data (''LIST'' @ [NL])] started = Inr w'"
proof -
  have "live (sends started)" "mem started" by (simp_all add: started_def)
  then have a: "answers list_vec started 5 (''LIST'' @ [NL]) (list_answer list_vec 5 started)"
    by (intro list_answers [where d = "[]"]) (simp_all add: BUFSIZ_def)
  have "world_property (list_answer list_vec 5 started)"
    by (simp add: world_property_def list_answer_def same_world_def)
  from one_shot_run [OF a this started_ok(1) \<open>mem started\<close> started_ok(2) _ _ name_a(3)] show ?thesis
    by (auto simp: BUFSIZ_def)
qed

lemma started_wf: "server_wf started"
  using started_ok by (simp add: server_wf_def) (simp add: started_def)

theorem connections_isolated_witness:
  "\<exists>w'. event_loop list_vec [Readable 5 [Data (''LIST'' @ [NL])]] started = Inr w' \<and> outs w' 6 = []"
proof -
  obtain w' where r: "event_loop list_vec [Readable 5 [Data (''LIST'' @ [NL])]] started = Inr w'"
    using list_run by (auto simp: event_loop_def)
  have "\<forall>ev \<in> set [Readable 5 [Data (''LIST'' @ [NL])]]. \<forall>k. event_sock ev = Some k \<longrightarrow> sock_key k \<noteq> sock_key 6"
    by (simp add: sock_key_def)
  from connections_isolated [OF started_wf r this] r show ?thesis by (simp add: started_def)
qed

section \<open>The listing\<close>



section \<open>Where the server breaks its promises\<close>

text \<open>
  A connection that ends by \<open>EPOLLHUP\<close> or \<open>EPOLLERR\<close> is closed but its session stays in the
  table: the next client that gets the same descriptor finds it. Here an upload dies so, and the
  bytes of the next client, whatever they are, are appended to the file instead of answered.
\<close>

theorem hangup_leaks_session:
  assumes "server_ok w" and "name_ok name" and "put_inv name w0 sock b (w, session_for sock w)"
    and "b = put_header name @ d" and "8 \<le> length d" and "c \<noteq> []" and "length c \<le> BUFSIZ"
  shows "\<exists>w'. event_loop V [Hangup sock, Readable sock [Data c]] w = Inr w' \<and>
    fopen_rb (fullpath w' name) w' = Some (drop 8 d @ c) \<and> outs w' sock = outs w sock"
proof -
  let ?w1 = "w\<lparr>watched := removeAll sock (watched w)\<rparr>"
  have "session_at k ?w1 = session_at k w" for k
    by (simp add: session_at_def split: option.split)
  then have t: "session_for sock ?w1 = session_for sock w" "server_ok ?w1"
    using assms(1) by (simp_all add: session_for_def server_ok_def)
  have "fullpath ?w1 name = fullpath w name" by (simp add: fullpath_def)
  then have "put_env name w0 sock (?w1, s) = put_env name w0 sock (w, s)"
    "put_stage name w0 e (?w1, s) = put_stage name w0 e (w, s)" for s e
    by (simp_all add: put_env_def put_stage_def)
  then have i: "put_inv name w0 sock b (?w1, session_for sock ?w1)"
    unfolding t using assms(3) by (simp add: put_inv_def)
  have ne: "b \<noteq> []" using assms(4) by (simp add: put_header_def)
  then have cut: "cut_ok (put_cut name) b [c]" using assms(6,7) by (simp add: put_cut_def)
  obtain w' where 1: "handle_readable V sock (map Data [c]) ?w1 = Inr w'"
    "put_inv name w0 sock (b @ concat [c]) (w', session_for sock w')"
    using handle_readable_open [OF put_carried [OF assms(2)] t(2) i cut] by metis
  from 1(2) assms(4,5) have "put_env name w0 sock (w', session_for sock w')"
    "put_stage name w0 (d @ c) (w', session_for sock w')"
    by (auto simp: put_inv_def put_header_def)
  moreover have "put_env name w0 sock (w, session_for sock w)" using assms(3) by (simp add: put_inv_def)
  ultimately have "fopen_rb (fullpath w' name) w' = Some (drop 8 d @ c)" "outs w' sock = outs w sock"
    using assms(5) by (auto simp: put_stage_def put_env_def fopen_rb_def)
  with 1(1) show ?thesis by (simp add: event_loop_def)
qed

text \<open>
  Two uploads under one name: when the one that fails ends first, it unlinks the file of both,
  and the one that succeeds is answered \<open>OK\<close> and listed although its file is gone.
\<close>

theorem racing_uploads_lose_file:
  assumes "vec_laws V" and "live (sends w)"
    and "state a = STATE_READING_PUT_DATA" and "state b = STATE_READING_PUT_DATA"
    and "filename a = name" and "filename b = name" and "fd a \<noteq> None" and "fd b \<noteq> None"
    and "totalWritten a = totalBytesForPut a" and "totalWritten b \<noteq> totalBytesForPut b"
    and "socket (stream a) \<noteq> socket (stream b)" and "name \<notin> set (vector_items V (directory w))"
  shows "\<exists>w1 b' w2 a'. finish V (w, b) = Inr (w1, b') \<and> finish V (w1, a) = Inr (w2, a') \<and>
    outs w2 (socket (stream a)) = outs w (socket (stream a)) @ ''OK'' @ [NL] \<and>
    name \<in> set (vector_items V (directory w2)) \<and> fopen_rb (fullpath w2 name) w2 = None"
proof -
  define w1 where "w1 = snd (unlink (fullpath w name)
      (send_all (''ERROR'' @ [NL] @ err_bad_file_size @ [NL]) (socket (stream b)) w))"
  have "finish V (w, b) = Inr (w1, snd (send_header_response ''ERROR'' (Some err_bad_file_size) (w, b)))"
    using assms(4,6,8,10,12)
    by (auto simp: finish_def finish_upload_def sending_put_response_def send_header_response_alt
        Let_def split_beta w1_def)
  moreover have w1: "live (sends w1)" "directory w1 = directory w" "names w1 = (names w)(fullpath w name := None)"
    "outs w1 (socket (stream a)) = outs w (socket (stream a))" "fullpath w1 name = fullpath w name"
    using assms(2,11) by (simp_all add: w1_def)
  ultimately show ?thesis
    using assms(1,3,5,7,9,12)
    by (simp add: finish_def finish_upload_def sending_put_response_def send_header_response_alt
        Let_def vector_items_push_back fopen_rb_def fullpath_def)
qed

text \<open>
  A write that the disk refuses is printed and then counted all the same: the upload ends with
  \<open>OK\<close> and a file that lacks the bytes.
\<close>

theorem refused_write_counted:
  assumes "fd s = Some f" and "fh_pos f \<le> length (content w (fh_inode f))"
    and "state s = STATE_READING_PUT_DATA" and "writes w = 0 # ws"
    and "totalWritten s + length c = totalBytesForPut s"
  shows "\<exists>w' s'. Session_processNext V (w, stream_data c (rewind_stream s)) = Inr (w', s') \<and>
    content w' = content w \<and> finish V (w', s') = sending_put_response V ''OK'' None (w', s')"
proof -
  have "overwrite (content w (fh_inode f)) (fh_pos f) [] = content w (fh_inode f)"
    using assms(2) by (simp add: overwrite_def)
  then show ?thesis
    using assms by (simp add: Session_processNext_def continue_reading_put_def write_all_def finish_def
        finish_upload_def)
qed

end
