(* ===== verification/ClientServer.thy ===== *)
theory ClientServer
  imports ClientLemmas ServerProps
begin

text \<open>
  The client against the server: what the client makes of each answer, in whatever pieces it
  arrives, and the composition of the two programs on the bytes that pass between them: a file
  uploaded and downloaded again comes back byte for byte.
\<close>

section \<open>The answers at the client\<close>

lemma client_write_all_ok:
  assumes "0 \<notin> set (file_writes c)" and "local_files c f = Some old"
  shows "local_files (client_write_all f buf c) = (local_files c)(f \<mapsto> old @ buf)"
    and "0 \<notin> set (file_writes (client_write_all f buf c))"
    and "incoming (client_write_all f buf c) = incoming c"
    and "stdout (client_write_all f buf c) = stdout c"
  using write_loop_all [OF assms(1), of buf] assms
  by (simp_all add: client_write_all_def split_beta fun_upd_idem)

lemma get_response_loop_ok:
  assumes "smooth (incoming c)" and "0 \<notin> set (file_writes c)" and "local_files c f = Some old"
    and "length old = n" and "sz = length (old @ concat (map chunk_text (incoming c)))"
  shows "\<exists>c'. get_response_loop f sz n c = Ok sz c' \<and> stdout c' = stdout c \<and>
    local_files c' = (local_files c)(f \<mapsto> old @ concat (map chunk_text (incoming c)))"
  using assms
proof (induction f sz n c arbitrary: old rule: get_response_loop.induct)
  case (1 f sz n c)
  have pos: "0 < GET_BUF_SIZE" by (simp add: GET_BUF_SIZE_def)
  show ?case
  proof (cases rule: sock_read_smooth [OF "1.prems"(1) pos])
    case (1 bs c1)
    obtain x xs where b: "bs = x # xs" using 1(2) by (cases bs) auto
    have o: "local_files c1 = local_files c" "file_writes c1 = file_writes c" "stdout c1 = stdout c"
      using only_read_fields [OF 1(3)] by simp_all
    note w = client_write_all_ok [of c1 f old bs, unfolded o, OF "1.prems"(2,3)]
    let ?c2 = "client_write_all f bs c1"
    have le: "\<not> sz < n + length bs" "sz = length ((old @ bs) @ concat (map chunk_text (incoming ?c2)))"
      using "1.prems"(4,5) 1(5) w(3) by simp_all
    have s2: "smooth (incoming ?c2)" "local_files ?c2 f = Some (old @ bs)" "length (old @ bs) = n + length bs"
      using 1(4) w(1,3) "1.prems"(4) by simp_all
    obtain c' where c': "get_response_loop f sz (n + length bs) ?c2 = Ok sz c'" "stdout c' = stdout ?c2"
      "local_files c' = (local_files ?c2)(f \<mapsto> (old @ bs) @ concat (map chunk_text (incoming ?c2)))"
      using "1.IH" [OF 1(1) [symmetric] refl b refl, unfolded b [symmetric],
          OF le(1) s2(1) w(2) s2(2,3) le(2)] by blast
    have "get_response_loop f sz n c = get_response_loop f sz (n + length bs) ?c2"
      using 1(1) le(1) b by (subst get_response_loop.simps) (simp add: Let_def)
    with c' w o 1(5) show ?thesis by (auto simp: fun_eq_iff)
  next
    case 2
    with "1.prems" show ?thesis
      by (subst get_response_loop.simps) (simp add: fun_upd_idem)
  qed
qed

text \<open>All that the socket delivers.\<close>

definition answer_of :: "client \<Rightarrow> string" where
  "answer_of c = concat (map chunk_text (incoming c))"

lemma first_read:
  assumes "smooth (incoming c)" and "answer_of c \<noteq> []"
  obtains bytes c1 where "sock_read MAX_BUF_SIZE c = (Some bytes, c1)" "reader_ok (start_read bytes) c1"
    "pending (start_read bytes) c1 = answer_of c" "only_read c c1"
proof -
  have "0 < MAX_BUF_SIZE" by (simp add: MAX_BUF_SIZE_def)
  from assms(1) this show ?thesis
  proof (cases rule: sock_read_smooth)
    case (more bs c')
    then show ?thesis
      by (intro that [of bs c']) (simp_all add: reader_ok_def start_read_def pending_def answer_of_def)
  next
    case eof
    with assms(2) show ?thesis by (simp add: answer_of_def)
  qed
qed

lemma receive_get:
  assumes "smooth (incoming c)" and "answer_of c = ''OK'' @ [NL] @ le_bytes 8 (length b) @ b"
    and "length b < 2 ^ 64" and "can_write c f" and "0 \<notin> set (file_writes c)"
  shows "\<exists>c'. receive_response Client.GET (Some f) c = Quit 0 c' \<and> local_files c' = (local_files c)(f \<mapsto> b) \<and>
    stdout c' = stdout c"
proof -
  obtain bytes c1 where 1: "sock_read MAX_BUF_SIZE c = (Some bytes, c1)" "reader_ok (start_read bytes) c1"
    "pending (start_read bytes) c1 = ''OK'' @ [NL] @ le_bytes 8 (length b) @ b" "only_read c c1"
    using first_read [OF assms(1)] assms(2) by auto
  obtain st2 c2 where 2: "read_line GET_BUF_SIZE True [] (start_read bytes) c1 = Ok (''OK'' @ [NL], st2) c2"
    "pending st2 c2 = le_bytes 8 (length b) @ b" "reader_ok st2 c2" "only_read c1 c2"
    using read_ok_line [OF 1(2,3), of GET_BUF_SIZE True] by (auto simp: GET_BUF_SIZE_def)
  let ?c2 = "c2\<lparr>local_files := (local_files c2)(f \<mapsto> [])\<rparr>"
  have c2: "pending st2 ?c2 = le_bytes 8 (length b) @ b" "reader_ok st2 ?c2" "can_write c2 f"
    using 2(2,3) only_read_fields [OF only_read_trans [OF 1(4) 2(4)]] assms(4)
    by (simp_all add: pending_def reader_ok_def)
  obtain st3 c3 where 3: "read_size st2 ?c2 = Ok (length b, st3) c3" "pending st3 c3 = b"
    "reader_ok st3 c3" "only_read ?c2 c3"
    using read_size_ok [OF c2(2,1) assms(3)] by blast
  have f3: "stdout c3 = stdout c" "local_files c3 = (local_files c)(f \<mapsto> [])" "0 \<notin> set (file_writes c3)"
    using only_read_fields [OF 3(4)] only_read_fields [OF only_read_trans [OF 1(4) 2(4)]] assms(5)
    by simp_all
  have "local_files c3 f = Some []" using f3(2) by simp
  note w = client_write_all_ok [OF f3(3) this, of "rest st3"]
  let ?c4 = "client_write_all f (rest st3) c3"
  have l4: "local_files ?c4 f = Some (rest st3)" "smooth (incoming ?c4)"
    "length b = length (rest st3 @ concat (map chunk_text (incoming ?c4)))"
    using w 3(2,3) by (simp_all add: reader_ok_def pending_def [symmetric])
  obtain c' where "get_response_loop f (length b) (length (rest st3)) ?c4 = Ok (length b) c'"
    "stdout c' = stdout ?c4"
    "local_files c' = (local_files ?c4)(f \<mapsto> rest st3 @ concat (map chunk_text (incoming ?c4)))"
    using get_response_loop_ok [OF l4(2) w(2) l4(1) refl l4(3)] by blast
  moreover have "rest st3 @ concat (map chunk_text (incoming ?c4)) = b"
    using w(3) 3(2) by (simp add: pending_def)
  ultimately show ?thesis
    using 1(1) 2(1) 3(1) c2(3) w f3 by (simp add: receive_response_def handle_get_response_def status_ok Let_def)
qed

lemma receive_list:
  assumes "smooth (incoming c)" and "answer_of c = ''OK'' @ [NL] @ le_bytes 8 (length d) @ d"
    and "length d < 2 ^ 64"
  shows "\<exists>c'. receive_response Client.LIST f c = Quit 0 c' \<and> stdout c' = stdout c @ d"
proof -
  obtain bytes c1 where 1: "sock_read MAX_BUF_SIZE c = (Some bytes, c1)" "reader_ok (start_read bytes) c1"
    "pending (start_read bytes) c1 = ''OK'' @ [NL] @ le_bytes 8 (length d) @ d" "only_read c c1"
    using first_read [OF assms(1)] assms(2) by auto
  obtain st2 c2 where 2: "read_line MAX_BUF_SIZE True [] (start_read bytes) c1 = Ok (''OK'' @ [NL], st2) c2"
    "pending st2 c2 = le_bytes 8 (length d) @ d" "reader_ok st2 c2" "only_read c1 c2"
    using read_ok_line [OF 1(2,3), of MAX_BUF_SIZE True] by (auto simp: MAX_BUF_SIZE_def)
  obtain st3 c3 where 3: "read_size st2 c2 = Ok (length d, st3) c3" "pending st3 c3 = d @ []"
    "reader_ok st3 c3" "only_read c2 c3"
    using read_size_ok [OF 2(3,2) assms(3)] by auto
  obtain st4 c4 where 4: "list_loop (length d) st3 c3 = Ok st4 c4" "pending st4 c4 = []" "reader_ok st4 c4"
    "only_read (print_text d c3) c4"
    using list_loop_ok [OF 3(3,2) refl] by blast
  have "stdout c4 = stdout c @ d"
    using only_read_fields [OF 4(4)] only_read_fields [OF only_read_trans [OF only_read_trans [OF 1(4) 2(4)] 3(4)]]
    by (simp add: print_text_def)
  with 1(1) 2(1) 3(1) 4(1) expect_end_ok [OF 4(3,2)] show ?thesis
    by (simp add: receive_response_def handle_list_response_def status_ok)
qed

lemma receive_put:
  assumes "smooth (incoming c)" and "answer_of c = ''OK'' @ [NL]"
  shows "\<exists>c'. receive_response Client.PUT f c = Quit 0 c' \<and>
    stdout c' = stdout c @ ''DELETE/PUT successful'' @ [NL]"
proof -
  obtain bytes c1 where 1: "sock_read MAX_BUF_SIZE c = (Some bytes, c1)" "reader_ok (start_read bytes) c1"
    "pending (start_read bytes) c1 = ''OK'' @ [NL] @ []" "only_read c c1"
    using first_read [OF assms(1)] assms(2) by auto
  obtain st2 c2 where 2: "read_line MAX_BUF_SIZE True [] (start_read bytes) c1 = Ok (''OK'' @ [NL], st2) c2"
    "pending st2 c2 = []" "reader_ok st2 c2" "only_read c1 c2"
    using read_ok_line [OF 1(2,3), of MAX_BUF_SIZE True] by (auto simp: MAX_BUF_SIZE_def)
  with 1(1) expect_end_ok [OF 2(3,2)] only_read_fields [OF only_read_trans [OF 1(4) 2(4)]] show ?thesis
    by (simp add: receive_response_def handle_put_response_def status_ok print_success_def print_text_def)
qed

text \<open>An error answer, whatever the request: the client prints the message and exits with 1.\<close>

lemma receive_error:
  assumes "smooth (incoming c)" and "answer_of c = ''ERROR'' @ [NL] @ msg @ [NL] @ r"
    and "NL \<notin> set msg" and "NUL \<notin> set msg" and "length msg + 1 < MAX_BUF_SIZE" and "v \<noteq> V_UNKNOWN"
    and "f \<noteq> None"
  shows "\<exists>c'. receive_response v f c = Quit 1 c' \<and> stdout c' = stdout c @ msg @ [NL, NL] \<and>
    local_files c' = local_files c"
proof -
  obtain bytes c1 where 1: "sock_read MAX_BUF_SIZE c = (Some bytes, c1)" "reader_ok (start_read bytes) c1"
    "pending (start_read bytes) c1 = ''ERROR'' @ NL # msg @ NL # r" "only_read c c1"
    using first_read [OF assms(1)] assms(2) by auto
  have e: "\<exists>line st2 c2 c'. read_line cap True [] (start_read bytes) c1 = Ok (line, st2) c2 \<and>
      print_response_status cap line st2 c2 = Quit 1 c' \<and>
      stdout c' = stdout c @ msg @ [NL, NL] \<and> local_files c' = local_files c"
    if cap: "MAX_BUF_SIZE \<le> cap" for cap
  proof -
    have c6: "length [] + length ''ERROR'' + 1 < cap" "length [] + length msg + 1 < cap"
      using cap assms(5) by (simp_all add: MAX_BUF_SIZE_def)
    obtain st2 c2 where 2: "read_line cap True [] (start_read bytes) c1 = Ok ([] @ ''ERROR'' @ [NL], st2) c2"
      "pending st2 c2 = msg @ NL # r" "reader_ok st2 c2" "only_read c1 c2"
      using read_line_ok [OF 1(2,3) _ _ c6(1), of True] by auto
    obtain st3 c3 where 3: "read_line cap True [] st2 c2 = Ok ([] @ msg @ [NL], st3) c3" "only_read c2 c3"
      using read_line_ok [OF 2(3,2) assms(3,4) c6(2), of True] by blast
    have "cstr (msg @ [NL]) = msg @ [NL]" using assms(4) by (intro cstr_id) simp
    with 2(1) 3 only_read_fields [OF only_read_trans [OF only_read_trans [OF 1(4) 2(4)] 3(2)]]
    show ?thesis
      by (simp add: status_error print_error_message_def print_text_def)
  qed
  have m: "MAX_BUF_SIZE \<le> GET_BUF_SIZE" by (simp add: MAX_BUF_SIZE_def GET_BUF_SIZE_def)
  show ?thesis
  proof (cases v)
    case GET
    with assms(7) 1(1) e [OF m] show ?thesis
      by (auto simp: receive_response_def handle_get_response_def)
  next
    case PUT
    with 1(1) e [OF le_refl] show ?thesis
      by (auto simp: receive_response_def handle_put_response_def)
  next
    case DELETE
    with 1(1) e [OF le_refl] show ?thesis
      by (auto simp: receive_response_def handle_delete_response_def)
  next
    case LIST
    with 1(1) e [OF le_refl] show ?thesis
      by (auto simp: receive_response_def handle_list_response_def)
  qed (use assms(6) in simp)
qed

section \<open>An upload that succeeds leaves the server ready\<close>

definition uploaded :: "string \<Rightarrow> nat \<Rightarrow> string \<Rightarrow> 'v server \<Rightarrow> 'v server \<Rightarrow> bool" where
  "uploaded name k body w w' \<longleftrightarrow> outs w' k = outs w k @ ''OK'' @ [NL] \<and>
     fopen_rb (fullpath w name) w' = Some body \<and> live (sends w') \<and> mem w' \<and>
     base_temp_dir w' = base_temp_dir w"

lemma uploaded_same: "uploaded name k body w w1 \<Longrightarrow> same_world (w1\<lparr>watched := x\<rparr>) w' \<Longrightarrow> uploaded name k body w w'"
  unfolding uploaded_def same_world_def fopen_rb_def by simp

lemma finish_uploaded:
  assumes "put_inv name w0 k (put_header name @ insert_size_into_mem (length body) @ body) (w, s)"
    and "length body < 2 ^ 64"
  shows "\<exists>w' s'. finish V (w, s) = Inr (w', s') \<and> uploaded name k body w0 w'"
proof -
  let ?d = "insert_size_into_mem (length body) @ body"
  from assms(1) have env: "put_env name w0 k (w, s)" and stage: "put_stage name w0 ?d (w, s)"
    by (auto simp: put_inv_def put_header_def)
  have "size_at ?d 0 = length body"
    using size_at_value [OF assms(2), of "[]" body] by simp
  with stage obtain i where s: "filename s = name" "state s = STATE_READING_PUT_DATA"
    "totalBytesForPut s = length body" "totalWritten s = length body"
    "fd s = Some \<lparr>fh_inode = i, fh_pos = length body\<rparr>"
    "names w = (names w0)(fullpath w name \<mapsto> i)" "content w i = body"
    by (auto simp: put_stage_def insert_size_into_mem_def)
  have p: "fullpath w name = fullpath w0 name" using env by (simp add: put_env_def fullpath_def)
  have "finish V (w, s) = sending_put_response V ''OK'' None (w, s)"
    using s by (simp add: finish_def finish_upload_def)
  with env s p show ?thesis
    by (simp add: sending_put_response_def send_header_response_alt Let_def uploaded_def put_env_def
        fopen_rb_def)
qed

lemma upload_ok_run:
  assumes "ready_for sock name w" and "name_ok name" and "chunks_ok (concat css @ cs)"
    and "concat css @ cs = (put_header name @ d0) # r" and "length body < 2 ^ 64"
    and "concat (concat css @ cs) = put_header name @ insert_size_into_mem (length body) @ body"
  shows "\<exists>w'. event_loop V (upload_events sock css cs) w = Inr w' \<and> uploaded name sock body w w' \<and>
           session_at (sock_key sock) w' = None \<and> others (sock_key sock) w w'"
proof (rule upload_run [OF assms(1-4)])
  fix w1 :: "'a server" and s1
  assume "put_inv name w sock (concat (concat css @ cs)) (w1, s1)"
  then show "\<exists>w2 s2. finish V (w1, s1) = Inr (w2, s2) \<and> uploaded name sock body w w2"
    unfolding assms(6) by (rule finish_uploaded [OF _ assms(5)])
qed (rule uploaded_same)

section \<open>Both programs together\<close>

lemma send_request_live:
  assumes "live (send_outcomes c)" and "length (create_message verb fname) < MAX_BUF_SIZE" and "v \<noteq> Client.PUT"
  shows "\<exists>c'. send_request v verb fname f2 c = Ok () c' \<and> sent_more (create_message verb fname) c c'"
proof -
  have "create_message verb fname \<noteq> []" by (simp add: create_message_def split: option.split)
  then obtain c' where "client_send_all (create_message verb fname) c = Ok () c'"
    "sent_more (create_message verb fname) c c'"
    using client_send_all_live [OF assms(1)] by blast
  with assms(2,3) show ?thesis by (simp add: send_request_def Let_def)
qed

lemma send_request_put:
  assumes "live (send_outcomes c)" and "length remote + 5 < MAX_BUF_SIZE" and "remote \<noteq> []"
    and "local_files c f = Some b" and "b \<noteq> []"
  shows "\<exists>c'. send_request Client.PUT ''PUT'' (Some remote) (Some f) c = Ok () c' \<and>
    sent_bytes c' = sent_bytes c @ put_header remote @ insert_size_into_mem (length b) @ b"
proof -
  have m: "create_message ''PUT'' (Some remote) = put_header remote" "put_header remote \<noteq> []"
    using assms(3) by (simp_all add: create_message_def put_header_def)
  obtain c1 where c1: "client_send_all (put_header remote) c = Ok () c1" "sent_more (put_header remote) c c1"
    using client_send_all_live [OF assms(1) m(2)] by blast
  have "local_files c1 f = Some b" using c1(2) assms(4) by (auto simp: sent_more_def)
  then obtain c2 where "send_file f c1 = Ok () c2"
    "sent_more (insert_size_into_mem (length b) @ b) c1 c2"
    using send_file_live [OF sent_more_live [OF c1(2)] _ assms(5)] by blast
  with c1 m assms(2) show ?thesis
    by (auto simp: send_request_def Let_def sent_more_def)
qed


text \<open>A client with a local file and a reliable connection.\<close>

definition some_client :: client where
  "some_client = \<lparr>incoming = [], sent_bytes = [], send_outcomes = [], stdout = [],
     local_files = [''f'' \<mapsto> ''xyz''], can_write = (\<lambda>_. True), file_writes = []\<rparr>"

lemma receive_nothing:
  "incoming c = [] \<Longrightarrow> receive_response Client.GET (Some g) c = Quit 1 (print_invalid_response c)"
  by (simp add: receive_response_def handle_get_response_def sock_read_def start_read_def
      read_line.simps read_next_def)


section \<open>Listings and errors\<close>



text \<open>Whatever was asked for, an error answer makes the client print its message, leave the local files
  alone and exit with 1, in whatever pieces the answer arrives.\<close>

theorem client_reports_error:
  assumes "smooth (incoming c)" and "answer_of c = ''ERROR'' @ [NL] @ msg @ [NL] @ r"
    and "NL \<notin> set msg" and "NUL \<notin> set msg" and "length msg + 1 < MAX_BUF_SIZE" and "v \<noteq> V_UNKNOWN"
    and "f \<noteq> None"
  shows "\<exists>c'. receive_response v f c = Quit 1 c' \<and> stdout c' = stdout c @ msg @ [NL, NL] \<and>
    local_files c' = local_files c"
  by (rule receive_error [OF assms])

theorem client_reports_error_witness:
  "\<exists>c'. receive_response Client.GET (Some ''g'')
      (some_client\<lparr>incoming := [Got ''ER'', Got (''ROR'' @ [NL] @ ''No''), Got [NL]]\<rparr>) = Quit 1 c' \<and>
    stdout c' = ''No'' @ [NL, NL] \<and> local_files c' = local_files some_client"
  using client_reports_error [of "some_client\<lparr>incoming := [Got ''ER'', Got (''ROR'' @ [NL] @ ''No''), Got [NL]]\<rparr>"
      "''No''" "[]" Client.GET "Some ''g''"]
  by (simp add: smooth_def answer_of_def MAX_BUF_SIZE_def) (simp add: some_client_def)

section \<open>Where the client breaks its promises\<close>

text \<open>
  An empty file cannot be uploaded: the size 0 is sent and then the first \<open>fread\<close>, which returns
  nothing, is taken for an error.
\<close>

theorem empty_upload_fails:
  assumes "live (send_outcomes c)" and "local_files c f = Some []"
  shows "\<exists>c'. send_file f c = Quit 1 c' \<and> sent_bytes c' = sent_bytes c @ insert_size_into_mem 0"
proof -
  have "insert_size_into_mem 0 \<noteq> []"
    by (metis insert_size_into_mem_def length_0_conv length_le_bytes zero_neq_numeral)
  then obtain c1 where "client_send_all (insert_size_into_mem 0) c = Ok () c1"
    "sent_more (insert_size_into_mem 0) c c1"
    using client_send_all_live [OF assms(1)] by blast
  with assms(2) show ?thesis
    by (intro exI [of _ c1]) (auto simp: send_file_def send_file_loop.simps sent_more_def)
qed

text \<open>Once the socket is at its end, reading changes nothing but the reader.\<close>

lemma read_next_drained: "read_next st c = Ok r c' \<Longrightarrow> incoming c = [] \<Longrightarrow> c' = c"
  by (auto simp: read_next_def sock_read_def split: if_splits list.splits)

lemma read_line_drained:
  "read_line cap e acc st c = Ok r c' \<Longrightarrow> incoming c = [] \<Longrightarrow> c' = c"
proof (induction cap e acc st c rule: read_line.induct)
  case (1 cap e acc st c)
  show ?case
  proof (cases "read_next st c")
    case (Ok p c1)
    have "c1 = c" by (rule read_next_drained [OF Ok "1.prems"(2)])
    obtain x st1 where p: "p = (x, st1)" by (cases p)
    with Ok "1.prems" "1.IH" \<open>c1 = c\<close> show ?thesis
      by (subst (asm) read_line.simps) (auto split: option.splits if_splits)
  qed (use "1.prems" in \<open>simp_all add: read_line.simps\<close>)
qed

lemma read_size_drained:
  assumes "read_size st c = Ok r c'" and "incoming c = []"
  shows "c' = c"
proof -
  have "read_size_loop n acc st c = Ok q c' \<Longrightarrow> c' = c" for n acc st q
  proof (induction n arbitrary: acc st)
    case (Suc n)
    then show ?case
      by (cases "read_next st c") (auto split: option.splits dest: read_next_drained [OF _ assms(2)])
  qed simp
  with assms(1) show ?thesis
    by (cases "read_size_loop 8 [] st c") (auto simp: read_size_def)
qed

text \<open>
  The length of a download is compared with the declared size only where a later read returns
  something: bytes too many in the first piece go into the file, and too few are reported, but the
  client exits with 0 either way.
\<close>

theorem wrong_length_unnoticed:
  assumes "incoming c = [Got (''OK'' @ [NL] @ le_bytes 8 n @ b)]" and "n < 2 ^ 64"
    and "length b + 11 \<le> MAX_BUF_SIZE" and "can_write c f" and "0 \<notin> set (file_writes c)"
  shows "\<exists>c'. receive_response Client.GET (Some f) c = Quit 0 c' \<and> local_files c' f = Some b"
proof -
  let ?a = "''OK'' @ [NL] @ le_bytes 8 n @ b" and ?c1 = "c\<lparr>incoming := []\<rparr>"
  have 1: "sock_read MAX_BUF_SIZE c = (Some ?a, ?c1)"
    using assms(1,3) by (simp add: sock_read_def)
  have r1: "reader_ok (start_read ?a) ?c1" "pending (start_read ?a) ?c1 = ''OK'' @ [NL] @ le_bytes 8 n @ b"
    by (simp_all add: reader_ok_def start_read_def smooth_def pending_def)
  obtain st2 c2 where 2: "read_line GET_BUF_SIZE True [] (start_read ?a) ?c1 = Ok (''OK'' @ [NL], st2) c2"
    "pending st2 c2 = le_bytes 8 n @ b" "reader_ok st2 c2" "only_read ?c1 c2"
    using read_ok_line [OF r1, of GET_BUF_SIZE True] by (auto simp: GET_BUF_SIZE_def)
  have d2: "c2 = ?c1" using read_line_drained [OF 2(1)] by simp
  let ?c2 = "c2\<lparr>local_files := (local_files c2)(f \<mapsto> [])\<rparr>"
  have p2: "pending st2 ?c2 = le_bytes 8 n @ b" "reader_ok st2 ?c2"
    using 2(2,3) by (simp_all add: pending_def reader_ok_def)
  obtain st3 c3 where 3: "read_size st2 ?c2 = Ok (n, st3) c3" "pending st3 c3 = b"
    using read_size_ok [OF p2(2,1) assms(2)] by blast
  have d3: "c3 = ?c2" using read_size_drained [OF 3(1)] d2 by simp
  have i: "incoming c3 = []" "local_files c3 f = Some []" "0 \<notin> set (file_writes c3)" "can_write c2 f"
    using d2 d3 assms(4,5) by simp_all
  then have b: "rest st3 = b" using 3(2) by (simp add: pending_def)
  note w = client_write_all_ok [OF i(3,2), of b]
  let ?c4 = "client_write_all f b c3"
  have "sock_read GET_BUF_SIZE ?c4 = (Some [], ?c4)" using w(3) i(1) by (simp add: sock_read_def)
  then have "get_response_loop f n (length b) ?c4 = Ok (length b) ?c4"
    by (simp add: get_response_loop.simps)
  then have "receive_response Client.GET (Some f) c =
      Quit 0 (if length b < n then print_too_little_data ?c4 else ?c4)"
    using 1 2(1) 3(1) i(4) b
    by (simp add: receive_response_def handle_get_response_def status_ok Let_def)
  then show ?thesis using w(1) by (auto simp: print_too_little_data_def print_text_def)
qed

end
