(* ===== verification/Minixfs.thy ===== *)
theory Minixfs
  imports Wire
begin

text \<open>
  The disk of \<open>finding_filesystems\<close>: the structures of \<open>minixfs.h\<close> and the functions of
  \<open>minixfs_utils.c\<close>. The mapped image is a superblock, an array of inodes, and the bytes from
  \<open>data_root\<close> on: the data blocks and, behind them, the data map. These bytes are one memory,
  so a write that runs over the end of a block lands in the next block, or in the map. A pointer
  to an inode is its number, a pointer into the data its offset; forming a pointer outside of the
  two arrays is the fault \<open>OutOfBounds\<close>.
\<close>

section \<open>Constants\<close>

definition KILOBYTE :: nat where "KILOBYTE = 1024"
definition INODES_NUMBER :: nat where "INODES_NUMBER = 1024"
definition DATA_NUMBER :: nat where "DATA_NUMBER = 2 * KILOBYTE"
definition FILE_NAME_LENGTH :: nat where "FILE_NAME_LENGTH = 248"
definition FILE_NAME_ENTRY :: nat where "FILE_NAME_ENTRY = FILE_NAME_LENGTH + 8"
definition MAX_DIR_NAME_LEN :: nat where "MAX_DIR_NAME_LEN = 256"
definition NUM_DIRECT_BLOCKS :: nat where "NUM_DIRECT_BLOCKS = 11"
definition RWX_BITS_NUMBER :: nat where "RWX_BITS_NUMBER = 9"
definition INODE_SIZE :: nat where "INODE_SIZE = 8"

abbreviation UNASSIGNED_NODE :: int where "UNASSIGNED_NODE \<equiv> - 1"

text \<open>\<open>sizeof(data_block)\<close>, and the block numbers of four bytes that fit one block.\<close>

definition BLOCK_SIZE :: nat where "BLOCK_SIZE = 16 * KILOBYTE"
definition NUM_INDIRECT_BLOCKS :: nat where "NUM_INDIRECT_BLOCKS = BLOCK_SIZE div 4"

definition sizeof_superblock :: nat where "sizeof_superblock = 24"
definition sizeof_inode :: nat where "sizeof_inode = 120"

text \<open>The file types kept in a mode above its permission bits.\<close>

definition TYPE_FILE :: "16 word" where "TYPE_FILE = 1"
definition TYPE_DIRECTORY :: "16 word" where "TYPE_DIRECTORY = 2"
definition TYPE_SINGLE_INDIRECT :: "16 word" where "TYPE_SINGLE_INDIRECT = 3"
definition TYPE_PIPE :: "16 word" where "TYPE_PIPE = 4"

section \<open>State\<close>

type_synonym timespec = "int \<times> int"
type_synonym inode_ptr = nat

record superblock =
  sb_size :: nat
  inode_count :: nat
  dblock_count :: nat

record inode =
  uid :: addr32
  gid :: addr32
  mode :: "16 word"
  nlink :: nat
  atim :: timespec
  mtim :: timespec
  ctim :: timespec
  fsize :: nat
  direct :: "int list"
  indirect :: int

datatype errno = ENOENT | ENOSPC | ENOTDIR

text \<open>
  The file system and what it takes from the machine: \<open>now\<close> is what \<open>clock_gettime\<close> reads,
  \<open>coins\<close> the parities that \<open>rand\<close> still gives (an exhausted list gives odd numbers),
  \<open>last_error\<close> is \<open>errno\<close>.
\<close>

record filesys =
  meta :: superblock
  inode_root :: "inode list"
  disk :: "nat \<Rightarrow> char"
  now :: timespec
  coins :: "bool list"
  last_error :: "errno option"

definition node :: "filesys \<Rightarrow> inode_ptr \<Rightarrow> inode" where
  "node fs n = inode_root fs ! n"

definition set_node :: "inode_ptr \<Rightarrow> inode \<Rightarrow> filesys \<Rightarrow> filesys" where
  "set_node n x fs = fs\<lparr>inode_root := (inode_root fs)[n := x]\<rparr>"

section \<open>Bytes of the image\<close>

definition load_text :: "(nat \<Rightarrow> char) \<Rightarrow> nat \<Rightarrow> nat \<Rightarrow> string" where
  "load_text m p n = map m [p..<p + n]"

definition store_text :: "nat \<Rightarrow> string \<Rightarrow> (nat \<Rightarrow> char) \<Rightarrow> nat \<Rightarrow> char" where
  "store_text p bs m = (\<lambda>a. if p \<le> a \<and> a < p + length bs then bs ! (a - p) else m a)"

definition put_text :: "nat \<Rightarrow> string \<Rightarrow> filesys \<Rightarrow> filesys" where
  "put_text p bs fs = fs\<lparr>disk := store_text p bs (disk fs)\<rparr>"

text \<open>A block number in memory: four bytes of a signed integer.\<close>

definition int_bytes :: "int \<Rightarrow> string" where
  "int_bytes i = le_bytes 4 (nat (i mod 2 ^ 32))"

definition load_int :: "(nat \<Rightarrow> char) \<Rightarrow> nat \<Rightarrow> int" where
  "load_int m p = (let v = int (le_value (load_text m p 4)) in if v < 2 ^ 31 then v else v - 2 ^ 32)"

text \<open>\<open>data_root + b\<close>, as an offset from \<open>data_root\<close>.\<close>

definition block_addr :: "filesys \<Rightarrow> int \<Rightarrow> nat result" where
  "block_addr fs b =
     (if 0 \<le> b \<and> b < int (dblock_count (meta fs)) then Inr (nat b * BLOCK_SIZE) else Inl OutOfBounds)"

section \<open>The data map\<close>

text \<open>\<open>GET_DATA_MAP\<close>: the last \<open>dblock_count\<close> bytes of the image, as an offset from \<open>data_root\<close>.\<close>

definition map_base :: "filesys \<Rightarrow> nat" where
  "map_base fs = sb_size (meta fs) - dblock_count (meta fs) - sizeof_superblock - sizeof_inode * inode_count (meta fs)"

definition signed_char :: "char \<Rightarrow> int" where
  "signed_char c = (let v = of_char c in if v < 128 then v else v - 256)"

definition set_data_used :: "int \<Rightarrow> int \<Rightarrow> filesys \<Rightarrow> filesys" where
  "set_data_used b used fs =
     (let used = (if used \<noteq> 0 then 1 else 0 :: nat) in
      if b < 0 \<or> int (dblock_count (meta fs)) \<le> b then fs
      else put_text (map_base fs + nat b) [char_of used] fs)"

definition get_data_used :: "filesys \<Rightarrow> int \<Rightarrow> int" where
  "get_data_used fs b =
     (if b < 0 \<or> int (dblock_count (meta fs)) \<le> b then UNASSIGNED_NODE
      else signed_char (disk fs (map_base fs + nat b)))"

definition free_data_block :: "int \<Rightarrow> filesys \<Rightarrow> filesys" where
  "free_data_block b fs = set_data_used b 0 fs"

text \<open>\<open>rand() % 2\<close>.\<close>

fun flip :: "bool list \<Rightarrow> bool \<times> bool list" where
  "flip [] = (True, [])"
| "flip (c # cs) = (c, cs)"

text \<open>
  One pass of the loop of \<open>first_unused_data\<close>: a free block is taken when the coin says so. The
  result is the block, if one was taken, the blocks counted as filled, and the coins left.
\<close>

fun scan_data :: "filesys \<Rightarrow> nat list \<Rightarrow> nat \<Rightarrow> bool list \<Rightarrow> nat option \<times> nat \<times> bool list" where
  "scan_data fs [] filled cs = (None, filled, cs)"
| "scan_data fs (i # is) filled cs =
     (if get_data_used fs (int i) = 0
      then let (c, cs') = flip cs in if c then (Some i, filled, cs') else scan_data fs is filled cs'
      else scan_data fs is (filled + 1) cs)"

lemma scan_data_coins:
  "scan_data fs is filled cs = (r, filled', cs') \<Longrightarrow>
     length cs' \<le> length cs \<and> (r = None \<longrightarrow> filled' = filled + length is \<or> length cs' < length cs)"
  by (induction "is" arbitrary: filled cs)
    (fastforce split: if_splits prod.splits elim: flip.elims)+

text \<open>The passes repeat until a block is taken or all are filled.\<close>

function first_unused_loop :: "filesys \<Rightarrow> nat \<Rightarrow> bool list \<Rightarrow> nat option \<times> bool list" where
  "first_unused_loop fs filled cs =
     (if filled < dblock_count (meta fs)
      then case scan_data fs [0..<dblock_count (meta fs)] 0 cs of
             (Some i, _, cs') \<Rightarrow> (Some i, cs')
           | (None, filled', cs') \<Rightarrow> first_unused_loop fs filled' cs'
      else (None, cs))"
  by pat_completeness auto
termination
  by (relation "measure (\<lambda>(fs, filled, cs). length cs + (if filled < dblock_count (meta fs) then 1 else 0))")
    (auto dest!: scan_data_coins [OF sym])

declare first_unused_loop.simps [simp del]

definition first_unused_data :: "filesys \<Rightarrow> int \<times> filesys" where
  "first_unused_data fs =
     (let (r, cs) = first_unused_loop fs 0 (coins fs) in
      (case r of None \<Rightarrow> - 1 | Some i \<Rightarrow> int i, fs\<lparr>coins := cs\<rparr>))"

section \<open>Inodes\<close>

text \<open>The permissions are the low nine bits: \<open>0777\<close> is 511, \<open>0755\<close> is 493.\<close>

text \<open>\<open>node->nlink\<close> of an index that may lie outside of the array.\<close>

fun free_inode_index :: "filesys \<Rightarrow> nat list \<Rightarrow> int result" where
  "free_inode_index fs [] = Inr (- 1)"
| "free_inode_index fs (i # is) =
     (if length (inode_root fs) \<le> i then Inl OutOfBounds
      else if nlink (node fs i) = 0 then Inr (int i) else free_inode_index fs is)"

definition first_unused_inode :: "filesys \<Rightarrow> int result" where
  "first_unused_inode fs = free_inode_index fs [1..<INODES_NUMBER]"

definition is_file :: "inode \<Rightarrow> bool" where
  "is_file x \<longleftrightarrow> drop_bit RWX_BITS_NUMBER (mode x) = TYPE_FILE"

definition is_directory :: "inode \<Rightarrow> bool" where
  "is_directory x \<longleftrightarrow> drop_bit RWX_BITS_NUMBER (mode x) = TYPE_DIRECTORY"

definition init_inode :: "inode \<Rightarrow> timespec \<Rightarrow> inode" where
  "init_inode parent t =
     \<lparr>uid = uid parent, gid = gid parent,
      mode = push_bit RWX_BITS_NUMBER TYPE_FILE OR (mode parent AND 511), nlink = 1,
      atim = t, mtim = t, ctim = t, fsize = 0,
      direct = replicate NUM_DIRECT_BLOCKS UNASSIGNED_NODE, indirect = UNASSIGNED_NODE\<rparr>"

text \<open>
  \<open>free_inode\<close> frees the direct blocks, the first \<open>NUM_DIRECT_BLOCKS\<close> blocks of the indirect
  block (it has more) and the indirect block, none of which it takes out of the inode.
\<close>

definition free_blocks :: "int list \<Rightarrow> filesys \<Rightarrow> filesys" where
  "free_blocks bs fs = fold (\<lambda>b fs. if b \<noteq> UNASSIGNED_NODE then free_data_block b fs else fs) bs fs"

definition indirect_entry :: "filesys \<Rightarrow> nat \<Rightarrow> nat \<Rightarrow> int" where
  "indirect_entry fs p i = load_int (disk fs) (p + 4 * i)"

fun free_indirect :: "nat \<Rightarrow> nat list \<Rightarrow> filesys \<Rightarrow> filesys" where
  "free_indirect p [] fs = fs"
| "free_indirect p (i # is) fs =
     (let b = indirect_entry fs p i in
      free_indirect p is (if b \<noteq> UNASSIGNED_NODE then free_data_block b fs else fs))"

definition free_inode :: "inode_ptr \<Rightarrow> filesys \<Rightarrow> filesys result" where
  "free_inode n fs =
     (let fs = set_node n ((node fs n)\<lparr>nlink := 0\<rparr>) fs;
          fs = free_blocks (direct (node fs n)) fs in
      if indirect (node fs n) \<noteq> UNASSIGNED_NODE
      then rbind (block_addr fs (indirect (node fs n))) (\<lambda>p.
             Inr (free_data_block (indirect (node fs n)) (free_indirect p [0..<NUM_DIRECT_BLOCKS] fs)))
      else Inr (free_data_block (indirect (node fs n)) fs))"

section \<open>Directory entries\<close>

text \<open>\<open>strtoll(s, NULL, 16)\<close> of at most eight characters.\<close>

definition hex_digit :: "char \<Rightarrow> nat option" where
  "hex_digit c =
     (let v = of_char c in
      if 48 \<le> v \<and> v \<le> 57 then Some (v - 48)
      else if 97 \<le> v \<and> v \<le> 102 then Some (v - 87)
      else if 65 \<le> v \<and> v \<le> 70 then Some (v - 55) else None)"

fun hex_value :: "nat \<Rightarrow> string \<Rightarrow> nat" where
  "hex_value acc [] = acc"
| "hex_value acc (c # cs) = (case hex_digit c of None \<Rightarrow> acc | Some d \<Rightarrow> hex_value (16 * acc + d) cs)"

definition skip_0x :: "string \<Rightarrow> string" where
  "skip_0x s =
     (case s of
        z # x # d # _ \<Rightarrow> if z = CHR ''0'' \<and> (x = CHR ''x'' \<or> x = CHR ''X'') \<and> hex_digit d \<noteq> None
                       then drop 2 s else s
      | _ \<Rightarrow> s)"

definition strtoll16 :: "string \<Rightarrow> int" where
  "strtoll16 s =
     (case dropWhile (\<lambda>c. c \<in> {SP, CHR 0x09, NL, CHR 0x0B, CHR 0x0C, CHR 0x0D}) s of
        [] \<Rightarrow> 0
      | c # cs \<Rightarrow> if c = CHR ''-'' then - int (hex_value 0 (skip_0x cs))
                  else if c = CHR ''+'' then int (hex_value 0 (skip_0x cs))
                  else int (hex_value 0 (skip_0x (c # cs))))"

text \<open>The conversion of a \<open>long\<close> to an \<open>int\<close> keeps the low 32 bits.\<close>

definition to_int :: "int \<Rightarrow> int" where
  "to_int i = (let v = i mod 2 ^ 32 in if v < 2 ^ 31 then v else v - 2 ^ 32)"

text \<open>The inode number of the entry at \<open>p\<close>, if it has one; its name starts at \<open>p\<close>.\<close>

definition make_dirent_from_string :: "filesys \<Rightarrow> nat \<Rightarrow> int option" where
  "make_dirent_from_string fs p =
     (let v = strtoll16 (load_text (disk fs) (p + FILE_NAME_LENGTH) INODE_SIZE) in
      if v = 0 then None else Some (to_int v))"

text \<open>\<open>sprintf\<close> with \<open>"%08zx"\<close>: at least eight digits, and a terminator.\<close>

fun hex_digits :: "nat \<Rightarrow> string" where
  "hex_digits n = (if n = 0 then [] else hex_digits (n div 16) @ [''0123456789abcdef'' ! (n mod 16)])"

declare hex_digits.simps [simp del]

definition hex_text :: "nat \<Rightarrow> string" where
  "hex_text n = (let d = hex_digits n in replicate (8 - length d) (CHR ''0'') @ d)"

definition make_string_from_dirent :: "nat \<Rightarrow> string \<Rightarrow> int \<Rightarrow> filesys \<Rightarrow> filesys" where
  "make_string_from_dirent p name ino fs =
     (let cpy = take FILE_NAME_LENGTH (name @ replicate FILE_NAME_LENGTH NUL) in
      put_text (p + FILE_NAME_LENGTH) (hex_text (nat (ino mod 2 ^ 64)) @ [NUL]) (put_text p cpy fs))"

text \<open>\<open>strcmp\<close> of a name with the string at \<open>p\<close>; the name has no \<open>NUL\<close>.\<close>

definition name_is :: "filesys \<Rightarrow> nat \<Rightarrow> string \<Rightarrow> bool" where
  "name_is fs p name \<longleftrightarrow> load_text (disk fs) p (length name + 1) = name @ [NUL]"

section \<open>Lookup\<close>

text \<open>
  The data block that slot \<open>idx\<close> of a block array names: the array of the inode, or (\<open>ind\<close>)
  the one in its indirect block.
\<close>

definition slot_block :: "filesys \<Rightarrow> inode \<Rightarrow> bool \<Rightarrow> nat \<Rightarrow> nat result" where
  "slot_block fs x ind idx =
     (if ind then rbind (block_addr fs (indirect x)) (\<lambda>p. block_addr fs (indirect_entry fs p idx))
      else block_addr fs (direct x ! idx))"

text \<open>
  The loops over a directory consume its size an entry at a time; a size that is not a multiple
  of the entry would wrap around and the loop run away over the image, which is the fault
  \<open>SizeWrap\<close>. \<open>prev\<close> is the variable filled by \<open>make_dirent_from_string\<close>: an entry without a
  number leaves the one before in it.
\<close>

fun scan_entries ::
  "filesys \<Rightarrow> string \<Rightarrow> nat \<Rightarrow> nat \<Rightarrow> nat \<Rightarrow> (int \<times> nat) option \<Rightarrow> (int option \<times> nat \<times> (int \<times> nat) option) result"
where
  "scan_entries fs name 0 p left prev = Inr (None, left, prev)"
| "scan_entries fs name (Suc k) p left prev =
     (if left = 0 then Inr (None, left, prev)
      else let prev' = (case make_dirent_from_string fs p of Some i \<Rightarrow> Some (i, p) | None \<Rightarrow> prev) in
        case prev' of
          None \<Rightarrow> Inl Uninitialised
        | Some (i, q) \<Rightarrow>
            if name_is fs q name then Inr (Some i, left, prev')
            else if left < FILE_NAME_ENTRY then Inl SizeWrap
            else scan_entries fs name k (p + FILE_NAME_ENTRY) (left - FILE_NAME_ENTRY) prev')"

lemma scan_entries_left:
  "scan_entries fs name k p left prev = Inr (r, left', prev') \<Longrightarrow>
     left' \<le> left \<and> (r = None \<longrightarrow> 0 < left \<longrightarrow> 0 < k \<longrightarrow> left' < left)"
proof (induction k arbitrary: p left prev)
  case (Suc k)
  then show ?case
    by (cases "k = 0") (fastforce simp: Let_def FILE_NAME_ENTRY_def split: if_splits option.splits prod.splits)+
qed simp

text \<open>
  The blocks of a directory in turn. The loop tests the slot of the inode even when it reads the
  slots of the indirect block.
\<close>

function find_loop ::
  "filesys \<Rightarrow> inode \<Rightarrow> string \<Rightarrow> bool \<Rightarrow> nat \<Rightarrow> nat \<Rightarrow> (int \<times> nat) option \<Rightarrow> int option result"
where
  "find_loop fs x name ind idx left prev =
     (if left = 0 \<or> direct x ! idx = UNASSIGNED_NODE then Inr None
      else case slot_block fs x ind idx of
        Inl e \<Rightarrow> Inl e
      | Inr p \<Rightarrow>
          (case scan_entries fs name (BLOCK_SIZE div FILE_NAME_ENTRY) p left prev of
             Inl e \<Rightarrow> Inl e
           | Inr (Some i, _, _) \<Rightarrow> Inr (Some i)
           | Inr (None, left', prev') \<Rightarrow>
               if idx + 1 = NUM_DIRECT_BLOCKS
               then if indirect x = UNASSIGNED_NODE then Inr None
                    else find_loop fs x name True 0 left' prev'
               else find_loop fs x name ind (idx + 1) left' prev'))"
  by pat_completeness auto
termination
  by (relation "measure (\<lambda>(fs, x, name, ind, idx, left, prev). left)")
    (force dest!: scan_entries_left simp: BLOCK_SIZE_def KILOBYTE_def FILE_NAME_ENTRY_def FILE_NAME_LENGTH_def)+

declare find_loop.simps [simp del]

text \<open>The pointer \<open>inode_root + inode_num\<close>.\<close>

definition inode_pointer :: "filesys \<Rightarrow> int \<Rightarrow> inode_ptr result" where
  "inode_pointer fs i =
     (if 0 \<le> i \<and> nat i < length (inode_root fs) then Inr (nat i) else Inl OutOfBounds)"

definition find_inode_named :: "filesys \<Rightarrow> inode_ptr \<Rightarrow> string \<Rightarrow> inode_ptr option result" where
  "find_inode_named fs dir name =
     rbind (find_loop fs (node fs dir) name False 0 (fsize (node fs dir)) None) (\<lambda>r.
     case r of None \<Rightarrow> Inr None | Some i \<Rightarrow> rbind (inode_pointer fs i) (\<lambda>n. Inr (Some n)))"

text \<open>The tokens that \<open>strtok\<close> cuts from a path.\<close>

abbreviation SLASH :: char where "SLASH \<equiv> CHR ''/''"

function tokens :: "string \<Rightarrow> string list" where
  "tokens path =
     (case dropWhile (\<lambda>c. c = SLASH) path of
        [] \<Rightarrow> []
      | c # cs \<Rightarrow> takeWhile (\<lambda>c. c \<noteq> SLASH) (c # cs) # tokens (dropWhile (\<lambda>c. c \<noteq> SLASH) (c # cs)))"
  by pat_completeness auto
termination
proof (relation "measure length")
  fix path c cs
  assume "dropWhile (\<lambda>c. c = SLASH) path = c # cs"
  then have "length (c # cs) \<le> length path" "c \<noteq> SLASH"
    using length_dropWhile_le [of "\<lambda>c. c = SLASH" path] hd_dropWhile [of "\<lambda>c. c = SLASH" path] by auto
  then show "(dropWhile (\<lambda>c. c \<noteq> SLASH) (c # cs), path) \<in> measure length"
    using length_dropWhile_le [of "\<lambda>c. c \<noteq> SLASH" cs] by simp
qed simp

declare tokens.simps [simp del]

fun walk :: "filesys \<Rightarrow> inode_ptr \<Rightarrow> string list \<Rightarrow> inode_ptr option result" where
  "walk fs n [] = Inr (Some n)"
| "walk fs n (t # ts) =
     (if \<not> is_directory (node fs n) then Inr None
      else case find_inode_named fs n t of
        Inl e \<Rightarrow> Inl e
      | Inr None \<Rightarrow> Inr None
      | Inr (Some m) \<Rightarrow> walk fs m ts)"

text \<open>The root directory is inode 0.\<close>

definition get_inode :: "filesys \<Rightarrow> string \<Rightarrow> inode_ptr option result" where
  "get_inode fs path =
     (if path = [] then Inr (Some 0)
      else if hd path \<noteq> SLASH then Inr None
      else walk fs 0 (tokens path))"

text \<open>
  \<open>parent_directory\<close>: the path up to its last slash, which a path without a slash looks for in
  front of the string, and the name behind it.
\<close>

definition parent_part :: "string \<Rightarrow> string" where
  "parent_part path = rev (dropWhile (\<lambda>c. c \<noteq> SLASH) (rev path))"

definition name_part :: "string \<Rightarrow> string" where
  "name_part path = rev (takeWhile (\<lambda>c. c \<noteq> SLASH) (rev path))"

definition parent_directory :: "filesys \<Rightarrow> string \<Rightarrow> (inode_ptr option \<times> string) result" where
  "parent_directory fs path =
     (if SLASH \<notin> set path then Inl OutOfBounds
      else rbind (get_inode fs (parent_part path)) (\<lambda>nody. Inr (nody, name_part path)))"

definition valid_filename :: "string \<Rightarrow> bool" where
  "valid_filename name \<longleftrightarrow> name \<noteq> [] \<and> SLASH \<notin> set name"

text \<open>The path relative to the virtual directory, if the path is in it.\<close>

definition is_virtual_path :: "string \<Rightarrow> string option" where
  "is_virtual_path path =
     (let v = ''/virtual'' in
      if path = v then Some []
      else if take (length v) path = v
      then (case drop (length v) path of c # r \<Rightarrow> if c = SLASH then Some r else None | [] \<Rightarrow> None)
      else None)"

section \<open>Making a file system\<close>

definition zero_inode :: inode where
  "zero_inode = \<lparr>uid = 0, gid = 0, mode = 0, nlink = 0, atim = (0, 0), mtim = (0, 0), ctim = (0, 0),
     fsize = 0, direct = replicate NUM_DIRECT_BLOCKS 0, indirect = 0\<rparr>"

definition image_size :: nat where
  "image_size = sizeof_superblock + DATA_NUMBER + sizeof_inode * INODES_NUMBER + BLOCK_SIZE * DATA_NUMBER"

definition minixfs_mkfs :: "bool \<Rightarrow> timespec \<Rightarrow> bool list \<Rightarrow> filesys result" where
  "minixfs_mkfs can_open t cs =
     (if \<not> can_open then Inl (Exit 1)
      else Inr \<lparr>meta = \<lparr>sb_size = image_size, inode_count = INODES_NUMBER, dblock_count = DATA_NUMBER\<rparr>,
        inode_root = zero_inode\<lparr>mode := 493 OR push_bit RWX_BITS_NUMBER TYPE_DIRECTORY,
            nlink := 1, atim := t, mtim := t, ctim := t,
            direct := replicate NUM_DIRECT_BLOCKS UNASSIGNED_NODE, indirect := UNASSIGNED_NODE\<rparr>
          # replicate (INODES_NUMBER - 1) zero_inode,
        disk = (\<lambda>_. NUL), now = t, coins = cs, last_error = None\<rparr>)"

end
