(* ===== verification/MinixfsOps.thy ===== *)
theory MinixfsOps
  imports Minixfs
begin

text \<open>
  The operations of the file system: \<open>minixfs.c\<close> and \<open>minixfs_provided.c\<close>. An operation returns
  its result and the file system; what it stores through a pointer argument is a further result.
\<close>

section \<open>Allocating blocks\<close>

definition add_data_block_to_inode :: "inode_ptr \<Rightarrow> filesys \<Rightarrow> int \<times> filesys" where
  "add_data_block_to_inode n fs =
     (case List.find (\<lambda>i. direct (node fs n) ! i = - 1) [0..<NUM_DIRECT_BLOCKS] of
        None \<Rightarrow> (0, fs)
      | Some i \<Rightarrow>
          let (first_data, fs) = first_unused_data fs in
          if first_data = - 1 then (- 1, fs)
          else let x = node fs n in
            (first_data,
             set_data_used first_data 1 (set_node n (x\<lparr>direct := (direct x)[i := first_data]\<rparr>) fs)))"

text \<open>\<open>blocks\<close> points into the data.\<close>

definition add_data_block_to_indirect_block :: "nat \<Rightarrow> filesys \<Rightarrow> int \<times> filesys" where
  "add_data_block_to_indirect_block blocks fs =
     (case List.find (\<lambda>i. indirect_entry fs blocks i = UNASSIGNED_NODE) [0..<NUM_INDIRECT_BLOCKS] of
        None \<Rightarrow> (0, fs)
      | Some i \<Rightarrow>
          let (first_data, fs) = first_unused_data fs in
          if first_data = - 1 then (- 1, fs)
          else (first_data, set_data_used first_data 1 (put_text (blocks + 4 * i) (int_bytes first_data) fs)))"

definition add_single_indirect_block :: "inode_ptr \<Rightarrow> filesys \<Rightarrow> (int \<times> filesys) result" where
  "add_single_indirect_block n fs =
     (if indirect (node fs n) \<noteq> UNASSIGNED_NODE then Inr (0, fs)
      else let (first_data, fs) = first_unused_data fs in
        if first_data = - 1 then Inr (- 1, fs)
        else let fs = set_data_used first_data 1 (set_node n ((node fs n)\<lparr>indirect := first_data, nlink := 1\<rparr>) fs) in
          rbind (block_addr fs first_data) (\<lambda>p.
          Inr (0, put_text p (concat (replicate NUM_INDIRECT_BLOCKS (int_bytes UNASSIGNED_NODE))) fs)))"

section \<open>Creating a file\<close>

text \<open>
  \<open>get_offset_char\<close> knows the direct blocks only, and does not look whether there is one.
\<close>

definition get_offset_char :: "filesys \<Rightarrow> inode_ptr \<Rightarrow> nat \<Rightarrow> nat result" where
  "get_offset_char fs n offset =
     (let index_of_db = offset div BLOCK_SIZE; db_offset = offset mod BLOCK_SIZE in
      if NUM_DIRECT_BLOCKS \<le> index_of_db then Inl OutOfBounds
      else rbind (block_addr fs (direct (node fs n) ! index_of_db)) (\<lambda>p. Inr (p + db_offset)))"

definition minixfs_create_inode_for_path :: "filesys \<Rightarrow> string \<Rightarrow> (inode_ptr option \<times> filesys) result" where
  "minixfs_create_inode_for_path fs path =
     rbind (get_inode fs path) (\<lambda>i_node.
     if i_node \<noteq> None then Inr (None, fs)
     else if SLASH \<notin> set path then Inl OutOfBounds
     else let filename = name_part path; parent_path = parent_part path in
       if \<not> valid_filename filename then Inr (None, fs)
       else rbind (get_inode fs parent_path) (\<lambda>parent.
         case parent of
           None \<Rightarrow> Inr (None, fs)
         | Some parent_node \<Rightarrow>
             rbind (first_unused_inode fs) (\<lambda>ret_num.
             rbind (inode_pointer fs ret_num) (\<lambda>ret_node.
             let fs = set_node ret_node (init_inode (node fs parent_node) (now fs)) fs in
             rbind (get_offset_char fs parent_node (fsize (node fs parent_node))) (\<lambda>block.
             let fs = make_string_from_dirent block filename ret_num fs;
                 p = node fs parent_node in
             Inr (Some ret_node, set_node parent_node (p\<lparr>fsize := fsize p + FILE_NAME_ENTRY\<rparr>) fs))))))"

section \<open>Attributes\<close>

text \<open>
  The permissions are an \<open>int\<close>; the code shifts them by two and keeps the low two bits, and the
  result is cut to the sixteen bits of the field.
\<close>

definition minixfs_chmod :: "filesys \<Rightarrow> string \<Rightarrow> addr32 \<Rightarrow> (int \<times> filesys) result" where
  "minixfs_chmod fs path new_permissions =
     rbind (get_inode fs path) (\<lambda>i_node.
     case i_node of
       None \<Rightarrow> Inr (- 1, fs\<lparr>last_error := Some ENOENT\<rparr>)
     | Some n \<Rightarrow>
         let x = (node fs n)\<lparr>ctim := now fs\<rparr>; mask = push_bit 2 1 - 1 in
         Inr (0, set_node n (x\<lparr>mode := ucast (push_bit 2 new_permissions OR (ucast (mode x) AND mask))\<rparr>) fs))"

definition minixfs_chown :: "filesys \<Rightarrow> string \<Rightarrow> addr32 \<Rightarrow> addr32 \<Rightarrow> (int \<times> filesys) result" where
  "minixfs_chown fs path owner grp =
     rbind (get_inode fs path) (\<lambda>i_node.
     case i_node of
       None \<Rightarrow> Inr (- 1, fs\<lparr>last_error := Some ENOENT\<rparr>)
     | Some n \<Rightarrow>
         let x = (node fs n)\<lparr>ctim := now fs\<rparr>;
             x = (if owner \<noteq> - 1 then x\<lparr>uid := owner\<rparr> else x);
             x = (if grp \<noteq> - 1 then x\<lparr>gid := grp\<rparr> else x) in
         Inr (0, set_node n x fs))"

text \<open>\<open>TEST(set, flag)\<close>, and the flags of \<open>open\<close> and \<open>access\<close>.\<close>

definition TEST :: "addr32 \<Rightarrow> addr32 \<Rightarrow> bool" where
  "TEST flags flag \<longleftrightarrow> flags AND flag = flag"

definition O_CREAT :: addr32 where "O_CREAT = 64"
definition F_OK :: addr32 where "F_OK = 0"
definition R_OK :: addr32 where "R_OK = 4"
definition W_OK :: addr32 where "W_OK = 2"
definition X_OK :: addr32 where "X_OK = 1"

definition minixfs_access :: "filesys \<Rightarrow> string \<Rightarrow> addr32 \<Rightarrow> int result" where
  "minixfs_access fs path md =
     rbind (get_inode fs path) (\<lambda>i_node.
     case i_node of
       None \<Rightarrow> Inr (- 1)
     | Some n \<Rightarrow>
         if md = F_OK then Inr 0
         else let orig_mode = ucast (mode (node fs n)) AND 511 in
           Inr (if TEST md R_OK \<and> \<not> TEST orig_mode 256 then - 1
                else if TEST md W_OK \<and> \<not> TEST orig_mode 128 then - 1
                else if TEST md X_OK \<and> \<not> TEST orig_mode 64 then - 1 else 0))"

definition minixfs_mkdir :: "filesys \<Rightarrow> string \<Rightarrow> addr32 \<Rightarrow> (int \<times> filesys) result" where
  "minixfs_mkdir fs path md =
     rbind (minixfs_create_inode_for_path fs path) (\<lambda>(r, fs).
     case r of
       None \<Rightarrow> Inr (- 1, fs)
     | Some n \<Rightarrow>
         let x = node fs n; oldbits = mode x AND 511 in
         Inr (0, set_node n (x\<lparr>mode := push_bit RWX_BITS_NUMBER TYPE_DIRECTORY OR oldbits OR ucast md\<rparr>) fs))"

text \<open>The names in the virtual directory.\<close>

definition minixfs_virtual_path_names :: "string list" where
  "minixfs_virtual_path_names = [''info'']"

definition minixfs_open :: "filesys \<Rightarrow> string \<Rightarrow> addr32 \<Rightarrow> (int \<times> filesys) result" where
  "minixfs_open fs path flags =
     (case is_virtual_path path of
        Some v \<Rightarrow> Inr (if v = [] \<or> v \<in> set minixfs_virtual_path_names then 0 else 1, fs)
      | None \<Rightarrow>
          rbind (get_inode fs path) (\<lambda>i_node.
          case i_node of
            None \<Rightarrow>
              if TEST flags O_CREAT
              then rbind (minixfs_create_inode_for_path fs path) (\<lambda>(r, fs).
                     if r \<noteq> None then Inr (0, fs) else Inr (- 1, fs\<lparr>last_error := Some ENOENT\<rparr>))
              else Inr (- 1, fs\<lparr>last_error := Some ENOENT\<rparr>)
          | Some n \<Rightarrow> Inr (0, set_node n ((node fs n)\<lparr>atim := now fs\<rparr>) fs)))"

section \<open>Ensuring blocks\<close>

text \<open>
  The loops of \<open>minixfs_min_blockcount\<close>, over the slots \<open>is\<close>; the result is false when the disk is
  full. A new block is cleared through its slot.
\<close>

fun fill_direct :: "inode_ptr \<Rightarrow> nat list \<Rightarrow> filesys \<Rightarrow> (bool \<times> filesys) result" where
  "fill_direct n [] fs = Inr (True, fs)"
| "fill_direct n (i # is) fs =
     (if direct (node fs n) ! i = - 1
      then let (err, fs) = add_data_block_to_inode n fs in
        if err = - 1 then Inr (False, fs)
        else rbind (block_addr fs (direct (node fs n) ! i)) (\<lambda>p.
             fill_direct n is (put_text p (replicate BLOCK_SIZE NUL) fs))
      else fill_direct n is fs)"

fun fill_indirect :: "nat \<Rightarrow> nat list \<Rightarrow> filesys \<Rightarrow> (bool \<times> filesys) result" where
  "fill_indirect blocks [] fs = Inr (True, fs)"
| "fill_indirect blocks (i # is) fs =
     (if NUM_INDIRECT_BLOCKS \<le> i then Inl OutOfBounds
      else if indirect_entry fs blocks i = - 1
      then let (err, fs) = add_data_block_to_indirect_block blocks fs in
        if err = - 1 then Inr (False, fs)
        else rbind (block_addr fs (indirect_entry fs blocks i)) (\<lambda>p.
             fill_indirect blocks is (put_text p (replicate BLOCK_SIZE NUL) fs))
      else fill_indirect blocks is fs)"

definition minixfs_min_blockcount :: "filesys \<Rightarrow> string \<Rightarrow> nat \<Rightarrow> (int \<times> filesys) result" where
  "minixfs_min_blockcount fs path block_count =
     rbind (get_inode fs path) (\<lambda>r.
     rbind (case r of None \<Rightarrow> minixfs_create_inode_for_path fs path | Some n \<Rightarrow> Inr (Some n, fs)) (\<lambda>(nody, fs).
     case nody of
       None \<Rightarrow> Inr (- 1, fs)
     | Some n \<Rightarrow>
         if block_count < NUM_DIRECT_BLOCKS
         then rbind (fill_direct n [0..<block_count] fs) (\<lambda>(ok, fs). Inr (if ok then 0 else - 1, fs))
         else rbind (fill_direct n [0..<NUM_DIRECT_BLOCKS] fs) (\<lambda>(ok, fs).
           if \<not> ok then Inr (- 1, fs)
           else rbind (add_single_indirect_block n fs) (\<lambda>(err, fs).
             if err = - 1 then Inr (- 1, fs)
             else rbind (block_addr fs (indirect (node fs n))) (\<lambda>blocks.
               rbind (fill_indirect blocks [0..<block_count - NUM_DIRECT_BLOCKS] fs) (\<lambda>(ok, fs).
               Inr (if ok then 0 else - 1, fs)))))))"

section \<open>Writing\<close>

definition get_nth_indirect_block :: "filesys \<Rightarrow> inode_ptr \<Rightarrow> nat \<Rightarrow> nat option result" where
  "get_nth_indirect_block fs n k =
     rbind (block_addr fs (indirect (node fs n))) (\<lambda>p.
     if NUM_INDIRECT_BLOCKS \<le> k then Inl OutOfBounds
     else let b = indirect_entry fs p k in
       if b = UNASSIGNED_NODE then Inr None else rbind (block_addr fs b) (\<lambda>q. Inr (Some q)))"

text \<open>
  The block that a write at block index \<open>k\<close> of the file goes to, allocated when there is none:
  the first free slot gets the new block, whichever index it has. No block is an error of the
  write.
\<close>

definition allocated :: "int \<Rightarrow> filesys \<Rightarrow> (nat option \<times> filesys) result" where
  "allocated b fs = (if b = - 1 then Inr (None, fs) else rbind (block_addr fs b) (\<lambda>p. Inr (Some p, fs)))"

definition write_block :: "inode_ptr \<Rightarrow> nat \<Rightarrow> filesys \<Rightarrow> (nat option \<times> filesys) result" where
  "write_block n block_index fs =
     (if NUM_DIRECT_BLOCKS \<le> block_index
      then let k = block_index - NUM_DIRECT_BLOCKS in
        rbind (if indirect (node fs n) = UNASSIGNED_NODE then add_single_indirect_block n fs else Inr (0, fs))
          (\<lambda>(res, fs).
        if res = UNASSIGNED_NODE then Inr (None, fs)
        else rbind (get_nth_indirect_block fs n k) (\<lambda>tempdb.
          case tempdb of
            Some p \<Rightarrow> Inr (Some p, fs)
          | None \<Rightarrow>
              rbind (block_addr fs (indirect (node fs n))) (\<lambda>blocks.
              let (b, fs) = add_data_block_to_indirect_block blocks fs in allocated b fs)))
      else if direct (node fs n) ! block_index = UNASSIGNED_NODE
      then let (b, fs) = add_data_block_to_inode n fs in allocated b fs
      else rbind (block_addr fs (direct (node fs n) ! block_index)) (\<lambda>p. Inr (Some p, fs)))"

text \<open>The loop of \<open>minixfs_write\<close>; the last result is false when no block is left.\<close>

function write_blocks :: "inode_ptr \<Rightarrow> string \<Rightarrow> nat \<Rightarrow> filesys \<Rightarrow> (filesys \<times> nat \<times> bool) result" where
  "write_blocks n buf off fs =
     (if buf = [] then Inr (fs, off, True)
      else case write_block n (off div BLOCK_SIZE) fs of
        Inl e \<Rightarrow> Inl e
      | Inr (None, fs) \<Rightarrow> Inr (fs\<lparr>last_error := Some ENOSPC\<rparr>, off, False)
      | Inr (Some p, fs) \<Rightarrow>
          let k = min (length buf) (BLOCK_SIZE - off mod BLOCK_SIZE) in
          write_blocks n (drop k buf) (off + k) (put_text (p + off mod BLOCK_SIZE) (take k buf) fs))"
  by pat_completeness auto
termination
  by (relation "measure (\<lambda>(n, buf, off, fs). length buf)")
    (auto simp: BLOCK_SIZE_def KILOBYTE_def)

declare write_blocks.simps [simp del]

definition max_file_size :: nat where
  "max_file_size = (NUM_DIRECT_BLOCKS + NUM_DIRECT_BLOCKS) * BLOCK_SIZE"

text \<open>The offset, which the code updates through a pointer, is the third result.\<close>

definition minixfs_write :: "filesys \<Rightarrow> string \<Rightarrow> string \<Rightarrow> nat \<Rightarrow> (filesys \<times> int \<times> nat) result" where
  "minixfs_write fs path buf off =
     rbind (get_inode fs path) (\<lambda>r.
     rbind (case r of None \<Rightarrow> minixfs_create_inode_for_path fs path | Some n \<Rightarrow> Inr (Some n, fs)) (\<lambda>(i_node, fs).
     if max_file_size < off + length buf then Inr (fs\<lparr>last_error := Some ENOSPC\<rparr>, - 1, off)
     else case i_node of
       None \<Rightarrow> Inl NullDeref
     | Some n \<Rightarrow>
         let x = (node fs n)\<lparr>atim := now fs, mtim := now fs\<rparr>;
             x = (if fsize x < off + length buf then x\<lparr>fsize := min (off + length buf) max_file_size\<rparr> else x) in
         rbind (write_blocks n buf off (set_node n x fs)) (\<lambda>(fs, off, ok).
         Inr (fs, if ok then int (length buf) else - 1, off))))"

section \<open>Reading\<close>

text \<open>The text of the virtual file \<open>info\<close>.\<close>

fun decimal :: "nat \<Rightarrow> string" where
  "decimal n = (if n < 10 then [''0123456789'' ! n] else decimal (n div 10) @ [''0123456789'' ! (n mod 10)])"

declare decimal.simps [simp del]

definition decimal_int :: "int \<Rightarrow> string" where
  "decimal_int i = (if i < 0 then CHR ''-'' # decimal (nat (- i)) else decimal (nat i))"

definition block_info_string :: "int \<Rightarrow> string" where
  "block_info_string num_used_blocks =
     ''Free blocks: '' @ decimal_int (int DATA_NUMBER - num_used_blocks) @ [NL] @
     ''Used blocks: '' @ decimal_int num_used_blocks @ [NL]"

text \<open>The count goes over as many data blocks as there are inodes.\<close>

definition get_used_datablock_count :: "filesys \<Rightarrow> nat" where
  "get_used_datablock_count fs =
     length (filter (\<lambda>i. get_data_used fs (int i) = 1) [0..<inode_count (meta fs)])"

text \<open>
  \<open>minixfs_virtual_read\<close> copies all that is left of the text, whatever the size \<open>bound\<close> of the buffer;
  an offset behind the text makes a negative, hence huge, length.
\<close>

definition minixfs_virtual_read :: "filesys \<Rightarrow> string \<Rightarrow> nat \<Rightarrow> nat \<Rightarrow> (filesys \<times> int \<times> string \<times> nat) result" where
  "minixfs_virtual_read fs path bound off =
     (if path = ''info''
      then let txt = block_info_string (int (get_used_datablock_count fs)) in
        if length txt < off \<or> bound < length txt - off then Inl OutOfBounds
        else Inr (fs, int (length txt - off), drop off txt, length txt)
      else Inr (fs\<lparr>last_error := Some ENOENT\<rparr>, - 1, [], off))"

definition read_block :: "filesys \<Rightarrow> inode_ptr \<Rightarrow> nat \<Rightarrow> nat result" where
  "read_block fs n block_index =
     (if NUM_DIRECT_BLOCKS \<le> block_index
      then rbind (get_nth_indirect_block fs n (block_index - NUM_DIRECT_BLOCKS)) (\<lambda>db.
           case db of None \<Rightarrow> Inl NullDeref | Some p \<Rightarrow> Inr p)
      else block_addr fs (direct (node fs n) ! block_index))"

text \<open>The loop of \<open>minixfs_read\<close>; \<open>acc\<close> is what the buffer holds already.\<close>

function read_blocks :: "filesys \<Rightarrow> inode_ptr \<Rightarrow> nat \<Rightarrow> nat \<Rightarrow> string \<Rightarrow> string result" where
  "read_blocks fs n bytes_remain off acc =
     (if bytes_remain = 0 then Inr acc
      else case read_block fs n (off div BLOCK_SIZE) of
        Inl e \<Rightarrow> Inl e
      | Inr p \<Rightarrow>
          let data_size = min bytes_remain (BLOCK_SIZE - off mod BLOCK_SIZE) in
          read_blocks fs n (bytes_remain - data_size) (off + data_size)
            (acc @ load_text (disk fs) (p + off mod BLOCK_SIZE) data_size))"
  by pat_completeness auto
termination
  by (relation "measure (\<lambda>(fs, n, bytes_remain, off, acc). bytes_remain)")
    (auto simp: BLOCK_SIZE_def KILOBYTE_def)

declare read_blocks.simps [simp del]

text \<open>The results are the return value, the bytes stored in the buffer and the offset.\<close>

definition minixfs_read :: "filesys \<Rightarrow> string \<Rightarrow> nat \<Rightarrow> nat \<Rightarrow> (filesys \<times> int \<times> string \<times> nat) result" where
  "minixfs_read fs path bound off =
     (case is_virtual_path path of
        Some v \<Rightarrow> minixfs_virtual_read fs v bound off
      | None \<Rightarrow>
          rbind (get_inode fs path) (\<lambda>i_node.
          case i_node of
            None \<Rightarrow> Inr (fs\<lparr>last_error := Some ENOENT\<rparr>, - 1, [], off)
          | Some n \<Rightarrow>
              let fs = set_node n ((node fs n)\<lparr>atim := now fs\<rparr>) fs; sz = fsize (node fs n) in
              if sz \<le> off then Inr (fs, 0, [], off)
              else let bytes_remain = (if sz < off + bound then sz - off else bound) in
                rbind (read_blocks fs n bytes_remain off []) (\<lambda>bytes.
                Inr (fs, int (length bytes), bytes, off + length bytes))))"

section \<open>Removing a file\<close>

text \<open>
  The search of one block for the entry with a number: where it is, how far the loop came, and
  the variable that \<open>make_dirent_from_string\<close> fills.
\<close>

fun scan_number :: "filesys \<Rightarrow> int \<Rightarrow> nat \<Rightarrow> nat \<Rightarrow> nat \<Rightarrow> nat \<Rightarrow> int option \<Rightarrow> (nat option \<times> nat \<times> int option) result" where
  "scan_number fs target 0 p temp left prev = Inr (None, temp, prev)"
| "scan_number fs target (Suc k) p temp left prev =
     (if left \<le> temp then Inr (None, temp, prev)
      else let prev' = (case make_dirent_from_string fs (p + temp) of Some i \<Rightarrow> Some i | None \<Rightarrow> prev) in
        case prev' of
          None \<Rightarrow> Inl Uninitialised
        | Some i \<Rightarrow>
            if i = target then Inr (Some temp, temp, prev')
            else scan_number fs target k p (temp + FILE_NAME_ENTRY) left prev')"

lemma scan_number_temp:
  "scan_number fs target k p temp left prev = Inr (r, temp', prev') \<Longrightarrow>
     temp \<le> temp' \<and> (r = None \<longrightarrow> 0 < k \<longrightarrow> temp < left \<longrightarrow> temp < temp')"
proof (induction k arbitrary: temp prev)
  case (Suc k)
  then show ?case
    by (cases "k = 0") (fastforce simp: Let_def FILE_NAME_ENTRY_def split: if_splits option.splits)+
qed simp

text \<open>
  The search of the directory, and the \<open>memmove\<close> within the block of the entry. Behind the direct
  blocks the code continues in the indirect block of the file, not of the directory.
\<close>

function unlink_loop :: "filesys \<Rightarrow> inode \<Rightarrow> inode \<Rightarrow> int \<Rightarrow> bool \<Rightarrow> nat \<Rightarrow> nat \<Rightarrow> int option \<Rightarrow> filesys result" where
  "unlink_loop fs parent file target ind idx left prev =
     (if left = 0 then Inr fs
      else case (if ind then slot_block fs file True idx else slot_block fs parent False idx) of
        Inl e \<Rightarrow> Inl e
      | Inr p \<Rightarrow>
          (case scan_number fs target (BLOCK_SIZE div FILE_NAME_ENTRY) p 0 left prev of
             Inl e \<Rightarrow> Inl e
           | Inr (Some temp, _, _) \<Rightarrow>
               Inr (put_text (p + temp)
                 (load_text (disk fs) (p + temp + FILE_NAME_ENTRY) (BLOCK_SIZE - temp - FILE_NAME_ENTRY)) fs)
           | Inr (None, temp, prev') \<Rightarrow>
               if left < temp then Inl SizeWrap
               else if idx + 1 = NUM_DIRECT_BLOCKS
               then if indirect file = UNASSIGNED_NODE then Inr fs
                    else unlink_loop fs parent file target True 0 (left - temp) prev'
               else unlink_loop fs parent file target ind (idx + 1) (left - temp) prev'))"
  by pat_completeness auto
termination
  by (relation "measure (\<lambda>(fs, parent, file, target, ind, idx, left, prev). left)")
    (force dest!: scan_number_temp simp: BLOCK_SIZE_def KILOBYTE_def FILE_NAME_ENTRY_def FILE_NAME_LENGTH_def)+

declare unlink_loop.simps [simp del]

text \<open>The size of the directory is a \<open>uint64_t\<close>.\<close>

definition minixfs_unlink :: "filesys \<Rightarrow> string \<Rightarrow> (int \<times> filesys) result" where
  "minixfs_unlink fs path =
     rbind (get_inode fs path) (\<lambda>i_node.
     case i_node of
       None \<Rightarrow> Inr (- 1, fs)
     | Some n \<Rightarrow>
         rbind (parent_directory fs path) (\<lambda>(parent, filename).
         case parent of
           None \<Rightarrow> Inl NullDeref
         | Some d \<Rightarrow>
             rbind (unlink_loop fs (node fs d) (node fs n) (int n) False 0 (fsize (node fs d)) None) (\<lambda>fs.
             let x = node fs d;
                 fs = set_node d (x\<lparr>fsize := (fsize x + 2 ^ 64 - FILE_NAME_ENTRY) mod 2 ^ 64\<rparr>) fs in
             rbind (free_inode n fs) (\<lambda>fs. Inr (0, fs)))))"

section \<open>Status and listing\<close>

record fs_stat =
  st_size :: nat
  st_blksize :: nat
  st_blocks :: nat
  st_nlink :: nat
  st_mode :: addr32
  st_uid :: addr32
  st_gid :: addr32
  st_atim :: timespec
  st_mtim :: timespec
  st_ctim :: timespec
  st_ino :: nat

definition S_IFDIR :: addr32 where "S_IFDIR = 16384"
definition S_IFREG :: addr32 where "S_IFREG = 32768"

definition virtual_stat :: "addr32 \<Rightarrow> fs_stat" where
  "virtual_stat kind = \<lparr>st_size = 0, st_blksize = 0, st_blocks = 0, st_nlink = 0, st_mode = 511 OR kind,
     st_uid = 0, st_gid = 0, st_atim = (0, 0), st_mtim = (0, 0), st_ctim = (0, 0), st_ino = 0\<rparr>"

definition minixfs_stat :: "filesys \<Rightarrow> string \<Rightarrow> (int \<times> fs_stat option \<times> filesys) result" where
  "minixfs_stat fs path =
     (case is_virtual_path path of
        Some v \<Rightarrow>
          Inr (if v = [] then (0, Some (virtual_stat S_IFDIR), fs)
               else if v \<in> set minixfs_virtual_path_names then (0, Some (virtual_stat S_IFREG), fs)
               else (1, None, fs\<lparr>last_error := Some ENOENT\<rparr>))
      | None \<Rightarrow>
          rbind (get_inode fs path) (\<lambda>i_node.
          case i_node of
            None \<Rightarrow> Inr (- 1, None, fs)
          | Some n \<Rightarrow>
              let x = node fs n in
              Inr (0, Some \<lparr>st_size = fsize x, st_blksize = BLOCK_SIZE,
                st_blocks = (fsize x + BLOCK_SIZE - 1) div BLOCK_SIZE, st_nlink = nlink x,
                st_mode = (ucast (mode x) AND 511) OR (if is_directory x then S_IFDIR else S_IFREG),
                st_uid = uid x, st_gid = gid x, st_atim = atim x, st_mtim = mtim x, st_ctim = ctim x,
                st_ino = n\<rparr>, fs)))"

text \<open>
  The entries of a block. A name that has no \<open>NUL\<close> in its first 255 bytes makes the terminator
  land behind the array \<open>d_name\<close>, and an incomplete entry at the end of the size lands behind
  the array of entries.
\<close>

type_synonym dirent = "string \<times> int"

fun readdir_entries :: "filesys \<Rightarrow> nat \<Rightarrow> nat \<Rightarrow> nat \<Rightarrow> (int \<times> nat) option \<Rightarrow> (dirent list \<times> nat \<times> (int \<times> nat) option) result" where
  "readdir_entries fs 0 p left prev = Inr ([], left, prev)"
| "readdir_entries fs (Suc k) p left prev =
     (if left = 0 then Inr ([], left, prev)
      else let prev' = (case make_dirent_from_string fs p of Some i \<Rightarrow> Some (i, p) | None \<Rightarrow> prev) in
        case prev' of
          None \<Rightarrow> Inl Uninitialised
        | Some (i, q) \<Rightarrow>
            let t = load_text (disk fs) q (MAX_DIR_NAME_LEN - 1) in
            if left < FILE_NAME_ENTRY \<or> NUL \<notin> set t then Inl OutOfBounds
            else rbind (readdir_entries fs k (p + FILE_NAME_ENTRY) (left - FILE_NAME_ENTRY) prev') (\<lambda>(es, left', r).
                 Inr ((cstr t, i) # es, left', r)))"

lemma readdir_entries_left:
  "readdir_entries fs k p left prev = Inr (es, left', prev') \<Longrightarrow>
     left' \<le> left \<and> (0 < left \<longrightarrow> 0 < k \<longrightarrow> left' < left)"
proof (induction k arbitrary: p left prev es)
  case (Suc k)
  then show ?case
    by (cases "k = 0") (fastforce simp: Let_def rbind_eq_Inr FILE_NAME_ENTRY_def split: if_splits option.splits prod.splits)+
qed simp

function readdir_loop :: "filesys \<Rightarrow> inode \<Rightarrow> bool \<Rightarrow> nat \<Rightarrow> nat \<Rightarrow> (int \<times> nat) option \<Rightarrow> dirent list result" where
  "readdir_loop fs x ind idx left prev =
     (if left = 0 then Inr []
      else case slot_block fs x ind idx of
        Inl e \<Rightarrow> Inl e
      | Inr p \<Rightarrow>
          (case readdir_entries fs (BLOCK_SIZE div FILE_NAME_ENTRY) p left prev of
             Inl e \<Rightarrow> Inl e
           | Inr (es, left', prev') \<Rightarrow>
               if idx + 1 = NUM_DIRECT_BLOCKS
               then if indirect x = UNASSIGNED_NODE then Inr es
                    else rbind (readdir_loop fs x True 0 left' prev') (\<lambda>es'. Inr (es @ es'))
               else rbind (readdir_loop fs x ind (idx + 1) left' prev') (\<lambda>es'. Inr (es @ es'))))"
  by pat_completeness auto
termination
  by (relation "measure (\<lambda>(fs, x, ind, idx, left, prev). left)")
    (force dest!: readdir_entries_left simp: BLOCK_SIZE_def KILOBYTE_def FILE_NAME_ENTRY_def FILE_NAME_LENGTH_def)+

declare readdir_loop.simps [simp del]

text \<open>The caller's \<open>entries\<close> is \<open>NULL\<close>, as documented. The root directory also lists \<open>virtual\<close>.\<close>

definition minixfs_readdir :: "filesys \<Rightarrow> string \<Rightarrow> (int \<times> dirent list \<times> filesys) result" where
  "minixfs_readdir fs path =
     (case is_virtual_path path of
        Some v \<Rightarrow>
          if v \<noteq> [] then Inr (- 1, [], fs\<lparr>last_error := Some ENOENT\<rparr>)
          else Inr (int (length minixfs_virtual_path_names), map (\<lambda>s. (s, 0)) minixfs_virtual_path_names, fs)
      | None \<Rightarrow>
          rbind (get_inode fs path) (\<lambda>i_node.
          case i_node of
            None \<Rightarrow> Inr (- 1, [], fs\<lparr>last_error := Some ENOENT\<rparr>)
          | Some n \<Rightarrow>
              let fs = set_node n ((node fs n)\<lparr>atim := now fs\<rparr>) fs in
              if is_file (node fs n) then Inr (- 1, [], fs\<lparr>last_error := Some ENOTDIR\<rparr>)
              else rbind (readdir_loop fs (node fs n) False 0 (fsize (node fs n)) None) (\<lambda>es.
                let all = (if path = ''/'' then (''virtual'', 0) # es else es) in
                Inr (int (length all), all, fs))))"

end
