(* ===== verification/FsBlocks.thy ===== *)
theory FsBlocks
  imports MinixfsOps
begin

text \<open>
  The data blocks of a file system: what the image keeps when bytes are stored, which block the
  allocator finds, the blocks of an inode, and the invariant that the blocks of the live inodes
  are in the image, marked as used and apart from each other.
\<close>

section \<open>Storing and loading\<close>

lemma length_load_text [simp]: "length (load_text m p n) = n"
  by (simp add: load_text_def)

lemma load_text_nth [simp]: "i < n \<Longrightarrow> load_text m p n ! i = m (p + i)"
  by (simp add: load_text_def)

lemma load_text_cong: "(\<And>i. i < n \<Longrightarrow> m (p + i) = m' (p + i)) \<Longrightarrow> load_text m p n = load_text m' p n"
  by (rule nth_equalityI) simp_all

lemma load_text_add: "load_text m p (a + b) = load_text m p a @ load_text m (p + a) b"
  unfolding load_text_def by (rule nth_equalityI) (auto simp: nth_append)

lemma store_text_outside: "a < p \<or> p + length bs \<le> a \<Longrightarrow> store_text p bs m a = m a"
  by (auto simp: store_text_def)

lemma store_text_inside: "i < length bs \<Longrightarrow> store_text p bs m (p + i) = bs ! i"
  by (simp add: store_text_def)

lemma load_store_outside:
  "q + n \<le> p \<or> p + length bs \<le> q \<Longrightarrow> load_text (store_text p bs m) q n = load_text m q n"
  by (rule load_text_cong) (auto simp: store_text_def)

lemma load_store_same: "load_text (store_text p bs m) p (length bs) = bs"
  by (rule nth_equalityI) (simp_all add: store_text_def)

text \<open>A piece stored inside of a larger one.\<close>

lemma load_store_within:
  assumes "o' + length bs \<le> n"
  shows "load_text (store_text (p + o') bs m) p n =
    take o' (load_text m p n) @ bs @ drop (o' + length bs) (load_text m p n)"
  by (rule nth_equalityI) (use assms in \<open>auto simp: store_text_def nth_append min_def\<close>)

lemma load_int_cong: "(\<And>i. i < 4 \<Longrightarrow> m (p + i) = m' (p + i)) \<Longrightarrow> load_int m p = load_int m' p"
  unfolding load_int_def using load_text_cong [of 4 m p m'] by simp

lemma length_int_bytes [simp]: "length (int_bytes i) = 4"
  by (simp add: int_bytes_def)

lemma load_int_bytes:
  assumes "load_text m p 4 = int_bytes i" and "- (2 ^ 31) \<le> i" and "i < 2 ^ 31"
  shows "load_int m p = i"
proof -
  have "le_value (int_bytes i) = nat (i mod 2 ^ 32) mod 256 ^ 4"
    by (simp add: int_bytes_def le_value_le_bytes)
  also have "\<dots> = nat (i mod 2 ^ 32)"
    by (rule mod_less) (simp add: nat_less_iff)
  finally have "int (le_value (load_text m p 4)) = i mod 2 ^ 32" using assms(1) by simp
  moreover have "i mod 2 ^ 32 = (if i < 0 then i + 2 ^ 32 else i)"
  proof (cases "i < 0")
    case True
    have "(i + 2 ^ 32) mod 2 ^ 32 = i + 2 ^ 32" using True assms(2) by (intro mod_pos_pos_trivial) auto
    with True show ?thesis by simp
  next
    case False
    then show ?thesis using assms(3) by simp
  qed
  ultimately show ?thesis using assms(2,3) by (auto simp: load_int_def Let_def)
qed

section \<open>Fields that operations leave alone\<close>

lemma put_text_fields [simp]:
  "meta (put_text p bs fs) = meta fs" "inode_root (put_text p bs fs) = inode_root fs"
  "now (put_text p bs fs) = now fs" "coins (put_text p bs fs) = coins fs"
  "last_error (put_text p bs fs) = last_error fs" "node (put_text p bs fs) = node fs"
  "disk (put_text p bs fs) = store_text p bs (disk fs)"
  by (simp_all add: put_text_def node_def fun_eq_iff)

lemma set_node_fields [simp]:
  "meta (set_node n x fs) = meta fs" "disk (set_node n x fs) = disk fs" "now (set_node n x fs) = now fs"
  "coins (set_node n x fs) = coins fs" "last_error (set_node n x fs) = last_error fs"
  "length (inode_root (set_node n x fs)) = length (inode_root fs)"
  by (simp_all add: set_node_def)

lemma node_set_node [simp]:
  "n < length (inode_root fs) \<Longrightarrow> node (set_node n x fs) m = (if m = n then x else node fs m)"
  by (auto simp: node_def set_node_def nth_list_update)

lemma block_addr_cong: "meta fs = meta fs' \<Longrightarrow> block_addr fs b = block_addr fs' b"
  by (simp add: block_addr_def)

lemma map_base_cong: "meta fs = meta fs' \<Longrightarrow> map_base fs = map_base fs'"
  by (simp add: map_base_def)

lemma get_data_used_cong: "meta fs = meta fs' \<Longrightarrow> disk fs = disk fs' \<Longrightarrow> get_data_used fs b = get_data_used fs' b"
  by (simp add: get_data_used_def map_base_def)

lemma set_data_used_fields [simp]:
  "meta (set_data_used b u fs) = meta fs" "inode_root (set_data_used b u fs) = inode_root fs"
  "now (set_data_used b u fs) = now fs" "coins (set_data_used b u fs) = coins fs"
  "last_error (set_data_used b u fs) = last_error fs" "node (set_data_used b u fs) = node fs"
  by (simp_all add: set_data_used_def Let_def)

section \<open>The allocator\<close>

abbreviation block_count :: "filesys \<Rightarrow> nat" where
  "block_count fs \<equiv> dblock_count (meta fs)"

definition in_image :: "filesys \<Rightarrow> int \<Rightarrow> bool" where
  "in_image fs b \<longleftrightarrow> 0 \<le> b \<and> b < int (block_count fs)"

lemma scan_data_found:
  "scan_data fs is filled cs = (Some i, f, cs') \<Longrightarrow> i \<in> set is \<and> get_data_used fs (int i) = 0"
  by (induction "is" arbitrary: filled cs) (auto split: if_splits prod.splits)

lemma scan_data_full:
  "scan_data fs is filled cs = (None, f, cs') \<Longrightarrow>
     f \<le> filled + length is \<and> (f = filled + length is \<longrightarrow> (\<forall>i \<in> set is. get_data_used fs (int i) \<noteq> 0))"
proof (induction "is" arbitrary: filled cs)
  case (Cons i "is")
  show ?case
  proof (cases "get_data_used fs (int i) = 0")
    case True
    then obtain cs1 where "scan_data fs is filled cs1 = (None, f, cs')"
      using Cons.prems by (auto split: prod.splits if_splits)
    from Cons.IH [OF this] show ?thesis by simp
  next
    case False
    then have "scan_data fs is (filled + 1) cs = (None, f, cs')" using Cons.prems by simp
    from Cons.IH [OF this] False show ?thesis by auto
  qed
qed simp

lemma first_unused_loop_result:
  "first_unused_loop fs filled cs = (r, cs') \<Longrightarrow>
   (filled < block_count fs \<or> (\<forall>i < block_count fs. get_data_used fs (int i) \<noteq> 0)) \<Longrightarrow>
   (case r of None \<Rightarrow> \<forall>i < block_count fs. get_data_used fs (int i) \<noteq> 0
    | Some i \<Rightarrow> i < block_count fs \<and> get_data_used fs (int i) = 0)"
proof (induction fs filled cs rule: first_unused_loop.induct)
  case (1 fs filled cs)
  show ?case
  proof (cases "filled < block_count fs")
    case False
    with "1.prems" show ?thesis by (subst (asm) first_unused_loop.simps) auto
  next
    case True
    obtain q f cs1 where s: "scan_data fs [0..<block_count fs] 0 cs = (q, f, cs1)"
      by (cases "scan_data fs [0..<block_count fs] 0 cs") auto
    show ?thesis
    proof (cases q)
      case (Some i)
      with s True "1.prems"(1) have "r = Some i" by (subst (asm) first_unused_loop.simps) simp
      with scan_data_found s Some show ?thesis by fastforce
    next
      case None
      have l: "first_unused_loop fs f cs1 = (r, cs')"
        using s True None "1.prems"(1) by (subst (asm) first_unused_loop.simps) simp
      have "f < block_count fs \<or> (\<forall>i < block_count fs. get_data_used fs (int i) \<noteq> 0)"
        using scan_data_full [OF s [unfolded None]] by force
      from "1.IH" [OF True s [symmetric, unfolded None] refl refl l this] show ?thesis .
    qed
  qed
qed

definition disk_full :: "filesys \<Rightarrow> bool" where
  "disk_full fs \<longleftrightarrow> (\<forall>b. in_image fs b \<longrightarrow> get_data_used fs b \<noteq> 0)"

text \<open>Whatever the coins, the allocator ends; it fails only on a full disk.\<close>

lemma first_unused_data_cases:
  obtains (full) cs where "first_unused_data fs = (- 1, fs\<lparr>coins := cs\<rparr>)" "disk_full fs"
  | (found) b cs where "first_unused_data fs = (b, fs\<lparr>coins := cs\<rparr>)" "in_image fs b" "get_data_used fs b = 0"
proof -
  obtain r cs where l: "first_unused_loop fs 0 (coins fs) = (r, cs)" by fastforce
  have p: "0 < block_count fs \<or> (\<forall>i < block_count fs. get_data_used fs (int i) \<noteq> 0)" by auto
  note c = first_unused_loop_result [OF l p]
  show thesis
  proof (cases r)
    case None
    have "disk_full fs" unfolding disk_full_def in_image_def
    proof (intro allI impI)
      fix b assume "0 \<le> b \<and> b < int (block_count fs)"
      then have b: "int (nat b) = b" "nat b < block_count fs" by auto
      from c None have "\<forall>i < block_count fs. get_data_used fs (int i) \<noteq> 0" by simp
      from this [rule_format, OF b(2)] show "get_data_used fs b \<noteq> 0" unfolding b(1) .
    qed
    with None l show thesis by (intro full) (simp_all add: first_unused_data_def)
  next
    case (Some i)
    with c l show thesis by (intro found [of "int i" cs]) (simp_all add: first_unused_data_def in_image_def)
  qed
qed

end
