(* ===== verification/FsInv.thy ===== *)
theory FsInv
  imports FsBlocks
begin

text \<open>
  The blocks of an inode as a list, the bytes they hold, and the invariant of the image: the
  blocks of the live inodes lie in the image, are marked as used and belong to one inode only.
\<close>

section \<open>Arrays of block numbers\<close>

text \<open>The numbers in front of the first free slot; an array is filled when only free slots follow.\<close>

definition assigned :: "int list \<Rightarrow> int list" where
  "assigned xs = takeWhile (\<lambda>b. b \<noteq> - 1) xs"

definition filled :: "int list \<Rightarrow> bool" where
  "filled xs \<longleftrightarrow> set (dropWhile (\<lambda>b. b \<noteq> - 1) xs) \<subseteq> {- 1}"

lemma length_assigned [simp]: "length (assigned xs) \<le> length xs"
  by (simp add: assigned_def length_takeWhile_le)

lemma assigned_not_free: "b \<in> set (assigned xs) \<Longrightarrow> b \<noteq> - 1"
  by (auto simp: assigned_def dest: set_takeWhileD)

lemma assigned_nth: "i < length (assigned xs) \<Longrightarrow> assigned xs ! i = xs ! i"
  by (simp add: assigned_def takeWhile_nth)

lemma filled_eq:
  assumes "filled xs"
  shows "xs = assigned xs @ replicate (length xs - length (assigned xs)) (- 1)"
proof -
  let ?d = "dropWhile (\<lambda>b. b \<noteq> - 1) xs"
  have a: "xs = assigned xs @ ?d" by (simp add: assigned_def)
  then have "length xs = length (assigned xs) + length ?d" by (metis length_append)
  moreover have "?d = replicate (length ?d) (- 1)"
    using assms by (intro replicate_eqI) (auto simp: filled_def)
  ultimately show ?thesis using a by simp
qed

lemma filled_append: "- 1 \<notin> set ys \<Longrightarrow> filled (ys @ replicate k (- 1))"
  by (induction ys) (auto simp: filled_def)

lemma assigned_append: "- 1 \<notin> set ys \<Longrightarrow> assigned (ys @ replicate k (- 1)) = ys"
proof -
  assume "- 1 \<notin> set ys"
  moreover have "takeWhile (\<lambda>b. b \<noteq> - 1) (replicate k (- 1 :: int)) = []" by (cases k) simp_all
  ultimately show ?thesis unfolding assigned_def by (subst takeWhile_append2) auto
qed

lemma filled_nth:
  assumes "filled xs" and "i < length xs"
  shows "xs ! i = - 1 \<longleftrightarrow> length (assigned xs) \<le> i"
proof (cases "i < length (assigned xs)")
  case True
  then show ?thesis using assigned_not_free [of "xs ! i" xs] assigned_nth [OF True] nth_mem [OF True] by force
next
  case False
  then show ?thesis using assms by (subst filled_eq [OF assms(1)]) (simp add: nth_append)
qed

lemma find_free_slot:
  assumes "filled xs" and "length xs = N" and "\<And>i. i < N \<Longrightarrow> f i = xs ! i"
  shows "List.find (\<lambda>i. f i = - 1) [0..<N] =
    (if length (assigned xs) < N then Some (length (assigned xs)) else None)"
proof (cases "length (assigned xs) < N")
  case True
  then show ?thesis using assms filled_nth [OF assms(1)] by (auto simp: find_Some_iff)
next
  case False
  then show ?thesis using assms filled_nth [OF assms(1)] by (auto simp: find_None_iff)
qed

text \<open>Taking the first free slot.\<close>

lemma assign_next:
  assumes "filled xs" and "length (assigned xs) < length xs" and "b \<noteq> - 1"
  shows "assigned (xs[length (assigned xs) := b]) = assigned xs @ [b]" "filled (xs[length (assigned xs) := b])"
proof -
  define ys where "ys = assigned xs"
  obtain k where k: "length xs - length ys = Suc k" using assms(2) by (cases "length xs - length ys") (auto simp: ys_def)
  have "xs = ys @ - 1 # replicate k (- 1)" using filled_eq [OF assms(1)] k by (simp add: ys_def)
  then have x: "xs[length ys := b] = (ys @ [b]) @ replicate k (- 1)"
    by (metis append.assoc append_Cons append_Nil list_update_length)
  have n: "- 1 \<notin> set (ys @ [b])" using assms(3) assigned_not_free [of "- 1" xs] by (auto simp: ys_def)
  show "assigned (xs[length (assigned xs) := b]) = assigned xs @ [b]"
    using x assigned_append [OF n] by (simp add: ys_def)
  show "filled (xs[length (assigned xs) := b])"
    using x filled_append [OF n] by (simp add: ys_def)
qed

lemma assigned_replicate: "assigned (replicate k (- 1)) = []" "filled (replicate k (- 1))"
  using assigned_append [of "[]" k] filled_append [of "[]" k] by simp_all

section \<open>The blocks of an inode\<close>

definition block_text :: "filesys \<Rightarrow> int \<Rightarrow> string" where
  "block_text fs b = load_text (disk fs) (nat b * BLOCK_SIZE) BLOCK_SIZE"

definition ientries :: "filesys \<Rightarrow> inode \<Rightarrow> int list" where
  "ientries fs x =
     (if indirect x = - 1 then []
      else map (indirect_entry fs (nat (indirect x) * BLOCK_SIZE)) [0..<NUM_INDIRECT_BLOCKS])"

definition file_blocks :: "filesys \<Rightarrow> inode \<Rightarrow> int list" where
  "file_blocks fs x = assigned (direct x) @ assigned (ientries fs x)"

definition all_blocks :: "filesys \<Rightarrow> inode \<Rightarrow> int list" where
  "all_blocks fs x = (if indirect x = - 1 then [] else [indirect x]) @ file_blocks fs x"

definition inode_wf :: "filesys \<Rightarrow> inode \<Rightarrow> bool" where
  "inode_wf fs x \<longleftrightarrow> length (direct x) = NUM_DIRECT_BLOCKS \<and> filled (direct x) \<and> filled (ientries fs x) \<and>
     (indirect x \<noteq> - 1 \<longrightarrow> - 1 \<notin> set (direct x))"

text \<open>The bytes of all blocks of a file, and its content: as many of them as its size says.\<close>

definition raw_bytes :: "filesys \<Rightarrow> inode_ptr \<Rightarrow> string" where
  "raw_bytes fs n = concat (map (block_text fs) (file_blocks fs (node fs n)))"

definition sized :: "filesys \<Rightarrow> inode_ptr \<Rightarrow> bool" where
  "sized fs n \<longleftrightarrow> fsize (node fs n) \<le> length (raw_bytes fs n)"

definition content :: "filesys \<Rightarrow> inode_ptr \<Rightarrow> string" where
  "content fs n = take (fsize (node fs n)) (raw_bytes fs n)"

definition live_inode :: "filesys \<Rightarrow> inode_ptr \<Rightarrow> bool" where
  "live_inode fs n \<longleftrightarrow> n < length (inode_root fs) \<and> nlink (node fs n) \<noteq> 0"

text \<open>The data map lies behind the blocks, and block numbers fit an \<open>int\<close>.\<close>

definition layout_ok :: "filesys \<Rightarrow> bool" where
  "layout_ok fs \<longleftrightarrow> map_base fs = block_count fs * BLOCK_SIZE \<and> block_count fs < 2 ^ 31"

abbreviation blocks_of :: "filesys \<Rightarrow> inode_ptr \<Rightarrow> int set" where
  "blocks_of fs n \<equiv> set (all_blocks fs (node fs n))"

definition fs_ok :: "filesys \<Rightarrow> bool" where
  "fs_ok fs \<longleftrightarrow> layout_ok fs \<and>
     (\<forall>n. live_inode fs n \<longrightarrow> inode_wf fs (node fs n) \<and> distinct (all_blocks fs (node fs n)) \<and>
        (\<forall>b \<in> blocks_of fs n. in_image fs b \<and> get_data_used fs b = 1)) \<and>
     (\<forall>n m. live_inode fs n \<longrightarrow> live_inode fs m \<longrightarrow> n \<noteq> m \<longrightarrow> blocks_of fs n \<inter> blocks_of fs m = {})"

lemma fs_okD:
  assumes "fs_ok fs" and "live_inode fs n"
  shows "inode_wf fs (node fs n)" "distinct (all_blocks fs (node fs n))" "layout_ok fs"
    "\<And>b. b \<in> blocks_of fs n \<Longrightarrow> in_image fs b" "\<And>b. b \<in> blocks_of fs n \<Longrightarrow> get_data_used fs b = 1"
  using assms unfolding fs_ok_def by blast+

lemma fs_ok_disjoint:
  "fs_ok fs \<Longrightarrow> live_inode fs n \<Longrightarrow> live_inode fs m \<Longrightarrow> n \<noteq> m \<Longrightarrow> b \<in> blocks_of fs n \<Longrightarrow> b \<notin> blocks_of fs m"
  unfolding fs_ok_def by blast

lemma length_block_text [simp]: "length (block_text fs b) = BLOCK_SIZE"
  by (simp add: block_text_def)

lemma BLOCK_SIZE_pos [simp]: "0 < BLOCK_SIZE"
  by (simp add: BLOCK_SIZE_def KILOBYTE_def)

lemma four_NUM_INDIRECT: "4 * NUM_INDIRECT_BLOCKS = BLOCK_SIZE"
  by (simp add: NUM_INDIRECT_BLOCKS_def BLOCK_SIZE_def KILOBYTE_def)

lemma length_concat_blocks: "length (concat (map (block_text fs) bs)) = length bs * BLOCK_SIZE"
  by (induction bs) simp_all

lemma length_raw_bytes: "length (raw_bytes fs n) = length (file_blocks fs (node fs n)) * BLOCK_SIZE"
  by (simp add: raw_bytes_def length_concat_blocks)

section \<open>What depends on which bytes\<close>

lemma block_text_nth: "i < BLOCK_SIZE \<Longrightarrow> block_text fs b ! i = disk fs (nat b * BLOCK_SIZE + i)"
  by (simp add: block_text_def)

lemma block_text_disk: "disk fs' = disk fs \<Longrightarrow> block_text fs' = block_text fs"
  by (rule ext) (simp add: block_text_def)

lemma indirect_entry_cong:
  assumes "block_text fs' b = block_text fs b" and "i < NUM_INDIRECT_BLOCKS"
  shows "indirect_entry fs' (nat b * BLOCK_SIZE) i = indirect_entry fs (nat b * BLOCK_SIZE) i"
  unfolding indirect_entry_def
proof (rule load_int_cong)
  fix j :: nat assume "j < 4"
  then have "4 * i + j < BLOCK_SIZE" using assms(2) four_NUM_INDIRECT by linarith
  from block_text_nth [OF this, of fs b] block_text_nth [OF this, of fs' b] assms(1)
  show "disk fs' (nat b * BLOCK_SIZE + 4 * i + j) = disk fs (nat b * BLOCK_SIZE + 4 * i + j)"
    by (simp add: add.assoc)
qed

lemma ientries_cong:
  assumes "indirect x' = indirect x"
    and "indirect x \<noteq> - 1 \<Longrightarrow> block_text fs' (indirect x) = block_text fs (indirect x)"
  shows "ientries fs' x' = ientries fs x"
  using assms indirect_entry_cong [of fs' "indirect x" fs] by (simp add: ientries_def)

lemma blocks_cong:
  assumes "direct x' = direct x" and "indirect x' = indirect x"
    and "indirect x \<noteq> - 1 \<Longrightarrow> block_text fs' (indirect x) = block_text fs (indirect x)"
  shows "file_blocks fs' x' = file_blocks fs x" "all_blocks fs' x' = all_blocks fs x" "inode_wf fs' x' = inode_wf fs x"
  using ientries_cong [of x' x fs' fs] assms by (simp_all add: file_blocks_def all_blocks_def inode_wf_def)

lemma indirect_in_blocks: "indirect x \<noteq> - 1 \<Longrightarrow> indirect x \<in> set (all_blocks fs x)"
  by (simp add: all_blocks_def)

lemma file_blocks_subset: "set (file_blocks fs x) \<subseteq> set (all_blocks fs x)"
  by (simp add: all_blocks_def)

lemma block_text_put_other:
  assumes "b \<noteq> c" and "0 \<le> b" and "0 \<le> c" and "k + length bs \<le> BLOCK_SIZE"
  shows "block_text (put_text (nat c * BLOCK_SIZE + k) bs fs) b = block_text fs b"
proof -
  have "nat b < nat c \<or> nat c < nat b" using assms by auto
  then have "nat b * BLOCK_SIZE + BLOCK_SIZE \<le> nat c * BLOCK_SIZE \<or> nat c * BLOCK_SIZE + BLOCK_SIZE \<le> nat b * BLOCK_SIZE"
    by (metis Suc_leI add.commute mult_Suc mult_le_mono1)
  then show ?thesis unfolding block_text_def put_text_fields
    by (intro load_store_outside) (use assms(4) in auto)
qed

lemma block_text_put_same:
  assumes "k + length bs \<le> BLOCK_SIZE"
  shows "block_text (put_text (nat c * BLOCK_SIZE + k) bs fs) c =
    take k (block_text fs c) @ bs @ drop (k + length bs) (block_text fs c)"
  unfolding block_text_def put_text_fields by (rule load_store_within [OF assms])

lemma in_image_end: "in_image fs b \<Longrightarrow> nat b * BLOCK_SIZE + BLOCK_SIZE \<le> block_count fs * BLOCK_SIZE"
proof -
  assume "in_image fs b"
  then have "Suc (nat b) \<le> block_count fs" by (simp add: in_image_def) linarith
  then have "Suc (nat b) * BLOCK_SIZE \<le> block_count fs * BLOCK_SIZE" by (rule mult_le_mono1)
  then show ?thesis by simp
qed

lemma get_data_used_put:
  assumes "layout_ok fs" and "in_image fs c" and "k + length bs \<le> BLOCK_SIZE"
  shows "get_data_used (put_text (nat c * BLOCK_SIZE + k) bs fs) b = get_data_used fs b"
  using assms in_image_end [OF assms(2)]
  by (auto simp: get_data_used_def map_base_def layout_ok_def store_text_outside)

lemma in_image_meta: "meta fs' = meta fs \<Longrightarrow> in_image fs' = in_image fs"
  by (simp add: in_image_def fun_eq_iff)

lemma layout_ok_meta: "meta fs' = meta fs \<Longrightarrow> layout_ok fs' = layout_ok fs"
  by (simp add: layout_ok_def map_base_def)

lemma block_text_mark:
  assumes "layout_ok fs" and "in_image fs b"
  shows "block_text (set_data_used c u fs) b = block_text fs b"
  using assms in_image_end [OF assms(2)]
  by (auto simp: block_text_def set_data_used_def Let_def layout_ok_def intro!: load_store_outside)

lemma signed_char_bit: "signed_char (char_of (Suc 0)) = 1" "signed_char (char_of (0 :: nat)) = 0"
  by (simp_all add: signed_char_def Let_def of_char_def char_of_def bit_0)

lemma get_data_used_mark:
  assumes "in_image fs c"
  shows "get_data_used (set_data_used c 1 fs) b = (if b = c then 1 else get_data_used fs b)"
  using assms by (auto simp: get_data_used_def set_data_used_def map_base_def in_image_def store_text_def signed_char_bit)

lemma block_addr_in: "in_image fs b \<Longrightarrow> block_addr fs b = Inr (nat b * BLOCK_SIZE)"
  by (simp add: block_addr_def in_image_def)

end
