(* ===== verification/FsAlloc.thy ===== *)
theory FsAlloc
  imports FsInv
begin

text \<open>
  Allocation keeps the invariant: each of the three operations that add a block to an inode
  either finds the disk full or appends the block, and touches neither the other live inodes nor
  their bytes.
\<close>

section \<open>Operations on one inode\<close>

definition only_inode :: "inode_ptr \<Rightarrow> filesys \<Rightarrow> filesys \<Rightarrow> bool" where
  "only_inode n fs fs' \<longleftrightarrow> meta fs' = meta fs \<and> now fs' = now fs \<and>
     length (inode_root fs') = length (inode_root fs) \<and> (\<forall>m. m \<noteq> n \<longrightarrow> node fs' m = node fs m) \<and>
     (\<forall>m b. m \<noteq> n \<longrightarrow> live_inode fs m \<longrightarrow> b \<in> blocks_of fs m \<longrightarrow> block_text fs' b = block_text fs b)"

lemma only_inode_refl [simp]: "only_inode n fs fs"
  by (simp add: only_inode_def)

lemma only_inodeI:
  assumes "meta fs' = meta fs" and "now fs' = now fs" and "length (inode_root fs') = length (inode_root fs)"
    and "\<And>m. m \<noteq> n \<Longrightarrow> node fs' m = node fs m"
    and "\<And>m b. m \<noteq> n \<Longrightarrow> live_inode fs m \<Longrightarrow> b \<in> blocks_of fs m \<Longrightarrow> block_text fs' b = block_text fs b"
  shows "only_inode n fs fs'"
  using assms unfolding only_inode_def by blast

lemma only_inodeD:
  assumes "only_inode n fs fs'"
  shows "meta fs' = meta fs" "now fs' = now fs" "length (inode_root fs') = length (inode_root fs)"
    "m \<noteq> n \<Longrightarrow> node fs' m = node fs m"
    "m \<noteq> n \<Longrightarrow> live_inode fs m \<Longrightarrow> b \<in> blocks_of fs m \<Longrightarrow> block_text fs' b = block_text fs b"
  using assms unfolding only_inode_def by blast+

lemma only_inode_others:
  assumes "only_inode n fs fs'" and "m \<noteq> n" and "live_inode fs m"
  shows "live_inode fs' m" "node fs' m = node fs m" "all_blocks fs' (node fs' m) = all_blocks fs (node fs m)"
    "file_blocks fs' (node fs' m) = file_blocks fs (node fs m)" "inode_wf fs' (node fs' m) = inode_wf fs (node fs m)"
    "raw_bytes fs' m = raw_bytes fs m" "content fs' m = content fs m" "sized fs' m = sized fs m"
proof -
  note d = only_inodeD [OF assms(1)]
  show n: "node fs' m = node fs m" using d(4) [OF assms(2)] .
  show "live_inode fs' m" using assms(3) n d(3) by (simp add: live_inode_def)
  have t: "b \<in> blocks_of fs m \<Longrightarrow> block_text fs' b = block_text fs b" for b using d(5) [OF assms(2,3)] .
  note c = blocks_cong [of "node fs' m" "node fs m" fs' fs, OF arg_cong [OF n] arg_cong [OF n] t [OF indirect_in_blocks]]
  show "all_blocks fs' (node fs' m) = all_blocks fs (node fs m)" by (rule c(2))
  show f: "file_blocks fs' (node fs' m) = file_blocks fs (node fs m)" by (rule c(1))
  show "inode_wf fs' (node fs' m) = inode_wf fs (node fs m)" by (rule c(3))
  show r: "raw_bytes fs' m = raw_bytes fs m" unfolding raw_bytes_def f
    by (intro arg_cong [of _ _ concat] map_cong refl t) (use file_blocks_subset in blast)
  show "content fs' m = content fs m" "sized fs' m = sized fs m" by (simp_all add: content_def sized_def r n)
qed

lemma only_inode_trans:
  assumes "only_inode n a b" and "only_inode n b c"
  shows "only_inode n a c"
proof -
  note d = only_inodeD [OF assms(1)] and e = only_inodeD [OF assms(2)] and o = only_inode_others [OF assms(1)]
  show ?thesis
  proof (rule only_inodeI)
    fix m x assume m: "m \<noteq> n" "live_inode a m" "x \<in> blocks_of a m"
    have "x \<in> blocks_of b m" using m(3) unfolding o(3) [OF m(1,2)] .
    then show "block_text c x = block_text a x" using e(5) [OF m(1) o(1) [OF m(1,2)]] d(5) [OF m] by simp
  qed (simp_all add: d(1-4) e(1-4))
qed

text \<open>The invariant, from what has become of the one inode.\<close>

lemma fs_ok_step:
  assumes ok: "fs_ok fs" and f: "only_inode n fs fs'" and l: "live_inode fs n"
    and u: "\<And>b. in_image fs b \<Longrightarrow> get_data_used fs b = 1 \<Longrightarrow> get_data_used fs' b = 1"
    and w: "inode_wf fs' (node fs' n)" "distinct (all_blocks fs' (node fs' n))"
    and b: "\<And>b. b \<in> blocks_of fs' n \<Longrightarrow> b \<in> blocks_of fs n \<or> in_image fs b \<and> get_data_used fs b \<noteq> 1 \<and> get_data_used fs' b = 1"
  shows "fs_ok fs'"
proof -
  note d = only_inodeD [OF f] and o = only_inode_others [OF f]
  have before: "live_inode fs m" if "live_inode fs' m" "m \<noteq> n" for m
    using that d(3) d(4) [OF that(2)] by (simp add: live_inode_def)
  have im: "in_image fs' = in_image fs" by (rule in_image_meta [OF d(1)])
  have new: "in_image fs b \<and> get_data_used fs' b = 1" if "b \<in> blocks_of fs' n" for b
    using b [OF that] fs_okD(4,5) [OF ok l] u by blast
  have dj: "blocks_of fs' n \<inter> blocks_of fs' m = {}" if "live_inode fs' m" "m \<noteq> n" for m
  proof -
    note lm = before [OF that]
    have "b \<notin> blocks_of fs m" if bn: "b \<in> blocks_of fs' n" for b
      using b [OF bn] fs_ok_disjoint [OF ok l lm] \<open>m \<noteq> n\<close> fs_okD(5) [OF ok lm] by metis
    then show ?thesis unfolding o(3) [OF that(2) lm] by blast
  qed
  show ?thesis unfolding fs_ok_def im
  proof (intro conjI allI impI)
    show "layout_ok fs'" using fs_okD(3) [OF ok l] layout_ok_meta [OF d(1)] by simp
  next
    fix m assume m: "live_inode fs' m"
    show "inode_wf fs' (node fs' m)" using w(1) fs_okD(1) [OF ok before [OF m]] o(5) [OF _ before [OF m]] by (cases "m = n") auto
    show "distinct (all_blocks fs' (node fs' m))" using w(2) fs_okD(2) [OF ok before [OF m]] o(3) [OF _ before [OF m]] by (cases "m = n") auto
    show "\<forall>b \<in> blocks_of fs' m. in_image fs b \<and> get_data_used fs' b = 1"
    proof (cases "m = n")
      case True then show ?thesis using new by blast
    next
      case False
      note lm = before [OF m False]
      show ?thesis unfolding o(3) [OF False lm] using fs_okD(4,5) [OF ok lm] u by blast
    qed
  next
    fix i j assume ij: "live_inode fs' i" "live_inode fs' j" "i \<noteq> j"
    show "blocks_of fs' i \<inter> blocks_of fs' j = {}"
    proof (cases "i = n \<or> j = n")
      case True then show ?thesis using dj [of i] dj [of j] ij by blast
    next
      case False
      then have "live_inode fs i" "live_inode fs j" using before ij by blast+
      then show ?thesis using o(3) [of i] o(3) [of j] fs_ok_disjoint [OF ok _ _ ij(3)] False by auto
    qed
  qed
qed

text \<open>Everything but the block numbers of the inode is as before, and its bytes are a prefix.\<close>

definition same_attributes :: "inode \<Rightarrow> inode \<Rightarrow> bool" where
  "same_attributes x x' \<longleftrightarrow> uid x' = uid x \<and> gid x' = gid x \<and> mode x' = mode x \<and> fsize x' = fsize x \<and>
     atim x' = atim x \<and> mtim x' = mtim x \<and> ctim x' = ctim x"

definition grown :: "inode_ptr \<Rightarrow> filesys \<Rightarrow> filesys \<Rightarrow> bool" where
  "grown n fs fs' \<longleftrightarrow> fs_ok fs' \<and> only_inode n fs fs' \<and> live_inode fs' n \<and>
     same_attributes (node fs n) (node fs' n) \<and> (\<exists>ext. raw_bytes fs' n = raw_bytes fs n @ ext)"

lemma grownD:
  assumes "grown n fs fs'"
  shows "fs_ok fs'" "only_inode n fs fs'" "live_inode fs' n" "same_attributes (node fs n) (node fs' n)"
    "\<exists>ext. raw_bytes fs' n = raw_bytes fs n @ ext"
  using assms unfolding grown_def by blast+

lemma grown_trans: "grown n a b \<Longrightarrow> grown n b c \<Longrightarrow> grown n a c"
  unfolding grown_def using only_inode_trans by (fastforce simp: same_attributes_def)

text \<open>Only the superblock, the inodes and the bytes matter.\<close>

lemma image_cong:
  assumes "meta fs' = meta fs" and "inode_root fs' = inode_root fs" and "disk fs' = disk fs"
  shows "node fs' = node fs" "block_text fs' = block_text fs" "get_data_used fs' = get_data_used fs"
    "in_image fs' = in_image fs" "indirect_entry fs' = indirect_entry fs" "layout_ok fs' = layout_ok fs"
    "ientries fs' = ientries fs" "file_blocks fs' = file_blocks fs" "all_blocks fs' = all_blocks fs"
    "inode_wf fs' = inode_wf fs" "live_inode fs' = live_inode fs" "raw_bytes fs' = raw_bytes fs"
    "content fs' = content fs" "sized fs' = sized fs" "fs_ok fs' = fs_ok fs"
    "disk_full fs' = disk_full fs"
proof -
  have a: "node fs' = node fs" "block_text fs' = block_text fs" "get_data_used fs' = get_data_used fs"
    "in_image fs' = in_image fs" "indirect_entry fs' = indirect_entry fs" "layout_ok fs' = layout_ok fs"
    by (rule ext, simp add: node_def assms, rule ext, simp add: block_text_def assms,
        rule ext, simp add: get_data_used_def map_base_def assms, rule ext, simp add: in_image_def assms,
        (rule ext)+, simp add: indirect_entry_def assms, simp add: layout_ok_def map_base_def assms)
  then have b: "ientries fs' = ientries fs" by (intro ext) (simp add: ientries_def)
  then have c: "file_blocks fs' = file_blocks fs" by (simp add: file_blocks_def fun_eq_iff)
  then have d: "all_blocks fs' = all_blocks fs" by (simp add: all_blocks_def fun_eq_iff)
  have e: "inode_wf fs' = inode_wf fs" using b by (simp add: inode_wf_def fun_eq_iff)
  have f: "live_inode fs' = live_inode fs" using a(1) assms(2) by (simp add: live_inode_def fun_eq_iff)
  have g: "raw_bytes fs' = raw_bytes fs" by (rule ext) (simp add: raw_bytes_def a(1,2) c)
  show "content fs' = content fs" "sized fs' = sized fs" by (simp_all add: content_def sized_def a g fun_eq_iff)
  show "fs_ok fs' = fs_ok fs" unfolding fs_ok_def a d e f ..
  show "disk_full fs' = disk_full fs" unfolding disk_full_def a ..
  show "node fs' = node fs" "block_text fs' = block_text fs" "get_data_used fs' = get_data_used fs"
    "in_image fs' = in_image fs" "indirect_entry fs' = indirect_entry fs" "layout_ok fs' = layout_ok fs"
    by (rule a)+
  show "ientries fs' = ientries fs" "file_blocks fs' = file_blocks fs" "all_blocks fs' = all_blocks fs"
    "inode_wf fs' = inode_wf fs" "live_inode fs' = live_inode fs" "raw_bytes fs' = raw_bytes fs"
    by (rule b c d e f g)+
qed

lemma image_coins [simp]:
  "node (fs\<lparr>coins := z\<rparr>) = node fs" "block_text (fs\<lparr>coins := z\<rparr>) = block_text fs"
  "get_data_used (fs\<lparr>coins := z\<rparr>) = get_data_used fs" "in_image (fs\<lparr>coins := z\<rparr>) = in_image fs"
  "indirect_entry (fs\<lparr>coins := z\<rparr>) = indirect_entry fs" "layout_ok (fs\<lparr>coins := z\<rparr>) = layout_ok fs"
  "ientries (fs\<lparr>coins := z\<rparr>) = ientries fs" "file_blocks (fs\<lparr>coins := z\<rparr>) = file_blocks fs"
  "all_blocks (fs\<lparr>coins := z\<rparr>) = all_blocks fs" "inode_wf (fs\<lparr>coins := z\<rparr>) = inode_wf fs"
  "live_inode (fs\<lparr>coins := z\<rparr>) = live_inode fs" "raw_bytes (fs\<lparr>coins := z\<rparr>) = raw_bytes fs"
  "content (fs\<lparr>coins := z\<rparr>) = content fs" "sized (fs\<lparr>coins := z\<rparr>) = sized fs"
  "fs_ok (fs\<lparr>coins := z\<rparr>) = fs_ok fs" "disk_full (fs\<lparr>coins := z\<rparr>) = disk_full fs"
  by (rule image_cong; simp)+

lemma image_last_error [simp]:
  "node (fs\<lparr>last_error := z\<rparr>) = node fs" "block_text (fs\<lparr>last_error := z\<rparr>) = block_text fs"
  "get_data_used (fs\<lparr>last_error := z\<rparr>) = get_data_used fs" "in_image (fs\<lparr>last_error := z\<rparr>) = in_image fs"
  "indirect_entry (fs\<lparr>last_error := z\<rparr>) = indirect_entry fs" "layout_ok (fs\<lparr>last_error := z\<rparr>) = layout_ok fs"
  "ientries (fs\<lparr>last_error := z\<rparr>) = ientries fs" "file_blocks (fs\<lparr>last_error := z\<rparr>) = file_blocks fs"
  "all_blocks (fs\<lparr>last_error := z\<rparr>) = all_blocks fs" "inode_wf (fs\<lparr>last_error := z\<rparr>) = inode_wf fs"
  "live_inode (fs\<lparr>last_error := z\<rparr>) = live_inode fs" "raw_bytes (fs\<lparr>last_error := z\<rparr>) = raw_bytes fs"
  "content (fs\<lparr>last_error := z\<rparr>) = content fs" "sized (fs\<lparr>last_error := z\<rparr>) = sized fs"
  "fs_ok (fs\<lparr>last_error := z\<rparr>) = fs_ok fs" "disk_full (fs\<lparr>last_error := z\<rparr>) = disk_full fs"
  by (rule image_cong; simp)+

lemma grown_coins:
  assumes "fs_ok fs" and "live_inode fs n"
  shows "grown n fs (fs\<lparr>coins := cs\<rparr>)"
  using assms unfolding grown_def by (auto simp: same_attributes_def intro!: only_inodeI)

section \<open>Adding a block\<close>

lemma in_image_free: "in_image fs b \<Longrightarrow> b \<noteq> - 1 \<and> 0 \<le> b"
  by (auto simp: in_image_def)

lemma free_block_foreign:
  assumes "fs_ok fs" and "live_inode fs m" and "get_data_used fs b = 0"
  shows "b \<notin> blocks_of fs m"
  using fs_okD(5) [OF assms(1,2), of b] assms(3) by auto

text \<open>
  A state in which one free block has joined the inode, as its indirect block or at the end of
  its file, and at most that block and the old indirect block have been written.
\<close>

lemma grow_by:
  assumes ok: "fs_ok fs" and l: "live_inode fs n" and b: "in_image fs b" "get_data_used fs b = 0"
    and s: "meta fs' = meta fs" "now fs' = now fs" "length (inode_root fs') = length (inode_root fs)"
      "\<And>m. m \<noteq> n \<Longrightarrow> node fs' m = node fs m"
    and t: "\<And>c. in_image fs c \<Longrightarrow> c \<noteq> b \<Longrightarrow> c \<noteq> indirect (node fs n) \<Longrightarrow> block_text fs' c = block_text fs c"
    and u: "\<And>c. in_image fs c \<Longrightarrow> get_data_used fs' c = (if c = b then 1 else get_data_used fs c)"
    and x: "nlink (node fs' n) \<noteq> 0" "same_attributes (node fs n) (node fs' n)" "inode_wf fs' (node fs' n)"
    and a: "distinct (all_blocks fs' (node fs' n))" "blocks_of fs' n \<subseteq> insert b (blocks_of fs n)"
    and f: "file_blocks fs' (node fs' n) = file_blocks fs (node fs n) @ ext"
  shows "grown n fs fs'"
proof -
  have mine: "block_text fs' c = block_text fs c" if "c \<in> set (file_blocks fs (node fs n))" for c
  proof (rule t)
    have m: "c \<in> blocks_of fs n" using that by (simp add: all_blocks_def)
    show "in_image fs c" by (rule fs_okD(4) [OF ok l m])
    show "c \<noteq> b" using free_block_foreign [OF ok l b(2)] m by blast
    show "c \<noteq> indirect (node fs n)"
    proof (cases "indirect (node fs n) = - 1")
      case True
      with \<open>in_image fs c\<close> show ?thesis by (auto simp: in_image_def)
    next
      case False
      with fs_okD(2) [OF ok l] that show ?thesis by (auto simp: all_blocks_def)
    qed
  qed
  have fr: "only_inode n fs fs'"
  proof (rule only_inodeI [OF s])
    fix m c assume m: "m \<noteq> n" "live_inode fs m" "c \<in> blocks_of fs m"
    show "block_text fs' c = block_text fs c"
    proof (rule t)
      show "in_image fs c" by (rule fs_okD(4) [OF ok m(2,3)])
      show "c \<noteq> b" using free_block_foreign [OF ok m(2) b(2)] m(3) by blast
      show "c \<noteq> indirect (node fs n)"
      proof
        assume c: "c = indirect (node fs n)"
        with \<open>in_image fs c\<close> have "c \<in> blocks_of fs n" using in_image_free indirect_in_blocks by blast
        then show False using fs_ok_disjoint [OF ok l m(2)] m(1,3) by blast
      qed
    qed
  qed
  have "fs_ok fs'"
  proof (rule fs_ok_step [OF ok fr l _ x(3) a(1)])
    show "get_data_used fs' c = 1" if "in_image fs c" "get_data_used fs c = 1" for c
      using u [OF that(1)] that(2) by simp
    show "c \<in> blocks_of fs n \<or> in_image fs c \<and> get_data_used fs c \<noteq> 1 \<and> get_data_used fs' c = 1"
      if "c \<in> blocks_of fs' n" for c
      using that a(2) b u [OF b(1)] by auto
  qed
  moreover have "live_inode fs' n" using l s(3) x(1) by (simp add: live_inode_def)
  moreover have "raw_bytes fs' n = raw_bytes fs n @ concat (map (block_text fs') ext)"
    unfolding raw_bytes_def f using mine by (auto intro!: arg_cong [of _ _ concat])
  ultimately show ?thesis unfolding grown_def using fr x(2) by blast
qed

definition one_more :: "inode_ptr \<Rightarrow> filesys \<Rightarrow> int \<Rightarrow> filesys \<Rightarrow> bool" where
  "one_more n fs b fs' \<longleftrightarrow> grown n fs fs' \<and>
     (if b = - 1 then disk_full fs' \<and> node fs' n = node fs n
      else in_image fs' b \<and> file_blocks fs' (node fs' n) = file_blocks fs (node fs n) @ [b])"

lemma add_direct:
  assumes ok: "fs_ok fs" and l: "live_inode fs n" and sp: "length (assigned (direct (node fs n))) < NUM_DIRECT_BLOCKS"
  shows "\<exists>b fs'. add_data_block_to_inode n fs = (b, fs') \<and> one_more n fs b fs'"
proof -
  define x where "x = node fs n"
  define j where "j = length (assigned (direct x))"
  have w: "length (direct x) = NUM_DIRECT_BLOCKS" "filled (direct x)" "indirect x \<noteq> - 1 \<longrightarrow> - 1 \<notin> set (direct x)"
    using fs_okD(1) [OF ok l] by (simp_all add: inode_wf_def x_def)
  have ind: "indirect x = - 1"
  proof (rule ccontr)
    assume "indirect x \<noteq> - 1"
    then have "assigned (direct x) = direct x" using w(3) by (simp add: assigned_def takeWhile_eq_all_conv) blast
    then show False using sp w(1) by (simp add: x_def)
  qed
  have fnd: "List.find (\<lambda>i. direct (node fs n) ! i = - 1) [0..<NUM_DIRECT_BLOCKS] = Some j"
    using find_free_slot [OF w(2,1), of "\<lambda>i. direct x ! i"] sp by (simp add: x_def j_def)
  show ?thesis
  proof (cases rule: first_unused_data_cases [of fs])
    case (full cs)
    then show ?thesis using fnd grown_coins [OF ok l, of cs]
      by (simp add: add_data_block_to_inode_def one_more_def)
  next
    case (found b cs)
    have b1: "b \<noteq> - 1" using in_image_free [OF found(2)] by simp
    define x' where "x' = x\<lparr>direct := (direct x)[j := b]\<rparr>"
    define fs2 where "fs2 = set_node n x' (fs\<lparr>coins := cs\<rparr>)"
    define fs' where "fs' = set_data_used b 1 fs2"
    have n: "n < length (inode_root fs)" using l by (simp add: live_inode_def)
    have nd: "node fs' = (node fs)(n := x')" using n by (simp add: fs'_def fs2_def fun_eq_iff)
    have r: "add_data_block_to_inode n fs = (b, fs')"
      using fnd found(1) b1 by (simp add: add_data_block_to_inode_def Let_def fs'_def fs2_def x'_def x_def)
    have im: "in_image fs2 = in_image fs" by (rule in_image_meta) (simp add: fs2_def)
    have d2: "disk fs2 = disk fs" "meta fs2 = meta fs" by (simp_all add: fs2_def)
    have lay: "layout_ok fs2" using fs_okD(3) [OF ok l] layout_ok_meta [OF d2(2)] by simp
    have t: "block_text fs' c = block_text fs c" if "in_image fs c" for c
      using block_text_mark [OF lay, of c] that block_text_disk [OF d2(1)] by (simp add: fs'_def im)
    have u: "get_data_used fs' c = (if c = b then 1 else get_data_used fs c)" for c
      using get_data_used_mark [of fs2 b c] found(2) get_data_used_cong [OF d2(2,1), of c] by (simp add: fs'_def im)
    have ie: "ientries fs' x' = []" "ientries fs x = []" using ind by (simp_all add: ientries_def x'_def)
    note an = assign_next [OF w(2) sp [folded x_def, folded w(1)] b1]
    have fb: "file_blocks fs' x' = file_blocks fs x @ [b]"
      using an(1) ie by (simp add: file_blocks_def x'_def j_def assigned_def)
    have ab: "all_blocks fs' x' = file_blocks fs x @ [b]" "all_blocks fs x = file_blocks fs x"
      using fb ind by (simp_all add: all_blocks_def x'_def)
    have "b \<notin> blocks_of fs n" by (rule free_block_foreign [OF ok l found(3)])
    then have dist: "distinct (all_blocks fs' x')" using fs_okD(2) [OF ok l] ab by (simp add: x_def)
    have wf: "inode_wf fs' x'" using an(2) w ie ind by (simp add: inode_wf_def x'_def j_def filled_def)
    have "grown n fs fs'"
    proof (rule grow_by [OF ok l found(2,3), of fs' "[b]"])
      show "meta fs' = meta fs" "now fs' = now fs" "length (inode_root fs') = length (inode_root fs)"
        by (simp_all add: fs'_def fs2_def)
      show "nlink (node fs' n) \<noteq> 0" using l by (simp add: nd x'_def x_def live_inode_def)
      show "same_attributes (node fs n) (node fs' n)" by (simp add: nd x'_def x_def same_attributes_def)
      show "blocks_of fs' n \<subseteq> insert b (blocks_of fs n)" using ab by (auto simp: nd x_def)
    qed (use t u wf dist fb nd in \<open>simp_all add: x_def\<close>)
    moreover have "in_image fs' b" using found(2) im by (simp add: in_image_def fs'_def fs2_def)
    ultimately show ?thesis using r b1 fb nd by (auto simp: one_more_def x_def)
  qed
qed

section \<open>The indirect block\<close>

lemma indirect_entry_put:
  assumes "- (2 ^ 31) \<le> b" and "b < 2 ^ 31"
  shows "indirect_entry (put_text (p + 4 * j) (int_bytes b) fs) p i = (if i = j then b else indirect_entry fs p i)"
proof (cases "i = j")
  case True
  have "load_text (store_text (p + 4 * j) (int_bytes b) (disk fs)) (p + 4 * j) 4 = int_bytes b"
    using load_store_same [of "p + 4 * j" "int_bytes b"] by simp
  from load_int_bytes [OF this assms] True show ?thesis by (simp add: indirect_entry_def)
next
  case False
  then have "i < j \<or> j < i" by auto
  then have "p + 4 * i + 4 \<le> p + 4 * j \<or> p + 4 * j + 4 \<le> p + 4 * i" by auto
  then have "load_int (store_text (p + 4 * j) (int_bytes b) (disk fs)) (p + 4 * i) = load_int (disk fs) (p + 4 * i)"
    by (intro load_int_cong store_text_outside) auto
  with False show ?thesis by (simp add: indirect_entry_def)
qed

lemma indirect_entry_mark:
  assumes "layout_ok fs" and "in_image fs b" and "i < NUM_INDIRECT_BLOCKS"
  shows "indirect_entry (set_data_used c u fs) (nat b * BLOCK_SIZE) i = indirect_entry fs (nat b * BLOCK_SIZE) i"
  by (rule indirect_entry_cong [OF block_text_mark [OF assms(1,2)] assms(3)])

lemma add_indirect:
  assumes ok: "fs_ok fs" and l: "live_inode fs n" and i: "indirect (node fs n) \<noteq> - 1"
    and sp: "length (assigned (ientries fs (node fs n))) < NUM_INDIRECT_BLOCKS"
  shows "\<exists>b fs'. add_data_block_to_indirect_block (nat (indirect (node fs n)) * BLOCK_SIZE) fs = (b, fs') \<and>
    one_more n fs b fs'"
proof -
  define x where "x = node fs n"
  define p where "p = nat (indirect x) * BLOCK_SIZE"
  define j where "j = length (assigned (ientries fs x))"
  have w: "length (ientries fs x) = NUM_INDIRECT_BLOCKS" "filled (ientries fs x)"
    using fs_okD(1) [OF ok l] i by (simp_all add: inode_wf_def x_def ientries_def)
  have e: "k < NUM_INDIRECT_BLOCKS \<Longrightarrow> indirect_entry fs p k = ientries fs x ! k" for k
    using i by (simp add: ientries_def p_def x_def)
  have ii: "in_image fs (indirect x)" using fs_okD(4) [OF ok l] i indirect_in_blocks by (simp add: x_def)
  have jN: "j < NUM_INDIRECT_BLOCKS" using sp by (simp add: j_def x_def)
  have fnd: "List.find (\<lambda>k. indirect_entry fs p k = - 1) [0..<NUM_INDIRECT_BLOCKS] = Some j"
    using find_free_slot [OF w(2,1) e] jN by (simp add: j_def)
  show ?thesis
  proof (cases rule: first_unused_data_cases [of fs])
    case (full cs)
    then show ?thesis using fnd grown_coins [OF ok l, of cs]
      by (simp add: add_data_block_to_indirect_block_def one_more_def p_def x_def)
  next
    case (found b cs)
    have b1: "b \<noteq> - 1" using in_image_free [OF found(2)] by simp
    have b31: "- (2 ^ 31) \<le> b" "b < 2 ^ 31"
      using found(2) fs_okD(3) [OF ok l] by (auto simp: in_image_def layout_ok_def)
    define fs2 where "fs2 = put_text (p + 4 * j) (int_bytes b) (fs\<lparr>coins := cs\<rparr>)"
    define fs' where "fs' = set_data_used b 1 fs2"
    have nd: "node fs' = node fs" by (simp add: fs'_def fs2_def)
    have r: "add_data_block_to_indirect_block p fs = (b, fs')"
      using fnd found(1) b1 by (simp add: add_data_block_to_indirect_block_def Let_def fs'_def fs2_def)
    have im: "in_image fs2 = in_image fs" by (rule in_image_meta) (simp add: fs2_def)
    have lay: "layout_ok fs2" "layout_ok (fs\<lparr>coins := cs\<rparr>)"
      using fs_okD(3) [OF ok l] layout_ok_meta [of fs2 fs] layout_ok_meta [of "fs\<lparr>coins := cs\<rparr>" fs]
      by (simp_all add: fs2_def)
    have fits: "4 * j + length (int_bytes b) \<le> BLOCK_SIZE" using jN four_NUM_INDIRECT by simp
    have t: "block_text fs' c = block_text fs c" if "in_image fs c" "c \<noteq> indirect x" for c
    proof -
      have "block_text fs2 c = block_text (fs\<lparr>coins := cs\<rparr>) c"
        unfolding fs2_def p_def using that ii fits by (intro block_text_put_other) (auto simp: in_image_def)
      then show ?thesis using block_text_mark [OF lay(1), of c] that im by (simp add: fs'_def)
    qed
    have u: "get_data_used fs' c = (if c = b then 1 else get_data_used fs c)" for c
    proof -
      have "get_data_used fs2 c = get_data_used (fs\<lparr>coins := cs\<rparr>) c"
        unfolding fs2_def p_def using ii by (intro get_data_used_put [OF lay(2) _ fits]) simp
      then show ?thesis using get_data_used_mark [of fs2 b c] found(2) by (simp add: fs'_def im)
    qed
    have en: "ientries fs' x = (ientries fs x)[j := b]"
    proof (rule nth_equalityI)
      fix k assume "k < length (ientries fs' x)"
      then have k: "k < NUM_INDIRECT_BLOCKS" using i by (simp add: ientries_def x_def)
      have "indirect_entry fs' p k = indirect_entry fs2 p k"
        using indirect_entry_mark [OF lay(1), of "indirect x" k] ii k by (simp add: fs'_def p_def im)
      also have "\<dots> = (if k = j then b else indirect_entry fs p k)"
        unfolding fs2_def by (subst indirect_entry_put [OF b31]) simp
      finally show "ientries fs' x ! k = (ientries fs x)[j := b] ! k"
        using k i w(1) e [OF k] by (simp add: ientries_def p_def x_def nth_list_update)
    qed (use i in \<open>simp add: ientries_def x_def\<close>)
    note an = assign_next [OF w(2), unfolded w(1), OF jN [unfolded j_def] b1]
    have fb: "file_blocks fs' x = file_blocks fs x @ [b]"
      using an(1) en by (simp add: file_blocks_def j_def)
    have ab: "all_blocks fs' x = all_blocks fs x @ [b]" using fb by (simp add: all_blocks_def)
    have "b \<notin> blocks_of fs n" by (rule free_block_foreign [OF ok l found(3)])
    then have dist: "distinct (all_blocks fs' x)" using fs_okD(2) [OF ok l] ab by (simp add: x_def)
    have wf: "inode_wf fs' x" using an(2) en fs_okD(1) [OF ok l] by (simp add: inode_wf_def x_def j_def)
    have "grown n fs fs'"
    proof (rule grow_by [OF ok l found(2,3), of fs' "[b]"])
      show "meta fs' = meta fs" "now fs' = now fs" "length (inode_root fs') = length (inode_root fs)"
        by (simp_all add: fs'_def fs2_def)
      show "nlink (node fs' n) \<noteq> 0" using l by (simp add: nd live_inode_def)
      show "same_attributes (node fs n) (node fs' n)" by (simp add: nd same_attributes_def)
      show "blocks_of fs' n \<subseteq> insert b (blocks_of fs n)" using ab by (auto simp: nd x_def)
    qed (use t u wf dist fb nd in \<open>simp_all add: x_def\<close>)
    moreover have "in_image fs' b" using found(2) im by (simp add: in_image_def fs'_def fs2_def)
    ultimately show ?thesis using r b1 fb nd by (auto simp: one_more_def x_def p_def)
  qed
qed

text \<open>A new indirect block has free slots only.\<close>

lemma concat_replicate_slice:
  assumes "length xs = k" and "i < n"
  shows "take k (drop (k * i) (concat (replicate n xs))) = xs"
  using assms(2)
proof (induction n arbitrary: i)
  case (Suc n)
  then show ?case using assms(1) by (cases i) (simp_all add: drop_append)
qed simp

lemma load_block_slice:
  assumes "k + m \<le> BLOCK_SIZE"
  shows "load_text (disk fs) (nat b * BLOCK_SIZE + k) m = take m (drop k (block_text fs b))"
  by (rule nth_equalityI) (use assms in \<open>auto simp: block_text_nth add.assoc\<close>)

lemma add_single:
  assumes ok: "fs_ok fs" and l: "live_inode fs n" and i: "indirect (node fs n) = - 1"
    and dr: "- 1 \<notin> set (direct (node fs n))"
  shows "\<exists>r fs'. add_single_indirect_block n fs = Inr (r, fs') \<and> grown n fs fs' \<and>
    (if r = - 1 then disk_full fs' \<and> node fs' n = node fs n
     else indirect (node fs' n) \<noteq> - 1 \<and> file_blocks fs' (node fs' n) = file_blocks fs (node fs n))"
proof (cases rule: first_unused_data_cases [of fs])
  case (full cs)
  then show ?thesis using i grown_coins [OF ok l, of cs]
    by (simp add: add_single_indirect_block_def)
next
  case (found b cs)
  define x where "x = node fs n"
  have b1: "b \<noteq> - 1" "0 \<le> b" using in_image_free [OF found(2)] by simp_all
  define x' where "x' = x\<lparr>indirect := b, nlink := 1\<rparr>"
  define fs2 where "fs2 = set_node n x' (fs\<lparr>coins := cs\<rparr>)"
  define fs3 where "fs3 = set_data_used b 1 fs2"
  define slots where "slots = concat (replicate NUM_INDIRECT_BLOCKS (int_bytes (- 1)))"
  define fs' where "fs' = put_text (nat b * BLOCK_SIZE + 0) slots fs3"
  have n: "n < length (inode_root fs)" using l by (simp add: live_inode_def)
  have nd: "node fs' = (node fs)(n := x')" using n by (simp add: fs'_def fs3_def fs2_def fun_eq_iff)
  have m: "meta fs3 = meta fs" "meta fs2 = meta fs" "meta fs' = meta fs" by (simp_all add: fs3_def fs2_def fs'_def)
  have im: "in_image fs2 = in_image fs" "in_image fs3 = in_image fs" "in_image fs' = in_image fs"
    using m in_image_meta by blast+
  have lay: "layout_ok fs2" "layout_ok fs3" using fs_okD(3) [OF ok l] layout_ok_meta m by blast+
  have "block_addr fs3 b = Inr (nat b * BLOCK_SIZE)" using block_addr_in [of fs3 b] found(2) im(2) by simp
  moreover have "add_single_indirect_block n fs = rbind (block_addr fs3 b) (\<lambda>p. Inr (0, put_text p slots fs3))"
    using found(1) i b1 by (simp add: add_single_indirect_block_def Let_def fs3_def fs2_def x'_def x_def slots_def)
  ultimately have r: "add_single_indirect_block n fs = Inr (0, fs')" by (simp add: fs'_def)
  have fits: "length slots = BLOCK_SIZE" using four_NUM_INDIRECT
    by (simp add: slots_def length_concat sum_list_replicate mult.commute)
  have d2: "disk fs2 = disk fs" by (simp add: fs2_def)
  have t: "block_text fs' c = block_text fs c" if "in_image fs c" "c \<noteq> b" for c
  proof -
    have "block_text fs' c = block_text fs3 c" unfolding fs'_def
      using that found(2) fits by (intro block_text_put_other) (auto simp: in_image_def)
    then show ?thesis using block_text_mark [OF lay(1), of c] that block_text_disk [OF d2] by (simp add: fs3_def im)
  qed
  have u: "get_data_used fs' c = (if c = b then 1 else get_data_used fs c)" for c
  proof -
    have "get_data_used fs' c = get_data_used fs3 c" unfolding fs'_def
      using found(2) fits by (intro get_data_used_put [OF lay(2)]) (simp_all add: im)
    then show ?thesis using get_data_used_mark [of fs2 b c] found(2) get_data_used_cong [OF m(2) d2, of c]
      by (simp add: fs3_def im)
  qed
  have tb: "block_text fs' b = slots" unfolding fs'_def using block_text_put_same [of 0 slots b fs3] fits by simp
  have en: "ientries fs' x' = replicate NUM_INDIRECT_BLOCKS (- 1)"
  proof (rule nth_equalityI)
    fix k assume "k < length (ientries fs' x')"
    then have k: "k < NUM_INDIRECT_BLOCKS" using b1 by (simp add: ientries_def x'_def)
    have "load_text (disk fs') (nat b * BLOCK_SIZE + 4 * k) 4 = take 4 (drop (4 * k) slots)"
      using k four_NUM_INDIRECT by (subst load_block_slice) (simp_all add: tb)
    also have "\<dots> = int_bytes (- 1)" unfolding slots_def by (rule concat_replicate_slice [OF _ k]) simp
    finally have "indirect_entry fs' (nat b * BLOCK_SIZE) k = - 1"
      unfolding indirect_entry_def by (rule load_int_bytes) simp_all
    then show "ientries fs' x' ! k = replicate NUM_INDIRECT_BLOCKS (- 1) ! k"
      using k b1 by (simp add: ientries_def x'_def)
  qed (use b1 in \<open>simp add: ientries_def x'_def\<close>)
  have fb: "file_blocks fs' x' = file_blocks fs x"
    using i en by (simp add: file_blocks_def assigned_replicate x'_def) (simp add: ientries_def x_def assigned_def)
  have ab: "all_blocks fs' x' = b # file_blocks fs x" "all_blocks fs x = file_blocks fs x"
    using fb i b1 by (simp_all add: all_blocks_def x'_def x_def)
  have "b \<notin> blocks_of fs n" by (rule free_block_foreign [OF ok l found(3)])
  then have dist: "distinct (all_blocks fs' x')" using fs_okD(2) [OF ok l] ab by (simp add: x_def)
  have wf: "inode_wf fs' x'" using en fs_okD(1) [OF ok l] dr
    by (simp add: inode_wf_def assigned_replicate x'_def x_def)
  have "grown n fs fs'"
  proof (rule grow_by [OF ok l found(2,3), of fs' "[]"])
    show "meta fs' = meta fs" "now fs' = now fs" "length (inode_root fs') = length (inode_root fs)"
      by (simp_all add: fs'_def fs3_def fs2_def)
    show "nlink (node fs' n) \<noteq> 0" by (simp add: nd x'_def)
    show "same_attributes (node fs n) (node fs' n)" by (simp add: nd x'_def x_def same_attributes_def)
    show "blocks_of fs' n \<subseteq> insert b (blocks_of fs n)" using ab by (auto simp: nd x_def)
  qed (use t u wf dist fb nd in \<open>simp_all add: x_def\<close>)
  then show ?thesis using r b1 fb nd by (auto simp: x'_def x_def)
qed

end
