(* ===== verification/FsFiles.thy ===== *)
theory FsFiles
  imports FsAlloc
begin

text \<open>
  Reading and writing files against their abstract content, a sequence of bytes: a read returns a
  slice of it, a write within or at the end of it overwrites and extends it, and no other file
  changes.
\<close>

section \<open>The block of an index\<close>

lemma file_blocks_direct:
  assumes "inode_wf fs x" and "length (assigned (direct x)) < NUM_DIRECT_BLOCKS"
  shows "indirect x = - 1" "file_blocks fs x = assigned (direct x)"
proof -
  show i: "indirect x = - 1"
  proof (rule ccontr)
    assume "indirect x \<noteq> - 1"
    then have "assigned (direct x) = direct x"
      using assms(1) by (simp add: inode_wf_def assigned_def takeWhile_eq_all_conv) blast
    with assms show False by (simp add: inode_wf_def)
  qed
  then show "file_blocks fs x = assigned (direct x)" by (simp add: file_blocks_def ientries_def assigned_def)
qed

lemma assigned_full:
  assumes "length (assigned xs) = length xs"
  shows "assigned xs = xs" "- 1 \<notin> set xs"
proof -
  have "assigned xs @ dropWhile (\<lambda>b. b \<noteq> - 1) xs = xs" by (simp add: assigned_def)
  with assms have "dropWhile (\<lambda>b. b \<noteq> - 1) xs = []" by (metis append_eq_append_conv self_append_conv)
  then show "assigned xs = xs" by (simp add: assigned_def)
  then show "- 1 \<notin> set xs" using assigned_not_free by metis
qed

lemma file_block_in_image:
  assumes "fs_ok fs" and "live_inode fs n" and "k < length (file_blocks fs (node fs n))"
  shows "in_image fs (file_blocks fs (node fs n) ! k)" "file_blocks fs (node fs n) ! k \<in> blocks_of fs n"
  using fs_okD(4) [OF assms(1,2)] nth_mem [OF assms(3)] by (auto simp: all_blocks_def)

lemma length_ientries [simp]: "indirect x \<noteq> - 1 \<Longrightarrow> length (ientries fs x) = NUM_INDIRECT_BLOCKS"
  by (simp add: ientries_def)

lemma indirect_in_image:
  "fs_ok fs \<Longrightarrow> live_inode fs n \<Longrightarrow> indirect (node fs n) \<noteq> - 1 \<Longrightarrow> in_image fs (indirect (node fs n))"
  using fs_okD(4) indirect_in_blocks by blast

text \<open>Behind the direct blocks.\<close>

lemma get_nth_ok:
  assumes ok: "fs_ok fs" and l: "live_inode fs n" and i: "indirect (node fs n) \<noteq> - 1"
    and k: "k < NUM_INDIRECT_BLOCKS"
  shows "get_nth_indirect_block fs n k =
    Inr (if k < length (assigned (ientries fs (node fs n)))
         then Some (nat (file_blocks fs (node fs n) ! (NUM_DIRECT_BLOCKS + k)) * BLOCK_SIZE) else None)"
proof -
  let ?x = "node fs n"
  have w: "filled (ientries fs ?x)" "length (direct ?x) = NUM_DIRECT_BLOCKS" "assigned (direct ?x) = direct ?x"
    using fs_okD(1) [OF ok l] i by (auto simp: inode_wf_def assigned_def takeWhile_eq_all_conv)
  have e: "indirect_entry fs (nat (indirect ?x) * BLOCK_SIZE) k = ientries fs ?x ! k"
    using i k by (simp add: ientries_def)
  show ?thesis
  proof (cases "k < length (assigned (ientries fs ?x))")
    case True
    then have "ientries fs ?x ! k = file_blocks fs ?x ! (NUM_DIRECT_BLOCKS + k)"
      using w by (simp add: file_blocks_def nth_append assigned_nth)
    moreover have "NUM_DIRECT_BLOCKS + k < length (file_blocks fs ?x)" using True w by (simp add: file_blocks_def)
    moreover have "ientries fs ?x ! k \<noteq> - 1" using filled_nth [OF w(1), of k] True k i by simp
    ultimately show ?thesis
      using True k e block_addr_in [OF indirect_in_image [OF ok l i]] block_addr_in file_block_in_image(1) [OF ok l]
      by (simp add: get_nth_indirect_block_def)
  next
    case False
    then have "ientries fs ?x ! k = - 1" using filled_nth [OF w(1), of k] k i by simp
    with False k e block_addr_in [OF indirect_in_image [OF ok l i]] show ?thesis
      by (simp add: get_nth_indirect_block_def)
  qed
qed

definition target :: "inode_ptr \<Rightarrow> filesys \<Rightarrow> nat \<Rightarrow> nat option \<Rightarrow> filesys \<Rightarrow> bool" where
  "target n fs k r fs' \<longleftrightarrow> grown n fs fs' \<and>
     (case r of
        None \<Rightarrow> disk_full fs'
      | Some p \<Rightarrow> k < length (file_blocks fs' (node fs' n)) \<and> p = nat (file_blocks fs' (node fs' n) ! k) * BLOCK_SIZE)"

lemma target_allocated:
  assumes "one_more n fs b fs'" and "k = length (file_blocks fs (node fs n))"
  shows "\<exists>r. allocated b fs' = Inr (r, fs') \<and> target n fs k r fs'"
  using assms block_addr_in [of fs' b]
  by (cases "b = - 1") (auto simp: one_more_def allocated_def target_def nth_append)

lemma write_block_indirect:
  assumes ok: "fs_ok fs" and l: "live_inode fs n" and i: "indirect (node fs n) \<noteq> - 1"
    and k: "k < NUM_INDIRECT_BLOCKS" "NUM_DIRECT_BLOCKS + k \<le> length (file_blocks fs (node fs n))"
  shows "\<exists>r fs'. rbind (get_nth_indirect_block fs n k) (\<lambda>tempdb.
      case tempdb of
        Some p \<Rightarrow> Inr (Some p, fs)
      | None \<Rightarrow> rbind (block_addr fs (indirect (node fs n))) (\<lambda>blocks.
          let (b, fs) = add_data_block_to_indirect_block blocks fs in allocated b fs)) = Inr (r, fs') \<and>
    target n fs (NUM_DIRECT_BLOCKS + k) r fs'"
proof -
  let ?x = "node fs n"
  have w: "length (direct ?x) = NUM_DIRECT_BLOCKS" "assigned (direct ?x) = direct ?x"
    using fs_okD(1) [OF ok l] i by (auto simp: inode_wf_def assigned_def takeWhile_eq_all_conv)
  then have fl: "length (file_blocks fs ?x) = NUM_DIRECT_BLOCKS + length (assigned (ientries fs ?x))"
    by (simp add: file_blocks_def)
  show ?thesis
  proof (cases "k < length (assigned (ientries fs ?x))")
    case True
    have "grown n fs fs" using grown_coins [OF ok l, of "coins fs"] by simp
    then show ?thesis using True get_nth_ok [OF ok l i k(1)] fl by (simp add: target_def)
  next
    case False
    then have kl: "k = length (assigned (ientries fs ?x))" using k(2) fl by simp
    then obtain b fs' where "add_data_block_to_indirect_block (nat (indirect ?x) * BLOCK_SIZE) fs = (b, fs')"
      "one_more n fs b fs'" using add_indirect [OF ok l i] k(1) by auto
    with target_allocated [of n fs b fs' "NUM_DIRECT_BLOCKS + k"] fl kl False show ?thesis
      using get_nth_ok [OF ok l i k(1)] block_addr_in [OF indirect_in_image [OF ok l i]] by auto
  qed
qed

lemma write_block_ok:
  assumes ok: "fs_ok fs" and l: "live_inode fs n" and k: "k \<le> length (file_blocks fs (node fs n))"
    and m: "k < NUM_DIRECT_BLOCKS + NUM_DIRECT_BLOCKS"
  shows "\<exists>r fs'. write_block n k fs = Inr (r, fs') \<and> target n fs k r fs'"
proof (cases "NUM_DIRECT_BLOCKS \<le> k")
  case True
  let ?x = "node fs n"
  have kN: "k - NUM_DIRECT_BLOCKS < NUM_INDIRECT_BLOCKS"
    using m by (simp add: NUM_DIRECT_BLOCKS_def NUM_INDIRECT_BLOCKS_def BLOCK_SIZE_def KILOBYTE_def)
  have w: "length (direct ?x) = NUM_DIRECT_BLOCKS" using fs_okD(1) [OF ok l] by (simp add: inode_wf_def)
  have full: "- 1 \<notin> set (direct ?x)"
  proof (cases "length (assigned (direct ?x)) = length (direct ?x)")
    case True then show ?thesis by (rule assigned_full(2))
  next
    case False
    then have "length (assigned (direct ?x)) < NUM_DIRECT_BLOCKS" using w length_assigned [of "direct ?x"] by simp
    with file_blocks_direct(2) [OF fs_okD(1) [OF ok l]] k True show ?thesis by simp
  qed
  show ?thesis
  proof (cases "indirect ?x = - 1")
    case False
    from write_block_indirect [OF ok l False kN] k True show ?thesis
      by (auto simp: write_block_def False)
  next
    case i: True
    obtain r fs1 where 1: "add_single_indirect_block n fs = Inr (r, fs1)" "grown n fs fs1"
      "if r = - 1 then disk_full fs1 \<and> node fs1 n = node fs n
       else indirect (node fs1 n) \<noteq> - 1 \<and> file_blocks fs1 (node fs1 n) = file_blocks fs (node fs n)"
      using add_single [OF ok l i full] by blast
    show ?thesis
    proof (cases "r = - 1")
      case r: True
      then show ?thesis using 1 i True by (simp add: write_block_def target_def)
    next
      case False
      with 1(3) have 2: "indirect (node fs1 n) \<noteq> - 1" "file_blocks fs1 (node fs1 n) = file_blocks fs (node fs n)"
        by simp_all
      from write_block_indirect [OF grownD(1,3) [OF 1(2)] 2(1) kN] 2(2) k True obtain q fs' where
        3: "write_block n k fs = Inr (q, fs')" "target n fs1 k q fs'"
        using 1(1) i False by (auto simp: write_block_def)
      then show ?thesis using grown_trans [OF 1(2)] by (auto simp: target_def)
    qed
  qed
next
  case False
  let ?x = "node fs n"
  have w: "length (direct ?x) = NUM_DIRECT_BLOCKS" "filled (direct ?x)"
    using fs_okD(1) [OF ok l] by (simp_all add: inode_wf_def)
  show ?thesis
  proof (cases "k < length (assigned (direct ?x))")
    case True
    then have "file_blocks fs ?x ! k = direct ?x ! k" "k < length (file_blocks fs ?x)"
      by (simp_all add: file_blocks_def nth_append assigned_nth)
    moreover have "direct ?x ! k \<noteq> - 1" using filled_nth [OF w(2), of k] w(1) False True by simp
    moreover have "grown n fs fs" using grown_coins [OF ok l, of "coins fs"] by simp
    moreover have "block_addr fs (direct ?x ! k) = Inr (nat (direct ?x ! k) * BLOCK_SIZE)"
      using block_addr_in [OF file_block_in_image(1) [OF ok l]] calculation(1,2) by metis
    ultimately show ?thesis using False by (auto simp: write_block_def target_def)
  next
    case f: False
    then have sp: "length (assigned (direct ?x)) < NUM_DIRECT_BLOCKS" using False by simp
    note fb = file_blocks_direct(2) [OF fs_okD(1) [OF ok l] sp]
    then have kl: "k = length (file_blocks fs ?x)" using k f by simp
    obtain b fs' where b: "add_data_block_to_inode n fs = (b, fs')" "one_more n fs b fs'"
      using add_direct [OF ok l sp] by blast
    have "direct ?x ! k = - 1" using filled_nth [OF w(2), of k] w(1) False f by simp
    with b(1) False target_allocated [OF b(2) kl] show ?thesis by (auto simp: write_block_def)
  qed
qed

section \<open>Storing a chunk\<close>

lemma concat_update:
  assumes "\<forall>xs \<in> set xss. length xs = B" and "k < length xss"
  shows "concat (xss[k := ys]) = take (k * B) (concat xss) @ ys @ drop (k * B + B) (concat xss)"
  using assms
proof (induction xss arbitrary: k)
  case (Cons xs xss)
  show ?case
  proof (cases k)
    case (Suc j)
    with Cons show ?thesis by (simp add: add.commute)
  qed (use Cons in simp)
qed simp

lemma splice_splice:
  assumes "k + B \<le> length xs" and "j + length bs \<le> B"
  shows "take k xs @ (take j (take B (drop k xs)) @ bs @ drop (j + length bs) (take B (drop k xs))) @ drop (k + B) xs =
    take (k + j) xs @ bs @ drop (k + j + length bs) xs"
proof -
  have "drop (j + length bs) (take B (drop k xs)) @ drop (k + B) xs = drop (k + j + length bs) xs"
  proof -
    have m: "min (length xs - k) B = B" using assms by simp
    have "drop (k + j + length bs) xs = drop (j + length bs) (drop k xs)" by (simp add: add.commute add.left_commute)
    also have "\<dots> = drop (j + length bs) (take B (drop k xs) @ drop B (drop k xs))"
      by (simp only: append_take_drop_id)
    also have "\<dots> = drop (j + length bs) (take B (drop k xs)) @ drop (k + B) xs"
      using assms m by (subst drop_append) (simp add: add.commute)
    finally show ?thesis by simp
  qed
  moreover have "take k xs @ take j (take B (drop k xs)) = take (k + j) xs"
    using assms(2) by (simp add: take_add min_def)
  ultimately show ?thesis by (metis append.assoc)
qed

lemma nth_raw_block:
  assumes "k < length (file_blocks fs (node fs n))"
  shows "take BLOCK_SIZE (drop (k * BLOCK_SIZE) (raw_bytes fs n)) = block_text fs (file_blocks fs (node fs n) ! k)"
proof -
  have "take B (drop (k * B) (concat xss)) = xss ! k"
    if "\<forall>xs \<in> set xss. length xs = B" "k < length xss" for xss :: "'a list list" and k B
    using that
  proof (induction xss arbitrary: k)
    case (Cons xs xss)
    then show ?case by (cases k) (simp_all add: add.commute)
  qed simp
  from this [of "map (block_text fs) (file_blocks fs (node fs n))" BLOCK_SIZE k] assms
  show ?thesis by (simp add: raw_bytes_def)
qed

lemma block_within_raw:
  assumes "k < length (file_blocks fs (node fs n))"
  shows "k * BLOCK_SIZE + BLOCK_SIZE \<le> length (raw_bytes fs n)"
proof -
  have "Suc k * BLOCK_SIZE \<le> length (file_blocks fs (node fs n)) * BLOCK_SIZE" using assms by (intro mult_le_mono1) simp
  then show ?thesis by (simp add: length_raw_bytes)
qed

lemma put_chunk:
  assumes ok: "fs_ok fs" and l: "live_inode fs n" and k: "k < length (file_blocks fs (node fs n))"
    and f: "j + length bs \<le> BLOCK_SIZE"
    and fs': "fs' = put_text (nat (file_blocks fs (node fs n) ! k) * BLOCK_SIZE + j) bs fs"
  shows "fs_ok fs'" "only_inode n fs fs'" "node fs' n = node fs n" "live_inode fs' n"
    "raw_bytes fs' n = take (k * BLOCK_SIZE + j) (raw_bytes fs n) @ bs @ drop (k * BLOCK_SIZE + j + length bs) (raw_bytes fs n)"
    "file_blocks fs' (node fs n) = file_blocks fs (node fs n)"
proof -
  define c where "c = file_blocks fs (node fs n) ! k"
  have c: "in_image fs c" "c \<in> blocks_of fs n" using file_block_in_image [OF ok l k] by (simp_all add: c_def)
  have other: "block_text fs' b = block_text fs b" if "b \<noteq> c" "in_image fs b" for b
    unfolding fs' c_def [symmetric] using that c(1) f by (intro block_text_put_other) (auto simp: in_image_def)
  have nd: "node fs' = node fs" by (simp add: fs')
  show on: "only_inode n fs fs'"
  proof (rule only_inodeI)
    fix m b assume m: "m \<noteq> n" "live_inode fs m" "b \<in> blocks_of fs m"
    show "block_text fs' b = block_text fs b"
      using fs_ok_disjoint [OF ok l m(2) _ c(2)] m fs_okD(4) [OF ok m(2,3)] by (intro other) auto
  qed (simp_all add: fs')
  have ind: "block_text fs' (indirect (node fs n)) = block_text fs (indirect (node fs n))"
    if i: "indirect (node fs n) \<noteq> - 1"
  proof (rule other)
    show "in_image fs (indirect (node fs n))" by (rule indirect_in_image [OF ok l i])
    show "indirect (node fs n) \<noteq> c" using fs_okD(2) [OF ok l] i nth_mem [OF k] by (auto simp: all_blocks_def c_def)
  qed
  note bc = blocks_cong [OF refl refl ind]
  show "file_blocks fs' (node fs n) = file_blocks fs (node fs n)" by (rule bc(1))
  show "node fs' n = node fs n" by (simp add: nd)
  show l': "live_inode fs' n" using l nd by (simp add: live_inode_def fs')
  show "fs_ok fs'"
  proof (rule fs_ok_step [OF ok on l])
    show "get_data_used fs' b = 1" if "get_data_used fs b = 1" for b
      using that get_data_used_put [OF fs_okD(3) [OF ok l] c(1) f] by (simp add: fs' c_def)
  qed (use bc fs_okD(1,2) [OF ok l] nd in auto)
  have "map (block_text fs') (file_blocks fs (node fs n)) = (map (block_text fs) (file_blocks fs (node fs n)))[k := block_text fs' c]"
  proof (rule nth_equalityI)
    fix i assume "i < length (map (block_text fs') (file_blocks fs (node fs n)))"
    then have i: "i < length (file_blocks fs (node fs n))" by simp
    have "i \<noteq> k \<Longrightarrow> file_blocks fs (node fs n) ! i \<noteq> c"
      using fs_okD(2) [OF ok l] i k by (auto simp: all_blocks_def c_def nth_eq_iff_index_eq split: if_splits)
    then show "map (block_text fs') (file_blocks fs (node fs n)) ! i =
        (map (block_text fs) (file_blocks fs (node fs n)))[k := block_text fs' c] ! i"
      using i other file_block_in_image(1) [OF ok l i] by (cases "i = k") (auto simp: nth_list_update c_def)
  qed simp
  moreover have "raw_bytes fs' n = concat (map (block_text fs') (file_blocks fs (node fs n)))"
    using bc(1) by (simp add: raw_bytes_def nd)
  ultimately have "raw_bytes fs' n = take (k * BLOCK_SIZE) (raw_bytes fs n) @ block_text fs' c @ drop (k * BLOCK_SIZE + BLOCK_SIZE) (raw_bytes fs n)"
    using k concat_update [of "map (block_text fs) (file_blocks fs (node fs n))" BLOCK_SIZE k] by (simp add: raw_bytes_def)
  also have "block_text fs' c = take j (block_text fs c) @ bs @ drop (j + length bs) (block_text fs c)"
    unfolding fs' c_def by (rule block_text_put_same [OF f])
  also have "block_text fs c = take BLOCK_SIZE (drop (k * BLOCK_SIZE) (raw_bytes fs n))"
    by (simp add: nth_raw_block [OF k] c_def)
  finally show "raw_bytes fs' n = take (k * BLOCK_SIZE + j) (raw_bytes fs n) @ bs @ drop (k * BLOCK_SIZE + j + length bs) (raw_bytes fs n)"
    using splice_splice [OF block_within_raw [OF k] f] by simp
qed

section \<open>The loops\<close>

lemma write_blocks_ok:
  assumes "fs_ok fs" and "live_inode fs n" and "off \<le> length (raw_bytes fs n)"
    and "off + length buf \<le> max_file_size"
  shows "\<exists>fs' w ok ext. write_blocks n buf off fs = Inr (fs', off + w, ok) \<and>
    fs_ok fs' \<and> only_inode n fs fs' \<and> live_inode fs' n \<and> same_attributes (node fs n) (node fs' n) \<and>
    raw_bytes fs' n = take off (raw_bytes fs n) @ take w buf @ drop (off + w) (raw_bytes fs n) @ ext \<and>
    w \<le> length buf \<and> (if ok then w = length buf else disk_full fs' \<and> last_error fs' = Some ENOSPC)"
  using assms
proof (induction n buf off fs rule: write_blocks.induct)
  case (1 n buf off fs)
  note ok = "1.prems"(1) and l = "1.prems"(2)
  show ?case
  proof (cases "buf = []")
    case True
    have "same_attributes (node fs n) (node fs n)" by (simp add: same_attributes_def)
    with True ok l show ?thesis
      by (intro exI [of _ fs] exI [of _ 0] exI [of _ True] exI [of _ "[]"]) (simp add: write_blocks.simps)
  next
    case False
    define k j where "k = off div BLOCK_SIZE" and "j = off mod BLOCK_SIZE"
    have kj: "k * BLOCK_SIZE + j = off" "j < BLOCK_SIZE" by (simp_all add: k_def j_def)
    have "off \<le> length (file_blocks fs (node fs n)) * BLOCK_SIZE" using "1.prems"(3) by (simp add: length_raw_bytes)
    then have kl: "k \<le> length (file_blocks fs (node fs n))" unfolding k_def
      by (metis BLOCK_SIZE_pos div_le_mono nonzero_mult_div_cancel_right not_gr_zero)
    have "off < (NUM_DIRECT_BLOCKS + NUM_DIRECT_BLOCKS) * BLOCK_SIZE"
      using "1.prems"(4) False by (cases buf) (simp_all add: max_file_size_def)
    then have km: "k < NUM_DIRECT_BLOCKS + NUM_DIRECT_BLOCKS" unfolding k_def by (rule less_mult_imp_div_less)
    obtain r fs1 where w: "write_block n k fs = Inr (r, fs1)" "target n fs k r fs1"
      using write_block_ok [OF ok l kl km] by blast
    then have g: "grown n fs fs1" by (simp add: target_def)
    obtain e1 where e1: "raw_bytes fs1 n = raw_bytes fs n @ e1" using grownD(5) [OF g] by blast
    show ?thesis
    proof (cases r)
      case None
      with w False g e1 "1.prems"(3) have "write_blocks n buf off fs = Inr (fs1\<lparr>last_error := Some ENOSPC\<rparr>, off + 0, False)"
        "disk_full fs1" by (simp_all add: write_blocks.simps k_def target_def)
      with grownD [OF g] e1 show ?thesis
        by (intro exI [of _ "fs1\<lparr>last_error := Some ENOSPC\<rparr>"] exI [of _ 0] exI [of _ False] exI [of _ e1])
          (simp add: only_inode_def)
    next
      case (Some p)
      define c where "c = min (length buf) (BLOCK_SIZE - j)"
      have k1: "k < length (file_blocks fs1 (node fs1 n))" "p = nat (file_blocks fs1 (node fs1 n) ! k) * BLOCK_SIZE"
        using w(2) Some by (simp_all add: target_def)
      define fs2 where "fs2 = put_text (nat (file_blocks fs1 (node fs1 n) ! k) * BLOCK_SIZE + j) (take c buf) fs1"
      have jc: "j + length (take c buf) \<le> BLOCK_SIZE" "length (take c buf) = c" using kj(2) by (simp_all add: c_def)
      note pc = put_chunk [OF grownD(1,3) [OF g] k1(1) jc(1) fs2_def, unfolded kj(1) jc(2)]
      have step: "write_blocks n buf off fs = write_blocks n (drop c buf) (off + c) fs2"
        using False w(1) Some by (subst write_blocks.simps) (simp add: Let_def c_def fs2_def k_def j_def k1(2))
      have offr: "take off (raw_bytes fs1 n) = take off (raw_bytes fs n)" using e1 "1.prems"(3) by simp
      have end1: "off + c \<le> length (raw_bytes fs1 n)"
        using block_within_raw [OF k1(1)] kj jc by simp
      then have r2: "off + c \<le> length (raw_bytes fs2 n)" "take (off + c) (raw_bytes fs2 n) = take off (raw_bytes fs n) @ take c buf"
        unfolding pc(5) offr using "1.prems"(3) jc(2) by simp_all
      have "off + c + length (drop c buf) \<le> max_file_size" using "1.prems"(4) c_def by simp
      then obtain fs' w' ok' ext where ih: "write_blocks n (drop c buf) (off + c) fs2 = Inr (fs', off + c + w', ok')"
        "fs_ok fs'" "only_inode n fs2 fs'" "live_inode fs' n" "same_attributes (node fs2 n) (node fs' n)"
        "raw_bytes fs' n = take (off + c) (raw_bytes fs2 n) @ take w' (drop c buf) @ drop (off + c + w') (raw_bytes fs2 n) @ ext"
        "w' \<le> length (drop c buf)"
        "if ok' then w' = length (drop c buf) else disk_full fs' \<and> last_error fs' = Some ENOSPC"
        using "1.IH" [OF False w(1) [unfolded k_def] refl, of p c, unfolded Some]
          pc(1,4) r2(1) by (auto simp: c_def j_def fs2_def k1(2) add.assoc)
      have "drop (off + c + w') (raw_bytes fs2 n) = drop (off + c + w') (raw_bytes fs1 n)"
        unfolding pc(5) offr using "1.prems"(3) jc(2) by (simp add: ac_simps)
      then have "raw_bytes fs' n = take off (raw_bytes fs n) @ take (c + w') buf @ drop (off + (c + w')) (raw_bytes fs n) @
          drop (off + c + w' - length (raw_bytes fs n)) e1 @ ext"
        unfolding ih(6) r2(2) e1 by (simp add: take_add add.assoc)
      moreover have "same_attributes (node fs n) (node fs' n)"
        using grownD(4) [OF g] ih(5) pc(3) by (simp add: same_attributes_def)
      moreover have "only_inode n fs fs'"
        by (rule only_inode_trans [OF grownD(2) [OF g] only_inode_trans [OF pc(2) ih(3)]])
      moreover have "c + w' \<le> length buf" "ok' \<Longrightarrow> c + w' = length buf" using ih(7,8) by (auto simp: c_def)
      ultimately show ?thesis using ih(1-4,8) step
        by (intro exI [of _ fs'] exI [of _ "c + w'"] exI [of _ ok']
            exI [of _ "drop (off + c + w' - length (raw_bytes fs n)) e1 @ ext"]) (simp add: add.assoc)
    qed
  qed
qed

end
