(* ===== verification/FsContent.thy ===== *)
theory FsContent
  imports FsFiles
begin

text \<open>
  \<open>minixfs_read\<close> and \<open>minixfs_write\<close> on a file that a path names: what they do to the abstract
  content of the file, and to the rest of the image.
\<close>

section \<open>Changing attributes\<close>

lemma set_attributes:
  assumes ok: "fs_ok fs" and l: "live_inode fs n"
    and x: "direct x = direct (node fs n)" "indirect x = indirect (node fs n)" "nlink x = nlink (node fs n)"
  shows "fs_ok (set_node n x fs)" "only_inode n fs (set_node n x fs)" "live_inode (set_node n x fs) n"
    "node (set_node n x fs) n = x" "raw_bytes (set_node n x fs) n = raw_bytes fs n"
proof -
  let ?fs = "set_node n x fs"
  have n: "n < length (inode_root fs)" using l by (simp add: live_inode_def)
  then show nd: "node ?fs n = x" by simp
  show on: "only_inode n fs ?fs"
    by (rule only_inodeI) (simp_all add: n block_text_disk [of ?fs fs])
  show "live_inode ?fs n" using l n x(3) by (simp add: live_inode_def)
  have bt: "block_text ?fs = block_text fs" by (rule block_text_disk) simp
  note c = blocks_cong [OF x(1,2), of ?fs fs, unfolded bt, OF refl]
  show "raw_bytes ?fs n = raw_bytes fs n" unfolding raw_bytes_def nd bt c(1) ..
  have u: "get_data_used ?fs = get_data_used fs" by (rule ext, rule get_data_used_cong) simp_all
  show "fs_ok ?fs"
    by (rule fs_ok_step [OF ok on l]) (use c fs_okD(1,2) [OF ok l] in \<open>simp_all only: u nd\<close>, simp_all)
qed

section \<open>Reading\<close>

lemma read_block_ok:
  assumes ok: "fs_ok fs" and l: "live_inode fs n" and k: "k < length (file_blocks fs (node fs n))"
  shows "read_block fs n k = Inr (nat (file_blocks fs (node fs n) ! k) * BLOCK_SIZE)"
proof -
  let ?x = "node fs n"
  have w: "inode_wf fs ?x" "length (direct ?x) = NUM_DIRECT_BLOCKS"
    using fs_okD(1) [OF ok l] by (simp_all add: inode_wf_def)
  note addr = block_addr_in [OF file_block_in_image(1) [OF ok l k]]
  show ?thesis
  proof (cases "k < length (assigned (direct ?x))")
    case True
    then have "file_blocks fs ?x ! k = direct ?x ! k" "k < NUM_DIRECT_BLOCKS"
      using w(2) length_assigned [of "direct ?x"] by (simp_all add: file_blocks_def nth_append assigned_nth)
    with addr show ?thesis by (simp add: read_block_def)
  next
    case False
    have full: "length (assigned (direct ?x)) = NUM_DIRECT_BLOCKS"
      using file_blocks_direct(2) [OF w(1)] False k w(2) length_assigned [of "direct ?x"] by fastforce
    define j where "j = k - NUM_DIRECT_BLOCKS"
    have j: "j < length (assigned (ientries fs ?x))" "k = NUM_DIRECT_BLOCKS + j"
      using k False full by (simp_all add: file_blocks_def j_def)
    then have i: "indirect ?x \<noteq> - 1" by (auto simp: ientries_def assigned_def)
    have jN: "j < NUM_INDIRECT_BLOCKS" using j(1) length_assigned [of "ientries fs ?x"] i by simp
    have "file_blocks fs ?x ! k = ientries fs ?x ! j"
      using j full by (simp add: file_blocks_def nth_append assigned_nth)
    moreover have "get_nth_indirect_block fs n j = Inr (Some (nat (ientries fs ?x ! j) * BLOCK_SIZE))"
      using get_nth_ok [OF ok l i jN] j(1) full by (simp add: file_blocks_def nth_append assigned_nth)
    ultimately show ?thesis using j(2) by (simp add: read_block_def)
  qed
qed

lemma load_within_block:
  "j + c \<le> BLOCK_SIZE \<Longrightarrow> load_text (disk fs) (nat b * BLOCK_SIZE + j) c = take c (drop j (block_text fs b))"
  by (rule nth_equalityI) (auto simp: block_text_nth add.assoc)

lemma slice_raw:
  assumes k: "k < length (file_blocks fs (node fs n))" and jc: "j + c \<le> BLOCK_SIZE"
  shows "take c (drop (k * BLOCK_SIZE + j) (raw_bytes fs n)) =
    take c (drop j (block_text fs (file_blocks fs (node fs n) ! k)))"
  unfolding nth_raw_block [OF k, symmetric] using jc by (simp add: drop_take add.commute)

lemma read_blocks_ok:
  assumes "fs_ok fs" and "live_inode fs n" and "off + len \<le> length (raw_bytes fs n)"
  shows "read_blocks fs n len off acc = Inr (acc @ take len (drop off (raw_bytes fs n)))"
  using assms
proof (induction fs n len off acc rule: read_blocks.induct)
  case (1 fs n len off acc)
  show ?case
  proof (cases "len = 0")
    case False
    define k j where "k = off div BLOCK_SIZE" and "j = off mod BLOCK_SIZE"
    have kj: "k * BLOCK_SIZE + j = off" "j < BLOCK_SIZE" by (simp_all add: k_def j_def)
    define c where "c = min len (BLOCK_SIZE - j)"
    have "off < length (file_blocks fs (node fs n)) * BLOCK_SIZE" using "1.prems"(3) False by (simp add: length_raw_bytes)
    then have k: "k < length (file_blocks fs (node fs n))" unfolding k_def by (rule less_mult_imp_div_less)
    have jc: "j + c \<le> BLOCK_SIZE" using kj(2) by (simp add: c_def)
    have r: "read_block fs n (off div BLOCK_SIZE) = Inr (nat (file_blocks fs (node fs n) ! k) * BLOCK_SIZE)"
      using read_block_ok [OF "1.prems"(1,2) k] by (simp add: k_def)
    have ld: "load_text (disk fs) (nat (file_blocks fs (node fs n) ! k) * BLOCK_SIZE + j) c = take c (drop off (raw_bytes fs n))"
      using load_within_block [OF jc] slice_raw [OF k jc] kj(1) by simp
    have "read_blocks fs n len off acc =
        read_blocks fs n (len - c) (off + c) (acc @ take c (drop off (raw_bytes fs n)))"
      unfolding ld [symmetric] using False r by (subst read_blocks.simps) (simp add: Let_def c_def j_def)
    also have "\<dots> = Inr ((acc @ take c (drop off (raw_bytes fs n))) @ take (len - c) (drop (off + c) (raw_bytes fs n)))"
      using "1.IH" [OF False r c_def [unfolded j_def] "1.prems"(1,2)] "1.prems"(3)
      by (simp add: j_def [symmetric] ld) (simp add: c_def)
    also have "\<dots> = Inr (acc @ take len (drop off (raw_bytes fs n)))"
    proof -
      have "take len (drop off (raw_bytes fs n)) = take (c + (len - c)) (drop off (raw_bytes fs n))"
        by (simp add: c_def)
      also have "\<dots> = take c (drop off (raw_bytes fs n)) @ take (len - c) (drop (off + c) (raw_bytes fs n))"
        by (simp add: take_add add.commute)
      finally show ?thesis by simp
    qed
    finally show ?thesis .
  qed (simp add: read_blocks.simps)
qed

section \<open>Writing\<close>

text \<open>The specification: a write overwrites and extends the bytes of the file.\<close>

definition file_write :: "string \<Rightarrow> string \<Rightarrow> nat \<Rightarrow> string" where
  "file_write bytes buf off = take off bytes @ buf @ drop (off + length buf) bytes"

lemma splice_take:
  assumes "k \<le> F" and "F \<le> length xs"
  shows "take (max F (k + length b)) (take k xs @ take (length b) b @ drop (k + length b) xs @ e) =
    take k (take F xs) @ b @ drop (k + length b) (take F xs)"
proof -
  let ?A = "take k xs @ b" and ?D = "drop (k + length b) xs @ e" and ?F = "max F (k + length b)"
  have A: "length ?A = k + length b" using assms by simp
  have "take ?F (?A @ ?D) = ?A @ take (?F - (k + length b)) ?D"
    unfolding take_append [of ?F ?A] A by (rule arg_cong2 [where f = append], rule take_all, unfold A) simp_all
  moreover have "take (?F - (k + length b)) ?D = drop (k + length b) (take F xs)"
    using assms by (simp add: drop_take max_def)
  moreover have "take k (take F xs) = take k xs" using assms(1) by simp
  ultimately show ?thesis by simp
qed

lemma write_file_ok:
  assumes ok: "fs_ok fs" and l: "live_inode fs n" and p: "get_inode fs path = Inr (Some n)"
    and sz: "sized fs n" and off: "off \<le> fsize (node fs n)" and m: "off + length buf \<le> max_file_size"
  shows "\<exists>fs' fin off'. minixfs_write fs path buf off = Inr (fs', if fin then int (length buf) else - 1, off') \<and>
    fs_ok fs' \<and> only_inode n fs fs' \<and> live_inode fs' n \<and> mode (node fs' n) = mode (node fs n) \<and>
    (if fin then off' = off + length buf \<and> sized fs' n \<and> content fs' n = file_write (content fs n) buf off
     else disk_full fs' \<and> last_error fs' = Some ENOSPC)"
proof -
  define x where "x = (node fs n)\<lparr>atim := now fs, mtim := now fs\<rparr>"
  define y where "y = (if fsize x < off + length buf then x\<lparr>fsize := min (off + length buf) max_file_size\<rparr> else x)"
  have y: "direct y = direct (node fs n)" "indirect y = indirect (node fs n)" "nlink y = nlink (node fs n)"
    "mode y = mode (node fs n)" "fsize y = max (fsize (node fs n)) (off + length buf)"
    using m by (auto simp: y_def x_def)
  define fs1 where "fs1 = set_node n y fs"
  note sa = set_attributes [OF ok l y(1-3), folded fs1_def]
  have "off \<le> length (raw_bytes fs1 n)" using off sz sa(5) by (simp add: sized_def)
  then obtain fs' w fin ext where w: "write_blocks n buf off fs1 = Inr (fs', off + w, fin)"
    "fs_ok fs'" "only_inode n fs1 fs'" "live_inode fs' n" "same_attributes y (node fs' n)"
    "raw_bytes fs' n = take off (raw_bytes fs n) @ take w buf @ drop (off + w) (raw_bytes fs n) @ ext"
    "if fin then w = length buf else disk_full fs' \<and> last_error fs' = Some ENOSPC"
    using write_blocks_ok [OF sa(1,3) _ m] unfolding sa(4,5) by blast
  have run: "minixfs_write fs path buf off = Inr (fs', if fin then int (length buf) else - 1, off + w)"
    using m p w(1) [unfolded fs1_def y_def x_def] by (simp add: minixfs_write_def Let_def split: if_splits)
  have fz: "fsize (node fs' n) = max (fsize (node fs n)) (off + length buf)" "mode (node fs' n) = mode (node fs n)"
    using w(5) y by (simp_all add: same_attributes_def)
  have "sized fs' n \<and> content fs' n = file_write (content fs n) buf off" if "fin"
  proof
    have w': "w = length buf" using w(7) that by simp
    have o: "off \<le> length (raw_bytes fs n)" "fsize (node fs n) \<le> length (raw_bytes fs n)"
      using off sz by (simp_all add: sized_def)
    show "sized fs' n" using o by (simp add: sized_def fz w(6) w')
    show "content fs' n = file_write (content fs n) buf off"
      unfolding content_def file_write_def fz w(6) w' by (rule splice_take) (use o off in simp_all)
  qed
  with run w(2-4,7) fz(2) only_inode_trans [OF sa(2) w(3)] show ?thesis
    by (intro exI [of _ fs'] exI [of _ "fin"] exI [of _ "off + w"]) auto
qed

end
