(* ===== verification/FsPaths.thy ===== *)
theory FsPaths
  imports FsContent
begin

text \<open>
  Path resolution depends on the blocks of the directories on the way only: an operation on one
  file leaves the other paths, and its own, where they were.
\<close>

section \<open>Looking a name up in the same blocks\<close>

lemma load_text_part:
  assumes "load_text m' p' n = load_text m p n" and "o' + k \<le> n"
  shows "load_text m' (p' + o') k = load_text m (p + o') k"
proof (rule nth_equalityI)
  fix i assume "i < length (load_text m' (p' + o') k)"
  then have "o' + i < n" "i < k" using assms(2) by simp_all
  then show "load_text m' (p' + o') k ! i = load_text m (p + o') k ! i"
    using arg_cong [OF assms(1), of "\<lambda>xs. xs ! (o' + i)"] by (simp add: add.assoc)
qed simp

lemma entry_cong:
  assumes "load_text (disk fs') p' FILE_NAME_ENTRY = load_text (disk fs) p FILE_NAME_ENTRY"
  shows "make_dirent_from_string fs' p' = make_dirent_from_string fs p"
    "length name < FILE_NAME_ENTRY \<Longrightarrow> name_is fs' p' name = name_is fs p name"
  using load_text_part [OF assms, of FILE_NAME_LENGTH INODE_SIZE] load_text_part [OF assms, of 0 "length name + 1"]
  by (simp_all add: make_dirent_from_string_def name_is_def FILE_NAME_ENTRY_def INODE_SIZE_def)

definition entry_kept :: "filesys \<Rightarrow> filesys \<Rightarrow> (int \<times> nat) option \<Rightarrow> bool" where
  "entry_kept fs fs' e \<longleftrightarrow> (\<forall>i q. e = Some (i, q) \<longrightarrow>
     load_text (disk fs') q FILE_NAME_ENTRY = load_text (disk fs) q FILE_NAME_ENTRY)"

lemma scan_entries_cong:
  assumes "load_text (disk fs') p (k * FILE_NAME_ENTRY) = load_text (disk fs) p (k * FILE_NAME_ENTRY)"
    and "entry_kept fs fs' prev" and n: "length name < FILE_NAME_ENTRY"
  shows "scan_entries fs' name k p left prev = scan_entries fs name k p left prev \<and>
    (\<forall>r l e. scan_entries fs name k p left prev = Inr (r, l, e) \<longrightarrow> entry_kept fs fs' e)"
  using assms(1,2)
proof (induction k arbitrary: p left prev)
  case (Suc k)
  have a: "load_text (disk fs') p FILE_NAME_ENTRY = load_text (disk fs) p FILE_NAME_ENTRY"
    using load_text_part [OF Suc.prems(1), of 0 FILE_NAME_ENTRY] by simp
  have b: "load_text (disk fs') (p + FILE_NAME_ENTRY) (k * FILE_NAME_ENTRY) =
      load_text (disk fs) (p + FILE_NAME_ENTRY) (k * FILE_NAME_ENTRY)"
    using load_text_part [OF Suc.prems(1), of FILE_NAME_ENTRY "k * FILE_NAME_ENTRY"] by simp
  define prev' where "prev' = (case make_dirent_from_string fs p of Some i \<Rightarrow> Some (i, p) | None \<Rightarrow> prev)"
  have k': "entry_kept fs fs' prev'" using a Suc.prems(2) by (simp add: prev'_def entry_kept_def split: option.split)
  show ?case
  proof (cases prev')
    case None
    then show ?thesis using Suc.prems(2) by (simp add: entry_cong(1) [OF a] prev'_def [symmetric])
  next
    case (Some e)
    then have "name_is fs' (snd e) name = name_is fs (snd e) name"
      using k' n by (cases e) (auto intro!: entry_cong(2) simp: entry_kept_def)
    with Some Suc.IH [OF b k'] Suc.prems(2) k' show ?thesis
      by (cases e) (auto simp add: entry_cong(1) [OF a] prev'_def [symmetric] Let_def)
  qed
qed simp

text \<open>The blocks of an inode: the same numbers with the same bytes.\<close>

definition same_blocks :: "filesys \<Rightarrow> filesys \<Rightarrow> inode \<Rightarrow> bool" where
  "same_blocks fs fs' x \<longleftrightarrow> meta fs' = meta fs \<and> (\<forall>b \<in> set (all_blocks fs x). block_text fs' b = block_text fs b)"

lemma slot_block_in:
  assumes w: "inode_wf fs x" and idx: "idx < NUM_DIRECT_BLOCKS"
    and s: "slot_block fs x ind idx = Inr p"
  obtains b where "p = nat b * BLOCK_SIZE" "b \<in> set (all_blocks fs x)"
proof (cases ind)
  case False
  then have b: "p = nat (direct x ! idx) * BLOCK_SIZE" "0 \<le> direct x ! idx"
    using s by (simp_all add: slot_block_def block_addr_def split: if_splits)
  have "filled (direct x)" "idx < length (direct x)" using w idx by (simp_all add: inode_wf_def)
  from filled_nth [OF this] b(2) have "idx < length (assigned (direct x))" by linarith
  then have "direct x ! idx \<in> set (assigned (direct x))" by (metis assigned_nth nth_mem)
  with b(1) show ?thesis by (intro that [of "direct x ! idx"]) (simp_all add: all_blocks_def file_blocks_def)
next
  case True
  let ?e = "indirect_entry fs (nat (indirect x) * BLOCK_SIZE) idx"
  have b: "p = nat ?e * BLOCK_SIZE" "0 \<le> ?e" "0 \<le> indirect x"
    using s True by (auto simp: slot_block_def block_addr_def rbind_eq_Inr split: if_splits)
  have N: "idx < NUM_INDIRECT_BLOCKS"
    using idx by (simp add: NUM_DIRECT_BLOCKS_def NUM_INDIRECT_BLOCKS_def BLOCK_SIZE_def KILOBYTE_def)
  then have e: "ientries fs x ! idx = ?e" "filled (ientries fs x)" "idx < length (ientries fs x)"
    using b(3) w by (auto simp: ientries_def inode_wf_def)
  from filled_nth [OF e(2,3)] e(1) b(2) have "idx < length (assigned (ientries fs x))" by linarith
  then have "?e \<in> set (assigned (ientries fs x))" using e(1) by (metis assigned_nth nth_mem)
  with b(1) show ?thesis by (intro that [of ?e]) (simp_all add: all_blocks_def file_blocks_def)
qed

lemma slot_block_cong:
  assumes s: "same_blocks fs fs' x" and idx: "idx < NUM_DIRECT_BLOCKS"
  shows "slot_block fs' x ind idx = slot_block fs x ind idx"
proof (cases ind)
  case True
  have ba: "block_addr fs' b = block_addr fs b" for b using s by (simp add: same_blocks_def block_addr_def)
  have N: "idx < NUM_INDIRECT_BLOCKS"
    using idx by (simp add: NUM_DIRECT_BLOCKS_def NUM_INDIRECT_BLOCKS_def BLOCK_SIZE_def KILOBYTE_def)
  have "indirect_entry fs' (nat (indirect x) * BLOCK_SIZE) idx = indirect_entry fs (nat (indirect x) * BLOCK_SIZE) idx"
    if "0 \<le> indirect x"
    by (rule indirect_entry_cong [OF _ N]) (use s that indirect_in_blocks [of x fs] in \<open>auto simp: same_blocks_def\<close>)
  with True ba show ?thesis by (auto simp: slot_block_def block_addr_def rbind_def split: if_splits)
qed (use s in \<open>simp add: slot_block_def block_addr_def same_blocks_def\<close>)

lemma entries_per_block: "BLOCK_SIZE div FILE_NAME_ENTRY * FILE_NAME_ENTRY = BLOCK_SIZE"
  by (simp add: BLOCK_SIZE_def KILOBYTE_def FILE_NAME_ENTRY_def FILE_NAME_LENGTH_def)

lemma find_loop_cong:
  assumes "same_blocks fs fs' x" and "inode_wf fs x" and "length name < FILE_NAME_ENTRY"
    and "idx < NUM_DIRECT_BLOCKS" and "entry_kept fs fs' prev"
  shows "find_loop fs' x name ind idx left prev = find_loop fs x name ind idx left prev"
  using assms
proof (induction fs x name ind idx left prev rule: find_loop.induct)
  case (1 fs x name ind idx left prev)
  note sb = slot_block_cong [OF "1.prems"(1,4), of ind]
  show ?case
  proof (cases "left = 0 \<or> direct x ! idx = UNASSIGNED_NODE")
    case True
    then show ?thesis by (subst (1 2) find_loop.simps) simp
  next
    case nz: False
    show ?thesis
    proof (cases "slot_block fs x ind idx")
      case (Inl e)
      with sb nz show ?thesis by (subst (1 2) find_loop.simps) simp
    next
      case (Inr p)
      obtain b where b: "p = nat b * BLOCK_SIZE" "b \<in> set (all_blocks fs x)"
        using slot_block_in [OF "1.prems"(2,4) Inr] by blast
      have t: "load_text (disk fs') p (BLOCK_SIZE div FILE_NAME_ENTRY * FILE_NAME_ENTRY) =
          load_text (disk fs) p (BLOCK_SIZE div FILE_NAME_ENTRY * FILE_NAME_ENTRY)"
        using "1.prems"(1) b by (simp add: same_blocks_def block_text_def entries_per_block)
      note sc = scan_entries_cong [OF t "1.prems"(5,3), THEN conjunct1]
        and kept = scan_entries_cong [OF t "1.prems"(5,3), THEN conjunct2, rule_format]
      show ?thesis
      proof (cases "scan_entries fs name (BLOCK_SIZE div FILE_NAME_ENTRY) p left prev")
        case (Inl e)
        with sb nz Inr sc show ?thesis by (subst (1 2) find_loop.simps) simp
      next
        case s: (Inr w)
        obtain r left' prev' where w: "w = (r, left', prev')" by (cases w)
        note k' = kept [OF s [unfolded w]]
        show ?thesis
        proof (cases r)
          case None
          have d0: "(0 :: nat) < NUM_DIRECT_BLOCKS" by (simp add: NUM_DIRECT_BLOCKS_def)
          note ih1 = "1.IH"(1) [OF nz Inr s [unfolded w None] refl refl refl _ _ "1.prems"(1-3) d0 k']
            and ih2 = "1.IH"(2) [OF nz Inr s [unfolded w None] refl refl refl _ "1.prems"(1-3) _ k']
          show ?thesis using sb nz Inr sc s w None ih1 ih2 "1.prems"(4)
            by (subst (1 2) find_loop.simps) auto
        next
          case (Some i)
          with sb nz Inr sc s w show ?thesis by (subst (1 2) find_loop.simps) simp
        qed
      qed
    qed
  qed
qed

section \<open>Paths through live directories\<close>

text \<open>The walk of a path from a directory, every directory on the way being live.\<close>

inductive leads_to :: "filesys \<Rightarrow> inode_ptr \<Rightarrow> string list \<Rightarrow> inode_ptr \<Rightarrow> bool" for fs where
  here: "leads_to fs n [] n"
| into: "live_inode fs d \<Longrightarrow> is_directory (node fs d) \<Longrightarrow> length t < FILE_NAME_ENTRY \<Longrightarrow>
    find_inode_named fs d t = Inr (Some m) \<Longrightarrow> leads_to fs m ts n \<Longrightarrow> leads_to fs d (t # ts) n"

code_pred (modes: i \<Rightarrow> i \<Rightarrow> i \<Rightarrow> i \<Rightarrow> bool) leads_to .

inductive_simps leads_to_simps [simp]: "leads_to fs d [] n" "leads_to fs d (t # ts) n"

definition names_file :: "filesys \<Rightarrow> string \<Rightarrow> inode_ptr \<Rightarrow> bool" where
  "names_file fs path n \<longleftrightarrow> path \<noteq> [] \<and> hd path = SLASH \<and> leads_to fs 0 (tokens path) n \<and>
     live_inode fs n \<and> is_file (node fs n)"

lemma walk_leads_to: "leads_to fs d ts n \<Longrightarrow> walk fs d ts = Inr (Some n)"
  by (induction rule: leads_to.induct) simp_all

lemma get_inode_names_file: "names_file fs path n \<Longrightarrow> get_inode fs path = Inr (Some n)"
  by (simp add: names_file_def get_inode_def walk_leads_to)

lemma file_not_directory: "is_file x \<Longrightarrow> \<not> is_directory x"
  by (simp add: is_file_def is_directory_def TYPE_FILE_def TYPE_DIRECTORY_def)

lemma only_inode_find:
  assumes ok: "fs_ok fs" and on: "only_inode n fs fs'" and d: "d \<noteq> n" "live_inode fs d"
    and name: "length name < FILE_NAME_ENTRY"
  shows "find_inode_named fs' d name = find_inode_named fs d name"
proof -
  have sb: "same_blocks fs fs' (node fs d)" using only_inodeD(1,5) [OF on] d by (simp add: same_blocks_def)
  have "find_loop fs' (node fs d) name False 0 (fsize (node fs d)) None =
      find_loop fs (node fs d) name False 0 (fsize (node fs d)) None"
    by (rule find_loop_cong [OF sb fs_okD(1) [OF ok d(2)] name])
      (simp_all add: NUM_DIRECT_BLOCKS_def entry_kept_def)
  moreover have "inode_pointer fs' i = inode_pointer fs i" for i
    by (simp add: inode_pointer_def only_inodeD(3) [OF on])
  ultimately show ?thesis using only_inodeD(4) [OF on d(1)]
    by (simp add: find_inode_named_def cong: option.case_cong)
qed

lemma only_inode_leads_to:
  assumes "leads_to fs d ts m" and "fs_ok fs" and "only_inode n fs fs'" and "is_file (node fs n)"
  shows "leads_to fs' d ts m"
  using assms
proof (induction rule: leads_to.induct)
  case (into d t m ts k)
  have dn: "d \<noteq> n" using into file_not_directory by blast
  note o = only_inode_others [OF into.prems(2) dn into.hyps(1)]
  show ?case using into o(1,2) only_inode_find [OF into.prems(1,2) dn] by auto
qed simp

text \<open>A path goes on naming a file while other inodes keep their state and the file its mode.\<close>

lemma names_file_kept:
  assumes "names_file fs path n" and "fs_ok fs" and "only_inode n fs fs'"
    and "live_inode fs' n" and "mode (node fs' n) = mode (node fs n)"
  shows "names_file fs' path n"
  using assms only_inode_leads_to [OF _ assms(2,3)] by (simp add: names_file_def is_file_def)

lemma names_other_kept:
  assumes "names_file fs path m" and "names_file fs p n" and "fs_ok fs" and "only_inode n fs fs'" and "m \<noteq> n"
  shows "names_file fs' path m"
  using assms only_inode_leads_to [OF _ assms(3,4)] only_inode_others [OF assms(4,5)] by (simp add: names_file_def)

end
