(* ===== verification/FsDirs.thy ===== *)
theory FsDirs
  imports FsPaths
begin

text \<open>
  A directory as an association list from names to inode numbers, kept in the direct blocks of its
  inode: looking a name up is \<open>map_of\<close>, listing the directory gives the list.
\<close>

section \<open>The entries of a directory\<close>

definition ENTRIES :: nat where
  "ENTRIES = BLOCK_SIZE div FILE_NAME_ENTRY"

lemma ENTRIES_pos [simp]: "0 < ENTRIES"
  by (simp add: ENTRIES_def BLOCK_SIZE_def KILOBYTE_def FILE_NAME_ENTRY_def FILE_NAME_LENGTH_def)

lemma FILE_NAME_ENTRY_pos [simp]: "0 < FILE_NAME_ENTRY" "FILE_NAME_ENTRY \<noteq> 0"
  by (simp_all add: FILE_NAME_ENTRY_def)

lemma ENTRIES_times: "ENTRIES * FILE_NAME_ENTRY = BLOCK_SIZE"
  unfolding ENTRIES_def by (rule entries_per_block)

text \<open>The name and the number at an address; an entry is good when it has both.\<close>

definition entry_at :: "filesys \<Rightarrow> nat \<Rightarrow> dirent" where
  "entry_at fs p = (cstr (load_text (disk fs) p (MAX_DIR_NAME_LEN - 1)), the (make_dirent_from_string fs p))"

definition good_entry :: "filesys \<Rightarrow> nat \<Rightarrow> bool" where
  "good_entry fs p \<longleftrightarrow> make_dirent_from_string fs p \<noteq> None \<and> NUL \<in> set (load_text (disk fs) p (MAX_DIR_NAME_LEN - 1))"

definition entry_addr :: "inode \<Rightarrow> nat \<Rightarrow> nat" where
  "entry_addr x k = nat (direct x ! (k div ENTRIES)) * BLOCK_SIZE + k mod ENTRIES * FILE_NAME_ENTRY"

definition entry_count :: "inode \<Rightarrow> nat" where
  "entry_count x = fsize x div FILE_NAME_ENTRY"

definition dir_entries :: "filesys \<Rightarrow> inode \<Rightarrow> dirent list" where
  "dir_entries fs x = map (\<lambda>k. entry_at fs (entry_addr x k)) [0..<entry_count x]"

definition dir_ok :: "filesys \<Rightarrow> inode_ptr \<Rightarrow> bool" where
  "dir_ok fs d \<longleftrightarrow> (let x = node fs d in
     live_inode fs d \<and> is_directory x \<and> fsize x = entry_count x * FILE_NAME_ENTRY \<and>
     entry_count x \<le> ENTRIES * length (assigned (direct x)) \<and>
     (\<forall>k < entry_count x. good_entry fs (entry_addr x k)))"

text \<open>A name that fits an entry with its terminator.\<close>

definition short_name :: "string \<Rightarrow> bool" where
  "short_name name \<longleftrightarrow> NUL \<notin> set name \<and> length name < FILE_NAME_LENGTH"

lemma dir_okD:
  assumes "dir_ok fs d"
  shows "live_inode fs d" "is_directory (node fs d)" "fsize (node fs d) = entry_count (node fs d) * FILE_NAME_ENTRY"
    "entry_count (node fs d) \<le> ENTRIES * length (assigned (direct (node fs d)))"
    "k < entry_count (node fs d) \<Longrightarrow> good_entry fs (entry_addr (node fs d) k)"
  using assms unfolding dir_ok_def Let_def by blast+

lemma cstr_prefix:
  assumes "NUL \<in> set t"
  shows "take (length (cstr t) + 1) t = cstr t @ [NUL]"
  using assms by (induction t) (auto simp: cstr_def)

lemma name_is_entry:
  assumes g: "good_entry fs p" and s: "short_name name"
  shows "name_is fs p name \<longleftrightarrow> fst (entry_at fs p) = name"
proof -
  let ?t = "load_text (disk fs) p (MAX_DIR_NAME_LEN - 1)"
  have l: "length name + 1 \<le> MAX_DIR_NAME_LEN - 1"
    using s by (simp add: short_name_def MAX_DIR_NAME_LEN_def FILE_NAME_LENGTH_def)
  then have pre: "load_text (disk fs) p (length name + 1) = take (length name + 1) ?t"
    by (intro nth_equalityI) simp_all
  have "take (length name + 1) ?t = name @ [NUL] \<longleftrightarrow> cstr ?t = name"
  proof
    assume a: "take (length name + 1) ?t = name @ [NUL]"
    have "?t = name @ NUL # drop (length name + 1) ?t"
      using append_take_drop_id [of "length name + 1" ?t] unfolding a by simp
    then show "cstr ?t = name" using cstr_append_NUL [of name] s by (metis short_name_def)
  next
    assume "cstr ?t = name"
    with cstr_prefix [of ?t] g show "take (length name + 1) ?t = name @ [NUL]" by (simp add: good_entry_def)
  qed
  then show ?thesis by (simp only: name_is_def pre entry_at_def fst_conv)
qed

text \<open>The entries of one block, from entry \<open>k\<close> on.\<close>

lemma entry_addr_block:
  assumes "i < ENTRIES"
  shows "entry_addr x (j * ENTRIES + i) = nat (direct x ! j) * BLOCK_SIZE + i * FILE_NAME_ENTRY"
  using assms by (simp add: entry_addr_def)

text \<open>The search of a block over \<open>k\<close> slots, of which the first \<open>m\<close> are in use.\<close>

lemma scan_entries_good:
  assumes "short_name name" and "\<And>i. i < min k m \<Longrightarrow> good_entry fs (p + i * FILE_NAME_ENTRY)"
  shows "\<exists>left prev'. scan_entries fs name k p (m * FILE_NAME_ENTRY) prev =
      Inr (map_of (map (\<lambda>i. entry_at fs (p + i * FILE_NAME_ENTRY)) [0..<min k m]) name, left, prev') \<and>
    (map_of (map (\<lambda>i. entry_at fs (p + i * FILE_NAME_ENTRY)) [0..<min k m]) name = None \<longrightarrow>
      left = (m - k) * FILE_NAME_ENTRY)"
  using assms(2)
proof (induction k arbitrary: p m prev)
  case (Suc k)
  show ?case
  proof (cases m)
    case (Suc m')
    have g: "good_entry fs p" using Suc.prems [of 0] Suc by simp
    then obtain i where i: "make_dirent_from_string fs p = Some i" by (auto simp: good_entry_def)
    then have e: "snd (entry_at fs p) = i" by (simp add: entry_at_def)
    have "map (\<lambda>i. entry_at fs (p + i * FILE_NAME_ENTRY)) [0..<min (Suc k) m] =
        entry_at fs p # map (\<lambda>i. entry_at fs (p + FILE_NAME_ENTRY + i * FILE_NAME_ENTRY)) [0..<min k m']"
      by (simp add: Suc upt_conv_Cons map_Suc_upt [symmetric] add.assoc del: upt_Suc map_Suc_upt)
    then have l: "map_of (map (\<lambda>i. entry_at fs (p + i * FILE_NAME_ENTRY)) [0..<min (Suc k) m]) name =
        (if fst (entry_at fs p) = name then Some i
         else map_of (map (\<lambda>i. entry_at fs (p + FILE_NAME_ENTRY + i * FILE_NAME_ENTRY)) [0..<min k m']) name)"
      using e by (cases "entry_at fs p") auto
    have "good_entry fs (p + FILE_NAME_ENTRY + i * FILE_NAME_ENTRY)" if "i < min k m'" for i
      using Suc.prems [of "Suc i"] that Suc by (simp add: add.assoc)
    from Suc.IH [of m' "p + FILE_NAME_ENTRY", OF this, of "Some (i, p)"] show ?thesis unfolding l
      using name_is_entry [OF g assms(1)] by (auto simp: i Suc Let_def)
  qed simp
qed simp

section \<open>The blocks of a directory\<close>

abbreviation entries_from :: "filesys \<Rightarrow> inode \<Rightarrow> nat \<Rightarrow> dirent list" where
  "entries_from fs x j \<equiv> map (\<lambda>k. entry_at fs (entry_addr x k)) [j * ENTRIES..<entry_count x]"

lemma dir_block:
  assumes ok: "fs_ok fs" and d: "dir_ok fs d" and j: "j * ENTRIES < entry_count (node fs d)"
  obtains p where "slot_block fs (node fs d) False j = Inr p" "direct (node fs d) ! j \<noteq> - 1" "j < NUM_DIRECT_BLOCKS"
    "\<forall>i < min ENTRIES (entry_count (node fs d) - j * ENTRIES). good_entry fs (p + i * FILE_NAME_ENTRY)"
    "entries_from fs (node fs d) j =
      map (\<lambda>i. entry_at fs (p + i * FILE_NAME_ENTRY)) [0..<min ENTRIES (entry_count (node fs d) - j * ENTRIES)] @
      entries_from fs (node fs d) (Suc j)"
proof -
  let ?x = "node fs d" let ?n = "entry_count ?x"
  let ?p = "nat (direct ?x ! j) * BLOCK_SIZE" and ?k = "min ENTRIES (?n - j * ENTRIES)"
  note D = dir_okD [OF d]
  have w: "length (direct ?x) = NUM_DIRECT_BLOCKS" "filled (direct ?x)"
    using fs_okD(1) [OF ok D(1)] by (simp_all add: inode_wf_def)
  have "j * ENTRIES < length (assigned (direct ?x)) * ENTRIES" using j D(4) mult.commute [of ENTRIES] by (metis less_le_trans)
  then have ja: "j < length (assigned (direct ?x))" by (simp only: mult_less_cancel2)
  then have jd: "j < NUM_DIRECT_BLOCKS" using w(1) length_assigned [of "direct ?x"] by linarith
  have nz: "direct ?x ! j \<noteq> - 1" using filled_nth [OF w(2), of j] w(1) ja jd by simp
  have "direct ?x ! j \<in> blocks_of fs d"
    using ja nth_mem [OF ja] by (simp add: all_blocks_def file_blocks_def assigned_nth)
  then have s: "slot_block fs ?x False j = Inr ?p"
    using block_addr_in fs_okD(4) [OF ok D(1)] by (simp add: slot_block_def)
  have a: "?p + i * FILE_NAME_ENTRY = entry_addr ?x (j * ENTRIES + i)" if "i < ?k" for i
    using entry_addr_block [of i ?x j] that by simp
  have g: "good_entry fs (?p + i * FILE_NAME_ENTRY)" if "i < ?k" for i
    unfolding a [OF that] by (rule D(5)) (use that in linarith)
  have le: "j * ENTRIES + ?k \<le> ?n" using j by simp
  have "[j * ENTRIES..<?n] = [j * ENTRIES..<j * ENTRIES + ?k] @ [Suc j * ENTRIES..<?n]"
  proof (cases "Suc j * ENTRIES \<le> ?n")
    case True
    then have "?k = ENTRIES" by simp
    with True show ?thesis using upt_add_eq_append [of "j * ENTRIES" "Suc j * ENTRIES" "?n - Suc j * ENTRIES"] by (simp add: add.commute)
  next
    case False
    then have "?k = ?n - j * ENTRIES" by simp
    with False j show ?thesis by simp
  qed
  moreover have "map (\<lambda>k. entry_at fs (entry_addr ?x k)) [j * ENTRIES..<j * ENTRIES + ?k] =
      map (\<lambda>i. entry_at fs (?p + i * FILE_NAME_ENTRY)) [0..<?k]"
    by (rule nth_equalityI) (simp_all only: length_map length_upt nth_map nth_upt a, simp_all)
  ultimately have "entries_from fs ?x j = map (\<lambda>i. entry_at fs (?p + i * FILE_NAME_ENTRY)) [0..<?k] @ entries_from fs ?x (Suc j)"
    by (simp only: map_append)
  with that [OF s nz jd] g show thesis by blast
qed

lemma dir_last_block:
  assumes "fs_ok fs" and "dir_ok fs d"
  shows "entry_count (node fs d) \<le> NUM_DIRECT_BLOCKS * ENTRIES"
proof -
  have "length (assigned (direct (node fs d))) \<le> NUM_DIRECT_BLOCKS"
    using fs_okD(1) [OF assms(1) dir_okD(1) [OF assms(2)]] length_assigned [of "direct (node fs d)"]
    by (simp add: inode_wf_def)
  then have "ENTRIES * length (assigned (direct (node fs d))) \<le> NUM_DIRECT_BLOCKS * ENTRIES" by simp
  with dir_okD(4) [OF assms(2)] show ?thesis by (rule le_trans)
qed

lemma find_loop_dir:
  assumes ok: "fs_ok fs" and d: "dir_ok fs d" and s: "short_name name"
  shows "j \<le> NUM_DIRECT_BLOCKS \<Longrightarrow>
    find_loop fs (node fs d) name False j ((entry_count (node fs d) - j * ENTRIES) * FILE_NAME_ENTRY) prev =
    Inr (map_of (entries_from fs (node fs d) j) name)"
proof (induction "NUM_DIRECT_BLOCKS - j" arbitrary: j prev rule: less_induct)
  case less
  let ?x = "node fs d" let ?n = "entry_count ?x"
  show ?case
  proof (cases "j * ENTRIES < ?n")
    case False
    then show ?thesis by (simp add: find_loop.simps)
  next
    case True
    obtain p where b: "slot_block fs ?x False j = Inr p" "direct ?x ! j \<noteq> - 1" "j < NUM_DIRECT_BLOCKS"
      "\<forall>i < min ENTRIES (?n - j * ENTRIES). good_entry fs (p + i * FILE_NAME_ENTRY)"
      "entries_from fs ?x j = map (\<lambda>i. entry_at fs (p + i * FILE_NAME_ENTRY)) [0..<min ENTRIES (?n - j * ENTRIES)] @
        entries_from fs ?x (Suc j)"
      by (rule dir_block [OF ok d True])
    let ?here = "map_of (map (\<lambda>i. entry_at fs (p + i * FILE_NAME_ENTRY)) [0..<min ENTRIES (?n - j * ENTRIES)]) name"
    obtain left prev' where sc: "scan_entries fs name (BLOCK_SIZE div FILE_NAME_ENTRY) p ((?n - j * ENTRIES) * FILE_NAME_ENTRY) prev =
        Inr (?here, left, prev')" "?here = None \<longrightarrow> left = (?n - j * ENTRIES - ENTRIES) * FILE_NAME_ENTRY"
      using scan_entries_good [OF s b(4) [rule_format]] unfolding ENTRIES_def by blast
    have nz: "(?n - j * ENTRIES) * FILE_NAME_ENTRY \<noteq> 0" using True by simp
    show ?thesis
    proof (cases ?here)
      case (Some i)
      then show ?thesis using b sc nz by (subst find_loop.simps) (simp add: map_add_def)
    next
      case None
      then have l: "left = (?n - Suc j * ENTRIES) * FILE_NAME_ENTRY" using sc(2) by (simp add: add.commute)
      show ?thesis
      proof (cases "Suc j = NUM_DIRECT_BLOCKS")
        case True
        then have "?n \<le> Suc j * ENTRIES" using dir_last_block [OF ok d] by simp
        with b sc nz None l True show ?thesis
          by (subst find_loop.simps) (simp add: map_add_def find_loop.simps)
      next
        case False
        with less(1) [of "Suc j" prev'] b(3) have "find_loop fs ?x name False (Suc j) left prev' = Inr (map_of (entries_from fs ?x (Suc j)) name)"
          unfolding l by simp
        with b sc nz None False show ?thesis by (subst find_loop.simps) (simp add: map_add_def)
      qed
    qed
  qed
qed

text \<open>The lookup of a name in a directory.\<close>

lemma find_inode_named_dir:
  assumes "fs_ok fs" and "dir_ok fs d" and "short_name name"
  shows "find_inode_named fs d name =
    (case map_of (dir_entries fs (node fs d)) name of
       None \<Rightarrow> Inr None | Some i \<Rightarrow> rbind (inode_pointer fs i) (\<lambda>n. Inr (Some n)))"
  using find_loop_dir [OF assms, of 0 None] dir_okD(3) [OF assms(2)]
  by (simp add: find_inode_named_def dir_entries_def split: option.split)

section \<open>Listing\<close>

lemma readdir_entries_good:
  assumes "\<And>i. i < min k m \<Longrightarrow> good_entry fs (p + i * FILE_NAME_ENTRY)"
  shows "\<exists>prev'. readdir_entries fs k p (m * FILE_NAME_ENTRY) prev =
    Inr (map (\<lambda>i. entry_at fs (p + i * FILE_NAME_ENTRY)) [0..<min k m], (m - k) * FILE_NAME_ENTRY, prev')"
  using assms
proof (induction k arbitrary: p m prev)
  case (Suc k)
  show ?case
  proof (cases m)
    case (Suc m')
    have g: "good_entry fs p" using Suc.prems [of 0] Suc by simp
    then obtain i where i: "make_dirent_from_string fs p = Some i" by (auto simp: good_entry_def)
    have l: "map (\<lambda>i. entry_at fs (p + i * FILE_NAME_ENTRY)) [0..<min (Suc k) m] =
        entry_at fs p # map (\<lambda>i. entry_at fs (p + FILE_NAME_ENTRY + i * FILE_NAME_ENTRY)) [0..<min k m']"
      by (simp add: Suc upt_conv_Cons map_Suc_upt [symmetric] add.assoc del: upt_Suc map_Suc_upt)
    have "good_entry fs (p + FILE_NAME_ENTRY + i * FILE_NAME_ENTRY)" if "i < min k m'" for i
      using Suc.prems [of "Suc i"] that Suc by (simp add: add.assoc)
    from Suc.IH [of m' "p + FILE_NAME_ENTRY", OF this, of "Some (i, p)"] show ?thesis unfolding l
      using g by (auto simp: i Suc Let_def good_entry_def entry_at_def)
  qed simp
qed simp

lemma readdir_loop_dir:
  assumes ok: "fs_ok fs" and d: "dir_ok fs d"
  shows "j \<le> NUM_DIRECT_BLOCKS \<Longrightarrow>
    readdir_loop fs (node fs d) False j ((entry_count (node fs d) - j * ENTRIES) * FILE_NAME_ENTRY) prev =
    Inr (entries_from fs (node fs d) j)"
proof (induction "NUM_DIRECT_BLOCKS - j" arbitrary: j prev rule: less_induct)
  case less
  let ?x = "node fs d" let ?n = "entry_count ?x"
  show ?case
  proof (cases "j * ENTRIES < ?n")
    case False
    then show ?thesis by (simp add: readdir_loop.simps)
  next
    case True
    obtain p where b: "slot_block fs ?x False j = Inr p" "direct ?x ! j \<noteq> - 1" "j < NUM_DIRECT_BLOCKS"
      "\<forall>i < min ENTRIES (?n - j * ENTRIES). good_entry fs (p + i * FILE_NAME_ENTRY)"
      "entries_from fs ?x j = map (\<lambda>i. entry_at fs (p + i * FILE_NAME_ENTRY)) [0..<min ENTRIES (?n - j * ENTRIES)] @
        entries_from fs ?x (Suc j)"
      by (rule dir_block [OF ok d True])
    obtain prev' where sc: "readdir_entries fs (BLOCK_SIZE div FILE_NAME_ENTRY) p ((?n - j * ENTRIES) * FILE_NAME_ENTRY) prev =
        Inr (map (\<lambda>i. entry_at fs (p + i * FILE_NAME_ENTRY)) [0..<min ENTRIES (?n - j * ENTRIES)],
          (?n - Suc j * ENTRIES) * FILE_NAME_ENTRY, prev')"
      using readdir_entries_good [of ENTRIES "?n - j * ENTRIES" fs p prev] b(4)
      unfolding ENTRIES_def [symmetric] by (auto simp: add.commute)
    have nz: "(?n - j * ENTRIES) * FILE_NAME_ENTRY \<noteq> 0" using True by simp
    show ?thesis
    proof (cases "Suc j = NUM_DIRECT_BLOCKS")
      case True
      then have "?n \<le> Suc j * ENTRIES" using dir_last_block [OF ok d] by simp
      with b sc nz True show ?thesis by (subst readdir_loop.simps) (simp add: readdir_loop.simps)
    next
      case False
      with less(1) [of "Suc j" prev'] b(3)
      have "readdir_loop fs ?x False (Suc j) ((?n - Suc j * ENTRIES) * FILE_NAME_ENTRY) prev' = Inr (entries_from fs ?x (Suc j))"
        by simp
      with b sc nz False show ?thesis by (subst readdir_loop.simps) simp
    qed
  qed
qed

end
