(* ===== verification/FsNames.thy ===== *)
theory FsNames
  imports FsDirs
begin

text \<open>
  Creating and removing names: a new file is a new entry at the end of its directory, removing a
  file takes its entry out, and both keep the invariant of the image.
\<close>

section \<open>Entries as text\<close>

lemma below_16:
  "(d :: nat) < 16 \<longleftrightarrow> d = 0 \<or> d = 1 \<or> d = 2 \<or> d = 3 \<or> d = 4 \<or> d = 5 \<or> d = 6 \<or> d = 7 \<or> 
    d = 8 \<or> d = 9 \<or> d = 10 \<or> d = 11 \<or> d = 12 \<or> d = 13 \<or> d = 14 \<or> d = 15"
  by presburger

lemma hex_digit_nth: "d < 16 \<Longrightarrow> hex_digit (''0123456789abcdef'' ! d) = Some d"
  unfolding below_16 by (elim disjE) (simp_all add: hex_digit_def of_char_def)

definition hex_string :: "string \<Rightarrow> bool" where
  "hex_string s \<longleftrightarrow> (\<forall>c \<in> set s. \<exists>d < 16. c = ''0123456789abcdef'' ! d)"

lemma hex_char_plain:
  "d < 16 \<Longrightarrow> ''0123456789abcdef'' ! d \<notin>
    {SP, CHR 0x09, NL, CHR 0x0B, CHR 0x0C, CHR 0x0D, CHR ''-'', CHR ''+'', CHR ''x'', CHR ''X''}"
  unfolding below_16 by (elim disjE) simp_all

lemma hex_string_simps [simp]:
  "hex_string (a @ b) \<longleftrightarrow> hex_string a \<and> hex_string b" "hex_string []"
  "d < 16 \<Longrightarrow> hex_string [''0123456789abcdef'' ! d]" "hex_string (replicate k (CHR ''0''))"
proof -
  have "CHR ''0'' = ''0123456789abcdef'' ! 0" by simp
  then show "hex_string (replicate k (CHR ''0''))" unfolding hex_string_def by (metis in_set_replicate zero_less_numeral)
qed (auto simp: hex_string_def)

lemma hex_value_snoc:
  assumes "hex_string s" and "d < 16"
  shows "hex_value acc (s @ [''0123456789abcdef'' ! d]) = 16 * hex_value acc s + d"
  using assms(1)
proof (induction s arbitrary: acc)
  case Nil
  show ?case using hex_digit_nth [OF assms(2)] by simp
next
  case (Cons c s)
  then obtain e where "e < 16" "c = ''0123456789abcdef'' ! e"
    by (auto simp: hex_string_def)
  then have "hex_digit c = Some e" using hex_digit_nth by simp
  with Cons show ?case by (simp add: hex_string_def)
qed

lemma hex_digits_ok: "hex_string (hex_digits n) \<and> hex_value 0 (hex_digits n) = n \<and> (n < 16 ^ k \<longrightarrow> length (hex_digits n) \<le> k)"
proof (induction n arbitrary: k rule: hex_digits.induct)
  case (1 n)
  show ?case
  proof (cases "n = 0")
    case False
    note ih = "1.IH" [OF False]
    have m: "n mod 16 < 16" by simp
    have d: "hex_digits n = hex_digits (n div 16) @ [''0123456789abcdef'' ! (n mod 16)]"
      using False by (subst hex_digits.simps) simp
    have h: "hex_string (hex_digits n)" using ih m unfolding d by simp
    have "length (hex_digits n) \<le> k" if "n < 16 ^ k"
    proof (cases k)
      case (Suc j)
      then have "n div 16 < 16 ^ j" using that by (simp add: less_mult_imp_div_less mult.commute)
      with ih Suc show ?thesis by (simp add: d)
    qed (use that False in simp)
    with h hex_value_snoc [of "hex_digits (n div 16)" "n mod 16" 0] ih show ?thesis by (simp add: d)
  qed (simp add: hex_digits.simps hex_string_def)
qed

lemma hex_value_zeros: "hex_value 0 (replicate k (CHR ''0'') @ s) = hex_value 0 s"
  by (induction k) (simp_all add: hex_digit_def of_char_def)

lemma hex_text_ok:
  assumes "n < 16 ^ 8"
  shows "length (hex_text n) = 8" "hex_string (hex_text n)" "hex_value 0 (hex_text n) = n"
proof -
  have "length (hex_digits n) \<le> 8" "hex_string (hex_digits n)" using hex_digits_ok assms by blast+
  then show "length (hex_text n) = 8" "hex_string (hex_text n)"
    by (simp_all add: hex_text_def Let_def)
  show "hex_value 0 (hex_text n) = n"
    using hex_digits_ok [of n 0] by (simp add: hex_text_def Let_def hex_value_zeros)
qed

lemma strtoll16_hex:
  assumes "hex_string s" and "s \<noteq> []"
  shows "strtoll16 s = int (hex_value 0 s)"
proof -
  obtain c cs where s: "s = c # cs" using assms(2) by (cases s) auto
  have c: "x \<notin> {SP, CHR 0x09, NL, CHR 0x0B, CHR 0x0C, CHR 0x0D, CHR ''-'', CHR ''+'', CHR ''x'', CHR ''X''}"
    if x: "x \<in> set s" for x
  proof -
    obtain d where "d < 16" "x = ''0123456789abcdef'' ! d"
      using assms(1) [unfolded hex_string_def, rule_format, OF x] by (elim exE conjE)
    then show ?thesis using hex_char_plain by (simp only: not_False_eq_True)
  qed
  from c [of c] have "dropWhile (\<lambda>c. c \<in> {SP, CHR 0x09, NL, CHR 0x0B, CHR 0x0C, CHR 0x0D}) s = s"
    "c \<noteq> CHR ''-''" "c \<noteq> CHR ''+''"
    by (simp_all add: s)
  moreover have "skip_0x s = s"
  proof (cases cs)
    case (Cons x r)
    then show ?thesis using c [of x] by (auto simp: skip_0x_def s split: list.split)
  qed (simp add: skip_0x_def s)
  ultimately show ?thesis by (simp add: strtoll16_def s)
qed

text \<open>What \<open>make_string_from_dirent\<close> leaves in the image.\<close>

lemma load_name:
  assumes "short_name name"
  shows "cstr (take (MAX_DIR_NAME_LEN - 1) (take FILE_NAME_LENGTH (name @ replicate FILE_NAME_LENGTH NUL) @ t)) = name"
    "NUL \<in> set (take (MAX_DIR_NAME_LEN - 1) (take FILE_NAME_LENGTH (name @ replicate FILE_NAME_LENGTH NUL) @ t))"
proof -
  let ?k = "FILE_NAME_LENGTH - length name"
  obtain j where j: "?k = Suc j" using assms by (cases ?k) (auto simp: short_name_def)
  have l: "length name + Suc j = FILE_NAME_LENGTH" using assms j by (auto simp: short_name_def)
  have e: "take FILE_NAME_LENGTH (name @ replicate FILE_NAME_LENGTH NUL) = name @ NUL # replicate j NUL"
    using assms j by (simp add: short_name_def)
  have m: "length name < MAX_DIR_NAME_LEN - 1" using l by (simp add: MAX_DIR_NAME_LEN_def FILE_NAME_LENGTH_def)
  then obtain i where i: "MAX_DIR_NAME_LEN - 1 - length name = Suc i" by (cases "MAX_DIR_NAME_LEN - 1 - length name") auto
  have "take (MAX_DIR_NAME_LEN - 1) (take FILE_NAME_LENGTH (name @ replicate FILE_NAME_LENGTH NUL) @ t) =
      name @ NUL # take i (replicate j NUL @ t)"
    unfolding e using m i by (simp del: diff_Suc_1 One_nat_def)
  then show "cstr (take (MAX_DIR_NAME_LEN - 1) (take FILE_NAME_LENGTH (name @ replicate FILE_NAME_LENGTH NUL) @ t)) = name"
    "NUL \<in> set (take (MAX_DIR_NAME_LEN - 1) (take FILE_NAME_LENGTH (name @ replicate FILE_NAME_LENGTH NUL) @ t))"
    using cstr_append_NUL [of name] assms by (simp_all only: short_name_def set_append set_simps) simp_all
qed

lemma load_dirent:
  assumes "length h = INODE_SIZE" and "length c = FILE_NAME_LENGTH"
  shows "load_text (disk (put_text (p + FILE_NAME_LENGTH) (h @ [NUL]) (put_text p c fs))) p FILE_NAME_ENTRY = c @ h"
  unfolding put_text_fields
  by (rule nth_equalityI)
    (use assms in \<open>auto simp: store_text_def nth_append FILE_NAME_ENTRY_def INODE_SIZE_def\<close>)

lemma entry_written:
  assumes name: "short_name name" and i: "0 < i" "i < 2 ^ 31"
    and fs': "fs' = make_string_from_dirent p name (int i) fs"
  shows "entry_at fs' p = (name, int i)" "good_entry fs' p"
proof -
  define h where "h = hex_text (nat (int i mod 2 ^ 64))"
  define c where "c = take FILE_NAME_LENGTH (name @ replicate FILE_NAME_LENGTH NUL)"
  have "nat (int i mod 2 ^ 64) = i" using i by simp
  then have h: "length h = INODE_SIZE" "strtoll16 h = int i"
    using hex_text_ok [of i] strtoll16_hex [of h] i by (auto simp: h_def INODE_SIZE_def simp flip: length_greater_0_conv)
  have lc: "length c = FILE_NAME_LENGTH" by (simp add: c_def)
  have l: "load_text (disk fs') p FILE_NAME_ENTRY = c @ h"
    unfolding fs' make_string_from_dirent_def c_def [symmetric] h_def [symmetric] Let_def by (rule load_dirent [OF h(1) lc])
  have "load_text (disk fs') (p + FILE_NAME_LENGTH) INODE_SIZE = drop FILE_NAME_LENGTH (load_text (disk fs') p FILE_NAME_ENTRY)"
    by (rule nth_equalityI) (simp_all add: FILE_NAME_ENTRY_def INODE_SIZE_def add.assoc)
  then have "load_text (disk fs') (p + FILE_NAME_LENGTH) INODE_SIZE = h" by (simp add: l lc)
  then have m: "make_dirent_from_string fs' p = Some (int i)"
    using h(2) i by (simp add: make_dirent_from_string_def to_int_def)
  have "load_text (disk fs') p (MAX_DIR_NAME_LEN - 1) = take (MAX_DIR_NAME_LEN - 1) (load_text (disk fs') p FILE_NAME_ENTRY)"
    by (rule nth_equalityI) (simp_all add: FILE_NAME_ENTRY_def MAX_DIR_NAME_LEN_def FILE_NAME_LENGTH_def)
  then have t: "load_text (disk fs') p (MAX_DIR_NAME_LEN - 1) = take (MAX_DIR_NAME_LEN - 1) (c @ h)" by (simp add: l)
  show "entry_at fs' p = (name, int i)" "good_entry fs' p"
    using load_name [OF name, of h] unfolding entry_at_def good_entry_def t m c_def by simp_all
qed

section \<open>Where entries lie\<close>

lemma entry_same:
  assumes "load_text (disk fs') p' FILE_NAME_ENTRY = load_text (disk fs) p FILE_NAME_ENTRY"
  shows "entry_at fs' p' = entry_at fs p" "good_entry fs' p' = good_entry fs p"
proof -
  have "load_text (disk fs') p' (MAX_DIR_NAME_LEN - 1) = load_text (disk fs) p (MAX_DIR_NAME_LEN - 1)"
    using load_text_part [OF assms, of 0 "MAX_DIR_NAME_LEN - 1"]
    by (simp add: MAX_DIR_NAME_LEN_def FILE_NAME_ENTRY_def FILE_NAME_LENGTH_def)
  with entry_cong(1) [OF assms] show "entry_at fs' p' = entry_at fs p" "good_entry fs' p' = good_entry fs p"
    by (simp_all add: entry_at_def good_entry_def)
qed

lemma entry_in_block:
  "nat (direct x ! (k div ENTRIES)) * BLOCK_SIZE \<le> entry_addr x k"
  "entry_addr x k + FILE_NAME_ENTRY \<le> nat (direct x ! (k div ENTRIES)) * BLOCK_SIZE + BLOCK_SIZE"
proof -
  have "Suc (k mod ENTRIES) * FILE_NAME_ENTRY \<le> ENTRIES * FILE_NAME_ENTRY"
    by (intro mult_le_mono1 Suc_leI mod_less_divisor) simp
  then show "entry_addr x k + FILE_NAME_ENTRY \<le> nat (direct x ! (k div ENTRIES)) * BLOCK_SIZE + BLOCK_SIZE"
    by (simp add: entry_addr_def ENTRIES_times)
qed (simp add: entry_addr_def)

lemma blocks_apart:
  assumes "0 \<le> b" and "0 \<le> c" and "b \<noteq> c"
  shows "nat b * BLOCK_SIZE + BLOCK_SIZE \<le> nat c * BLOCK_SIZE \<or> nat c * BLOCK_SIZE + BLOCK_SIZE \<le> nat b * BLOCK_SIZE"
proof -
  have "Suc (nat b) \<le> nat c \<or> Suc (nat c) \<le> nat b" using assms by linarith
  then show ?thesis using mult_le_mono1 [of "Suc (nat b)" "nat c" BLOCK_SIZE] mult_le_mono1 [of "Suc (nat c)" "nat b" BLOCK_SIZE]
    by auto
qed

text \<open>The direct blocks of a live inode are apart from each other.\<close>

lemma direct_blocks:
  assumes ok: "fs_ok fs" and l: "live_inode fs d" and j: "j < length (assigned (direct (node fs d)))"
  shows "in_image fs (direct (node fs d) ! j)" "direct (node fs d) ! j \<in> blocks_of fs d"
    "file_blocks fs (node fs d) ! j = direct (node fs d) ! j" "j < length (file_blocks fs (node fs d))"
    "i < length (assigned (direct (node fs d))) \<Longrightarrow> i \<noteq> j \<Longrightarrow> direct (node fs d) ! i \<noteq> direct (node fs d) ! j"
proof -
  show f: "file_blocks fs (node fs d) ! j = direct (node fs d) ! j" "j < length (file_blocks fs (node fs d))"
    using j by (simp_all add: file_blocks_def nth_append assigned_nth)
  show "in_image fs (direct (node fs d) ! j)" "direct (node fs d) ! j \<in> blocks_of fs d"
    using file_block_in_image [OF ok l f(2)] unfolding f(1) .
  have "distinct (assigned (direct (node fs d)))"
    using fs_okD(2) [OF ok l] by (simp add: all_blocks_def file_blocks_def split: if_splits)
  then show "direct (node fs d) ! i \<noteq> direct (node fs d) ! j"
    if "i < length (assigned (direct (node fs d)))" "i \<noteq> j"
    using j that by (metis assigned_nth nth_eq_iff_index_eq)
qed

lemma slot_of_entry:
  assumes "k < ENTRIES * length (assigned (direct x))"
  shows "k div ENTRIES < length (assigned (direct x))"
  by (rule less_mult_imp_div_less) (use assms in \<open>simp add: mult.commute\<close>)

text \<open>Two entries of a directory do not overlap; \<open>r\<close> bytes behind the first are still in its block.\<close>

lemma entries_apart:
  assumes ok: "fs_ok fs" and l: "live_inode fs d"
    and i: "i < ENTRIES * length (assigned (direct (node fs d)))"
    and k: "k < ENTRIES * length (assigned (direct (node fs d)))"
    and r: "i < k" "Suc (k mod ENTRIES) < ENTRIES" "r \<le> FILE_NAME_ENTRY"
  shows "entry_addr (node fs d) i + FILE_NAME_ENTRY \<le> entry_addr (node fs d) k \<or>
    entry_addr (node fs d) k + FILE_NAME_ENTRY + r \<le> entry_addr (node fs d) i"
proof (cases "i div ENTRIES = k div ENTRIES")
  case True
  then have "i mod ENTRIES < k mod ENTRIES"
    using r(1) div_mult_mod_eq [of i ENTRIES] div_mult_mod_eq [of k ENTRIES] by (metis add_less_cancel_left)
  then have "Suc (i mod ENTRIES) * FILE_NAME_ENTRY \<le> k mod ENTRIES * FILE_NAME_ENTRY" by (intro mult_le_mono1) simp
  then show ?thesis by (simp add: entry_addr_def True)
next
  case False
  note s = slot_of_entry [OF i] slot_of_entry [OF k]
  have "Suc (Suc (k mod ENTRIES)) * FILE_NAME_ENTRY \<le> ENTRIES * FILE_NAME_ENTRY" using r(2) by (intro mult_le_mono1) simp
  then have "entry_addr (node fs d) k + FILE_NAME_ENTRY + r \<le> nat (direct (node fs d) ! (k div ENTRIES)) * BLOCK_SIZE + BLOCK_SIZE"
    using r(3) by (simp add: entry_addr_def ENTRIES_times)
  with blocks_apart [OF _ _ direct_blocks(5) [OF ok l s(2,1) False]]
    direct_blocks(1) [OF ok l s(1)] direct_blocks(1) [OF ok l s(2)]
    entry_in_block [of "node fs d" i] entry_in_block [of "node fs d" k]
  show ?thesis by (auto simp: in_image_def)
qed

section \<open>A new inode\<close>

lemma fs_ok_new_inode:
  assumes ok: "fs_ok fs" and r: "r < length (inode_root fs)" "nlink (node fs r) = 0"
    and x: "direct x = replicate NUM_DIRECT_BLOCKS (- 1)" "indirect x = - 1" "nlink x \<noteq> 0"
  shows "fs_ok (set_node r x fs)" "only_inode r fs (set_node r x fs)" "live_inode (set_node r x fs) r"
    "node (set_node r x fs) r = x"
proof -
  let ?fs = "set_node r x fs"
  show nd: "node ?fs r = x" using r(1) by simp
  show l: "live_inode ?fs r" using r x(3) by (simp add: live_inode_def)
  show on: "only_inode r fs ?fs" by (rule only_inodeI) (simp_all add: r(1) block_text_disk [of ?fs fs])
  note o = only_inode_others [OF on]
  have old: "live_inode fs m" if "live_inode ?fs m" "m \<noteq> r" for m
    using that r(1) by (simp add: live_inode_def)
  have u: "get_data_used ?fs = get_data_used fs" by (rule ext, rule get_data_used_cong) simp_all
  have im: "in_image ?fs = in_image fs" by (rule in_image_meta) simp
  have e: "all_blocks ?fs (node ?fs r) = []" "inode_wf ?fs (node ?fs r)"
    unfolding nd using x by (simp_all add: all_blocks_def file_blocks_def ientries_def inode_wf_def assigned_replicate assigned_def filled_def
        set_replicate_conv_if)
  show "fs_ok ?fs" unfolding fs_ok_def im u
  proof (intro conjI allI impI)
    show "layout_ok ?fs" using ok by (simp add: fs_ok_def layout_ok_meta [of ?fs fs])
  next
    fix m assume m: "live_inode ?fs m"
    have a: "m \<noteq> r \<Longrightarrow> all_blocks ?fs (node ?fs m) = all_blocks fs (node fs m) \<and> live_inode fs m"
      using o(3) old m by blast
    show "inode_wf ?fs (node ?fs m)" using e fs_okD(1) [OF ok] a o(5) by (cases "m = r") auto
    show "distinct (all_blocks ?fs (node ?fs m))" using e fs_okD(2) [OF ok] a by (cases "m = r") auto
    show "\<forall>b \<in> blocks_of ?fs m. in_image fs b \<and> get_data_used fs b = 1"
      using e fs_okD(4,5) [OF ok] a by (cases "m = r") auto
  next
    fix i j assume ij: "live_inode ?fs i" "live_inode ?fs j" "i \<noteq> j"
    show "blocks_of ?fs i \<inter> blocks_of ?fs j = {}"
    proof (cases "i = r \<or> j = r")
      case False
      then show ?thesis using o(3) old ij fs_ok_disjoint [OF ok _ _ ij(3)] by fastforce
    qed (use e in auto)
  qed
qed

lemma free_inode_index_found:
  "free_inode_index fs is = Inr (int r) \<Longrightarrow> r \<in> set is \<and> r < length (inode_root fs) \<and> nlink (node fs r) = 0"
  by (induction "is") (auto split: if_splits)

section \<open>Creating a file\<close>

lemma get_offset_char_entry:
  assumes ok: "fs_ok fs" and d: "live_inode fs d" and f: "fsize (node fs d) = k * FILE_NAME_ENTRY"
    and k: "k < ENTRIES * length (assigned (direct (node fs d)))"
  shows "get_offset_char fs d (fsize (node fs d)) = Inr (entry_addr (node fs d) k)"
proof -
  let ?j = "k div ENTRIES"
  have o: "k * FILE_NAME_ENTRY = ?j * BLOCK_SIZE + k mod ENTRIES * FILE_NAME_ENTRY"
    by (metis ENTRIES_times add_mult_distrib div_mult_mod_eq mult.assoc)
  have "Suc (k mod ENTRIES) * FILE_NAME_ENTRY \<le> ENTRIES * FILE_NAME_ENTRY"
    by (intro mult_le_mono1 Suc_leI mod_less_divisor) simp
  then have "k mod ENTRIES * FILE_NAME_ENTRY < BLOCK_SIZE"
    unfolding ENTRIES_times mult_Suc using FILE_NAME_ENTRY_pos(1) by linarith
  then have q: "k * FILE_NAME_ENTRY div BLOCK_SIZE = ?j" "k * FILE_NAME_ENTRY mod BLOCK_SIZE = k mod ENTRIES * FILE_NAME_ENTRY"
    by (simp_all add: o)
  note s = slot_of_entry [OF k]
  have "length (direct (node fs d)) = NUM_DIRECT_BLOCKS" using fs_okD(1) [OF ok d] by (simp add: inode_wf_def)
  then have "?j < NUM_DIRECT_BLOCKS" using s length_assigned [of "direct (node fs d)"] by linarith
  then show ?thesis using block_addr_in [OF direct_blocks(1) [OF ok d s]]
    by (simp add: get_offset_char_def f q Let_def entry_addr_def)
qed

text \<open>The new entry, stored behind the last one of a directory with room in its last block.\<close>

lemma append_entry:
  assumes ok: "fs_ok fs" and d: "dir_ok fs d" and name: "short_name name" and i: "0 < i" "i < 2 ^ 31"
    and k: "k = entry_count (node fs d)" "k < ENTRIES * length (assigned (direct (node fs d)))" "Suc (k mod ENTRIES) < ENTRIES"
    and fs1: "fs1 = make_string_from_dirent (entry_addr (node fs d) k) name (int i) fs"
    and fs': "fs' = set_node d ((node fs1 d)\<lparr>fsize := fsize (node fs1 d) + FILE_NAME_ENTRY\<rparr>) fs1"
  shows "fs_ok fs'" "only_inode d fs fs'" "dir_ok fs' d"
    "dir_entries fs' (node fs' d) = dir_entries fs (node fs d) @ [(name, int i)]"
proof -
  let ?x = "node fs d" let ?p = "entry_addr ?x k" let ?j = "k div ENTRIES"
  note D = dir_okD [OF d]
  note s = slot_of_entry [OF k(2)] and b = direct_blocks [OF ok D(1) slot_of_entry [OF k(2)]]
  define c h where "c = take FILE_NAME_LENGTH (name @ replicate FILE_NAME_LENGTH NUL)"
    and "h = hex_text (nat (int i mod 2 ^ 64)) @ [NUL]"
  define o' where "o' = k mod ENTRIES * FILE_NAME_ENTRY"
  have p: "?p = nat (file_blocks fs ?x ! ?j) * BLOCK_SIZE + o'" by (simp add: entry_addr_def b(3) o'_def)
  have "nat (int i mod 2 ^ 64) = i" using i by simp
  then have l: "length c = FILE_NAME_LENGTH" "length h = 9" using hex_text_ok [of i] i by (simp_all add: c_def h_def)
  have "Suc (Suc (k mod ENTRIES)) * FILE_NAME_ENTRY \<le> ENTRIES * FILE_NAME_ENTRY" using k(3) by (intro mult_le_mono1) simp
  then have fit: "o' + length c \<le> BLOCK_SIZE" "o' + FILE_NAME_LENGTH + length h \<le> BLOCK_SIZE"
    unfolding ENTRIES_times mult_Suc o'_def l by (simp_all add: FILE_NAME_ENTRY_def FILE_NAME_LENGTH_def)
  define fs0 where "fs0 = put_text (nat (file_blocks fs ?x ! ?j) * BLOCK_SIZE + o') c fs"
  note c1 = put_chunk [OF ok D(1) b(4) fit(1) fs0_def]
  have fb: "file_blocks fs0 (node fs0 d) = file_blocks fs ?x" by (simp add: c1(3,6))
  have fs1': "fs1 = put_text (nat (file_blocks fs0 (node fs0 d) ! ?j) * BLOCK_SIZE + (o' + FILE_NAME_LENGTH)) h fs0"
    unfolding fb by (simp add: fs1 make_string_from_dirent_def c_def h_def fs0_def p add.assoc)
  have "?j < length (file_blocks fs0 (node fs0 d))" using b(4) unfolding fb .
  note c2 = put_chunk [OF c1(1,4) this fit(2) fs1']
  have nd1: "node fs1 d = ?x" by (simp add: c2(3) c1(3))
  let ?y = "?x\<lparr>fsize := fsize ?x + FILE_NAME_ENTRY\<rparr>"
  have "direct ?y = direct (node fs1 d)" "indirect ?y = indirect (node fs1 d)" "nlink ?y = nlink (node fs1 d)"
    by (simp_all add: nd1)
  note sa = set_attributes [OF c2(1,4) this]
  have f': "fs' = set_node d ?y fs1" by (simp add: fs' nd1)
  show ok': "fs_ok fs'" and on: "only_inode d fs fs'"
    using sa(1) only_inode_trans [OF only_inode_trans [OF c1(2) c2(2)] sa(2)] by (simp_all add: f')
  have nd: "node fs' d = ?y" "live_inode fs' d" using sa(3,4) by (simp_all add: f')
  have ea: "entry_addr ?y = entry_addr ?x" by (rule ext) (simp add: entry_addr_def)
  have ec: "entry_count ?y = Suc k" using D(3) k(1) by (simp add: entry_count_def)
  have dk: "disk fs' = disk fs1" by (simp add: f')
  have bytes: "disk fs' = store_text (?p + FILE_NAME_LENGTH) h (store_text ?p c (disk fs))"
    by (simp add: dk fs1 make_string_from_dirent_def c_def h_def)
  have new: "entry_at fs' ?p = (name, int i)" "good_entry fs' ?p"
    using entry_written [OF name i fs1] entry_same [of fs' ?p fs1 ?p] by (simp_all add: dk)
  have old: "load_text (disk fs') (entry_addr ?x m) FILE_NAME_ENTRY = load_text (disk fs) (entry_addr ?x m) FILE_NAME_ENTRY"
    if m: "m < k" for m
  proof -
    have "entry_addr ?x m + FILE_NAME_ENTRY \<le> ?p \<or> ?p + FILE_NAME_ENTRY + 1 \<le> entry_addr ?x m"
      using m k(2,3) D(4) by (intro entries_apart [OF ok D(1)]) (auto simp: k(1) FILE_NAME_ENTRY_def)
    then show ?thesis unfolding bytes using l by (auto simp: load_store_outside FILE_NAME_ENTRY_def)
  qed
  have "good_entry fs' (entry_addr ?x m)" if "m < Suc k" for m
    using that new(2) entry_same(2) [OF old, of m] D(5) [of m] unfolding k(1) [symmetric] by (cases "m = k") auto
  moreover have "fsize ?y = Suc k * FILE_NAME_ENTRY" using D(3) unfolding k(1) [symmetric] by simp
  moreover have "is_directory ?y" using D(2) by (simp add: is_directory_def)
  ultimately show "dir_ok fs' d" using nd(2) k(2) unfolding dir_ok_def Let_def nd(1) ec ea by simp
  show "dir_entries fs' (node fs' d) = dir_entries fs ?x @ [(name, int i)]"
    using entry_same(1) [OF old] new(1) by (simp add: dir_entries_def nd(1) ec ea k(1) [symmetric])
qed

lemma dir_cong:
  assumes "disk fs' = disk fs" and "node fs' d = node fs d" and "live_inode fs' d"
    and "dir_ok fs d"
  shows "dir_ok fs' d" "dir_entries fs' (node fs' d) = dir_entries fs (node fs d)"
proof -
  have e: "entry_at fs' p = entry_at fs p" "good_entry fs' p = good_entry fs p" for p
    using entry_same [of fs' p fs p] assms(1) by simp_all
  show "dir_ok fs' d" using assms(3,4) unfolding dir_ok_def Let_def assms(2) e by blast
  show "dir_entries fs' (node fs' d) = dir_entries fs (node fs d)" unfolding dir_entries_def assms(2) e ..
qed

lemma create_ok:
  assumes ok: "fs_ok fs" and p: "SLASH \<in> set path" "get_inode fs path = Inr None"
    and name: "valid_filename (name_part path)" "short_name (name_part path)"
    and d: "get_inode fs (parent_part path) = Inr (Some d)" "dir_ok fs d"
    and r: "first_unused_inode fs = Inr (int r)"
    and room: "entry_count (node fs d) < ENTRIES * length (assigned (direct (node fs d)))"
      "Suc (entry_count (node fs d) mod ENTRIES) < ENTRIES"
  obtains fs' where "minixfs_create_inode_for_path fs path = Inr (Some r, fs')" "fs_ok fs'" "dir_ok fs' d"
    "dir_entries fs' (node fs' d) = dir_entries fs (node fs d) @ [(name_part path, int r)]"
    "live_inode fs' r" "node fs' r = init_inode (node fs d) (now fs)" "content fs' r = []"
    "\<And>m. m \<noteq> r \<Longrightarrow> m \<noteq> d \<Longrightarrow> live_inode fs m \<Longrightarrow> live_inode fs' m \<and> node fs' m = node fs m \<and> content fs' m = content fs m"
proof -
  let ?x = "init_inode (node fs d) (now fs)"
  note D = dir_okD [OF d(2)]
  have r': "0 < r" "r < 2 ^ 31" "r < length (inode_root fs)" "nlink (node fs r) = 0"
    using free_inode_index_found [OF r [unfolded first_unused_inode_def]] by (simp_all add: INODES_NUMBER_def)
  have dr: "d \<noteq> r" using D(1) r'(4) by (auto simp: live_inode_def)
  have x: "direct ?x = replicate NUM_DIRECT_BLOCKS (- 1)" "indirect ?x = - 1" "nlink ?x \<noteq> 0"
    by (simp_all add: init_inode_def)
  define fs1 where "fs1 = set_node r ?x fs"
  note n = fs_ok_new_inode [OF ok r'(3,4) x, folded fs1_def]
  note o = only_inode_others [OF n(2) dr D(1)]
  have dk: "disk fs1 = disk fs" by (simp add: fs1_def)
  note d1 = dir_cong [OF dk o(2,1) d(2)]
  define k where "k = entry_count (node fs1 d)"
  have k: "k = entry_count (node fs1 d)" "k < ENTRIES * length (assigned (direct (node fs1 d)))" "Suc (k mod ENTRIES) < ENTRIES"
    using room by (simp_all add: k_def o(2))
  define fs2 where "fs2 = make_string_from_dirent (entry_addr (node fs1 d) k) (name_part path) (int r) fs1"
  define fs' where "fs' = set_node d ((node fs2 d)\<lparr>fsize := fsize (node fs2 d) + FILE_NAME_ENTRY\<rparr>) fs2"
  note a = append_entry [OF n(1) d1(1) name(2) r'(1,2) k fs2_def fs'_def]
  have c: "get_offset_char fs1 d (fsize (node fs1 d)) = Inr (entry_addr (node fs1 d) k)"
    using get_offset_char_entry [OF n(1) o(1) _ k(2)] dir_okD(3) [OF d1(1)] k(1) by simp
  have run: "minixfs_create_inode_for_path fs path = Inr (Some r, fs')"
    using p name(1) d(1) r r'(3) dr c [unfolded o(2)]
    by (simp add: minixfs_create_inode_for_path_def Let_def inode_pointer_def fs1_def [symmetric] o(2)
        fs2_def [unfolded o(2), symmetric] fs'_def [symmetric])
  have rd: "live_inode fs' r" "node fs' r = ?x"
    using only_inode_others [OF a(2) dr [symmetric] n(3)] n(4) by simp_all
  have new: "content fs' r = []" by (simp add: content_def rd(2) init_inode_def)
  have others: "live_inode fs' m \<and> node fs' m = node fs m \<and> content fs' m = content fs m"
    if "m \<noteq> r" "m \<noteq> d" "live_inode fs m" for m
    using only_inode_others [OF n(2) that(1,3)] only_inode_others [OF a(2) that(2)] by simp
  show thesis by (rule that [OF run a(1,3) a(4) [unfolded d1(2)] rd(1,2) new others])
qed

end
