(* ===== verification/FsUnlink.thy ===== *)
theory FsUnlink
  imports FsNames
begin

text \<open>
  Removing a file: its entry leaves the directory, its inode is dead, and what is freed in the
  data map belonged to it.
\<close>

section \<open>Freeing blocks\<close>

definition frees :: "int set \<Rightarrow> filesys \<Rightarrow> filesys \<Rightarrow> bool" where
  "frees S fs fs' \<longleftrightarrow> meta fs' = meta fs \<and> inode_root fs' = inode_root fs \<and> now fs' = now fs \<and>
     (\<forall>b. in_image fs b \<longrightarrow> block_text fs' b = block_text fs b) \<and>
     (\<forall>b. b \<notin> S \<longrightarrow> get_data_used fs' b = get_data_used fs b)"

lemma frees_refl [simp]: "frees S fs fs"
  by (simp add: frees_def)

lemma frees_trans: "frees S a b \<Longrightarrow> frees S b c \<Longrightarrow> frees S a c"
  by (simp add: frees_def in_image_def)

lemma frees_fields:
  assumes "frees S fs fs'"
  shows "meta fs' = meta fs" "node fs' = node fs" "layout_ok fs' = layout_ok fs" "in_image fs' = in_image fs"
    "block_addr fs' = block_addr fs" "inode_root fs' = inode_root fs"
proof -
  show m: "meta fs' = meta fs" and r: "inode_root fs' = inode_root fs" using assms by (simp_all add: frees_def)
  show "node fs' = node fs" by (rule ext) (simp add: node_def r)
  show "layout_ok fs' = layout_ok fs" "in_image fs' = in_image fs" by (rule layout_ok_meta [OF m], rule in_image_meta [OF m])
  show "block_addr fs' = block_addr fs" by (rule ext) (simp add: block_addr_def m)
qed

lemma frees_one:
  assumes "layout_ok fs" and "c \<in> S \<or> \<not> in_image fs c"
  shows "frees S fs (free_data_block c fs)"
proof -
  have "get_data_used (set_data_used c 0 fs) b = get_data_used fs b" if "b \<noteq> c \<or> \<not> in_image fs c" for b
    using that by (auto simp: get_data_used_def set_data_used_def map_base_def in_image_def store_text_def)
  then have "get_data_used (set_data_used c 0 fs) b = get_data_used fs b" if "b \<notin> S" for b
    using assms(2) that by metis
  then show ?thesis using block_text_mark [OF assms(1)] by (simp add: frees_def free_data_block_def)
qed

lemma frees_blocks:
  assumes "layout_ok fs" and "\<forall>b \<in> set bs. b = - 1 \<or> b \<in> S"
  shows "frees S fs (free_blocks bs fs)"
  using assms
proof (induction bs arbitrary: fs)
  case (Cons b bs)
  define fs1 where "fs1 = (if b \<noteq> UNASSIGNED_NODE then free_data_block b fs else fs)"
  have f: "frees S fs fs1" using Cons.prems frees_one [of fs b S] by (auto simp: fs1_def)
  have "frees S fs1 (free_blocks bs fs1)"
    using Cons.prems frees_fields(3) [OF f] by (intro Cons.IH) simp_all
  then show ?case using frees_trans [OF f] by (simp add: free_blocks_def fs1_def)
qed (simp add: free_blocks_def)

lemma frees_indirect:
  assumes "layout_ok fs" and "in_image fs c" and "\<forall>i \<in> set is. i < NUM_INDIRECT_BLOCKS"
    and "\<forall>i \<in> set is. indirect_entry fs (nat c * BLOCK_SIZE) i = - 1 \<or> indirect_entry fs (nat c * BLOCK_SIZE) i \<in> S"
  shows "frees S fs (free_indirect (nat c * BLOCK_SIZE) is fs)"
  using assms
proof (induction "is" arbitrary: fs)
  case (Cons i "is")
  define b where "b = indirect_entry fs (nat c * BLOCK_SIZE) i"
  define fs1 where "fs1 = (if b \<noteq> UNASSIGNED_NODE then free_data_block b fs else fs)"
  have f: "frees S fs fs1" using Cons.prems frees_one [of fs b S] by (auto simp: fs1_def b_def)
  have t: "block_text fs1 c = block_text fs c" using f Cons.prems(2) by (simp add: frees_def)
  have e: "indirect_entry fs1 (nat c * BLOCK_SIZE) j = indirect_entry fs (nat c * BLOCK_SIZE) j" if "j \<in> set is" for j
    by (rule indirect_entry_cong [OF t]) (use that Cons.prems(3) in simp)
  have "frees S fs1 (free_indirect (nat c * BLOCK_SIZE) is fs1)"
    using Cons.prems frees_fields(3,4) [OF f] e by (intro Cons.IH) simp_all
  moreover have "free_indirect (nat c * BLOCK_SIZE) (i # is) fs = free_indirect (nat c * BLOCK_SIZE) is fs1"
    by (simp add: fs1_def b_def Let_def)
  ultimately show ?case using frees_trans [OF f] by simp
qed simp

lemma free_slot:
  assumes "filled xs" and "b \<in> set xs"
  shows "b = - 1 \<or> b \<in> set (assigned xs)"
  using assms filled_eq [OF assms(1)] set_append [of "assigned xs"] by (metis UnE in_set_replicate)

text \<open>\<open>free_inode\<close> kills the inode and frees blocks of it only.\<close>

lemma free_inode_ok:
  assumes ok: "fs_ok fs" and l: "live_inode fs n"
  obtains fs' where "free_inode n fs = Inr fs'"
    "frees (blocks_of fs n) (set_node n ((node fs n)\<lparr>nlink := 0\<rparr>) fs) fs'"
proof -
  let ?x = "node fs n" let ?S = "blocks_of fs n"
  define fs1 where "fs1 = set_node n (?x\<lparr>nlink := 0\<rparr>) fs"
  have n: "n < length (inode_root fs)" using l by (simp add: live_inode_def)
  have nd: "direct (node fs1 n) = direct ?x" "indirect (node fs1 n) = indirect ?x" using n by (simp_all add: fs1_def)
  have w: "length (direct ?x) = NUM_DIRECT_BLOCKS" "filled (direct ?x)" "filled (ientries fs ?x)"
    using fs_okD(1) [OF ok l] by (simp_all add: inode_wf_def)
  have lay: "layout_ok fs1" using fs_okD(3) [OF ok l] layout_ok_meta [of fs1 fs] by (simp add: fs1_def)
  have bt: "block_text fs1 = block_text fs" by (rule block_text_disk) (simp add: fs1_def)
  have im: "in_image fs1 = in_image fs" by (rule in_image_meta) (simp add: fs1_def)
  have "\<forall>b \<in> set (direct ?x). b = - 1 \<or> b \<in> ?S"
    using free_slot [OF w(2)] by (auto simp: all_blocks_def file_blocks_def)
  then have f1: "frees ?S fs1 (free_blocks (direct ?x) fs1)" (is "frees _ _ ?fs2") by (rule frees_blocks [OF lay])
  note F = frees_fields [OF f1]
  show thesis
  proof (cases "indirect ?x = - 1")
    case True
    have "frees ?S ?fs2 (free_data_block (- 1) ?fs2)"
      using lay F(3) by (intro frees_one) (simp_all add: in_image_def)
    then have "frees ?S fs1 (free_data_block (- 1) ?fs2)" by (rule frees_trans [OF f1])
    moreover have "free_inode n fs = Inr (free_data_block (- 1) ?fs2)"
      using nd True F(2) by (simp add: free_inode_def Let_def fs1_def [symmetric])
    ultimately show thesis using that by (simp add: fs1_def)
  next
    case False
    let ?c = "indirect ?x" and ?p = "nat (indirect ?x) * BLOCK_SIZE"
    note ic = indirect_in_image [OF ok l False]
    have t: "block_text ?fs2 ?c = block_text fs ?c" using f1 ic bt by (simp add: frees_def im)
    have N: "i < NUM_INDIRECT_BLOCKS" if "i \<in> set [0..<NUM_DIRECT_BLOCKS]" for i
      using that by (simp add: NUM_DIRECT_BLOCKS_def NUM_INDIRECT_BLOCKS_def BLOCK_SIZE_def KILOBYTE_def)
    have "indirect_entry ?fs2 ?p i = - 1 \<or> indirect_entry ?fs2 ?p i \<in> ?S" if i: "i \<in> set [0..<NUM_DIRECT_BLOCKS]" for i
    proof -
      have "ientries fs ?x ! i = indirect_entry ?fs2 ?p i"
        using N [OF i] False indirect_entry_cong [OF t N [OF i]] by (simp add: ientries_def)
      moreover have "ientries fs ?x ! i \<in> set (ientries fs ?x)" using N [OF i] False by (intro nth_mem) simp
      ultimately show ?thesis
        using free_slot [OF w(3), of "ientries fs ?x ! i"] False by (auto simp: all_blocks_def file_blocks_def)
    qed
    then have f2: "frees ?S ?fs2 (free_indirect ?p [0..<NUM_DIRECT_BLOCKS] ?fs2)" (is "frees _ _ ?fs3")
      using lay F(3,4) ic im N by (intro frees_indirect) auto
    have "frees ?S ?fs3 (free_data_block ?c ?fs3)"
      using lay F(3) frees_fields(3) [OF f2] indirect_in_blocks [OF False] by (intro frees_one) simp_all
    then have "frees ?S fs1 (free_data_block ?c ?fs3)" using frees_trans f1 f2 by blast
    moreover have "block_addr ?fs2 ?c = Inr ?p" using block_addr_in ic F(4) im by simp
    then have "free_inode n fs = Inr (free_data_block ?c ?fs3)"
      using nd False F(2) by (simp add: free_inode_def Let_def fs1_def [symmetric])
    ultimately show thesis using that by (simp add: fs1_def)
  qed
qed

section \<open>Taking an entry out\<close>

fun remove_entry :: "int \<Rightarrow> dirent list \<Rightarrow> dirent list" where
  "remove_entry i [] = []"
| "remove_entry i (e # es) = (if snd e = i then es else e # remove_entry i es)"

lemma remove_entry_first:
  "t < length es \<Longrightarrow> (\<And>l. l < t \<Longrightarrow> snd (es ! l) \<noteq> i) \<Longrightarrow> snd (es ! t) = i \<Longrightarrow>
     remove_entry i es = take t es @ drop (Suc t) es"
proof (induction es arbitrary: t)
  case (Cons e es)
  show ?case
  proof (cases t)
    case (Suc s)
    have "remove_entry i es = take s es @ drop (Suc s) es"
      using Cons.prems(1,3) Cons.prems(2) [of "Suc _"] Suc by (intro Cons.IH) auto
    with Cons.prems(2) [of 0] Suc show ?thesis by simp
  qed (use Cons.prems in simp)
qed simp

lemma scan_number_first:
  assumes g: "\<forall>l < m. good_entry fs (p + l * FILE_NAME_ENTRY)" and t: "t < m"
    and other: "\<forall>l < t. snd (entry_at fs (p + l * FILE_NAME_ENTRY)) \<noteq> tgt"
    and it: "snd (entry_at fs (p + t * FILE_NAME_ENTRY)) = tgt"
  shows "s \<le> t \<Longrightarrow> t < s + k \<Longrightarrow> \<exists>prev'.
    scan_number fs tgt k p (s * FILE_NAME_ENTRY) (m * FILE_NAME_ENTRY) prev = Inr (Some (t * FILE_NAME_ENTRY), t * FILE_NAME_ENTRY, prev')"
proof (induction k arbitrary: s prev)
  case (Suc k)
  have "good_entry fs (p + s * FILE_NAME_ENTRY)" using g t Suc.prems(1) by simp
  then obtain i where i: "make_dirent_from_string fs (p + s * FILE_NAME_ENTRY) = Some i" by (auto simp: good_entry_def)
  then have e: "snd (entry_at fs (p + s * FILE_NAME_ENTRY)) = i" by (simp add: entry_at_def)
  have lt: "\<not> m * FILE_NAME_ENTRY \<le> s * FILE_NAME_ENTRY" using t Suc.prems(1) by simp
  show ?case
  proof (cases "s = t")
    case True
    with e it i lt show ?thesis by simp
  next
    case False
    then have "s < t" using Suc.prems(1) by simp
    then have "i \<noteq> tgt" "Suc s \<le> t" "t < Suc s + k" using other [rule_format, of s] e Suc.prems by simp_all
    moreover from Suc.IH [OF this(2,3), of "Some i"] obtain prev' where
      "scan_number fs tgt k p (Suc s * FILE_NAME_ENTRY) (m * FILE_NAME_ENTRY) (Some i) =
        Inr (Some (t * FILE_NAME_ENTRY), t * FILE_NAME_ENTRY, prev')" by blast
    ultimately show ?thesis using i lt by (simp add: add.commute)
  qed
qed simp

text \<open>A directory whose blocks stay as they are.\<close>

lemma dir_kept:
  assumes d: "dir_ok fs d" and n: "node fs' d = node fs d" "live_inode fs' d"
    and b: "\<And>b. b \<in> blocks_of fs d \<Longrightarrow> block_text fs' b = block_text fs b"
  shows "dir_ok fs' d" "dir_entries fs' (node fs' d) = dir_entries fs (node fs d)"
proof -
  have e: "load_text (disk fs') (entry_addr (node fs d) k) FILE_NAME_ENTRY = load_text (disk fs) (entry_addr (node fs d) k) FILE_NAME_ENTRY"
    if k: "k < entry_count (node fs d)" for k
  proof -
    let ?b = "direct (node fs d) ! (k div ENTRIES)"
    have s: "k div ENTRIES < length (assigned (direct (node fs d)))"
      using dir_okD(4) [OF d] k by (intro slot_of_entry) simp
    then have "?b \<in> set (assigned (direct (node fs d)))" by (metis assigned_nth nth_mem)
    then have "block_text fs' ?b = block_text fs ?b" by (intro b) (simp add: all_blocks_def file_blocks_def)
    then have "load_text (disk fs') (nat ?b * BLOCK_SIZE) BLOCK_SIZE = load_text (disk fs) (nat ?b * BLOCK_SIZE) BLOCK_SIZE"
      by (simp add: block_text_def)
    from load_text_part [OF this, of "k mod ENTRIES * FILE_NAME_ENTRY" FILE_NAME_ENTRY]
      entry_in_block(2) [where k = k and x = "node fs d"]
    show ?thesis by (simp add: entry_addr_def)
  qed
  show "dir_ok fs' d" using d n(2) entry_same(2) [OF e] unfolding dir_ok_def Let_def n(1) by blast
  show "dir_entries fs' (node fs' d) = dir_entries fs (node fs d)"
    using entry_same(1) [OF e] by (simp add: dir_entries_def n(1))
qed

text \<open>The move within the only block of a directory.\<close>

lemma remove_in_block:
  assumes ok: "fs_ok fs" and d: "dir_ok fs d" and m: "entry_count (node fs d) \<le> ENTRIES"
    and t: "t < entry_count (node fs d)"
    and first: "\<forall>l < t. snd (dir_entries fs (node fs d) ! l) \<noteq> i" "snd (dir_entries fs (node fs d) ! t) = i"
    and p: "p = nat (direct (node fs d) ! 0) * BLOCK_SIZE"
    and fs1: "fs1 = put_text (p + t * FILE_NAME_ENTRY)
      (load_text (disk fs) (p + t * FILE_NAME_ENTRY + FILE_NAME_ENTRY) (BLOCK_SIZE - t * FILE_NAME_ENTRY - FILE_NAME_ENTRY)) fs"
    and fs': "fs' = set_node d ((node fs1 d)\<lparr>fsize := fsize (node fs1 d) - FILE_NAME_ENTRY\<rparr>) fs1"
  shows "fs_ok fs'" "only_inode d fs fs'" "dir_ok fs' d" "node fs1 d = node fs d"
    "dir_entries fs' (node fs' d) = remove_entry i (dir_entries fs (node fs d))"
proof -
  let ?x = "node fs d" let ?n = "entry_count ?x"
  define bs where "bs = load_text (disk fs) (p + t * FILE_NAME_ENTRY + FILE_NAME_ENTRY) (BLOCK_SIZE - t * FILE_NAME_ENTRY - FILE_NAME_ENTRY)"
  note D = dir_okD [OF d]
  have a0: "0 < length (assigned (direct ?x))" using D(4) t by (cases "length (assigned (direct ?x))") auto
  note b = direct_blocks [OF ok D(1) a0]
  have "Suc t * FILE_NAME_ENTRY \<le> ENTRIES * FILE_NAME_ENTRY" using t m by (intro mult_le_mono1) simp
  then have fit: "t * FILE_NAME_ENTRY + FILE_NAME_ENTRY \<le> BLOCK_SIZE" unfolding ENTRIES_times by simp
  then have lb: "t * FILE_NAME_ENTRY + FILE_NAME_ENTRY + length bs = BLOCK_SIZE" "t * FILE_NAME_ENTRY + length bs \<le> BLOCK_SIZE"
    by (simp_all add: bs_def)
  have fs1': "fs1 = put_text (nat (file_blocks fs ?x ! 0) * BLOCK_SIZE + t * FILE_NAME_ENTRY) bs fs"
    by (simp add: fs1 bs_def p b(3))
  note c = put_chunk [OF ok D(1) b(4) lb(2) fs1']
  show nd1: "node fs1 d = ?x" by (rule c(3))
  let ?y = "?x\<lparr>fsize := fsize ?x - FILE_NAME_ENTRY\<rparr>"
  have "direct ?y = direct (node fs1 d)" "indirect ?y = indirect (node fs1 d)" "nlink ?y = nlink (node fs1 d)"
    by (simp_all add: nd1)
  note sa = set_attributes [OF c(1,4) this]
  have f': "fs' = set_node d ?y fs1" by (simp add: fs' nd1)
  show "fs_ok fs'" "only_inode d fs fs'" using sa(1) only_inode_trans [OF c(2) sa(2)] by (simp_all add: f')
  have nd: "node fs' d = ?y" "live_inode fs' d" using sa(3,4) by (simp_all add: f')
  have ea: "entry_addr ?y = entry_addr ?x" by (rule ext) (simp add: entry_addr_def)
  have ad: "entry_addr ?x l = p + l * FILE_NAME_ENTRY" if "l < ENTRIES" for l
    using entry_addr_block [OF that, of ?x 0] unfolding p by simp
  have fy: "fsize ?y = (?n - 1) * FILE_NAME_ENTRY" using D(3) by (simp add: diff_mult_distrib)
  have ec: "entry_count ?y = ?n - 1" unfolding entry_count_def [of ?y] fy by simp
  have dk: "disk fs' = store_text (p + t * FILE_NAME_ENTRY) bs (disk fs)" by (simp add: f' fs1 bs_def)
  have bytes: "load_text (disk fs') (entry_addr ?x l) FILE_NAME_ENTRY =
      load_text (disk fs) (entry_addr ?x (if l < t then l else Suc l)) FILE_NAME_ENTRY" if l: "l < ?n - 1" for l
  proof (cases "l < t")
    case True
    then have "Suc l * FILE_NAME_ENTRY \<le> t * FILE_NAME_ENTRY" by (intro mult_le_mono1) simp
    with True t m show ?thesis unfolding dk by (simp add: ad load_store_outside)
  next
    case False
    have "Suc (Suc l) * FILE_NAME_ENTRY \<le> ENTRIES * FILE_NAME_ENTRY" using l m by (intro mult_le_mono1) simp
    then have e: "l * FILE_NAME_ENTRY + 2 * FILE_NAME_ENTRY \<le> BLOCK_SIZE" unfolding ENTRIES_times by simp
    have g: "t * FILE_NAME_ENTRY \<le> l * FILE_NAME_ENTRY" using False by (intro mult_le_mono1) simp
    show ?thesis
    proof (rule nth_equalityI)
      fix i assume "i < length (load_text (disk fs') (entry_addr ?x l) FILE_NAME_ENTRY)"
      then have i: "i < FILE_NAME_ENTRY" by simp
      define q where "q = l * FILE_NAME_ENTRY + i - t * FILE_NAME_ENTRY"
      have q: "p + l * FILE_NAME_ENTRY + i = p + t * FILE_NAME_ENTRY + q" "q < length bs"
        unfolding q_def using g i e lb(1) by linarith+
      have "disk fs' (p + l * FILE_NAME_ENTRY + i) = bs ! q"
        unfolding q(1) dk by (rule store_text_inside [OF q(2)])
      also have "\<dots> = disk fs (p + t * FILE_NAME_ENTRY + FILE_NAME_ENTRY + q)" using q(2) by (simp add: bs_def)
      also have "p + t * FILE_NAME_ENTRY + FILE_NAME_ENTRY + q = p + Suc l * FILE_NAME_ENTRY + i" using q(1) by simp
      finally show "load_text (disk fs') (entry_addr ?x l) FILE_NAME_ENTRY ! i =
          load_text (disk fs) (entry_addr ?x (if l < t then l else Suc l)) FILE_NAME_ENTRY ! i"
        using i l m False by (simp add: ad)
    qed simp
  qed
  note move = entry_same [OF bytes]
  have "good_entry fs' (entry_addr ?x l)" if "l < ?n - 1" for l
  proof -
    have "Suc l < ?n" using that by linarith
    then show ?thesis unfolding move(2) [OF that] by (intro D(5)) simp
  qed
  moreover note fy
  moreover have "is_directory ?y" using D(2) by (simp add: is_directory_def)
  moreover have "?n - 1 \<le> ENTRIES * length (assigned (direct ?y))" using D(4) by simp
  ultimately show "dir_ok fs' d" using nd(2) unfolding dir_ok_def Let_def nd(1) ec ea by blast
  have ln: "length (dir_entries fs ?x) = ?n" by (simp add: dir_entries_def)
  have "remove_entry i (dir_entries fs ?x) = take t (dir_entries fs ?x) @ drop (Suc t) (dir_entries fs ?x)"
    by (rule remove_entry_first) (use t first ln in auto)
  also have "\<dots> = dir_entries fs' (node fs' d)"
  proof (rule nth_equalityI)
    fix l assume "l < length (take t (dir_entries fs ?x) @ drop (Suc t) (dir_entries fs ?x))"
    then have l: "l < ?n - 1" using t ln by simp
    then have "dir_entries fs' (node fs' d) ! l = entry_at fs (entry_addr ?x (if l < t then l else Suc l))"
      using move(1) [OF l] by (simp add: dir_entries_def nd(1) ec ea)
    then show "(take t (dir_entries fs ?x) @ drop (Suc t) (dir_entries fs ?x)) ! l = dir_entries fs' (node fs' d) ! l"
      using l t ln by (auto simp: nth_append dir_entries_def)
  qed (use t ln in \<open>simp add: dir_entries_def nd(1) ec\<close>)
  finally show "dir_entries fs' (node fs' d) = remove_entry i (dir_entries fs ?x)" ..
qed

section \<open>Removing a file\<close>

lemma fs_ok_dead:
  assumes ok: "fs_ok fs" and l: "live_inode fs n"
    and f: "frees (blocks_of fs n) (set_node n ((node fs n)\<lparr>nlink := 0\<rparr>) fs) fs'"
  shows "fs_ok fs'" "only_inode n fs fs'" "\<not> live_inode fs' n"
proof -
  let ?fs1 = "set_node n ((node fs n)\<lparr>nlink := 0\<rparr>) fs"
  have n: "n < length (inode_root fs)" using l by (simp add: live_inode_def)
  note F = frees_fields [OF f]
  have m: "meta fs' = meta fs" using F(1) by simp
  have nd: "node fs' k = (if k = n then (node fs n)\<lparr>nlink := 0\<rparr> else node fs k)" for k using F(2) n by simp
  have ln: "length (inode_root fs') = length (inode_root fs)" using F(6) by simp
  have "block_text ?fs1 = block_text fs" by (rule block_text_disk) simp
  then have t: "block_text fs' b = block_text fs b" if "in_image fs b" for b
    using f that by (simp add: frees_def in_image_def)
  have u: "get_data_used fs' b = get_data_used fs b" if "b \<notin> blocks_of fs n" for b
    using f that get_data_used_cong [of ?fs1 fs b] by (simp add: frees_def)
  show "\<not> live_inode fs' n" by (simp add: live_inode_def nd)
  show on: "only_inode n fs fs'"
  proof (rule only_inodeI)
    show "now fs' = now fs" using f by (simp add: frees_def)
    show "block_text fs' b = block_text fs b" if "live_inode fs k" "b \<in> blocks_of fs k" for k b
      by (rule t [OF fs_okD(4) [OF ok that]])
  qed (simp_all add: m ln nd)
  note o = only_inode_others [OF on]
  have before: "live_inode fs k \<and> k \<noteq> n" if "live_inode fs' k" for k
    using that ln by (auto simp: live_inode_def nd split: if_splits)
  have im: "in_image fs' = in_image fs" by (rule in_image_meta [OF m])
  show "fs_ok fs'" unfolding fs_ok_def im
  proof (intro conjI allI impI)
    show "layout_ok fs'" using fs_okD(3) [OF ok l] layout_ok_meta [OF m] by simp
  next
    fix k assume "live_inode fs' k"
    then have k: "live_inode fs k" "k \<noteq> n" using before by blast+
    show "inode_wf fs' (node fs' k)" "distinct (all_blocks fs' (node fs' k))"
      using o(3,5) [OF k(2,1)] fs_okD(1,2) [OF ok k(1)] by simp_all
    show "\<forall>b \<in> blocks_of fs' k. in_image fs b \<and> get_data_used fs' b = 1"
    proof
      fix b assume "b \<in> blocks_of fs' k"
      then have b: "b \<in> blocks_of fs k" unfolding o(3) [OF k(2,1)] .
      show "in_image fs b \<and> get_data_used fs' b = 1"
        using fs_okD(4,5) [OF ok k(1) b] u [OF fs_ok_disjoint [OF ok k(1) l k(2) b]] by simp
    qed
  next
    fix i j assume ij: "live_inode fs' i" "live_inode fs' j" "i \<noteq> j"
    have k: "live_inode fs i" "i \<noteq> n" "live_inode fs j" "j \<noteq> n" using before ij by blast+
    show "blocks_of fs' i \<inter> blocks_of fs' j = {}"
      unfolding o(3) [OF k(2,1)] o(3) [OF k(4,3)] using fs_ok_disjoint [OF ok k(1,3) ij(3)] by blast
  qed
qed

lemma unlink_ok:
  assumes ok: "fs_ok fs" and p: "get_inode fs path = Inr (Some n)" "live_inode fs n"
    and d: "parent_directory fs path = Inr (Some d, f)" "dir_ok fs d" "d \<noteq> n"
    and one: "entry_count (node fs d) \<le> ENTRIES" and e: "int n \<in> snd ` set (dir_entries fs (node fs d))"
  obtains fs' where "minixfs_unlink fs path = Inr (0, fs')" "fs_ok fs'" "\<not> live_inode fs' n" "dir_ok fs' d"
    "dir_entries fs' (node fs' d) = remove_entry (int n) (dir_entries fs (node fs d))"
    "\<And>m. m \<noteq> n \<Longrightarrow> m \<noteq> d \<Longrightarrow> live_inode fs m \<Longrightarrow> live_inode fs' m \<and> node fs' m = node fs m \<and> content fs' m = content fs m"
proof -
  let ?x = "node fs d" let ?m = "entry_count ?x" let ?es = "dir_entries fs ?x"
  note D = dir_okD [OF d(2)]
  have ln: "length ?es = ?m" by (simp add: dir_entries_def)
  define t where "t = (LEAST t. t < ?m \<and> snd (?es ! t) = int n)"
  obtain t0 where t0: "t0 < ?m" "snd (?es ! t0) = int n" using e ln by (metis imageE in_set_conv_nth)
  then have t: "t < ?m" "snd (?es ! t) = int n" unfolding t_def by (metis (mono_tags, lifting) LeastI)+
  have first: "snd (?es ! l) \<noteq> int n" if "l < t" for l
    using not_less_Least [of l "\<lambda>t. t < ?m \<and> snd (?es ! t) = int n"] that t(1) unfolding t_def [symmetric] by simp
  have at: "?es ! l = entry_at fs (entry_addr ?x l)" if "l < ?m" for l using that by (simp add: dir_entries_def)
  define q where "q = nat (direct ?x ! 0) * BLOCK_SIZE"
  have ad: "entry_addr ?x l = q + l * FILE_NAME_ENTRY" if "l < ?m" for l
    using entry_addr_block [of l ?x 0] that one unfolding q_def by simp
  have a0: "0 < length (assigned (direct ?x))" using D(4) t(1) by (cases "length (assigned (direct ?x))") auto
  have s: "slot_block fs ?x False 0 = Inr q"
    using block_addr_in [OF direct_blocks(1) [OF ok D(1) a0]] by (simp add: slot_block_def q_def)
  have "\<forall>l < ?m. good_entry fs (q + l * FILE_NAME_ENTRY)" using D(5) ad by simp
  moreover have "\<forall>l < t. snd (entry_at fs (q + l * FILE_NAME_ENTRY)) \<noteq> int n" using first at ad t(1) by simp
  moreover have "snd (entry_at fs (q + t * FILE_NAME_ENTRY)) = int n" using t at ad by simp
  ultimately obtain prev' where sc: "scan_number fs (int n) ENTRIES q 0 (?m * FILE_NAME_ENTRY) None =
      Inr (Some (t * FILE_NAME_ENTRY), t * FILE_NAME_ENTRY, prev')"
    using scan_number_first [of ?m fs q t "int n" 0 ENTRIES None] t(1) one by auto
  define fs1 where "fs1 = put_text (q + t * FILE_NAME_ENTRY)
      (load_text (disk fs) (q + t * FILE_NAME_ENTRY + FILE_NAME_ENTRY) (BLOCK_SIZE - t * FILE_NAME_ENTRY - FILE_NAME_ENTRY)) fs"
  have loop: "unlink_loop fs ?x (node fs n) (int n) False 0 (fsize ?x) None = Inr fs1"
    using s sc t(1) D(3) unfolding ENTRIES_def by (subst unlink_loop.simps) (simp add: fs1_def)
  define fs2 where "fs2 = set_node d ((node fs1 d)\<lparr>fsize := fsize (node fs1 d) - FILE_NAME_ENTRY\<rparr>) fs1"
  have "\<forall>l < t. snd (?es ! l) \<noteq> int n" using first by blast
  note r = remove_in_block [OF ok d(2) one t(1) this t(2) q_def fs1_def fs2_def]
  note o2 = only_inode_others [OF r(2) d(3) [symmetric] p(2)]
  obtain fs' where f: "free_inode n fs2 = Inr fs'"
    "frees (blocks_of fs2 n) (set_node n ((node fs2 n)\<lparr>nlink := 0\<rparr>) fs2) fs'"
    by (rule free_inode_ok [OF r(1) o2(1)])
  note x = fs_ok_dead [OF r(1) o2(1) f(2)]
  have ld: "live_inode fs2 d" by (rule dir_okD(1) [OF r(3)])
  note od = only_inode_others [OF x(2) d(3) ld]
  have "?m * FILE_NAME_ENTRY \<le> ENTRIES * FILE_NAME_ENTRY" using one by (rule mult_le_mono1)
  then have "fsize ?x \<le> BLOCK_SIZE" "FILE_NAME_ENTRY \<le> fsize ?x"
    using D(3) t(1) by (cases ?m; simp add: ENTRIES_times)+
  then have w: "(fsize ?x + 2 ^ 64 - FILE_NAME_ENTRY) mod 2 ^ 64 = fsize ?x - FILE_NAME_ENTRY"
    by (simp add: BLOCK_SIZE_def KILOBYTE_def mod_if)
  have run: "minixfs_unlink fs path = Inr (0, fs')"
    using p(1) d(1) loop f(1) w r(4) by (simp add: minixfs_unlink_def Let_def fs2_def)
  have k: "dir_ok fs' d" "dir_entries fs' (node fs' d) = dir_entries fs2 (node fs2 d)"
    using only_inodeD(5) [OF x(2) d(3) ld] by (intro dir_kept [OF r(3) od(2,1)]; simp)+
  have others: "live_inode fs' m \<and> node fs' m = node fs m \<and> content fs' m = content fs m"
    if "m \<noteq> n" "m \<noteq> d" "live_inode fs m" for m
    using only_inode_others [OF r(2) that(2,3)] only_inode_others [OF x(2) that(1)] by simp
  show thesis by (rule that [OF run x(1,3) k(1) k(2) [unfolded r(5)] others])
qed

end
