(* ===== verification/FsProps.thy ===== *)
theory FsProps
  imports FsPaths
begin

text \<open>
  What reading and writing promise, on a file that a path names: the refinement of the abstract
  content, the other files, the invariant of the image, and reading back what was written.
\<close>

section \<open>A small file system\<close>

text \<open>The root directory, in block 0, names two empty files, \<open>a\<close> and \<open>b\<close>; inode 3 and block 1
  are free.\<close>

definition free_slots :: "int list" where
  "free_slots = [- 1, - 1, - 1, - 1, - 1, - 1, - 1, - 1, - 1, - 1]"

definition small_root :: inode where
  "small_root = \<lparr>uid = 0, gid = 0, mode = 1517, nlink = 1, atim = (0, 0), mtim = (0, 0), ctim = (0, 0),
     fsize = 512, direct = 0 # free_slots, indirect = - 1\<rparr>"

definition small_file :: inode where
  "small_file = \<lparr>uid = 0, gid = 0, mode = 1005, nlink = 1, atim = (0, 0), mtim = (0, 0), ctim = (0, 0),
     fsize = 0, direct = - 1 # free_slots, indirect = - 1\<rparr>"

definition small_disk :: "nat \<Rightarrow> char" where
  "small_disk a =
     (if a = 0 then CHR ''a'' else if 248 \<le> a \<and> a < 255 then CHR ''0'' else if a = 255 then CHR ''1''
      else if a = 256 then CHR ''b'' else if 504 \<le> a \<and> a < 511 then CHR ''0'' else if a = 511 then CHR ''2''
      else if a = 32768 then CHR 0x01 else NUL)"

definition small_fs :: filesys where
  "small_fs = \<lparr>meta = \<lparr>sb_size = 33274, inode_count = 4, dblock_count = 2\<rparr>,
     inode_root = [small_root, small_file, small_file, zero_inode], disk = small_disk, now = (7, 0), coins = [], last_error = None\<rparr>"

lemma small_nodes:
  "node small_fs 0 = small_root" "node small_fs (Suc 0) = small_file" "node small_fs 2 = small_file"
  "node small_fs 3 = zero_inode"
  by (simp_all add: node_def small_fs_def)

lemma small_live: "live_inode small_fs n \<longleftrightarrow> n = 0 \<or> n = Suc 0 \<or> n = 2"
proof -
  have "n < 4 \<longleftrightarrow> n = 0 \<or> n = Suc 0 \<or> n = 2 \<or> n = 3" by auto
  then show ?thesis
    by (auto simp: live_inode_def small_nodes) (auto simp: small_fs_def small_root_def small_file_def zero_inode_def)
qed

lemma small_blocks: "all_blocks small_fs small_root = [0]" "all_blocks small_fs small_file = []"
  by (simp_all add: all_blocks_def file_blocks_def assigned_def ientries_def small_root_def small_file_def free_slots_def)

lemma small_used: "get_data_used small_fs 0 = 1" "get_data_used small_fs 1 = 0"
  by (simp_all add: get_data_used_def small_fs_def small_disk_def map_base_def sizeof_superblock_def
      sizeof_inode_def signed_char_def Let_def of_char_def)

lemma small_wf: "inode_wf small_fs small_root" "inode_wf small_fs small_file"
  by (simp_all add: inode_wf_def filled_def ientries_def small_root_def small_file_def free_slots_def NUM_DIRECT_BLOCKS_def)

lemma small_ok: "fs_ok small_fs"
proof -
  have "layout_ok small_fs"
    by (simp add: layout_ok_def map_base_def small_fs_def sizeof_superblock_def sizeof_inode_def BLOCK_SIZE_def KILOBYTE_def)
  moreover have "in_image small_fs 0" by (simp add: in_image_def small_fs_def)
  ultimately show ?thesis
    unfolding fs_ok_def small_live by (auto simp: small_nodes small_blocks small_wf small_used)
qed

lemma small_entries:
  "make_dirent_from_string small_fs 0 = Some 1" "make_dirent_from_string small_fs 256 = Some 2"
  "name_is small_fs 0 ''a''" "\<not> name_is small_fs 0 ''b''" "name_is small_fs 256 ''b''"
proof -
  have l: "load_text small_disk 248 8 = ''00000001''" "load_text small_disk 504 8 = ''00000002''"
    "load_text small_disk 0 (Suc (Suc 0)) = [CHR ''a'', NUL]" "load_text small_disk 256 (Suc (Suc 0)) = [CHR ''b'', NUL]"
    by (simp_all add: load_text_def small_disk_def upt_rec numeral_2_eq_2)
  show "make_dirent_from_string small_fs 0 = Some 1" "make_dirent_from_string small_fs 256 = Some 2"
    by (simp_all add: make_dirent_from_string_def FILE_NAME_LENGTH_def INODE_SIZE_def small_fs_def l strtoll16_def
        skip_0x_def hex_digit_def of_char_def to_int_def)
  show "name_is small_fs 0 ''a''" "\<not> name_is small_fs 0 ''b''" "name_is small_fs 256 ''b''"
    by (simp_all add: name_is_def small_fs_def l)
qed

lemma small_scan:
  "scan_entries small_fs ''a'' (Suc 63) 0 512 None = Inr (Some 1, 512, Some (1, 0))"
  "scan_entries small_fs ''b'' (Suc (Suc 62)) 0 512 None = Inr (Some 2, 256, Some (2, 256))"
  unfolding scan_entries.simps(2) by (simp_all add: small_entries FILE_NAME_ENTRY_def FILE_NAME_LENGTH_def)

lemma small_find: "find_inode_named small_fs 0 ''a'' = Inr (Some 1)" "find_inode_named small_fs 0 ''b'' = Inr (Some 2)"
proof -
  have "block_addr small_fs 0 = Inr 0" by (simp add: block_addr_def small_fs_def)
  moreover have "BLOCK_SIZE div FILE_NAME_ENTRY = Suc (Suc 62)"
    by (simp add: BLOCK_SIZE_def KILOBYTE_def FILE_NAME_ENTRY_def FILE_NAME_LENGTH_def)
  ultimately have "find_loop small_fs small_root ''a'' False 0 512 None = Inr (Some 1)"
    "find_loop small_fs small_root ''b'' False 0 512 None = Inr (Some 2)"
    using small_scan by (simp_all add: find_loop.simps slot_block_def small_root_def)
  then show "find_inode_named small_fs 0 ''a'' = Inr (Some 1)" "find_inode_named small_fs 0 ''b'' = Inr (Some 2)"
    by (simp_all add: find_inode_named_def small_nodes inode_pointer_def small_root_def) (simp_all add: small_fs_def)
qed

lemma small_names: "names_file small_fs ''/a'' (Suc 0)" "names_file small_fs ''/b'' 2"
proof -
  have "tokens ''/a'' = [''a'']" "tokens ''/b'' = [''b'']" by (simp_all add: tokens.simps)
  moreover have "is_directory small_root" "is_file small_file"
    by (simp_all add: is_directory_def is_file_def small_root_def small_file_def TYPE_DIRECTORY_def TYPE_FILE_def RWX_BITS_NUMBER_def)
  ultimately show "names_file small_fs ''/a'' (Suc 0)" "names_file small_fs ''/b'' 2"
    using small_find by (simp_all add: names_file_def small_live small_nodes FILE_NAME_ENTRY_def)
qed

lemma small_sized: "sized small_fs (Suc 0)" "content small_fs (Suc 0) = []"
  by (simp_all add: sized_def content_def small_nodes) (simp_all add: small_file_def)

section \<open>Reading\<close>

lemma read_file_ok:
  assumes ok: "fs_ok fs" and p: "names_file fs path n" and v: "is_virtual_path path = None" and sz: "sized fs n"
  shows "minixfs_read fs path bound off =
    (let bytes = take bound (drop off (content fs n)) in
     Inr (set_node n ((node fs n)\<lparr>atim := now fs\<rparr>) fs, int (length bytes), bytes, off + length bytes))"
proof -
  have l: "live_inode fs n" using p by (simp add: names_file_def)
  define fs1 where "fs1 = set_node n ((node fs n)\<lparr>atim := now fs\<rparr>) fs"
  have "direct ((node fs n)\<lparr>atim := now fs\<rparr>) = direct (node fs n)" "indirect ((node fs n)\<lparr>atim := now fs\<rparr>) = indirect (node fs n)"
    "nlink ((node fs n)\<lparr>atim := now fs\<rparr>) = nlink (node fs n)" by simp_all
  note sa = set_attributes [OF ok l this, folded fs1_def]
  define k where "k = (if fsize (node fs n) < off + bound then fsize (node fs n) - off else bound)"
  show ?thesis
  proof (cases "fsize (node fs n) \<le> off")
    case True
    then show ?thesis using v sa(4)
      by (simp add: minixfs_read_def get_inode_names_file [OF p] content_def fs1_def [symmetric] Let_def)
  next
    case False
    then have "off + k \<le> length (raw_bytes fs1 n)" using sz sa(5) by (simp add: sized_def k_def)
    from read_blocks_ok [OF sa(1,3) this, of "[]"]
    have r: "read_blocks fs1 n k off [] = Inr (take k (drop off (raw_bytes fs n)))" by (simp add: sa(5))
    have "take k (drop off (raw_bytes fs n)) = take bound (drop off (content fs n))"
      using False by (auto simp: content_def k_def drop_take min_def)
    with r have "read_blocks fs1 n k off [] = Inr (take bound (drop off (content fs n)))" by simp
    with False v sa(4) show ?thesis unfolding k_def
      by (simp add: minixfs_read_def get_inode_names_file [OF p] fs1_def [symmetric] Let_def split: if_splits)
  qed
qed

text \<open>C21: \<open>minixfs_read\<close> of a file that a path names returns the slice of the file's content at the
  offset, cut at the end of the file, moves the offset behind it and sets the access time, whichever
  direct and indirect blocks the slice spans.\<close>

theorem read_returns_slice:
  assumes "fs_ok fs" and "names_file fs path n" and "is_virtual_path path = None" and "sized fs n"
  shows "minixfs_read fs path bound off =
    (let bytes = take bound (drop off (content fs n)) in
     Inr (set_node n ((node fs n)\<lparr>atim := now fs\<rparr>) fs, int (length bytes), bytes, off + length bytes))"
  by (rule read_file_ok [OF assms])

section \<open>Writing\<close>

text \<open>C4: \<open>minixfs_write\<close> at an offset within a file or at its end, up to the largest size, refines
  the abstract write: either all bytes are stored, the content becomes \<open>file_write\<close> of the old one and the
  offset moves behind them, or the disk is full, and the result is -1 with \<open>ENOSPC\<close>.\<close>

theorem write_refines_file_write:
  assumes "fs_ok fs" and "names_file fs path n" and "sized fs n"
    and "off \<le> length (content fs n)" and "off + length buf \<le> max_file_size"
  shows "\<exists>fs' off'.
    minixfs_write fs path buf off = Inr (fs', int (length buf), off') \<and> off' = off + length buf \<and>
      sized fs' n \<and> content fs' n = file_write (content fs n) buf off \<or>
    minixfs_write fs path buf off = Inr (fs', - 1, off') \<and> disk_full fs' \<and> last_error fs' = Some ENOSPC"
proof -
  have "off \<le> fsize (node fs n)" using assms(4) by (simp add: content_def)
  from write_file_ok [OF assms(1) _ get_inode_names_file [OF assms(2)] assms(3) this assms(5)] assms(2)
  obtain fs' fin off' where "minixfs_write fs path buf off = Inr (fs', if fin then int (length buf) else - 1, off')"
    "if fin then off' = off + length buf \<and> sized fs' n \<and> content fs' n = file_write (content fs n) buf off
     else disk_full fs' \<and> last_error fs' = Some ENOSPC"
    by (auto simp: names_file_def)
  then show ?thesis by (cases fin) auto
qed

lemma write_result:
  assumes "fs_ok fs" and "names_file fs path n" and "sized fs n"
    and "off \<le> length (content fs n)" and "off + length buf \<le> max_file_size"
    and "minixfs_write fs path buf off = Inr (fs', r, off')"
  shows "fs_ok fs'" "only_inode n fs fs'" "names_file fs' path n"
    "r = int (length buf) \<Longrightarrow> sized fs' n \<and> content fs' n = file_write (content fs n) buf off"
proof -
  have "off \<le> fsize (node fs n)" using assms(4) by (simp add: content_def)
  from write_file_ok [OF assms(1) _ get_inode_names_file [OF assms(2)] assms(3) this assms(5)] assms(2)
  obtain fin where a: "minixfs_write fs path buf off = Inr (fs', if fin then int (length buf) else - 1, off')"
    "fs_ok fs'" "only_inode n fs fs'" "live_inode fs' n" "mode (node fs' n) = mode (node fs n)"
    "if fin then off' = off + length buf \<and> sized fs' n \<and> content fs' n = file_write (content fs n) buf off
     else disk_full fs' \<and> last_error fs' = Some ENOSPC"
    by (auto simp: names_file_def assms(6))
  show "fs_ok fs'" "only_inode n fs fs'" by (rule a)+
  show "names_file fs' path n" by (rule names_file_kept [OF assms(2,1) a(3-5)])
  show "sized fs' n \<and> content fs' n = file_write (content fs n) buf off" if "r = int (length buf)"
    using a(1,6) assms(6) that by (cases fin) simp_all
qed

text \<open>C19: \<open>minixfs_write\<close> keeps the invariant of the image: after it, too, the blocks of the live
  inodes lie in the image, are marked as used, and belong to one inode each.\<close>

theorem write_keeps_image:
  assumes "fs_ok fs" and "names_file fs path n" and "sized fs n"
    and "off \<le> length (content fs n)" and "off + length buf \<le> max_file_size"
    and "minixfs_write fs path buf off = Inr (fs', r, off')"
  shows "fs_ok fs'"
  by (rule write_result(1) [OF assms])

text \<open>C20: \<open>minixfs_write\<close> to one file, whether it succeeds or runs out of space, leaves every path to
  another file and the content of that file as they were.\<close>

theorem write_keeps_other_files:
  assumes "fs_ok fs" and "names_file fs path n" and "sized fs n"
    and "off \<le> length (content fs n)" and "off + length buf \<le> max_file_size"
    and "minixfs_write fs path buf off = Inr (fs', r, off')"
    and "names_file fs other m" and "m \<noteq> n"
  shows "names_file fs' other m \<and> content fs' m = content fs m"
proof -
  note w = write_result [OF assms(1-6)]
  have "live_inode fs m" using assms(7) by (simp add: names_file_def)
  with names_other_kept [OF assms(7,2,1) w(2) assms(8)] only_inode_others(7) [OF w(2) assms(8)]
  show ?thesis by blast
qed

text \<open>What a successful \<open>minixfs_write\<close> stored, a \<open>minixfs_read\<close> of the same path, offset and
  length returns.\<close>

theorem write_then_read:
  assumes "fs_ok fs" and "names_file fs path n" and "sized fs n"
    and "off \<le> length (content fs n)" and "off + length buf \<le> max_file_size"
    and "minixfs_write fs path buf off = Inr (fs', int (length buf), off')"
    and "is_virtual_path path = None"
  shows "\<exists>fs''. minixfs_read fs' path (length buf) off = Inr (fs'', int (length buf), buf, off + length buf)"
proof -
  note w = write_result [OF assms(1-6)]
  have s: "sized fs' n" "content fs' n = file_write (content fs n) buf off" using w(4) by simp_all
  have "take (length buf) (drop off (content fs' n)) = buf"
    using assms(4) by (simp add: s(2) file_write_def)
  then show ?thesis using read_file_ok [OF w(1,3) assms(7) s(1)] by (simp only: Let_def) blast
qed

text \<open>The properties at the small file system: \<open>/a\<close> is written and read back.\<close>

lemma small_space:
  assumes "meta fs = meta small_fs" and "disk fs = small_disk" and "coins fs = []"
  shows "first_unused_data fs = (1, fs)"
proof -
  have u: "get_data_used fs b = get_data_used small_fs b" for b
    using assms by (intro get_data_used_cong) (simp_all add: small_fs_def)
  have c: "dblock_count (meta fs) = Suc (Suc 0)" using assms(1) by (simp add: small_fs_def)
  have "scan_data fs [0..<Suc (Suc 0)] 0 [] = (Some 1, 1, [])"
    using small_used by (simp add: u upt_rec)
  then have "first_unused_loop fs 0 [] = (Some 1, [])"
    unfolding c [symmetric] by (subst first_unused_loop.simps) (simp add: c)
  moreover have "fs\<lparr>coins := []\<rparr> = fs" using assms(3) by simp
  ultimately show ?thesis by (simp add: first_unused_data_def assms(3))
qed

lemma small_write: "\<exists>fs'. minixfs_write small_fs ''/a'' ''hi'' 0 = Inr (fs', int (length ''hi''), 2)"
proof -
  define x where "x = small_file\<lparr>atim := (7, 0), mtim := (7, 0), fsize := Suc (Suc 0)\<rparr>"
  define fs1 where "fs1 = set_node (Suc 0) x small_fs"
  have x: "direct x = - 1 # free_slots" by (simp add: x_def small_file_def)
  have n: "node fs1 (Suc 0) = x" "meta fs1 = meta small_fs" "disk fs1 = small_disk" "coins fs1 = []"
    by (simp_all add: fs1_def small_fs_def)
  have "List.find (\<lambda>i. direct x ! i = - 1) [0..<NUM_DIRECT_BLOCKS] = Some 0"
    unfolding x by (simp add: NUM_DIRECT_BLOCKS_def upt_rec)
  then obtain fs2 where a: "add_data_block_to_inode (Suc 0) fs1 = (1, fs2)" "meta fs2 = meta small_fs"
    by (simp add: add_data_block_to_inode_def n small_space Let_def)
  have w: "write_block (Suc 0) 0 fs1 = Inr (Some 16384, fs2)"
    using a by (simp add: write_block_def NUM_DIRECT_BLOCKS_def n x allocated_def block_addr_def small_fs_def
        BLOCK_SIZE_def KILOBYTE_def)
  have "write_blocks (Suc 0) ''hi'' 0 fs1 = Inr (put_text 16384 ''hi'' fs2, 2, True)"
    using w by (simp add: write_blocks.simps Let_def BLOCK_SIZE_def KILOBYTE_def)
  moreover have "minixfs_write small_fs ''/a'' ''hi'' 0 =
      rbind (write_blocks (Suc 0) ''hi'' 0 fs1) (\<lambda>(fs, off, ok). Inr (fs, if ok then int (length ''hi'') else - 1, off))"
    using get_inode_names_file [OF small_names(1)]
    by (simp add: minixfs_write_def max_file_size_def NUM_DIRECT_BLOCKS_def BLOCK_SIZE_def KILOBYTE_def
        small_nodes fs1_def x_def small_file_def Let_def) (simp add: small_fs_def)
  ultimately show ?thesis by simp
qed

lemmas small = small_ok small_names(1) small_sized

lemma small_bounds: "0 \<le> length (content small_fs (Suc 0))" "0 + length ''hi'' \<le> max_file_size"
  by (simp_all add: max_file_size_def NUM_DIRECT_BLOCKS_def BLOCK_SIZE_def KILOBYTE_def)

lemma small_path: "is_virtual_path ''/a'' = None"
  by (simp add: is_virtual_path_def)

theorem read_returns_slice_witness:
  "\<exists>fs'. minixfs_read small_fs ''/a'' 5 0 = Inr (fs', 0, [], 0)"
  using read_returns_slice [OF small(1,2) small_path small(3), of 5 0] by (simp add: small(4))

theorem write_refines_file_write_witness:
  "\<exists>fs' off'.
    minixfs_write small_fs ''/a'' ''hi'' 0 = Inr (fs', int (length ''hi''), off') \<and> off' = 0 + length ''hi'' \<and>
      sized fs' (Suc 0) \<and> content fs' (Suc 0) = file_write [] ''hi'' 0 \<or>
    minixfs_write small_fs ''/a'' ''hi'' 0 = Inr (fs', - 1, off') \<and> disk_full fs' \<and> last_error fs' = Some ENOSPC"
  using write_refines_file_write [OF small(1-3) small_bounds] by (simp only: small(4))

theorem write_keeps_image_witness:
  "\<exists>fs'. minixfs_write small_fs ''/a'' ''hi'' 0 = Inr (fs', int (length ''hi''), 2) \<and> fs_ok fs'"
  using small_write write_keeps_image [OF small(1-3) small_bounds] by blast

theorem write_then_read_witness:
  "\<exists>fs' fs''. minixfs_write small_fs ''/a'' ''hi'' 0 = Inr (fs', int (length ''hi''), 2) \<and>
     minixfs_read fs' ''/a'' (length ''hi'') 0 = Inr (fs'', int (length ''hi''), ''hi'', 0 + length ''hi'')"
  using small_write write_then_read [OF small(1-3) small_bounds _ small_path] by blast

theorem write_keeps_other_files_witness:
  "\<exists>fs'. minixfs_write small_fs ''/a'' ''hi'' 0 = Inr (fs', int (length ''hi''), 2) \<and>
     names_file fs' ''/b'' 2 \<and> content fs' 2 = content small_fs 2"
proof -
  have "(2 :: nat) \<noteq> Suc 0" by simp
  with small_write write_keeps_other_files [OF small(1-3) small_bounds _ small_names(2)] show ?thesis by blast
qed

end
