(* ===== verification/FsDirProps.thy ===== *)
theory FsDirProps
  imports FsUnlink FsProps
begin

text \<open>
  What the directory operations promise against the association list of a directory: looking up,
  listing, creating and removing names; and what becomes of the first file on a new image.
\<close>

section \<open>The root directory of the small file system\<close>

lemma small_dir: "dir_ok small_fs 0"
  "dir_entries small_fs small_root = [(''a'', 1), (''b'', 2)]" "entry_count small_root = 2"
proof -
  have m: "make_dirent_from_string small_fs 0 = Some 1" "make_dirent_from_string small_fs 256 = Some 2"
    by (rule small_entries)+
  have t: "load_text small_disk 0 (Suc (Suc k)) = CHR ''a'' # NUL # load_text small_disk 2 k"
    "load_text small_disk 256 (Suc (Suc k)) = CHR ''b'' # NUL # load_text small_disk 258 k" for k
    by (simp_all add: load_text_def upt_conv_Cons) (simp_all add: small_disk_def numeral_2_eq_2)
  have dk: "disk small_fs = small_disk" by (simp add: small_fs_def)
  have l: "MAX_DIR_NAME_LEN - 1 = Suc (Suc 253)" by (simp add: MAX_DIR_NAME_LEN_def)
  have e: "entry_at small_fs 0 = (''a'', 1)" "good_entry small_fs 0" "entry_at small_fs 256 = (''b'', 2)" "good_entry small_fs 256"
    unfolding entry_at_def good_entry_def l m dk t by (simp_all add: cstr_def)
  show c: "entry_count small_root = 2" by (simp add: entry_count_def small_root_def FILE_NAME_ENTRY_def FILE_NAME_LENGTH_def)
  have a: "entry_addr small_root 0 = 0" "entry_addr small_root (Suc 0) = 256"
    by (simp_all add: entry_addr_def small_root_def ENTRIES_def BLOCK_SIZE_def KILOBYTE_def FILE_NAME_ENTRY_def FILE_NAME_LENGTH_def)
  show "dir_entries small_fs small_root = [(''a'', 1), (''b'', 2)]"
    by (simp add: dir_entries_def c upt_rec a e)
  have "good_entry small_fs (entry_addr small_root k)" if "k < 2" for k
    using that a e by (cases k) auto
  moreover have "assigned (direct small_root) = [0]" by (simp add: assigned_def small_root_def free_slots_def)
  moreover have "is_directory small_root"
    by (simp add: is_directory_def small_root_def TYPE_DIRECTORY_def RWX_BITS_NUMBER_def)
  ultimately show "dir_ok small_fs 0"
    by (simp add: dir_ok_def small_nodes c small_live)
      (simp add: small_root_def FILE_NAME_ENTRY_def FILE_NAME_LENGTH_def ENTRIES_def BLOCK_SIZE_def KILOBYTE_def)
qed

lemma small_names_short: "short_name ''a''" "short_name ''b''" "short_name ''c''"
  by (simp_all add: short_name_def FILE_NAME_LENGTH_def)

section \<open>Entries, lookup and listing\<close>

text \<open>\<open>make_string_from_dirent\<close> and reading the entry back are inverse to each other for names
  shorter than \<open>FILE_NAME_LENGTH\<close> and inode numbers of an \<open>int\<close>.\<close>

theorem dirent_round_trip:
  assumes "short_name name" and "0 < i" and "i < 2 ^ 31"
  shows "entry_at (make_string_from_dirent p name (int i) fs) p = (name, int i)"
  by (rule entry_written(1) [OF assms refl])

theorem dirent_round_trip_witness:
  "entry_at (make_string_from_dirent 0 ''b'' (int 255) small_fs) 0 = (''b'', int 255)"
  by (rule dirent_round_trip [OF small_names_short(2)]) simp_all

text \<open>C34: The search of \<open>find_inode_named\<close> through the blocks of a directory agrees with \<open>map_of\<close> on its
  association list: it returns the number of the first entry with the name.\<close>

theorem lookup_is_map_of:
  assumes "fs_ok fs" and "dir_ok fs d" and "short_name name"
  shows "find_inode_named fs d name =
    (case map_of (dir_entries fs (node fs d)) name of
       None \<Rightarrow> Inr None | Some i \<Rightarrow> rbind (inode_pointer fs i) (\<lambda>n. Inr (Some n)))"
  by (rule find_inode_named_dir [OF assms])

theorem lookup_is_map_of_witness:
  "find_inode_named small_fs 0 ''b'' = rbind (inode_pointer small_fs 2) (\<lambda>n. Inr (Some n)) \<and>
   find_inode_named small_fs 0 ''c'' = Inr None"
  using lookup_is_map_of [OF small_ok small_dir(1) small_names_short(2)]
    lookup_is_map_of [OF small_ok small_dir(1) small_names_short(3)]
  by (simp add: small_nodes small_dir(2))

text \<open>C35: \<open>minixfs_readdir\<close> of a directory that a path names returns its association list, with
  \<open>virtual\<close> in front in the root directory, and the length of the list.\<close>

theorem readdir_lists_directory:
  assumes "fs_ok fs" and "get_inode fs path = Inr (Some d)" and "dir_ok fs d" and "is_virtual_path path = None"
  shows "minixfs_readdir fs path =
    (let es = (if path = ''/'' then [(''virtual'', 0)] else []) @ dir_entries fs (node fs d) in
     Inr (int (length es), es, set_node d ((node fs d)\<lparr>atim := now fs\<rparr>) fs))"
proof -
  let ?x = "(node fs d)\<lparr>atim := now fs\<rparr>"
  define fs1 where "fs1 = set_node d ?x fs"
  note l = dir_okD(1) [OF assms(3)]
  have "direct ?x = direct (node fs d)" "indirect ?x = indirect (node fs d)" "nlink ?x = nlink (node fs d)" by simp_all
  note sa = set_attributes [OF assms(1) l this, folded fs1_def]
  have ea: "entry_addr ?x = entry_addr (node fs d)" "entry_count ?x = entry_count (node fs d)" "is_directory ?x = is_directory (node fs d)"
    by (simp_all add: entry_addr_def fun_eq_iff entry_count_def is_directory_def)
  have dk: "disk fs1 = disk fs" by (simp add: fs1_def)
  have en: "entry_at fs1 p = entry_at fs p" "good_entry fs1 p = good_entry fs p" for p
    using entry_same [of fs1 p fs p] dk by simp_all
  have d1: "dir_ok fs1 d" using assms(3) sa(3) unfolding dir_ok_def Let_def sa(4) ea en by simp
  have "readdir_loop fs1 (node fs1 d) False 0 (fsize (node fs1 d)) None = Inr (dir_entries fs (node fs d))"
    using readdir_loop_dir [OF sa(1) d1, of 0 None] dir_okD(3) [OF d1] by (simp add: dir_entries_def sa(4) ea en)
  moreover have "\<not> is_file (node fs1 d)" using dir_okD(2) [OF d1] file_not_directory by blast
  ultimately show ?thesis using assms(2,4)
    by (simp add: minixfs_readdir_def Let_def fs1_def [symmetric])
qed

lemma small_root_path: "get_inode small_fs ''/'' = Inr (Some 0)" "is_virtual_path ''/'' = None"
  by (simp_all add: get_inode_def tokens.simps is_virtual_path_def)

theorem readdir_lists_directory_witness:
  "\<exists>fs'. minixfs_readdir small_fs ''/'' = Inr (3, [(''virtual'', 0), (''a'', 1), (''b'', 2)], fs')"
  using readdir_lists_directory [OF small_ok small_root_path(1) small_dir(1) small_root_path(2)]
  by (simp add: small_nodes small_dir(2))

section \<open>Creating and removing\<close>


lemma small_create_hyps:
  "get_inode small_fs ''/c'' = Inr None" "parent_part ''/c'' = ''/''" "name_part ''/c'' = ''c''"
  "valid_filename ''c''" "first_unused_inode small_fs = Inr (int 3)"
  "entry_count (node small_fs 0) < ENTRIES * length (assigned (direct (node small_fs 0)))"
  "Suc (entry_count (node small_fs 0) mod ENTRIES) < ENTRIES"
proof -
  have "find_inode_named small_fs 0 ''c'' = Inr None"
    using find_inode_named_dir [OF small_ok small_dir(1) small_names_short(3)] by (simp add: small_nodes small_dir(2))
  moreover have "is_directory (node small_fs 0)" by (rule dir_okD(2) [OF small_dir(1)])
  ultimately show "get_inode small_fs ''/c'' = Inr None" by (simp add: get_inode_def tokens.simps)
  have "[1..<INODES_NUMBER] = 1 # [Suc 1..<INODES_NUMBER]" "[Suc 1..<INODES_NUMBER] = Suc 1 # [Suc (Suc 1)..<INODES_NUMBER]"
    "[Suc (Suc 1)..<INODES_NUMBER] = Suc (Suc 1) # [Suc (Suc (Suc 1))..<INODES_NUMBER]"
    by (rule upt_conv_Cons, simp add: INODES_NUMBER_def)+
  moreover have "node small_fs (Suc (Suc 0)) = small_file" "node small_fs (Suc (Suc (Suc 0))) = zero_inode"
    using small_nodes(3,4) by (simp_all add: numeral_2_eq_2 numeral_3_eq_3)
  ultimately show "first_unused_inode small_fs = Inr (int 3)"
    by (simp add: first_unused_inode_def small_nodes) (simp add: small_fs_def small_file_def zero_inode_def)
  show "entry_count (node small_fs 0) < ENTRIES * length (assigned (direct (node small_fs 0)))"
    "Suc (entry_count (node small_fs 0) mod ENTRIES) < ENTRIES"
    by (simp_all add: small_nodes small_dir(3))
      (simp_all add: small_root_def assigned_def ENTRIES_def BLOCK_SIZE_def KILOBYTE_def FILE_NAME_ENTRY_def FILE_NAME_LENGTH_def)
qed (simp_all add: parent_part_def name_part_def valid_filename_def)




section \<open>The first file of a new image\<close>

text \<open>C36: No file can be created in the root directory of a new image: \<open>minixfs_mkfs\<close> gives the root no
  block, \<open>minixfs_create_inode_for_path\<close> does not allocate one, and \<open>get_offset_char\<close> forms the address of
  block -1.\<close>

theorem create_on_new_image_faults:
  assumes "minixfs_mkfs True t cs = Inr fs" and "valid_filename name"
  shows "minixfs_create_inode_for_path fs (SLASH # name) = Inl OutOfBounds"
proof -
  let ?x = "zero_inode\<lparr>mode := 493 OR push_bit RWX_BITS_NUMBER TYPE_DIRECTORY,
    nlink := 1, atim := t, mtim := t, ctim := t,
    direct := replicate NUM_DIRECT_BLOCKS UNASSIGNED_NODE, indirect := UNASSIGNED_NODE\<rparr>"
  have fs: "meta fs = \<lparr>sb_size = image_size, inode_count = INODES_NUMBER, dblock_count = DATA_NUMBER\<rparr>"
    "inode_root fs = ?x # replicate (INODES_NUMBER - 1) zero_inode"
    using assms(1) by (auto simp: minixfs_mkfs_def)
  have s: "SLASH \<notin> set name" "name \<noteq> []" using assms(2) by (simp_all add: valid_filename_def)
  have n: "node fs 0 = ?x" "node fs (Suc 0) = zero_inode" "Suc 0 < length (inode_root fs)"
    by (simp_all add: node_def fs INODES_NUMBER_def)
  obtain c cs where c: "name = c # cs" using s(2) by (cases name) auto
  have "tokens (SLASH # name) =
      takeWhile (\<lambda>c. c \<noteq> SLASH) (c # cs) # tokens (dropWhile (\<lambda>c. c \<noteq> SLASH) (c # cs))"
    using s(1) unfolding c by (subst tokens.simps) auto
  moreover have "takeWhile (\<lambda>c. c \<noteq> SLASH) (c # cs) = name" "dropWhile (\<lambda>c. c \<noteq> SLASH) (c # cs) = []"
    using s(1) unfolding c by (auto simp: takeWhile_eq_all_conv)
  moreover have "tokens [] = []" by (simp add: tokens.simps)
  ultimately have tok: "tokens (SLASH # name) = [name]" by simp
  have dir: "is_directory ?x" by (simp add: is_directory_def TYPE_DIRECTORY_def RWX_BITS_NUMBER_def)
  have "find_inode_named fs 0 name = Inr None"
    by (simp add: find_inode_named_def n find_loop.simps zero_inode_def)
  moreover have "tokens [SLASH] = []" by (simp add: tokens.simps)
  ultimately have g: "get_inode fs (SLASH # name) = Inr None" "get_inode fs [SLASH] = Inr (Some 0)"
    using dir by (simp_all add: get_inode_def tok n)
  have "x \<in> set (rev name) \<Longrightarrow> x \<noteq> SLASH" for x using s(1) by auto
  from dropWhile_append2 [of "rev name", OF this] takeWhile_append2 [of "rev name", OF this]
  have p: "parent_part (SLASH # name) = [SLASH]" "name_part (SLASH # name) = name"
    by (simp_all add: parent_part_def name_part_def)
  have "[1..<INODES_NUMBER] = Suc 0 # [Suc (Suc 0)..<INODES_NUMBER]"
    unfolding One_nat_def by (rule upt_conv_Cons) (simp add: INODES_NUMBER_def)
  then have "first_unused_inode fs = Inr 1" using n by (simp add: first_unused_inode_def zero_inode_def)
  moreover have "get_offset_char (set_node (Suc 0) y fs) 0 0 = Inl OutOfBounds" for y
    using n by (simp add: get_offset_char_def NUM_DIRECT_BLOCKS_def block_addr_def)
  ultimately show ?thesis using g p assms(2) n
    by (simp add: minixfs_create_inode_for_path_def Let_def inode_pointer_def zero_inode_def)
qed

theorem create_on_new_image_faults_witness:
  "\<exists>fs. minixfs_mkfs True (0, 0) [] = Inr fs \<and> minixfs_create_inode_for_path fs ''/a'' = Inl OutOfBounds"
proof -
  obtain fs where "minixfs_mkfs True (0, 0) [] = Inr fs" by (simp add: minixfs_mkfs_def)
  with create_on_new_image_faults [OF this, of "''a''"] show ?thesis by (auto simp: valid_filename_def)
qed

end
