(* ===== verification/FakePath.thy ===== *)
theory FakePath
  imports Minixfs
begin

text \<open>
  \<open>fakefs\_realpath\<close> of \<open>fakefs\_src/fakefs\_utils.c\<close>: which path of the program lies in the image, and
  its resolution there. The system's \<open>realpath\<close> and the match of the pattern with the name of the
  image are parameters. The resolution works in place, in a buffer of its own; it is compared with
  the resolution of a list of names.
\<close>

section \<open>The prefix on the real file system\<close>

text \<open>
  The inner loop goes back to a slash; \<open>None\<close> is its \<open>failure\<close>. An index that is decremented below
  zero wraps, and the next read is outside of the string.
\<close>

function back_to_slash :: "string \<Rightarrow> nat \<Rightarrow> nat option result" where
  "back_to_slash my last_idx =
     (if length my \<le> last_idx then Inl OutOfBounds
      else if my ! last_idx = SLASH then Inr (Some last_idx)
      else if last_idx = 0 then Inl OutOfBounds
      else if last_idx = 1 then Inr None
      else back_to_slash my (last_idx - 1))"
  by pat_completeness auto
termination
  by (relation "measure snd") auto

declare back_to_slash.simps [simp del]

lemma back_to_slash_le: "back_to_slash my k = Inr (Some i) \<Longrightarrow> i \<le> k \<and> i < length my"
  by (induction my k rule: back_to_slash.induct) (subst (asm) back_to_slash.simps, auto split: if_splits)

text \<open>
  The outer loop: a slash is restored, the next one to the left is replaced by NUL, until the
  system resolves what is in front of it. It gives the resolved path and the index of the slash.
\<close>

function resolvable_prefix :: "(string \<Rightarrow> string option) \<Rightarrow> string \<Rightarrow> nat \<Rightarrow> (string \<times> nat) option result" where
  "resolvable_prefix realpath my last_idx =
     (case realpath (cstr my) of
        Some resolved \<Rightarrow> Inr (Some (resolved, last_idx))
      | None \<Rightarrow>
          if length my \<le> last_idx then Inl OutOfBounds
          else
            let restore = (my ! last_idx = NUL) in
            if restore \<and> last_idx = 0 then Inl OutOfBounds
            else
              let my = (if restore then my[last_idx := SLASH] else my);
                  last_idx = (if restore then last_idx - 1 else last_idx) in
              case back_to_slash my last_idx of
                Inl e \<Rightarrow> Inl e
              | Inr None \<Rightarrow> Inr None
              | Inr (Some i) \<Rightarrow> resolvable_prefix realpath (my[i := NUL]) i)"
  by pat_completeness auto
termination
proof (relation "measure (\<lambda>(realpath, my, k). 2 * k + (if k < length my \<and> my ! k = NUL then 0 else 1))", goal_cases)
  case (2 realpath my k restore my' k' r i)
  then have "i \<le> k'" "i < length my'" using back_to_slash_le by auto
  with 2 show ?case by (cases "my ! k = NUL") auto
qed simp

declare resolvable_prefix.simps [simp del]

section \<open>The path in the image\<close>

definition char_at :: "string \<Rightarrow> nat \<Rightarrow> char" where
  "char_at s i = (if i < length s then s ! i else NUL)"

definition char_is_end :: "char \<Rightarrow> bool" where
  "char_is_end c \<longleftrightarrow> c = SLASH \<or> c = NUL"

text \<open>A name is dropped: characters become NUL down to a slash or the start of the buffer.\<close>

fun drop_name :: "string \<Rightarrow> nat \<Rightarrow> string \<times> nat" where
  "drop_name v 0 = (v, 0)"
| "drop_name v (Suc i) = (if v ! Suc i = SLASH then (v, Suc i) else drop_name (v[Suc i := NUL]) i)"

text \<open>Above the root of the image, the path of the image itself loses its last name.\<close>

definition parent_of_image :: "string \<Rightarrow> string" where
  "parent_of_image resolved =
     (if resolved = ''/'' then resolved
      else let i = length (parent_part resolved) - 1 in if i = 0 then resolved else take i resolved)"

text \<open>The case of \<open>..\<close>: the buffer, its index and the path of the image afterwards.\<close>

definition parent_step :: "string \<Rightarrow> nat \<Rightarrow> string \<Rightarrow> string \<times> nat \<times> string" where
  "parent_step v v_idx resolved =
     (let ((v, v_idx), resolved) =
        (if 2 \<le> v_idx then (drop_name v (v_idx - 2), resolved) else ((v, v_idx), parent_of_image resolved)) in
      (v, if char_at v v_idx = SLASH then v_idx + 1 else v_idx, resolved))"

function virtual_loop :: "string \<Rightarrow> nat \<Rightarrow> string \<Rightarrow> nat \<Rightarrow> bool \<Rightarrow> string \<Rightarrow> (string \<times> string) result" where
  "virtual_loop orig curr_idx v v_idx at_dir_boundry resolved =
     (if length orig \<le> curr_idx then Inr (v, resolved)
      else
        let c = orig ! curr_idx in
        if at_dir_boundry \<and> c = CHR ''.'' \<and> char_is_end (char_at orig (curr_idx + 1))
        then virtual_loop orig (curr_idx + 2) v v_idx True resolved
        else if at_dir_boundry \<and> c = CHR ''.'' \<and> char_at orig (curr_idx + 1) = CHR ''.'' \<and>
          char_is_end (char_at orig (curr_idx + 2))
        then let (v, v_idx, resolved) = parent_step v v_idx resolved in
          virtual_loop orig (curr_idx + 3) v v_idx True resolved
        else
          let v_idx = (if c = SLASH \<and> v_idx \<noteq> 0 \<and> char_at v (v_idx - 1) = SLASH then v_idx - 1 else v_idx) in
          if length v \<le> v_idx then Inl OutOfBounds
          else virtual_loop orig (curr_idx + 1) (v[v_idx := c]) (v_idx + 1) (c = SLASH) resolved)"
  by pat_completeness auto
termination
  by (relation "measure (\<lambda>(orig, curr, _). length orig - curr)") auto

declare virtual_loop.simps [simp del]

definition trim_virtual :: "string \<Rightarrow> string" where
  "trim_virtual v =
     (let v = (if cstr v = [] then ''/'' else cstr v) in
      if 1 < length v \<and> last v = SLASH then butlast v else v)"

text \<open>The path in the image for the rest of the path behind the name of the image.\<close>

definition virtual_path :: "string \<Rightarrow> string \<Rightarrow> (string \<times> string) result" where
  "virtual_path orig resolved =
     rbind (virtual_loop orig 0 (SLASH # replicate (length orig + 1) NUL) 1 True resolved) (\<lambda>(v, resolved).
     Inr (resolved, trim_virtual v))"

text \<open>The base path and the path in the image; neither for \<open>fakefs\_path\_NULL\<close>.\<close>

definition fakefs_realpath ::
  "(string \<Rightarrow> string option) \<Rightarrow> (string \<Rightarrow> bool) \<Rightarrow> string \<Rightarrow> string \<Rightarrow> (string option \<times> string option) result" where
  "fakefs_realpath realpath root_match root_filepath pathname =
     (case realpath pathname of
        Some resolved \<Rightarrow> Inr (Some resolved, if resolved = root_filepath then Some ''/'' else None)
      | None \<Rightarrow>
          if \<not> root_match pathname then Inr (None, None)
          else if pathname = [] then Inl OutOfBounds
          else rbind (resolvable_prefix realpath pathname (length pathname - 1)) (\<lambda>r.
            case r of
              None \<Rightarrow> Inr (None, None)
            | Some (resolved, i) \<Rightarrow>
                if resolved \<noteq> root_filepath then Inr (None, None)
                else rbind (virtual_path (drop (i + 1) pathname) resolved) (\<lambda>(base, v).
                  Inr (Some base, Some v))))"

end
