(* ===== verification/FakeResolve.thy ===== *)
theory FakeResolve
  imports FakePath
begin

text \<open>
  The path that \<open>fakefs\_realpath\<close> gives names the same as the resolution of the list of names,
  in which a dot is skipped and two dots take the last name away.
\<close>

section \<open>The resolution of names\<close>

fun resolve :: "string list \<Rightarrow> string list \<Rightarrow> string list" where
  "resolve st [] = st"
| "resolve st (c # cs) =
     (if c = ''.'' then resolve st cs else if c = ''..'' then resolve (butlast st) cs else resolve (st @ [c]) cs)"

fun image_path :: "string list \<Rightarrow> string list \<Rightarrow> string \<Rightarrow> string" where
  "image_path st [] r = r"
| "image_path st (c # cs) r =
     (if c = ''.'' then image_path st cs r
      else if c = ''..'' then image_path (butlast st) cs (if st = [] then parent_of_image r else r)
      else image_path (st @ [c]) cs r)"

definition plain_name :: "string \<Rightarrow> bool" where
  "plain_name c \<longleftrightarrow> c \<noteq> [] \<and> SLASH \<notin> set c \<and> NUL \<notin> set c"

definition names_text :: "string list \<Rightarrow> string" where
  "names_text st = SLASH # concat (map (\<lambda>c. c @ [SLASH]) st)"

lemma names_text_simps [simp]:
  "names_text [] = [SLASH]" "names_text (st @ [c]) = names_text st @ c @ [SLASH]" "names_text st \<noteq> []" "last (names_text st) = SLASH"
  by (auto simp: names_text_def) (induction st rule: rev_induct, auto)

lemma tokens_slash [simp]: "tokens (SLASH # s) = tokens s"
  by (subst (1 2) tokens.simps) simp

lemma tokens_Nil [simp]: "tokens [] = []"
  by (subst tokens.simps) simp

lemma takeWhile_slash: "SLASH \<notin> set c \<Longrightarrow> takeWhile (\<lambda>x. x \<noteq> SLASH) (c @ SLASH # s) = c \<and> dropWhile (\<lambda>x. x \<noteq> SLASH) (c @ SLASH # s) = SLASH # s"
  by (induction c) auto

lemma tokens_name:
  assumes "c \<noteq> []" "SLASH \<notin> set c"
  shows "tokens (c @ SLASH # s) = c # tokens s" "tokens c = [c]"
proof -
  obtain x xs where c: "c = x # xs" "x \<noteq> SLASH" "SLASH \<notin> set xs" using assms by (cases c) auto
  show "tokens (c @ SLASH # s) = c # tokens s"
    using takeWhile_slash [of xs s] c by (subst tokens.simps) simp
  have "takeWhile (\<lambda>x. x \<noteq> SLASH) xs = xs" "dropWhile (\<lambda>x. x \<noteq> SLASH) xs = []"
    using c(3) by (auto simp: takeWhile_eq_all_conv dropWhile_eq_Nil_conv)
  then show "tokens c = [c]" using c by (subst tokens.simps) (simp del: takeWhile_eq_all_conv dropWhile_eq_Nil_conv)
qed

lemma tokens_names_text: "\<forall>c \<in> set st. plain_name c \<Longrightarrow> tokens (names_text st @ s) = st @ tokens s"
proof (induction st)
  case (Cons c st)
  have "tokens (names_text (c # st) @ s) = tokens (c @ names_text st @ s)" by (simp add: names_text_def)
  also have "\<dots> = c # tokens (concat (map (\<lambda>c. c @ [SLASH]) st) @ s)"
    using Cons.prems by (simp add: names_text_def tokens_name plain_name_def)
  finally show ?case using Cons by (simp add: names_text_def)
qed (simp add: names_text_def)

lemma tokens_slashes: "set s \<subseteq> {SLASH} \<Longrightarrow> tokens s = []"
  by (induction s) auto

lemma tokens_name_slashes: "plain_name c \<Longrightarrow> set s \<subseteq> {SLASH} \<Longrightarrow> tokens (c @ s) = [c]"
  by (cases s) (auto simp: plain_name_def tokens_name tokens_slashes)

section \<open>Dropping a name\<close>

lemma drop_name_ok:
  "i < length v \<Longrightarrow> j \<le> i \<Longrightarrow> v ! j = SLASH \<Longrightarrow> (\<And>k. j < k \<Longrightarrow> k \<le> i \<Longrightarrow> v ! k \<noteq> SLASH) \<Longrightarrow>
    drop_name v i = (take (j + 1) v @ replicate (i - j) NUL @ drop (i + 1) v, j)"
proof (induction v i arbitrary: rule: drop_name.induct)
  case (1 v)
  then show ?case by (cases v) auto
next
  case (2 v i)
  show ?case
  proof (cases "j = Suc i")
    case True
    with 2 show ?thesis by simp
  next
    case False
    then have j: "j \<le> i" using 2 by simp
    then have s: "v ! Suc i \<noteq> SLASH" using 2 by simp
    have "drop_name (v[Suc i := NUL]) i =
        (take (j + 1) (v[Suc i := NUL]) @ replicate (i - j) NUL @ drop (i + 1) (v[Suc i := NUL]), j)"
      using 2 j s by (intro "2.IH") auto
    moreover have "drop (i + 1) (v[Suc i := NUL]) = NUL # drop (Suc i + 1) v"
      using 2(2) by (simp add: Cons_nth_drop_Suc [symmetric, of "Suc i" "v[Suc i := NUL]"])
    moreover have "replicate (i - j) NUL @ NUL # drop (Suc i + 1) v = replicate (Suc i - j) NUL @ drop (Suc i + 1) v"
      using j by (simp add: Suc_diff_le replicate_app_Cons_same)
    ultimately show ?thesis using s j by simp
  qed
qed

lemma parent_step_name:
  assumes "plain_name c"
  shows "parent_step (names_text st @ c @ SLASH # junk) (length (names_text st @ c @ [SLASH])) r =
    (names_text st @ replicate (length c) NUL @ SLASH # junk, length (names_text st), r)"
proof -
  let ?v = "names_text st @ c @ SLASH # junk" and ?j = "length (names_text st) - 1" and ?i = "length (names_text st) + length c - 1"
  have l: "names_text st ! (length (names_text st) - 1) = SLASH" by (metis last_conv_nth names_text_simps(3,4))
  have pos: "0 < length (names_text st)" by (metis length_greater_0_conv names_text_simps(3))
  have c: "c \<noteq> []" "SLASH \<notin> set c" using assms by (simp_all add: plain_name_def)
  have "drop_name ?v ?i = (take (?j + 1) ?v @ replicate (?i - ?j) NUL @ drop (?i + 1) ?v, ?j)"
  proof (rule drop_name_ok)
    show "?i < length ?v" "?j \<le> ?i" using c pos by auto
    show "?v ! ?j = SLASH" using pos l by (simp add: nth_append)
    show "?v ! k \<noteq> SLASH" if "?j < k" "k \<le> ?i" for k
    proof -
      have "?v ! k = c ! (k - length (names_text st))" "k - length (names_text st) < length c"
        using that pos c by (auto simp: nth_append)
      then show ?thesis using c(2) by (metis nth_mem)
    qed
  qed
  then have d: "drop_name ?v ?i = (names_text st @ replicate (length c) NUL @ SLASH # junk, ?j)"
    using pos c by simp
  obtain n where n: "length (names_text st) = Suc n" using pos gr0_implies_Suc by blast
  have two: "2 \<le> length (names_text st @ c @ [SLASH])" "length (names_text st @ c @ [SLASH]) - 2 = ?i" by (simp_all add: n)
  have "char_at (names_text st @ replicate (length c) NUL @ SLASH # junk) ?j = SLASH"
    using pos l by (simp add: char_at_def nth_append)
  then show ?thesis using d two by (simp add: parent_step_def n)
qed

lemma parent_step_root:
  assumes "junk = [] \<or> hd junk \<noteq> SLASH"
  shows "parent_step (SLASH # junk) 1 r = (SLASH # junk, 1, parent_of_image r)"
  using assms by (cases junk) (auto simp: parent_step_def char_at_def)

section \<open>The loop\<close>

text \<open>A dot or two dots at the start of a name, and what follows them.\<close>

lemma tokens_dot:
  assumes "char_is_end (char_at s (k + 1))" "NUL \<notin> set s" "k < length s" "s ! k = CHR ''.''"
  shows "tokens (drop k s) = ''.'' # tokens (drop (k + 2) s)"
proof -
  have d: "drop k s = CHR ''.'' # drop (k + 1) s" using assms(3,4) by (simp add: Cons_nth_drop_Suc [symmetric])
  show ?thesis
  proof (cases "k + 1 < length s")
    case True
    then have "s ! (k + 1) = SLASH" using assms(1,2) by (auto simp: char_at_def char_is_end_def dest!: nth_mem)
    then have "drop (k + 1) s = SLASH # drop (k + 2) s" using True by (simp add: Cons_nth_drop_Suc [symmetric])
    then show ?thesis using d tokens_name(1) [of "''.''"] by simp
  next
    case False
    then show ?thesis using d tokens_name(2) [of "''.''"] by simp
  qed
qed

lemma tokens_dots:
  assumes "char_at s (k + 1) = CHR ''.''" "char_is_end (char_at s (k + 2))" "NUL \<notin> set s" "k < length s" "s ! k = CHR ''.''"
  shows "tokens (drop k s) = ''..'' # tokens (drop (k + 3) s)"
proof -
  have "k + 1 < length s" "s ! (k + 1) = CHR ''.''" using assms(1) by (auto simp: char_at_def split: if_splits)
  then have d: "drop k s = CHR ''.'' # CHR ''.'' # drop (k + 2) s" using assms(4,5)
    by (simp add: Cons_nth_drop_Suc [symmetric])
  show ?thesis
  proof (cases "k + 2 < length s")
    case True
    then have "s ! (k + 2) = SLASH" using assms(2,3) by (auto simp: char_at_def char_is_end_def dest!: nth_mem)
    then have "drop (k + 2) s = SLASH # drop (k + 3) s" using True by (simp add: Cons_nth_drop_Suc [symmetric] numeral_3_eq_3)
    then show ?thesis using d tokens_name(1) [of "''..''"] by simp
  next
    case False
    then show ?thesis using d tokens_name(2) [of "''..''"] by simp
  qed
qed

text \<open>Any other name is neither of the two.\<close>

lemma token_not_dots:
  assumes "k < length s" "s ! k \<noteq> SLASH" "NUL \<notin> set s"
    and "\<not> (s ! k = CHR ''.'' \<and> char_is_end (char_at s (k + 1)))"
    and "\<not> (s ! k = CHR ''.'' \<and> char_at s (k + 1) = CHR ''.'' \<and> char_is_end (char_at s (k + 2)))"
  shows "takeWhile (\<lambda>x. x \<noteq> SLASH) (drop k s) \<notin> {''.'', ''..''}"
proof -
  have at: "char_at s i = (case drop i s of [] \<Rightarrow> NUL | c # _ \<Rightarrow> c)" for i
    by (auto simp: char_at_def Cons_nth_drop_Suc [symmetric] split: list.splits)
  have "drop (k + 1) s = drop 1 (drop k s)" "drop (k + 2) s = drop 2 (drop k s)" by (simp_all add: add.commute)
  moreover obtain c r where "drop k s = c # r" "c = s ! k" using assms(1) by (simp add: Cons_nth_drop_Suc [symmetric])
  ultimately have r: "char_at s (k + 1) = (case r of [] \<Rightarrow> NUL | c # _ \<Rightarrow> c)"
    "char_at s (k + 2) = (case r of [] \<Rightarrow> NUL | c # q \<Rightarrow> (case q of [] \<Rightarrow> NUL | c # _ \<Rightarrow> c))"
    unfolding at by (auto simp: numeral_2_eq_2 split: list.splits)
  have "takeWhile (\<lambda>x. x \<noteq> SLASH) (c # r) \<noteq> ''.''"
    using assms(4) r(1) \<open>c = s ! k\<close> by (cases r) (auto simp: char_is_end_def split: if_splits)
  moreover have "takeWhile (\<lambda>x. x \<noteq> SLASH) (c # r) \<noteq> ''..''"
  proof (cases r)
    case (Cons e q)
    then show ?thesis using assms(5) r \<open>c = s ! k\<close> by (cases q) (auto simp: char_is_end_def split: if_splits)
  qed (simp split: if_splits)
  ultimately show ?thesis using \<open>drop k s = c # r\<close> by simp
qed

text \<open>
  The buffer holds the names so far, each with its slash, the characters of the next one, and rests
  of names that have been dropped: only slashes are left of those.
\<close>

definition buffer_ok :: "string \<Rightarrow> nat \<Rightarrow> string \<Rightarrow> nat \<Rightarrow> bool \<Rightarrow> string list \<Rightarrow> string \<Rightarrow> bool" where
  "buffer_ok orig k v idx b st part \<longleftrightarrow>
     (\<exists>junk. v = names_text st @ part @ junk \<and> set junk \<subseteq> {NUL, SLASH} \<and> (st = [] \<and> part = [] \<longrightarrow> junk = [] \<or> hd junk \<noteq> SLASH)) \<and>
     idx = length (names_text st @ part) \<and> (b \<longleftrightarrow> part = []) \<and> (\<forall>c \<in> set st. plain_name c) \<and>
     SLASH \<notin> set part \<and> NUL \<notin> set part \<and> idx \<le> k + 1 \<and> length v = length orig + 2 \<and>
     (part \<noteq> [] \<longrightarrow> part @ takeWhile (\<lambda>x. x \<noteq> SLASH) (drop k orig) \<notin> {''.'', ''..''})"

lemma names_text_no_NUL: "\<forall>c \<in> set st. plain_name c \<Longrightarrow> NUL \<notin> set (names_text st)"
  by (auto simp: names_text_def plain_name_def)

lemma cstr_append: "NUL \<notin> set s \<Longrightarrow> cstr (s @ t) = s @ cstr t"
  by (induction s) (auto simp: cstr_def)

lemma buffer_end:
  assumes "buffer_ok orig k v idx b st part" and "length orig \<le> k"
  shows "tokens (cstr v) = resolve st (tokens part)" "image_path st (tokens part) r = r" "cstr v \<noteq> []"
proof -
  obtain junk where v: "v = names_text st @ part @ junk" "set junk \<subseteq> {NUL, SLASH}"
    and st: "\<forall>c \<in> set st. plain_name c" and p: "SLASH \<notin> set part" "NUL \<notin> set part"
    and dots: "part \<noteq> [] \<longrightarrow> part \<notin> {''.'', ''..''}"
    using assms by (auto simp: buffer_ok_def)
  have j: "set (cstr junk) \<subseteq> {SLASH}" using v(2) by (auto simp: cstr_def dest: set_takeWhileD)
  have c: "cstr v = names_text st @ part @ cstr junk"
    using names_text_no_NUL [OF st] p(2) by (simp add: v(1) cstr_append)
  show "cstr v \<noteq> []" by (simp add: c)
  show "tokens (cstr v) = resolve st (tokens part)"
  proof (cases "part = []")
    case True
    then show ?thesis using c tokens_names_text [OF st] tokens_slashes [OF j] by simp
  next
    case False
    then have "plain_name part" using p by (simp add: plain_name_def)
    then show ?thesis using c tokens_names_text [OF st] tokens_name_slashes [OF _ j] tokens_name(2) [OF False p(1)] dots False by simp
  qed
  show "image_path st (tokens part) r = r"
    using dots tokens_name(2) [of part] p(1) by (cases "part = []") simp_all
qed

text \<open>The steps of the loop: a dot, two dots, a slash, another character.\<close>

lemma buffer_dots:
  assumes "buffer_ok orig k v idx True st part"
  shows "\<exists>v' idx'. parent_step v idx r = (v', idx', if st = [] then parent_of_image r else r) \<and>
    buffer_ok orig (k + 3) v' idx' True (butlast st) []"
proof -
  have p: "part = []" using assms by (simp add: buffer_ok_def)
  from assms obtain junk where "v = names_text st @ part @ junk" "set junk \<subseteq> {NUL, SLASH}"
    "st = [] \<and> part = [] \<longrightarrow> junk = [] \<or> hd junk \<noteq> SLASH" unfolding buffer_ok_def by blast
  then have v: "v = names_text st @ junk" "set junk \<subseteq> {NUL, SLASH}" "st = [] \<longrightarrow> junk = [] \<or> hd junk \<noteq> SLASH"
    by (simp_all add: p)
  have i: "idx = length (names_text st)" "idx \<le> k + 1" "length v = length orig + 2" and st: "\<forall>c \<in> set st. plain_name c"
    using assms by (simp_all add: buffer_ok_def p)
  show ?thesis
  proof (cases st rule: rev_cases)
    case Nil
    then show ?thesis using v i parent_step_root [of junk r] by (auto simp: buffer_ok_def)
  next
    case (snoc st' c)
    then have c: "plain_name c" using st by simp
    have "parent_step v idx r = (names_text st' @ replicate (length c) NUL @ SLASH # junk, length (names_text st'), r)"
      using parent_step_name [OF c, of st' junk r] by (simp add: v(1) i(1) snoc)
    moreover have "buffer_ok orig (k + 3) (names_text st' @ replicate (length c) NUL @ SLASH # junk) (length (names_text st')) True st' []"
      using v i st snoc c by (cases c) (auto simp: buffer_ok_def plain_name_def)
    ultimately show ?thesis by (simp add: snoc)
  qed
qed

lemma buffer_char:
  assumes B: "buffer_ok orig k v idx b st part" and lt_orig: "k < length orig" and N: "NUL \<notin> set orig"
    and special: "\<not> (b \<and> orig ! k = CHR ''.'' \<and> char_is_end (char_at orig (k + 1)))"
      "\<not> (b \<and> orig ! k = CHR ''.'' \<and> char_at orig (k + 1) = CHR ''.'' \<and> char_is_end (char_at orig (k + 2)))"
  shows "let c = orig ! k;
      i = (if c = SLASH \<and> idx \<noteq> 0 \<and> char_at v (idx - 1) = SLASH then idx - 1 else idx);
      (st', part') = (if c \<noteq> SLASH then (st, part @ [c]) else if part = [] then (st, []) else (st @ [part], [])) in
    i < length v \<and> buffer_ok orig (k + 1) (v[i := c]) (i + 1) (c = SLASH) st' part' \<and>
    resolve st (tokens (part @ drop k orig)) = resolve st' (tokens (part' @ drop (k + 1) orig)) \<and>
    image_path st (tokens (part @ drop k orig)) r = image_path st' (tokens (part' @ drop (k + 1) orig)) r"
proof -
  obtain junk where v: "v = names_text st @ part @ junk" "set junk \<subseteq> {NUL, SLASH}" "st = [] \<and> part = [] \<longrightarrow> junk = [] \<or> hd junk \<noteq> SLASH"
    and i: "idx = length (names_text st @ part)" "b \<longleftrightarrow> part = []" "idx \<le> k + 1" "length v = length orig + 2"
    and st: "\<forall>c \<in> set st. plain_name c" and p: "SLASH \<notin> set part" "NUL \<notin> set part"
    and dots: "part \<noteq> [] \<longrightarrow> part @ takeWhile (\<lambda>x. x \<noteq> SLASH) (drop k orig) \<notin> {''.'', ''..''}"
    using B unfolding buffer_ok_def by (elim conjE exE) (rule that; assumption)
  define c where "c = orig ! k"
  have d: "drop k orig = c # drop (k + 1) orig" using lt_orig by (simp add: c_def Cons_nth_drop_Suc [symmetric])
  obtain n where n: "length (names_text st) = Suc n" by (metis length_0_conv names_text_simps(3) not0_implies_Suc)
  have last: "names_text st ! n = SLASH" by (metis diff_Suc_1 last_conv_nth n names_text_simps(3,4))
  have lt: "idx < length v" using i(3,4) lt_orig by simp
  have jne: "junk \<noteq> []" using lt i(1) v(1) by auto
  then obtain j js where junk: "junk = j # js" by (cases junk) auto
  have len: "length (names_text st) + length part + length js = Suc (length orig)" using i(4) v(1) junk by simp
  have cN: "c \<noteq> NUL" using N lt_orig nth_mem by (fastforce simp: c_def)
  consider (slash) "c = SLASH" "part = []" | (ends) "c = SLASH" "part \<noteq> []" | (char) "c \<noteq> SLASH" by blast
  then show ?thesis
  proof cases
    case slash
    have at: "char_at v (idx - 1) = SLASH" using v(1) i(1) slash(2) n last by (simp add: char_at_def nth_append)
    have same: "v[idx - 1 := SLASH] = v" using at lt by (metis char_at_def less_imp_diff_less list_update_id)
    have "buffer_ok orig (k + 1) v idx True st []" using B slash(2) i(2) by (simp add: buffer_ok_def)
    then show ?thesis using at same slash lt n i(1) d by (simp add: c_def [symmetric] Let_def)
  next
    case ends
    have "char_at v (idx - 1) = last part" using v(1) i(1) ends(2) n by (simp add: char_at_def nth_append last_conv_nth)
    then have at: "char_at v (idx - 1) \<noteq> SLASH" using p(1) ends(2) by (metis last_in_set)
    have pl: "plain_name part" using ends(2) p by (simp add: plain_name_def)
    have vv: "v[idx := SLASH] = names_text (st @ [part]) @ js" by (simp add: v(1) i(1) junk list_update_append)
    have "buffer_ok orig (k + 1) (v[idx := SLASH]) (idx + 1) True (st @ [part]) []"
      unfolding buffer_ok_def vv using v(2) i(1,3) st pl junk len by auto
    moreover have "part \<notin> {''.'', ''..''}" using dots ends d by simp
    ultimately show ?thesis
      using at lt ends d tokens_name(1) [OF ends(2) p(1)] by (simp add: c_def [symmetric] Let_def)
  next
    case char
    have vv: "v[idx := c] = names_text st @ (part @ [c]) @ js" by (simp add: v(1) i(1) junk list_update_append)
    have td: "takeWhile (\<lambda>x. x \<noteq> SLASH) (drop k orig) = c # takeWhile (\<lambda>x. x \<noteq> SLASH) (drop (k + 1) orig)"
      using d char by simp
    have "(part @ [c]) @ takeWhile (\<lambda>x. x \<noteq> SLASH) (drop (k + 1) orig) \<notin> {''.'', ''..''}"
    proof (cases "part = []")
      case True
      then show ?thesis
        using token_not_dots [OF lt_orig _ N] special i(2) char td by (simp add: c_def [symmetric])
    next
      case False
      then show ?thesis using dots td by simp
    qed
    then have "buffer_ok orig (k + 1) (v[idx := c]) (idx + 1) False st (part @ [c])"
      unfolding buffer_ok_def
    proof (intro conjI)
      show "\<exists>junk. v[idx := c] = names_text st @ (part @ [c]) @ junk \<and> set junk \<subseteq> {NUL, SLASH} \<and>
          (st = [] \<and> part @ [c] = [] \<longrightarrow> junk = [] \<or> hd junk \<noteq> SLASH)"
        using v(2) junk by (intro exI [of _ js]) (simp add: vv)
    qed (use i st p char cN in simp_all)
    then show ?thesis using lt char d by (simp add: c_def [symmetric] Let_def)
  qed
qed

lemma virtual_loop_ok:
  assumes N: "NUL \<notin> set orig"
  shows "buffer_ok orig k v idx b st part \<Longrightarrow>
    \<exists>v'. virtual_loop orig k v idx b r = Inr (v', image_path st (tokens (part @ drop k orig)) r) \<and>
      cstr v' \<noteq> [] \<and> tokens (cstr v') = resolve st (tokens (part @ drop k orig))"
proof (induction "length orig - k" arbitrary: k v idx b st part r rule: less_induct)
  case less
  note B = less.prems
  show ?case
  proof (cases "length orig \<le> k")
    case True
    then show ?thesis using buffer_end [OF B True] by (subst virtual_loop.simps) simp
  next
    case False
    then have k: "k < length orig" by simp
    have bp: "b \<longleftrightarrow> part = []" using B by (simp add: buffer_ok_def)
    define dot where "dot \<longleftrightarrow> b \<and> orig ! k = CHR ''.'' \<and> char_is_end (char_at orig (k + 1))"
    define dots where "dots \<longleftrightarrow> b \<and> orig ! k = CHR ''.'' \<and> char_at orig (k + 1) = CHR ''.'' \<and> char_is_end (char_at orig (k + 2))"
    consider (dot) dot | (dots) "\<not> dot" dots | (char) "\<not> dot" "\<not> dots" by blast
    then show ?thesis
    proof cases
      case dot
      have "buffer_ok orig (k + 2) v idx True st []" using B dot bp by (simp add: buffer_ok_def dot_def)
      with less.hyps [of "k + 2"] k obtain v' where
        "virtual_loop orig (k + 2) v idx True r = Inr (v', image_path st (tokens (drop (k + 2) orig)) r)"
        "cstr v' \<noteq> []" "tokens (cstr v') = resolve st (tokens (drop (k + 2) orig))" by fastforce
      with dot bp k tokens_dot [OF _ N k] show ?thesis
        by (subst virtual_loop.simps) (simp add: dot_def Let_def)
    next
      case dots
      then have "buffer_ok orig k v idx True st part" using B by (simp add: dots_def)
      from buffer_dots [OF this, of r] obtain v1 idx1 where
        1: "parent_step v idx r = (v1, idx1, if st = [] then parent_of_image r else r)"
        "buffer_ok orig (k + 3) v1 idx1 True (butlast st) []" by blast
      with less.hyps [of "k + 3"] k obtain v' where
        "virtual_loop orig (k + 3) v1 idx1 True (if st = [] then parent_of_image r else r) =
          Inr (v', image_path (butlast st) (tokens (drop (k + 3) orig)) (if st = [] then parent_of_image r else r))"
        "cstr v' \<noteq> []" "tokens (cstr v') = resolve (butlast st) (tokens (drop (k + 3) orig))" by fastforce
      with dots bp k 1(1) tokens_dots [OF _ _ N k] show ?thesis
        by (subst virtual_loop.simps) (simp add: dot_def dots_def Let_def)
    next
      case char
      define c where "c = orig ! k"
      define i where "i = (if c = SLASH \<and> idx \<noteq> 0 \<and> char_at v (idx - 1) = SLASH then idx - 1 else idx)"
      obtain st' part' where sp: "(st', part') = (if c \<noteq> SLASH then (st, part @ [c]) else if part = [] then (st, []) else (st @ [part], []))"
        by (metis surj_pair)
      have s: "\<not> (b \<and> orig ! k = CHR ''.'' \<and> char_is_end (char_at orig (k + 1)))"
        "\<not> (b \<and> orig ! k = CHR ''.'' \<and> char_at orig (k + 1) = CHR ''.'' \<and> char_is_end (char_at orig (k + 2)))"
        using char by (simp_all add: dot_def dots_def)
      note C = buffer_char [OF B k N s, of r, unfolded Let_def, folded c_def, folded i_def, folded sp, unfolded prod.case]
      then have C: "i < length v" "buffer_ok orig (k + 1) (v[i := c]) (i + 1) (c = SLASH) st' part'"
        "resolve st (tokens (part @ drop k orig)) = resolve st' (tokens (part' @ drop (k + 1) orig))"
        "image_path st (tokens (part @ drop k orig)) r = image_path st' (tokens (part' @ drop (k + 1) orig)) r"
        by blast+
      have "virtual_loop orig k v idx b r = virtual_loop orig (k + 1) (v[i := c]) (i + 1) (c = SLASH) r"
      proof -
        have n: "\<not> (b \<and> c = CHR ''.'' \<and> char_is_end (char_at orig (k + 1)))" "\<not> length orig \<le> k" "\<not> length v \<le> i"
          "\<not> (b \<and> c = CHR ''.'' \<and> char_at orig (k + 1) = CHR ''.'' \<and> char_is_end (char_at orig (k + 2)))"
          using k C(1) char by (simp_all add: dot_def dots_def c_def)
        show ?thesis
          by (subst virtual_loop.simps) (simp only: Let_def c_def [symmetric] i_def [symmetric] n if_False)
      qed
      moreover obtain v' where
        "virtual_loop orig (k + 1) (v[i := c]) (i + 1) (c = SLASH) r = Inr (v', image_path st' (tokens (part' @ drop (k + 1) orig)) r)"
        "cstr v' \<noteq> []" "tokens (cstr v') = resolve st' (tokens (part' @ drop (k + 1) orig))"
        using less.hyps [OF _ C(2)] k by fastforce
      ultimately show ?thesis using C(3,4) by simp
    qed
  qed
qed

lemma tokens_last_slash: "tokens (s @ [SLASH]) = tokens s"
proof (induction s rule: length_induct)
  case (1 s)
  define w where "w = takeWhile (\<lambda>c. c \<noteq> SLASH) s"
  have w: "SLASH \<notin> set w" by (auto simp: w_def dest: set_takeWhileD)
  show ?case
  proof (cases "dropWhile (\<lambda>c. c \<noteq> SLASH) s")
    case Nil
    then have "s = w" by (metis append_Nil2 takeWhile_dropWhile_id w_def)
    then show ?thesis using w tokens_name(1) [of w "[]"] tokens_name(2) [of w] by (cases "w = []") simp_all
  next
    case (Cons d t)
    then have "d = SLASH" using hd_dropWhile [of "\<lambda>c. c \<noteq> SLASH" s] by simp
    then have s: "s = w @ SLASH # t" using Cons by (metis takeWhile_dropWhile_id w_def)
    then have "tokens (t @ [SLASH]) = tokens t" using 1 by simp
    then show ?thesis using w tokens_name(1) [of w] by (cases "w = []") (simp_all add: s)
  qed
qed

section \<open>The property\<close>

lemma trim_tokens: "tokens (trim_virtual v) = tokens (cstr v)"
proof (cases "1 < length (cstr v) \<and> last (cstr v) = SLASH")
  case True
  then have "cstr v = butlast (cstr v) @ [SLASH]" by (metis append_butlast_last_id length_0_conv not_less_zero)
  then have "tokens (butlast (cstr v)) = tokens (cstr v)" by (metis tokens_last_slash)
  with True show ?thesis by (auto simp: trim_virtual_def)
qed (auto simp: trim_virtual_def)

text \<open>C12: The path that \<open>fakefs\_realpath\<close> forms in place, for a program's path behind the name of the
  image, is walked to the same names as the resolution of that path as a list of names: dots are
  skipped, two dots take the last name away, slashes that repeat count once. The buffer is never left.
  At the root two dots stay in the image and shorten the base path instead.\<close>

theorem virtual_path_resolves:
  assumes "NUL \<notin> set orig"
  shows "\<exists>v. virtual_path orig base = Inr (image_path [] (tokens orig) base, v) \<and> tokens v = resolve [] (tokens orig)"
proof -
  have "buffer_ok orig 0 (SLASH # replicate (length orig + 1) NUL) 1 True [] []"
    by (auto simp: buffer_ok_def)
  from virtual_loop_ok [OF assms this, of base] show ?thesis
    by (auto simp: virtual_path_def trim_tokens)
qed

theorem virtual_path_resolves_witness:
  "\<exists>v. virtual_path ''a/./b/../c/'' ''/disk'' = Inr (image_path [] (tokens ''a/./b/../c/'') ''/disk'', v) \<and>
    tokens v = resolve [] (tokens ''a/./b/../c/'')"
  by (rule virtual_path_resolves) simp

text \<open>The rest of a dropped name shows: the path keeps a slash at its end.\<close>

lemma virtual_path_leftover: "virtual_path ''aa/bb/../b/'' ''/disk'' = Inr (''/disk'', ''/aa/b/'')"
  by code_simp

text \<open>Two dots at the root of the image do not leave it, although the path names a file next to the image.\<close>

lemma virtual_path_above_root: "virtual_path ''../x'' ''/home/disk'' = Inr (''/home'', ''/x'')"
  by code_simp

end
