(* ===== verification/FakeFs.thy ===== *)
theory FakeFs
  imports FakePath MinixfsOps
begin

text \<open>
  The hooks of \<open>fakefs\_src\<close> (\<open>core.c\<close>, \<open>dup.c\<close>, \<open>stat.c\<close>, \<open>dir.c\<close>, \<open>init.c\<close>, \<open>unimplemented.c\<close>) between
  a program and the image, and the program \<open>cp.c\<close>. The functions of the C library that the hooks
  replace are the parameter \<open>L\<close>; they work on the state of the real system. The descriptors of the
  image are a map to objects of type \<open>fakefile\<close>, which live on a heap: closing frees them.
\<close>

section \<open>State\<close>

record 'r libc =
  realpath :: "'r \<Rightarrow> string \<Rightarrow> string option"
  regexec :: "string \<Rightarrow> bool"
  orig_access :: "string \<Rightarrow> addr32 \<Rightarrow> 'r \<Rightarrow> int \<times> 'r"
  orig_creat :: "string \<Rightarrow> addr32 \<Rightarrow> 'r \<Rightarrow> int \<times> 'r"
  orig_open :: "string \<Rightarrow> addr32 \<Rightarrow> addr32 \<Rightarrow> 'r \<Rightarrow> int \<times> 'r"
  orig_read :: "int \<Rightarrow> nat \<Rightarrow> 'r \<Rightarrow> (int \<times> string) \<times> 'r"
  orig_write :: "int \<Rightarrow> string \<Rightarrow> 'r \<Rightarrow> int \<times> 'r"
  orig_close :: "int \<Rightarrow> 'r \<Rightarrow> int \<times> 'r"
  orig_lseek :: "int \<Rightarrow> int \<Rightarrow> int \<Rightarrow> 'r \<Rightarrow> int \<times> 'r"
  orig_unlink :: "string \<Rightarrow> 'r \<Rightarrow> int \<times> 'r"
  orig_mkdir :: "string \<Rightarrow> addr32 \<Rightarrow> 'r \<Rightarrow> int \<times> 'r"
  orig_fchmod :: "int \<Rightarrow> addr32 \<Rightarrow> 'r \<Rightarrow> int \<times> 'r"
  orig_fchmodat :: "int \<Rightarrow> string \<Rightarrow> addr32 \<Rightarrow> int \<Rightarrow> 'r \<Rightarrow> int \<times> 'r"
  orig_fchown :: "int \<Rightarrow> addr32 \<Rightarrow> addr32 \<Rightarrow> 'r \<Rightarrow> int \<times> 'r"
  orig_fchownat :: "int \<Rightarrow> string \<Rightarrow> addr32 \<Rightarrow> addr32 \<Rightarrow> int \<Rightarrow> 'r \<Rightarrow> int \<times> 'r"
  orig_dup :: "int \<Rightarrow> 'r \<Rightarrow> int \<times> 'r"
  orig_dup2 :: "int \<Rightarrow> int \<Rightarrow> 'r \<Rightarrow> int \<times> 'r"
  orig_fstat :: "int \<Rightarrow> 'r \<Rightarrow> (int \<times> fs_stat option) \<times> 'r"
  orig_fstat64 :: "int \<Rightarrow> 'r \<Rightarrow> (int \<times> fs_stat option) \<times> 'r"
  orig_lstat64 :: "string \<Rightarrow> 'r \<Rightarrow> (int \<times> fs_stat option) \<times> 'r"
  orig_fstatat :: "int \<Rightarrow> string \<Rightarrow> int \<Rightarrow> 'r \<Rightarrow> (int \<times> fs_stat option) \<times> 'r"
  orig_fstatat64 :: "int \<Rightarrow> string \<Rightarrow> int \<Rightarrow> 'r \<Rightarrow> (int \<times> fs_stat option) \<times> 'r"
  orig_fsync :: "int \<Rightarrow> 'r \<Rightarrow> int \<times> 'r"
  orig_fdatasync :: "int \<Rightarrow> 'r \<Rightarrow> int \<times> 'r"
  orig_mmap :: "nat \<Rightarrow> nat \<Rightarrow> addr32 \<Rightarrow> addr32 \<Rightarrow> int \<Rightarrow> int \<Rightarrow> 'r \<Rightarrow> nat \<times> 'r"
  orig_opendir :: "string \<Rightarrow> 'r \<Rightarrow> int option \<times> 'r"
  orig_fdopendir :: "int \<Rightarrow> 'r \<Rightarrow> int option \<times> 'r"
  orig_readdir :: "int \<Rightarrow> 'r \<Rightarrow> dirent option \<times> 'r"
  orig_readdir64 :: "int \<Rightarrow> 'r \<Rightarrow> dirent option \<times> 'r"
  orig_closedir :: "int \<Rightarrow> 'r \<Rightarrow> int \<times> 'r"

record fakefile =
  ff_fd :: int
  ff_flags :: addr32
  ff_path :: string
  ff_refcount :: "64 word"
  ff_offset :: int

record fakedir =
  fdir_fd :: int
  entries_read :: nat
  max_entries :: int
  fdir_entry :: "dirent list"

text \<open>The globals of \<open>fakefs\_utils.c\<close>, the heap of files, and the real system.\<close>

record 'r fake =
  the_fs :: filesys
  file_heap :: "fakefile option list"
  fd_map :: "int \<Rightarrow> nat option"
  dir_fd_map :: "int \<Rightarrow> fakedir option"
  disable_hooks :: bool
  root_filepath :: string
  real_system :: 'r

type_synonym ('r, 'a) hook = "'r fake \<Rightarrow> ('a \<times> 'r fake) result"

definition call :: "('r \<Rightarrow> 'a \<times> 'r) \<Rightarrow> ('r, 'a) hook" where
  "call f s = (let (x, r) = f (real_system s) in Inr (x, s\<lparr>real_system := r\<rparr>))"

text \<open>The hooks by path: one branch for a path in the image, one for the others.\<close>

definition by_path :: "'r libc \<Rightarrow> string \<Rightarrow> (string \<Rightarrow> ('r, 'a) hook) \<Rightarrow> ('r, 'a) hook \<Rightarrow> ('r, 'a) hook" where
  "by_path L pathname virtual other s =
     rbind (fakefs_realpath (realpath L (real_system s)) (regexec L) (root_filepath s) pathname) (\<lambda>paths.
     case paths of (Some base, Some v) \<Rightarrow> virtual v s | _ \<Rightarrow> other s)"

text \<open>The hooks by descriptor: \<open>file\<close> is looked up, and read through its pointer.\<close>

definition file_of :: "nat \<Rightarrow> 'r fake \<Rightarrow> fakefile result" where
  "file_of a s =
     (if length (file_heap s) \<le> a then Inl OutOfBounds
      else case file_heap s ! a of None \<Rightarrow> Inl UseAfterFree | Some f \<Rightarrow> Inr f)"

definition set_file :: "nat \<Rightarrow> fakefile option \<Rightarrow> 'r fake \<Rightarrow> 'r fake" where
  "set_file a f s = s\<lparr>file_heap := (file_heap s)[a := f]\<rparr>"

definition by_fd :: "int \<Rightarrow> (nat \<Rightarrow> fakefile \<Rightarrow> ('r, 'a) hook) \<Rightarrow> ('r, 'a) hook \<Rightarrow> ('r, 'a) hook" where
  "by_fd fd virtual other s =
     (if disable_hooks s then other s
      else case fd_map s fd of None \<Rightarrow> other s | Some a \<Rightarrow> rbind (file_of a s) (\<lambda>file. virtual a file s))"

section \<open>\<open>core.c\<close>\<close>

definition O_RDONLY :: addr32 where "O_RDONLY = 0"
definition O_WRONLY :: addr32 where "O_WRONLY = 1"
definition O_DIRECTORY :: addr32 where "O_DIRECTORY = 65536"

definition hook_access :: "'r libc \<Rightarrow> string \<Rightarrow> addr32 \<Rightarrow> ('r, int) hook" where
  "hook_access L pathname md s =
     (if disable_hooks s then call (orig_access L pathname md) s
      else by_path L pathname (\<lambda>v s. rbind (minixfs_access (the_fs s) v md) (\<lambda>r. Inr (r, s)))
        (call (orig_access L pathname md)) s)"

definition hook_open :: "'r libc \<Rightarrow> string \<Rightarrow> addr32 \<Rightarrow> addr32 \<Rightarrow> ('r, int) hook" where
  "hook_open L pathname flags md s =
     (let m = (if TEST flags O_CREAT then md else 0) in
      if disable_hooks s then call (orig_open L pathname flags m) s
      else by_path L pathname
        (\<lambda>v s. rbind (minixfs_open (the_fs s) v flags) (\<lambda>(error, fs).
           let s = s\<lparr>the_fs := fs\<rparr> in
           if 0 \<le> error
           then rbind (call (orig_open L ''/dev/null'' O_RDONLY 0) s) (\<lambda>(v_fd, s).
             let file = \<lparr>ff_fd = v_fd, ff_flags = 0, ff_path = v, ff_refcount = 1, ff_offset = 0\<rparr>;
                 a = length (file_heap s) in
             Inr (v_fd, s\<lparr>file_heap := file_heap s @ [Some file], fd_map := (fd_map s)(v_fd \<mapsto> a)\<rparr>))
           else Inr (- 1, s)))
        (call (orig_open L pathname flags m)) s)"

definition hook_creat :: "'r libc \<Rightarrow> string \<Rightarrow> addr32 \<Rightarrow> ('r, int) hook" where
  "hook_creat L pathname md s =
     (if disable_hooks s then call (orig_creat L pathname md) s
      else by_path L pathname (\<lambda>v. hook_open L pathname O_CREAT md) (call (orig_creat L pathname md)) s)"

text \<open>
  Offsets of the image are naturals. In front of the file \<open>minixfs\_read\<close> indexes the blocks out of
  bounds, once it has found the file; so does \<open>minixfs\_write\<close>, unless the sum of offset and length is
  negative, which is a size beyond the largest file.
\<close>

definition read_at :: "filesys \<Rightarrow> string \<Rightarrow> nat \<Rightarrow> int \<Rightarrow> (filesys \<times> int \<times> string \<times> int) result" where
  "read_at fs path bound off =
     (if 0 \<le> off
      then rbind (minixfs_read fs path bound (nat off)) (\<lambda>(fs, r, bytes, off). Inr (fs, r, bytes, int off))
      else rbind (minixfs_read fs path 0 0) (\<lambda>(fs, r, bytes, _).
        if r = - 1 then Inr (fs, r, bytes, off) else Inl OutOfBounds))"

definition write_at :: "filesys \<Rightarrow> string \<Rightarrow> string \<Rightarrow> int \<Rightarrow> (filesys \<times> int \<times> int) result" where
  "write_at fs path buf off =
     (if 0 \<le> off then rbind (minixfs_write fs path buf (nat off)) (\<lambda>(fs, r, off). Inr (fs, r, int off))
      else if off + int (length buf) < 0
      then rbind (minixfs_write fs path buf (nat (off + 2 ^ 64))) (\<lambda>(fs, r, _). Inr (fs, r, off))
      else Inl OutOfBounds)"

definition hook_read :: "'r libc \<Rightarrow> int \<Rightarrow> nat \<Rightarrow> ('r, int \<times> string) hook" where
  "hook_read L fd bound =
     by_fd fd
       (\<lambda>a file s. rbind (read_at (the_fs s) (ff_path file) bound (ff_offset file)) (\<lambda>(fs, m_read, bytes, off).
          Inr ((m_read, bytes), set_file a (Some (file\<lparr>ff_offset := off\<rparr>)) (s\<lparr>the_fs := fs\<rparr>))))
       (call (orig_read L fd bound))"

definition hook_write :: "'r libc \<Rightarrow> int \<Rightarrow> string \<Rightarrow> ('r, int) hook" where
  "hook_write L fd buf =
     by_fd fd
       (\<lambda>a file s. rbind (write_at (the_fs s) (ff_path file) buf (ff_offset file)) (\<lambda>(fs, res, off).
          Inr (res, set_file a (Some (file\<lparr>ff_offset := off\<rparr>)) (s\<lparr>the_fs := fs\<rparr>))))
       (call (orig_write L fd buf))"

definition hook_close :: "'r libc \<Rightarrow> int \<Rightarrow> ('r, int) hook" where
  "hook_close L fd =
     by_fd fd
       (\<lambda>a file s.
          let file = file\<lparr>ff_refcount := ff_refcount file - 1\<rparr>; s = s\<lparr>fd_map := (fd_map s)(fd := None)\<rparr> in
          Inr (0, set_file a (if ff_refcount file = 0 then None else Some file) s))
       (call (orig_close L fd))"

section \<open>\<open>stat.c\<close>\<close>

definition fstat_common :: "fakefile \<Rightarrow> ('r, int \<times> fs_stat option) hook" where
  "fstat_common file s =
     rbind (minixfs_stat (the_fs s) (ff_path file)) (\<lambda>(r, buf, fs). Inr ((r, buf), s\<lparr>the_fs := fs\<rparr>))"

definition fxstat :: "'r libc \<Rightarrow> int \<Rightarrow> ('r, int \<times> fs_stat option) hook" where
  "fxstat L fd = by_fd fd (\<lambda>a file. fstat_common file) (call (orig_fstat L fd))"

definition fxstat64 :: "'r libc \<Rightarrow> int \<Rightarrow> ('r, int \<times> fs_stat option) hook" where
  "fxstat64 L fd = by_fd fd (\<lambda>a file. fstat_common file) (call (orig_fstat64 L fd))"

text \<open>Opening a path, asking its descriptor with one of the two, closing it.\<close>

definition open_stat_close ::
  "'r libc \<Rightarrow> (int \<Rightarrow> ('r, int \<times> fs_stat option) hook) \<Rightarrow> string \<Rightarrow> ('r, int \<times> fs_stat option) hook" where
  "open_stat_close L ask pathname s =
     rbind (hook_open L pathname O_RDONLY 0 s) (\<lambda>(fd, s).
     if fd = - 1 then Inr ((- 1, None), s)
     else rbind (ask fd s) (\<lambda>(retval, s). rbind (hook_close L fd s) (\<lambda>(_, s). Inr (retval, s))))"

definition lxstat :: "'r libc \<Rightarrow> string \<Rightarrow> ('r, int \<times> fs_stat option) hook" where
  "lxstat L pathname = open_stat_close L (fxstat L) pathname"

definition xstat :: "'r libc \<Rightarrow> string \<Rightarrow> ('r, int \<times> fs_stat option) hook" where
  "xstat L pathname = lxstat L pathname"

definition hook_lstat :: "'r libc \<Rightarrow> string \<Rightarrow> ('r, int \<times> fs_stat option) hook" where
  "hook_lstat L pathname = lxstat L pathname"

definition hook_stat :: "'r libc \<Rightarrow> string \<Rightarrow> ('r, int \<times> fs_stat option) hook" where
  "hook_stat L pathname = xstat L pathname"

definition hook_fstat :: "'r libc \<Rightarrow> int \<Rightarrow> ('r, int \<times> fs_stat option) hook" where
  "hook_fstat L fd = fxstat L fd"

definition lxstat64 :: "'r libc \<Rightarrow> string \<Rightarrow> ('r, int \<times> fs_stat option) hook" where
  "lxstat64 L pathname =
     by_path L pathname (\<lambda>v. open_stat_close L (fxstat64 L) pathname) (call (orig_lstat64 L pathname))"

definition xstat64 :: "'r libc \<Rightarrow> string \<Rightarrow> ('r, int \<times> fs_stat option) hook" where
  "xstat64 L pathname = lxstat64 L pathname"

definition fxstatat :: "'r libc \<Rightarrow> int \<Rightarrow> string \<Rightarrow> int \<Rightarrow> ('r, int \<times> fs_stat option) hook" where
  "fxstatat L dirfd pathname flags s =
     (if disable_hooks s then call (orig_fstatat L dirfd pathname flags) s
      else by_path L pathname (\<lambda>v. open_stat_close L (fxstat L) pathname) (call (orig_fstatat L dirfd pathname flags)) s)"

definition fxstatat64 :: "'r libc \<Rightarrow> int \<Rightarrow> string \<Rightarrow> int \<Rightarrow> ('r, int \<times> fs_stat option) hook" where
  "fxstatat64 L dirfd pathname flags s =
     (if disable_hooks s then call (orig_fstatat64 L dirfd pathname flags) s
      else by_path L pathname (\<lambda>v. open_stat_close L (fxstat64 L) pathname) (call (orig_fstatat64 L dirfd pathname flags)) s)"

definition fstatat64 :: "'r libc \<Rightarrow> int \<Rightarrow> string \<Rightarrow> int \<Rightarrow> ('r, int \<times> fs_stat option) hook" where
  "fstatat64 L fd pathname flag = fxstatat64 L fd pathname flag"

text \<open>
  \<open>statx\<close>: the fields of the answer at their widths, without the device numbers, which
  \<open>minixfs\_stat\<close> does not set. The constants are those of the kernel's interface;
  \<open>AT\_STATX\_SYNC\_AS\_STAT\<close> is no bit at all.
\<close>

definition AT_SYMLINK_NOFOLLOW :: addr32 where "AT_SYMLINK_NOFOLLOW = 256"
definition AT_NO_AUTOMOUNT :: addr32 where "AT_NO_AUTOMOUNT = 2048"
definition AT_EMPTY_PATH :: addr32 where "AT_EMPTY_PATH = 4096"
definition AT_STATX_SYNC_AS_STAT :: addr32 where "AT_STATX_SYNC_AS_STAT = 0"
definition STATX_BASIC_STATS :: addr32 where "STATX_BASIC_STATS = 2047"

type_synonym statx_timestamp = "int \<times> addr32 \<times> int"

record statx =
  stx_mask :: addr32
  stx_blksize :: addr32
  stx_nlink :: addr32
  stx_uid :: addr32
  stx_gid :: addr32
  stx_mode :: "16 word"
  stx_ino :: "64 word"
  stx_size :: "64 word"
  stx_blocks :: "64 word"
  stx_atime :: statx_timestamp
  stx_ctime :: statx_timestamp
  stx_mtime :: statx_timestamp

definition statx_convert_timestamp :: "timespec \<Rightarrow> statx_timestamp" where
  "statx_convert_timestamp tv = (fst tv, word_of_int (snd tv), 0)"

definition statx_of :: "fs_stat \<Rightarrow> statx" where
  "statx_of st =
     \<lparr>stx_mask = STATX_BASIC_STATS, stx_blksize = word_of_nat (st_blksize st), stx_nlink = word_of_nat (st_nlink st),
      stx_uid = st_uid st, stx_gid = st_gid st, stx_mode = ucast (st_mode st), stx_ino = word_of_nat (st_ino st),
      stx_size = word_of_nat (st_size st), stx_blocks = word_of_nat (st_blocks st),
      stx_atime = statx_convert_timestamp (st_atim st), stx_ctime = statx_convert_timestamp (st_ctim st),
      stx_mtime = statx_convert_timestamp (st_mtim st)\<rparr>"

definition statx_generic :: "'r libc \<Rightarrow> int \<Rightarrow> string \<Rightarrow> addr32 \<Rightarrow> addr32 \<Rightarrow> ('r, int \<times> statx option) hook" where
  "statx_generic L fd path flags wanted s =
     (let clear_flags = AT_STATX_SYNC_AS_STAT;
          supported_flags = AT_EMPTY_PATH OR AT_NO_AUTOMOUNT OR AT_SYMLINK_NOFOLLOW OR clear_flags in
      if flags AND NOT supported_flags \<noteq> 0 then Inr ((- 1, None), s)
      else rbind (fstatat64 L fd path (sint (flags AND NOT clear_flags)) s) (\<lambda>((ret, st), s).
        if ret \<noteq> 0 then Inr ((ret, None), s)
        else (case st of None \<Rightarrow> Inl Uninitialised | Some st \<Rightarrow> Inr ((0, Some (statx_of st)), s))))"

definition hook_statx :: "'r libc \<Rightarrow> int \<Rightarrow> string \<Rightarrow> addr32 \<Rightarrow> addr32 \<Rightarrow> ('r, int \<times> statx option) hook" where
  "hook_statx L fd path flags wanted = statx_generic L fd path flags wanted"

section \<open>\<open>core.c\<close>, continued\<close>

definition SEEK_SET :: int where "SEEK_SET = 0"
definition SEEK_CUR :: int where "SEEK_CUR = 1"
definition SEEK_END :: int where "SEEK_END = 2"

definition c_long :: "int \<Rightarrow> int result" where
  "c_long i = (if - (2 ^ 63) \<le> i \<and> i < 2 ^ 63 then Inr i else Inl Overflow)"

definition seek_to :: "nat \<Rightarrow> fakefile \<Rightarrow> int result \<Rightarrow> ('r, int) hook" where
  "seek_to a file target s =
     rbind target (\<lambda>off. Inr (off, set_file a (Some (file\<lparr>ff_offset := off\<rparr>)) s))"

definition hook_lseek :: "'r libc \<Rightarrow> int \<Rightarrow> int \<Rightarrow> int \<Rightarrow> ('r, int) hook" where
  "hook_lseek L fd offset whence =
     by_fd fd
       (\<lambda>a file s.
          if whence = SEEK_SET then seek_to a file (Inr offset) s
          else if whence = SEEK_CUR then seek_to a file (c_long (ff_offset file + offset)) s
          else if whence = SEEK_END
          then rbind (fstat_common file s) (\<lambda>((r, buf), s).
            if 0 \<le> r
            then (case buf of None \<Rightarrow> Inl Uninitialised | Some b \<Rightarrow> seek_to a file (c_long (int (st_size b) + offset)) s)
            else Inr (- 1, s))
          else seek_to a file (Inr (ff_offset file)) s)
       (call (orig_lseek L fd offset whence))"

definition hook_unlink :: "'r libc \<Rightarrow> string \<Rightarrow> ('r, int) hook" where
  "hook_unlink L pathname s =
     (if disable_hooks s then call (orig_unlink L pathname) s
      else by_path L pathname (\<lambda>v s. rbind (minixfs_unlink (the_fs s) v) (\<lambda>(r, fs). Inr (r, s\<lparr>the_fs := fs\<rparr>)))
        (call (orig_unlink L pathname)) s)"

definition hook_mkdir :: "'r libc \<Rightarrow> string \<Rightarrow> addr32 \<Rightarrow> ('r, int) hook" where
  "hook_mkdir L pathname md s =
     (if disable_hooks s then call (orig_mkdir L pathname md) s
      else by_path L pathname (\<lambda>v s. rbind (minixfs_mkdir (the_fs s) v md) (\<lambda>(r, fs). Inr (r, s\<lparr>the_fs := fs\<rparr>)))
        (call (orig_mkdir L pathname md)) s)"

definition hook_fchmod :: "'r libc \<Rightarrow> int \<Rightarrow> addr32 \<Rightarrow> ('r, int) hook" where
  "hook_fchmod L fd md =
     by_fd fd
       (\<lambda>a file s. rbind (minixfs_chmod (the_fs s) (ff_path file) md) (\<lambda>(_, fs). Inr (0, s\<lparr>the_fs := fs\<rparr>)))
       (call (orig_fchmod L fd md))"

definition hook_chmod :: "'r libc \<Rightarrow> string \<Rightarrow> addr32 \<Rightarrow> ('r, int) hook" where
  "hook_chmod L pathname md s =
     rbind (hook_open L pathname O_WRONLY 0 s) (\<lambda>(fd, s).
     rbind (hook_fchmod L fd md s) (\<lambda>(retval, s).
     rbind (hook_close L fd s) (\<lambda>(_, s). Inr (retval, s))))"

definition hook_fchmodat :: "'r libc \<Rightarrow> int \<Rightarrow> string \<Rightarrow> addr32 \<Rightarrow> int \<Rightarrow> ('r, int) hook" where
  "hook_fchmodat L dirfd pathname md flags =
     by_path L pathname (\<lambda>v. hook_chmod L pathname md) (call (orig_fchmodat L dirfd pathname md flags))"

definition hook_fchown :: "'r libc \<Rightarrow> int \<Rightarrow> addr32 \<Rightarrow> addr32 \<Rightarrow> ('r, int) hook" where
  "hook_fchown L fd owner grp =
     by_fd fd
       (\<lambda>a file s. rbind (minixfs_chown (the_fs s) (ff_path file) owner grp) (\<lambda>(_, fs). Inr (0, s\<lparr>the_fs := fs\<rparr>)))
       (call (orig_fchown L fd owner grp))"

definition hook_lchown :: "'r libc \<Rightarrow> string \<Rightarrow> addr32 \<Rightarrow> addr32 \<Rightarrow> ('r, int) hook" where
  "hook_lchown L pathname owner grp s =
     rbind (hook_open L pathname O_WRONLY 0 s) (\<lambda>(fd, s).
     rbind (hook_fchown L fd owner grp s) (\<lambda>(retval, s).
     rbind (hook_close L fd s) (\<lambda>(_, s). Inr (retval, s))))"

definition hook_chown :: "'r libc \<Rightarrow> string \<Rightarrow> addr32 \<Rightarrow> addr32 \<Rightarrow> ('r, int) hook" where
  "hook_chown L pathname owner grp = hook_lchown L pathname owner grp"

definition hook_fchownat :: "'r libc \<Rightarrow> int \<Rightarrow> string \<Rightarrow> addr32 \<Rightarrow> addr32 \<Rightarrow> int \<Rightarrow> ('r, int) hook" where
  "hook_fchownat L dirfd pathname owner grp flags =
     by_path L pathname (\<lambda>v. hook_chown L pathname owner grp) (call (orig_fchownat L dirfd pathname owner grp flags))"

section \<open>\<open>dup.c\<close> and \<open>unimplemented.c\<close>\<close>

text \<open>\<open>dup2\<close> and \<open>dup\<close> copy the pointer; they do not look at the object, but for its flags.\<close>

definition hook_dup2 :: "'r libc \<Rightarrow> int \<Rightarrow> int \<Rightarrow> ('r, int) hook" where
  "hook_dup2 L oldfd newfd s =
     (case (if disable_hooks s then None else fd_map s oldfd) of
        None \<Rightarrow> call (orig_dup2 L oldfd newfd) s
      | Some a \<Rightarrow> rbind (call (orig_dup2 L oldfd newfd) s) (\<lambda>(_, s). Inr (1, s\<lparr>fd_map := (fd_map s)(newfd \<mapsto> a)\<rparr>)))"

definition hook_dup :: "'r libc \<Rightarrow> int \<Rightarrow> ('r, int) hook" where
  "hook_dup L oldfd =
     by_fd oldfd
       (\<lambda>a file s. rbind (call (orig_open L ''/dev/null'' (ff_flags file) 0) s) (\<lambda>(newfd, s).
          Inr (newfd, if 0 < newfd then s\<lparr>fd_map := (fd_map s)(newfd \<mapsto> a)\<rparr> else s)))
       (call (orig_dup L oldfd))"

text \<open>\<open>FD\_UNIMPLEMENTED\<close>: a descriptor of the image gets the answer \<open>error\<close>.\<close>

definition fd_unimplemented :: "int \<Rightarrow> 'a \<Rightarrow> ('r, 'a) hook \<Rightarrow> ('r, 'a) hook" where
  "fd_unimplemented fd error other s = (if \<not> disable_hooks s \<and> fd_map s fd \<noteq> None then Inr (error, s) else other s)"

definition hook_fsync :: "'r libc \<Rightarrow> int \<Rightarrow> ('r, int) hook" where
  "hook_fsync L fd = fd_unimplemented fd 0 (call (orig_fsync L fd))"

definition hook_fdatasync :: "'r libc \<Rightarrow> int \<Rightarrow> ('r, int) hook" where
  "hook_fdatasync L fd = fd_unimplemented fd 0 (call (orig_fdatasync L fd))"

text \<open>Addresses are naturals, and 0 is \<open>NULL\<close>.\<close>

definition hook_mmap :: "'r libc \<Rightarrow> nat \<Rightarrow> nat \<Rightarrow> addr32 \<Rightarrow> addr32 \<Rightarrow> int \<Rightarrow> int \<Rightarrow> ('r, nat) hook" where
  "hook_mmap L addr len prot flags fd offset =
     fd_unimplemented fd 0 (call (orig_mmap L addr len prot flags fd offset))"

section \<open>\<open>dir.c\<close>\<close>

text \<open>A real directory is opened to have a pointer; it is a number. \<open>fdopendir\<close> does not ask whether the hooks are disabled.\<close>

definition hook_fdopendir :: "'r libc \<Rightarrow> int \<Rightarrow> ('r, int option) hook" where
  "hook_fdopendir L fd s =
     (case fd_map s fd of
        None \<Rightarrow> call (orig_fdopendir L fd) s
      | Some a \<Rightarrow>
          rbind (file_of a s) (\<lambda>file.
          rbind (minixfs_readdir (the_fs s) (ff_path file)) (\<lambda>(n, es, fs).
          let s = s\<lparr>the_fs := fs\<rparr> in
          if n < 0 then Inr (None, s)
          else rbind (call (orig_opendir L ''/dev/'') s) (\<lambda>(realdir, s).
            case realdir of
              None \<Rightarrow> Inl NullDeref
            | Some d \<Rightarrow>
                let dir = \<lparr>fdir_fd = fd, entries_read = 0, max_entries = n, fdir_entry = es\<rparr> in
                Inr (Some d, s\<lparr>dir_fd_map := (dir_fd_map s)(d \<mapsto> dir)\<rparr>)))))"

definition hook_opendir :: "'r libc \<Rightarrow> string \<Rightarrow> ('r, int option) hook" where
  "hook_opendir L name s = rbind (hook_open L name O_DIRECTORY 0 s) (\<lambda>(fd, s). hook_fdopendir L fd s)"

definition hook_readdir :: "'r libc \<Rightarrow> int \<Rightarrow> ('r, dirent option) hook" where
  "hook_readdir L dirp s =
     (case dir_fd_map s dirp of
        None \<Rightarrow> call (orig_readdir L dirp) s
      | Some dir \<Rightarrow>
          if max_entries dir \<le> int (entries_read dir) then Inr (None, s)
          else if length (fdir_entry dir) \<le> entries_read dir then Inl OutOfBounds
          else Inr (Some (fdir_entry dir ! entries_read dir),
            s\<lparr>dir_fd_map := (dir_fd_map s)(dirp \<mapsto> dir\<lparr>entries_read := entries_read dir + 1\<rparr>)\<rparr>))"

definition hook_readdir64 :: "'r libc \<Rightarrow> int \<Rightarrow> ('r, dirent option) hook" where
  "hook_readdir64 L dirp s =
     (if dir_fd_map s dirp \<noteq> None then hook_readdir L dirp s else call (orig_readdir64 L dirp) s)"

text \<open>
  \<open>readdir\_r\<close> returns its code and \<open>*result\<close>. The \<open>entry\<close> of the caller is shadowed and not written.
  \<open>fs\_init\<close> does not look up the function of the C library: the pointer to it is \<open>NULL\<close>.
\<close>

definition hook_readdir_r :: "int \<Rightarrow> ('r, int \<times> dirent option) hook" where
  "hook_readdir_r dirp s =
     (case dir_fd_map s dirp of
        None \<Rightarrow> Inl NullDeref
      | Some dir \<Rightarrow>
          if max_entries dir \<le> int (entries_read dir) then Inr ((0, None), s)
          else if length (fdir_entry dir) \<le> entries_read dir then Inl OutOfBounds
          else Inr ((0, Some (fdir_entry dir ! entries_read dir)),
            s\<lparr>dir_fd_map := (dir_fd_map s)(dirp \<mapsto> dir\<lparr>entries_read := entries_read dir + 1\<rparr>)\<rparr>))"

definition hook_closedir :: "'r libc \<Rightarrow> int \<Rightarrow> ('r, int) hook" where
  "hook_closedir L dirp s =
     (case dir_fd_map s dirp of
        None \<Rightarrow> call (orig_closedir L dirp) s
      | Some dir \<Rightarrow>
          rbind (hook_close L (fdir_fd dir) s) (\<lambda>(_, s). Inr (0, s\<lparr>dir_fd_map := (dir_fd_map s)(dirp := None)\<rparr>)))"

section \<open>\<open>init.c\<close>\<close>

text \<open>
  The end of the program, with the keys of \<open>fd\_map\<close> in some order: all descriptors are closed. The
  loop that is meant for the directories goes over the keys of \<open>fd\_map\<close> once more, and would read
  eight bytes of a key of four.
\<close>

definition fs_fini :: "'r libc \<Rightarrow> int list \<Rightarrow> 'r fake \<Rightarrow> 'r fake result" where
  "fs_fini L keys s =
     rbind (rfold (\<lambda>fd s. rbind (hook_close L fd s) (\<lambda>(_, s). Inr s)) keys s) (\<lambda>s.
     if \<exists>fd. fd_map s fd \<noteq> None then Inl OutOfBounds else Inr (s\<lparr>disable_hooks := True\<rparr>))"

definition get_filename :: "string \<Rightarrow> string" where
  "get_filename full_path = (if SLASH \<in> set full_path then name_part full_path else full_path)"

text \<open>The start, when \<open>MINIX\_ROOT\<close> names an image: no descriptor is open yet.\<close>

definition fs_init :: "filesys \<Rightarrow> string \<Rightarrow> 'r \<Rightarrow> 'r fake" where
  "fs_init disk_image path r =
     \<lparr>the_fs = disk_image, file_heap = [], fd_map = Map.empty, dir_fd_map = Map.empty, disable_hooks = False,
      root_filepath = path, real_system = r\<rparr>"

section \<open>\<open>cp.c\<close>\<close>

definition BUFSIZE :: nat where "BUFSIZE = 256"

text \<open>The loop of \<open>main\<close> and the last value of \<open>ret\<close>; it need not end on a real file.\<close>

partial_function (option) cp_loop :: "'r libc \<Rightarrow> int \<Rightarrow> int \<Rightarrow> 'r fake \<Rightarrow> (int \<times> 'r fake) result option" where
  "cp_loop L src dst s =
     (case hook_read L src BUFSIZE s of
        Inl e \<Rightarrow> Some (Inl e)
      | Inr ((ret, buf), s) \<Rightarrow>
          if ret \<le> 0 then Some (Inr (ret, s))
          else
            (case hook_write L dst (take (nat ret) buf) s of
               Inl e \<Rightarrow> Some (Inl e)
             | Inr (ret, s) \<Rightarrow> if ret < 0 then Some (Inr (ret, s)) else cp_loop L src dst s))"

definition cp_close :: "'r libc \<Rightarrow> int \<Rightarrow> int \<Rightarrow> int \<Rightarrow> 'r fake \<Rightarrow> (int \<times> 'r fake) result" where
  "cp_close L src dst ret s =
     rbind (hook_close L src s) (\<lambda>(_, s). rbind (hook_close L dst s) (\<lambda>(_, s).
     Inr (if ret \<noteq> 0 then 1 else 0, s)))"

definition cp_main :: "'r libc \<Rightarrow> string list \<Rightarrow> 'r fake \<Rightarrow> (int \<times> 'r fake) result option" where
  "cp_main L argv s =
     (if length argv \<noteq> 3 then Some (Inr (1, s))
      else
        (case hook_open L (argv ! 1) O_RDONLY 0 s of
           Inl e \<Rightarrow> Some (Inl e)
         | Inr (src, s) \<Rightarrow>
             (case hook_creat L (argv ! 2) O_WRONLY s of
                Inl e \<Rightarrow> Some (Inl e)
              | Inr (dst, s) \<Rightarrow>
                  if 0 \<le> src \<and> 0 \<le> dst
                  then (case cp_loop L src dst s of
                          None \<Rightarrow> None
                        | Some (Inl e) \<Rightarrow> Some (Inl e)
                        | Some (Inr (ret, s)) \<Rightarrow> Some (cp_close L src dst ret s))
                  else Some (cp_close L src dst 1 s))))"

end
