(* ===== verification/FakeProps.thy ===== *)
theory FakeProps
  imports FakeResolve FakeFs FsProps
begin

text \<open>
  Programs on the image: \<open>cp.c\<close> copies a file byte for byte, in pieces, through two descriptors; a
  descriptor that \<open>dup\<close> has copied does not survive the closing of the other; the ways to ask for the
  status of a path, and to read a directory, agree.
\<close>

section \<open>Two files of an image\<close>

definition two_files :: "filesys \<Rightarrow> string \<Rightarrow> inode_ptr \<Rightarrow> string \<Rightarrow> inode_ptr \<Rightarrow> bool" where
  "two_files fs p n q m \<longleftrightarrow>
     fs_ok fs \<and> names_file fs p n \<and> names_file fs q m \<and> n \<noteq> m \<and> sized fs n \<and> sized fs m \<and>
     is_virtual_path p = None \<and> is_virtual_path q = None"

lemma two_files_commute: "two_files fs p n q m \<longleftrightarrow> two_files fs q m p n"
  by (auto simp: two_files_def)

lemma two_files_step:
  assumes F: "two_files fs p n q m" and on: "fs_ok fs'" "only_inode n fs fs'" "live_inode fs' n" "mode (node fs' n) = mode (node fs n)"
    and s: "sized fs' n"
  shows "two_files fs' p n q m \<and> content fs' m = content fs m"
proof -
  have ok: "fs_ok fs" and pq: "names_file fs p n" "names_file fs q m" "m \<noteq> n" "sized fs m" using F by (auto simp: two_files_def)
  then have l: "live_inode fs m" by (simp add: names_file_def)
  have "names_file fs' p n" by (rule names_file_kept [OF pq(1) ok on(2-4)])
  moreover have "names_file fs' q m" by (rule names_other_kept [OF pq(2,1) ok on(2) pq(3)])
  moreover note only_inode_others(7,8) [OF on(2) pq(3) l]
  ultimately show ?thesis using F on(1) s by (simp add: two_files_def)
qed

text \<open>The access time is set.\<close>

lemma two_files_atime:
  assumes F: "two_files fs p n q m"
  shows "two_files (set_node n ((node fs n)\<lparr>atim := t\<rparr>) fs) p n q m \<and>
    content (set_node n ((node fs n)\<lparr>atim := t\<rparr>) fs) n = content fs n \<and>
    content (set_node n ((node fs n)\<lparr>atim := t\<rparr>) fs) m = content fs m"
proof -
  have ok: "fs_ok fs" and l: "live_inode fs n" and s: "sized fs n" using F by (auto simp: two_files_def names_file_def)
  define x where "x = (node fs n)\<lparr>atim := t\<rparr>"
  have x: "direct x = direct (node fs n)" "indirect x = indirect (node fs n)" "nlink x = nlink (node fs n)"
    "mode x = mode (node fs n)" "fsize x = fsize (node fs n)" by (simp_all add: x_def)
  note sa = set_attributes [OF ok l x(1-3)]
  have "sized (set_node n x fs) n" "content (set_node n x fs) n = content fs n"
    using s sa(4,5) x(5) by (simp_all add: sized_def content_def)
  with two_files_step [OF F sa(1-3) _ this(1)] sa(4) x(4) show ?thesis unfolding x_def by simp
qed

lemma file_write_take:
  assumes "k \<le> length new"
  shows "file_write (file_write old (take k new) 0) (take j (drop k new)) k = file_write old (take (k + j) new) 0"
proof -
  have l: "length (take k new) = k" using assms by simp
  have "take (k + j) new = take k new @ take j (drop k new)" by (rule take_add)
  then show ?thesis using l by (simp add: file_write_def add.commute)
qed

section \<open>The copying loop\<close>

text \<open>Both descriptors are open, at the same offset, and what is in front of it has been copied.\<close>

definition open_at :: "'r fake \<Rightarrow> int \<Rightarrow> nat \<Rightarrow> string \<Rightarrow> nat \<Rightarrow> bool" where
  "open_at s fd a path off \<longleftrightarrow>
     fd_map s fd = Some a \<and> a < length (file_heap s) \<and>
     (\<exists>f. file_heap s ! a = Some f \<and> ff_path f = path \<and> ff_offset f = int off \<and> ff_refcount f = 1)"

definition copying :: "'r fake \<Rightarrow> int \<Rightarrow> nat \<Rightarrow> string \<Rightarrow> inode_ptr \<Rightarrow> int \<Rightarrow> nat \<Rightarrow> string \<Rightarrow> inode_ptr \<Rightarrow> string \<Rightarrow> string \<Rightarrow> nat \<Rightarrow> bool" where
  "copying s src a p n dst b q m new old k \<longleftrightarrow>
     \<not> disable_hooks s \<and> src \<noteq> dst \<and> a \<noteq> b \<and> open_at s src a p k \<and> open_at s dst b q k \<and>
     two_files (the_fs s) p n q m \<and> content (the_fs s) n = new \<and> content (the_fs s) m = file_write old (take k new) 0 \<and>
     k \<le> length new"

lemma hook_read_open:
  assumes "\<not> disable_hooks s" and "open_at s fd a p k" and F: "two_files (the_fs s) p n q m"
  shows "\<exists>s'. hook_read L fd j s = Inr ((int (length (take j (drop k (content (the_fs s) n)))), take j (drop k (content (the_fs s) n))), s') \<and>
    open_at s' fd a p (k + length (take j (drop k (content (the_fs s) n)))) \<and> two_files (the_fs s') p n q m \<and>
    content (the_fs s') n = content (the_fs s) n \<and> content (the_fs s') m = content (the_fs s) m \<and>
    disable_hooks s' = disable_hooks s \<and> fd_map s' = fd_map s \<and> (\<forall>b off r. b \<noteq> a \<longrightarrow> open_at s fd' b r off \<longrightarrow> open_at s' fd' b r off)"
proof -
  let ?fs = "the_fs s" and ?b = "take j (drop k (content (the_fs s) n))"
  obtain f where f: "fd_map s fd = Some a" "a < length (file_heap s)" "file_heap s ! a = Some f" "ff_path f = p"
    "ff_offset f = int k" "ff_refcount f = 1" using assms(2) by (auto simp: open_at_def)
  have "minixfs_read ?fs p j k = Inr (set_node n ((node ?fs n)\<lparr>atim := now ?fs\<rparr>) ?fs, int (length ?b), ?b, k + length ?b)"
    using read_file_ok [of ?fs p n j k] F by (simp add: two_files_def Let_def)
  then have "hook_read L fd j s = Inr ((int (length ?b), ?b),
      set_file a (Some (f\<lparr>ff_offset := int (k + length ?b)\<rparr>)) (s\<lparr>the_fs := set_node n ((node ?fs n)\<lparr>atim := now ?fs\<rparr>) ?fs\<rparr>))"
    using assms(1) f by (simp add: hook_read_def by_fd_def file_of_def read_at_def)
  then show ?thesis using f two_files_atime [OF F, of "now ?fs"]
    by (auto simp: open_at_def set_file_def)
qed

lemma hook_write_open:
  assumes "\<not> disable_hooks s" and "open_at s fd b q k" and F: "two_files (the_fs s) p n q m"
    and off: "k \<le> length (content (the_fs s) m)" and len: "k + length buf \<le> max_file_size"
  shows "\<exists>s' fin off'. hook_write L fd buf s = Inr (if fin then int (length buf) else - 1, s') \<and>
    open_at s' fd b q off' \<and> disable_hooks s' = disable_hooks s \<and> fd_map s' = fd_map s \<and>
    (\<forall>a off r. a \<noteq> b \<longrightarrow> open_at s fd' a r off \<longrightarrow> open_at s' fd' a r off) \<and>
    fs_ok (the_fs s') \<and> content (the_fs s') n = content (the_fs s) n \<and>
    (if fin then off' = k + length buf \<and> two_files (the_fs s') p n q m \<and>
       content (the_fs s') m = file_write (content (the_fs s) m) buf k
     else disk_full (the_fs s'))"
proof -
  let ?fs = "the_fs s"
  obtain f where f: "fd_map s fd = Some b" "b < length (file_heap s)" "file_heap s ! b = Some f" "ff_path f = q"
    "ff_offset f = int k" "ff_refcount f = 1" using assms(2) by (auto simp: open_at_def)
  have c: "fs_ok ?fs" "live_inode ?fs m" "get_inode ?fs q = Inr (Some m)" "sized ?fs m" "n \<noteq> m" "live_inode ?fs n"
    using F get_inode_names_file by (auto simp: two_files_def names_file_def)
  have "k \<le> fsize (node ?fs m)" using off by (simp add: content_def)
  from write_file_ok [OF c(1-4) this len] obtain fs' fin off' where
    w: "minixfs_write ?fs q buf k = Inr (fs', if fin then int (length buf) else - 1, off')" "fs_ok fs'" "only_inode m ?fs fs'"
    "live_inode fs' m" "mode (node fs' m) = mode (node ?fs m)"
    "if fin then off' = k + length buf \<and> sized fs' m \<and> content fs' m = file_write (content ?fs m) buf k
     else disk_full fs' \<and> last_error fs' = Some ENOSPC" by blast
  define s' where "s' = set_file b (Some (f\<lparr>ff_offset := int off'\<rparr>)) (s\<lparr>the_fs := fs'\<rparr>)"
  have "hook_write L fd buf s = Inr (if fin then int (length buf) else - 1, s')"
    using assms(1) f w(1) by (simp add: hook_write_def by_fd_def file_of_def write_at_def s'_def)
  moreover have "the_fs s' = fs'" "disable_hooks s' = disable_hooks s" "fd_map s' = fd_map s" by (simp_all add: s'_def set_file_def)
  moreover have "open_at s' fd b q off'" "\<forall>a off r. a \<noteq> b \<longrightarrow> open_at s fd' a r off \<longrightarrow> open_at s' fd' a r off"
    using f by (auto simp: s'_def open_at_def set_file_def)
  moreover have "content fs' n = content ?fs n" by (rule only_inode_others(7) [OF w(3) c(5,6)])
  moreover have "two_files fs' p n q m" if "sized fs' m"
    using two_files_step [of ?fs q m p n fs'] F w(2-5) that by (simp add: two_files_commute [of _ p n])
  ultimately show ?thesis using w(2,6)
    by (intro exI [of _ s'] exI [of _ fin] exI [of _ off']) simp
qed

text \<open>What holds after the loop: both descriptors are still open, and the copy is done or the disk full.\<close>

definition copied :: "'r fake \<Rightarrow> 'r fake \<Rightarrow> int \<Rightarrow> nat \<Rightarrow> string \<Rightarrow> inode_ptr \<Rightarrow> int \<Rightarrow> nat \<Rightarrow> string \<Rightarrow> inode_ptr \<Rightarrow> string \<Rightarrow> string \<Rightarrow> int \<Rightarrow> bool" where
  "copied s s' src a p n dst b q m new old ret \<longleftrightarrow>
     disable_hooks s' = disable_hooks s \<and> fd_map s' = fd_map s \<and> (\<exists>i. open_at s' src a p i) \<and> (\<exists>i. open_at s' dst b q i) \<and>
     fs_ok (the_fs s') \<and> content (the_fs s') n = new \<and>
     (if ret = 0 then content (the_fs s') m = file_write old new 0 else disk_full (the_fs s'))"

lemma cp_loop_ok:
  assumes "length new \<le> max_file_size"
  shows "copying s src a p n dst b q m new old k \<Longrightarrow>
    \<exists>ret s'. cp_loop L src dst s = Some (Inr (ret, s')) \<and> copied s s' src a p n dst b q m new old ret"
proof (induction "length new - k" arbitrary: s k rule: less_induct)
  case less
  note C = less.prems [unfolded copying_def]
  define bytes where "bytes = take BUFSIZE (drop k new)"
  have h: "\<not> disable_hooks s" "open_at s src a p k" "two_files (the_fs s) p n q m" "b \<noteq> a" "open_at s dst b q k"
    and new: "content (the_fs s) n = new" and old: "content (the_fs s) m = file_write old (take k new) 0"
    using C by simp_all
  from hook_read_open [OF h(1-3), where L = L and j = BUFSIZE and fd' = dst, unfolded new old, folded bytes_def] obtain s1 where
    1: "hook_read L src BUFSIZE s = Inr ((int (length bytes), bytes), s1)"
    "open_at s1 src a p (k + length bytes)" "two_files (the_fs s1) p n q m" "content (the_fs s1) n = new"
    "content (the_fs s1) m = file_write old (take k new) 0" "disable_hooks s1 = disable_hooks s" "fd_map s1 = fd_map s"
    "\<forall>b off r. b \<noteq> a \<longrightarrow> open_at s dst b r off \<longrightarrow> open_at s1 dst b r off" by blast
  have "\<not> disable_hooks s1" "open_at s1 dst b q k" using 1(6,8) h by blast+
  note r = 1(1-5) this(1) 1(7) this(2)
  show ?case
  proof (cases "bytes = []")
    case True
    then have k: "k = length new" using C by (simp add: bytes_def BUFSIZE_def)
    have "cp_loop L src dst s = Some (Inr (0, s1))" using r(1) True by (subst cp_loop.simps) simp
    moreover have "copied s s1 src a p n dst b q m new old 0"
      using r C k by (auto simp: copied_def two_files_def)
    ultimately show ?thesis by blast
  next
    case False
    have len: "k + length bytes \<le> length new" "0 < length bytes" using False C by (auto simp: bytes_def)
    have off: "k \<le> length (content (the_fs s1) m)" using C by (simp add: r(5) file_write_def)
    have "k + length bytes \<le> max_file_size" using len assms by simp
    from hook_write_open [OF r(6,8,3) off this, where L = L and fd' = src] obtain s2 fin off' where
      w: "hook_write L dst bytes s1 = Inr (if fin then int (length bytes) else - 1, s2)"
      "open_at s2 dst b q off'" "disable_hooks s2 = disable_hooks s1" "fd_map s2 = fd_map s1"
      "\<forall>a off r. a \<noteq> b \<longrightarrow> open_at s1 src a r off \<longrightarrow> open_at s2 src a r off"
      "fs_ok (the_fs s2)" "content (the_fs s2) n = content (the_fs s1) n"
      "if fin then off' = k + length bytes \<and> two_files (the_fs s2) p n q m \<and>
         content (the_fs s2) m = file_write (content (the_fs s1) m) bytes k
       else disk_full (the_fs s2)" by blast
    have "a \<noteq> b" using C by simp
    then have src: "open_at s2 src a p (k + length bytes)" using w(5) r(2) by blast
    show ?thesis
    proof (cases fin)
      case True
      have "file_write (content (the_fs s1) m) bytes k = file_write old (take (k + length bytes) new) 0"
      proof -
        have "take BUFSIZE (drop k new) = take (length bytes) (drop k new)"
          by (cases "length new - k \<le> BUFSIZE") (simp_all add: bytes_def min_def)
        then show ?thesis using file_write_take [of k new old "length bytes"] C unfolding r(5) bytes_def by simp
      qed
      then have "copying s2 src a p n dst b q m new old (k + length bytes)"
        using w(1-4,7,8) src True C r(4,6) len(1) by (simp add: copying_def)
      note IH = this
      have "length new - (k + length bytes) < length new - k" using len by linarith
      from less.hyps [OF this IH] obtain ret s' where
        "cp_loop L src dst s2 = Some (Inr (ret, s'))" "copied s2 s' src a p n dst b q m new old ret" by blast
      moreover have "cp_loop L src dst s = cp_loop L src dst s2"
        using r(1) w(1) True len by (subst cp_loop.simps) simp
      ultimately show ?thesis using w(3,4) r(6,7) C by (auto simp: copied_def)
    next
      case no: False
      have "cp_loop L src dst s = Some (Inr (- 1, s2))" using r(1) w(1) no len by (subst cp_loop.simps) simp
      moreover have "copied s s2 src a p n dst b q m new old (- 1)"
        using w(2-4,6-8) src no r(4,6,7) C by (auto simp: copied_def)
      ultimately show ?thesis by blast
    qed
  qed
qed

section \<open>Copying\<close>

text \<open>
  What the hooks rely on: opening \<open>/dev/null\<close> gives a descriptor that is not in use, and changes no
  path. A path of a program leads to a path in the image.
\<close>

definition dev_null_opens :: "'r libc \<Rightarrow> ('r \<Rightarrow> int set) \<Rightarrow> bool" where
  "dev_null_opens L in_use \<longleftrightarrow>
     (\<forall>r. \<exists>fd r'. orig_open L ''/dev/null'' O_RDONLY 0 r = (fd, r') \<and> 0 \<le> fd \<and> fd \<notin> in_use r \<and>
       in_use r' = insert fd (in_use r) \<and> realpath L r' = realpath L r)"

definition in_image :: "'r libc \<Rightarrow> 'r fake \<Rightarrow> string \<Rightarrow> string \<Rightarrow> bool" where
  "in_image L s pathname v \<longleftrightarrow>
     (\<exists>base. fakefs_realpath (realpath L (real_system s)) (regexec L) (root_filepath s) pathname = Inr (Some base, Some v))"

lemma minixfs_open_existing:
  assumes "names_file fs p n" and "is_virtual_path p = None"
  shows "minixfs_open fs p flags = Inr (0, set_node n ((node fs n)\<lparr>atim := now fs\<rparr>) fs)"
  using assms(2) by (simp add: minixfs_open_def get_inode_names_file [OF assms(1)])

text \<open>Opening an existing file of the image adds a descriptor at its start.\<close>

lemma hook_open_existing:
  assumes L: "dev_null_opens L in_use" and h: "\<not> disable_hooks s" and i: "in_image L s x p" and F: "two_files (the_fs s) p n q m"
  shows "\<exists>fd s'. hook_open L x flags md s = Inr (fd, s') \<and> 0 \<le> fd \<and> fd \<notin> in_use (real_system s) \<and>
    in_use (real_system s') = insert fd (in_use (real_system s)) \<and> \<not> disable_hooks s' \<and>
    open_at s' fd (length (file_heap s)) p 0 \<and> length (file_heap s') = Suc (length (file_heap s)) \<and>
    (\<forall>y v. in_image L s y v \<longrightarrow> in_image L s' y v) \<and>
    (\<forall>fd' a r off. fd' \<noteq> fd \<longrightarrow> open_at s fd' a r off \<longrightarrow> open_at s' fd' a r off) \<and>
    two_files (the_fs s') p n q m \<and> content (the_fs s') n = content (the_fs s) n \<and> content (the_fs s') m = content (the_fs s) m"
proof -
  let ?fs' = "set_node n ((node (the_fs s) n)\<lparr>atim := now (the_fs s)\<rparr>) (the_fs s)"
  obtain base where b: "fakefs_realpath (realpath L (real_system s)) (regexec L) (root_filepath s) x = Inr (Some base, Some p)"
    using i by (auto simp: in_image_def)
  obtain fd r where o: "orig_open L ''/dev/null'' O_RDONLY 0 (real_system s) = (fd, r)" "0 \<le> fd" "fd \<notin> in_use (real_system s)"
    "in_use r = insert fd (in_use (real_system s))" "realpath L r = realpath L (real_system s)"
    using L unfolding dev_null_opens_def by blast
  define s' where "s' = s\<lparr>the_fs := ?fs', real_system := r,
    file_heap := file_heap s @ [Some \<lparr>ff_fd = fd, ff_flags = 0, ff_path = p, ff_refcount = 1, ff_offset = 0\<rparr>],
    fd_map := (fd_map s)(fd \<mapsto> length (file_heap s))\<rparr>"
  have "minixfs_open (the_fs s) p flags = Inr (0, ?fs')"
    using minixfs_open_existing F by (simp add: two_files_def)
  then have "hook_open L x flags md s = Inr (fd, s')"
    using h b o(1) by (simp add: hook_open_def by_path_def call_def s'_def Let_def)
  moreover have "in_image L s' y v" if "in_image L s y v" for y v using that o(5) by (simp add: in_image_def s'_def)
  moreover have "open_at s' fd' a r off" if "fd' \<noteq> fd" "open_at s fd' a r off" for fd' a r off
    using that by (auto simp: open_at_def s'_def nth_append)
  ultimately show ?thesis using o(2-4) h two_files_atime [OF F, of "now (the_fs s)"]
    by (intro exI [of _ fd] exI [of _ s']) (auto simp: open_at_def s'_def)
qed

lemma hook_close_open:
  assumes "\<not> disable_hooks s" and "open_at s fd a p k"
  shows "\<exists>s'. hook_close L fd s = Inr (0, s') \<and> the_fs s' = the_fs s \<and> \<not> disable_hooks s' \<and>
    (\<forall>fd' b r off. fd' \<noteq> fd \<longrightarrow> b \<noteq> a \<longrightarrow> open_at s fd' b r off \<longrightarrow> open_at s' fd' b r off)"
  using assms by (auto simp: open_at_def hook_close_def by_fd_def file_of_def set_file_def Let_def)


section \<open>Copied descriptors\<close>

text \<open>C39: \<open>dup\<close> does not count the second descriptor: when one of the two is closed the file object is
  freed, and the next read, write or close of the other one uses freed memory.\<close>

theorem dup_then_close_uses_freed_file:
  assumes "\<not> disable_hooks s" and "open_at s fd a path off"
    and "hook_dup L fd s = Inr (newfd, s1)" and "0 < newfd" and "newfd \<noteq> fd"
  shows "\<exists>s2. hook_close L fd s1 = Inr (0, s2) \<and> hook_read L newfd j s2 = Inl UseAfterFree \<and>
    hook_write L newfd buf s2 = Inl UseAfterFree \<and> hook_close L newfd s2 = Inl UseAfterFree"
proof -
  obtain r where "s1 = s\<lparr>real_system := r, fd_map := (fd_map s)(newfd \<mapsto> a)\<rparr>"
    using assms by (auto simp: hook_dup_def by_fd_def open_at_def file_of_def call_def Let_def split: prod.splits)
  then have s1: "\<not> disable_hooks s1" "fd_map s1 = (fd_map s)(newfd \<mapsto> a)" "file_heap s1 = file_heap s" using assms(1) by simp_all
  obtain f where f: "fd_map s fd = Some a" "a < length (file_heap s)" "file_heap s ! a = Some f" "ff_refcount f = 1"
    using assms(2) by (auto simp: open_at_def)
  define s2 where "s2 = set_file a None (s1\<lparr>fd_map := (fd_map s1)(fd := None)\<rparr>)"
  have "hook_close L fd s1 = Inr (0, s2)"
    using s1 f assms(5) by (simp add: hook_close_def by_fd_def file_of_def s2_def)
  moreover have "\<not> disable_hooks s2" "fd_map s2 newfd = Some a" "file_of a s2 = Inl UseAfterFree"
    using s1 f assms(5) by (simp_all add: s2_def set_file_def file_of_def)
  ultimately show ?thesis by (simp add: hook_read_def hook_write_def hook_close_def by_fd_def)
qed

section \<open>A small system\<close>

text \<open>A C library that resolves the path of the image only; its state is the next descriptor.\<close>

definition small_libc :: "nat libc" where
  "small_libc =
     \<lparr>realpath = (\<lambda>r x. if x = ''/disk'' then Some ''/disk'' else None), regexec = (\<lambda>x. True),
      orig_access = (\<lambda>x md r. (- 1, r)), orig_creat = (\<lambda>x md r. (int r, Suc r)), orig_open = (\<lambda>x flags md r. (int r, Suc r)),
      orig_read = (\<lambda>fd k r. ((0, []), r)), orig_write = (\<lambda>fd buf r. (int (length buf), r)), orig_close = (\<lambda>fd r. (0, r)),
      orig_lseek = (\<lambda>fd off wh r. (off, r)), orig_unlink = (\<lambda>x r. (- 1, r)), orig_mkdir = (\<lambda>x md r. (- 1, r)),
      orig_fchmod = (\<lambda>fd md r. (0, r)), orig_fchmodat = (\<lambda>fd x md flags r. (- 1, r)), orig_fchown = (\<lambda>fd u g r. (0, r)),
      orig_fchownat = (\<lambda>fd x u g flags r. (- 1, r)), orig_dup = (\<lambda>fd r. (int r, Suc r)), orig_dup2 = (\<lambda>fd fd' r. (fd', r)),
      orig_fstat = (\<lambda>fd r. ((- 1, None), r)), orig_fstat64 = (\<lambda>fd r. ((- 1, None), r)), orig_lstat64 = (\<lambda>x r. ((- 1, None), r)), orig_fstatat = (\<lambda>fd x flags r. ((- 1, None), r)),
      orig_fstatat64 = (\<lambda>fd x flags r. ((- 1, None), r)), orig_fsync = (\<lambda>fd r. (0, r)),
      orig_fdatasync = (\<lambda>fd r. (0, r)), orig_mmap = (\<lambda>addr len prot flags fd off r. (0, r)),
      orig_opendir = (\<lambda>x r. (Some 0, r)), orig_fdopendir = (\<lambda>fd r. (None, r)),
      orig_readdir = (\<lambda>d r. (None, r)), orig_readdir64 = (\<lambda>d r. (None, r)), orig_closedir = (\<lambda>d r. (0, r))\<rparr>"

lemma small_libc_opens: "dev_null_opens small_libc (\<lambda>r. {0..<int r})"
  by (auto simp: dev_null_opens_def small_libc_def)

lemma small_paths:
  "fakefs_realpath (\<lambda>x. if x = ''/disk'' then Some ''/disk'' else None) (\<lambda>x. True) ''/disk'' ''/disk/a'' = Inr (Some ''/disk'', Some ''/a'')"
  "fakefs_realpath (\<lambda>x. if x = ''/disk'' then Some ''/disk'' else None) (\<lambda>x. True) ''/disk'' ''/disk/b'' = Inr (Some ''/disk'', Some ''/b'')"
  by code_simp+

lemma small_in_image:
  "in_image small_libc (fs_init fs ''/disk'' 3) ''/disk/a'' ''/a''" "in_image small_libc (fs_init fs ''/disk'' 3) ''/disk/b'' ''/b''"
  using small_paths by (auto simp: in_image_def small_libc_def fs_init_def)

text \<open>An image in which \<open>/a\<close> holds two bytes.\<close>

lemma small_two_files: "\<exists>fs. two_files fs ''/a'' (Suc 0) ''/b'' 2 \<and> content fs (Suc 0) = ''hi'' \<and> content fs 2 = []"
proof -
  obtain fs where w: "minixfs_write small_fs ''/a'' ''hi'' 0 = Inr (fs, int (length ''hi''), 2)" using small_write by blast
  note r = write_result [OF small(1-3) small_bounds w]
  have s: "sized fs (Suc 0)" "content fs (Suc 0) = ''hi''" using r(4) by (simp_all add: file_write_def small_sized)
  have l: "live_inode small_fs 2" by (simp add: small_live)
  have b: "sized small_fs 2" "content small_fs 2 = []" by (simp_all add: sized_def content_def small_nodes) (simp_all add: small_file_def)
  have "names_file fs ''/b'' 2" by (rule names_other_kept [OF small_names(2,1) small_ok r(2)]) simp
  then have "two_files fs ''/a'' (Suc 0) ''/b'' 2"
    using r(1,3) s only_inode_others(8) [OF r(2) _ l] b by (simp add: two_files_def is_virtual_path_def Let_def)
  moreover have "content fs 2 = []" using only_inode_others(7) [OF r(2) _ l] b by simp
  ultimately show ?thesis using s by blast
qed


theorem dup_then_close_uses_freed_file_witness:
  "\<exists>s s1 s2. hook_dup small_libc 3 s = Inr (4, s1) \<and> hook_close small_libc 3 s1 = Inr (0, s2) \<and>
    hook_read small_libc 4 1 s2 = Inl UseAfterFree \<and> hook_write small_libc 4 ''x'' s2 = Inl UseAfterFree \<and>
    hook_close small_libc 4 s2 = Inl UseAfterFree"
proof -
  define s where "s = (fs_init small_fs ''/disk'' (4 :: nat))
    \<lparr>file_heap := [Some \<lparr>ff_fd = 3, ff_flags = 0, ff_path = ''/a'', ff_refcount = 1, ff_offset = 0\<rparr>], fd_map := [3 \<mapsto> 0]\<rparr>"
  have o: "\<not> disable_hooks s" "open_at s 3 0 ''/a'' 0" by (simp_all add: s_def fs_init_def open_at_def)
  have d: "hook_dup small_libc 3 s = Inr (4, s\<lparr>real_system := 5, fd_map := (fd_map s)(4 \<mapsto> 0)\<rparr>)"
    by (simp add: s_def fs_init_def hook_dup_def by_fd_def file_of_def call_def small_libc_def Let_def)
  from dup_then_close_uses_freed_file [OF o d, of 1 "''x''"] d show ?thesis by auto
qed

section \<open>The status of a path of the image\<close>

text \<open>
  All ways of asking for the status of a path of the image open the path, ask the descriptor, and close
  it: they give the status of the inode, and leave the descriptors and the blocks as they were.
\<close>

definition status_of :: "inode_ptr \<Rightarrow> inode \<Rightarrow> fs_stat" where
  "status_of n x =
     \<lparr>st_size = fsize x, st_blksize = BLOCK_SIZE, st_blocks = (fsize x + BLOCK_SIZE - 1) div BLOCK_SIZE,
      st_nlink = nlink x, st_mode = (ucast (mode x) AND 511) OR (if is_directory x then S_IFDIR else S_IFREG),
      st_uid = uid x, st_gid = gid x, st_atim = atim x, st_mtim = mtim x, st_ctim = ctim x, st_ino = n\<rparr>"

definition asked :: "filesys \<Rightarrow> inode_ptr \<Rightarrow> inode" where
  "asked fs n = (node fs n)\<lparr>atim := now fs\<rparr>"

lemma get_inode_asked:
  assumes "names_file fs p n" and "fs_ok fs"
  shows "get_inode (set_node n (asked fs n) fs) p = Inr (Some n)"
proof -
  have "live_inode fs n" using assms(1) by (simp add: names_file_def)
  from set_attributes [OF assms(2) this, of "asked fs n"] have
    "only_inode n fs (set_node n (asked fs n) fs)" "live_inode (set_node n (asked fs n) fs) n"
    "mode (node (set_node n (asked fs n) fs) n) = mode (node fs n)"
    by (simp_all add: asked_def)
  from names_file_kept [OF assms this] show ?thesis by (rule get_inode_names_file)
qed

lemma open_stat_close_existing:
  assumes L: "dev_null_opens L in_use" and h: "\<not> disable_hooks s" and i: "in_image L s x p"
    and F: "names_file (the_fs s) p n" "fs_ok (the_fs s)" "is_virtual_path p = None" and free: "\<forall>fd. fd \<notin> in_use (real_system s) \<longrightarrow> fd_map s fd = None"
    and ask: "ask = fxstat L \<or> ask = fxstat64 L"
  shows "\<exists>s'. open_stat_close L ask x s = Inr ((0, Some (status_of n (asked (the_fs s) n))), s') \<and>
    fd_map s' = fd_map s \<and> the_fs s' = set_node n (asked (the_fs s) n) (the_fs s)"
proof -
  let ?fs' = "set_node n (asked (the_fs s) n) (the_fs s)"
  obtain base where b: "fakefs_realpath (realpath L (real_system s)) (regexec L) (root_filepath s) x = Inr (Some base, Some p)"
    using i by (auto simp: in_image_def)
  obtain fd r where o: "orig_open L ''/dev/null'' O_RDONLY 0 (real_system s) = (fd, r)" "0 \<le> fd" "fd \<notin> in_use (real_system s)"
    using L unfolding dev_null_opens_def by blast
  define f where "f = \<lparr>ff_fd = fd, ff_flags = 0, ff_path = p, ff_refcount = 1, ff_offset = 0\<rparr>"
  define s1 where "s1 = s\<lparr>the_fs := ?fs', real_system := r, file_heap := file_heap s @ [Some f],
    fd_map := (fd_map s)(fd \<mapsto> length (file_heap s))\<rparr>"
  have "minixfs_open (the_fs s) p O_RDONLY = Inr (0, ?fs')"
    using minixfs_open_existing [OF F(1,3)] by (simp add: asked_def)
  then have 1: "hook_open L x O_RDONLY 0 s = Inr (fd, s1)"
    using h b o(1) by (simp add: hook_open_def by_path_def call_def s1_def f_def Let_def)
  have s1: "\<not> disable_hooks s1" "fd_map s1 fd = Some (length (file_heap s))" "file_of (length (file_heap s)) s1 = Inr f"
    using h by (simp_all add: s1_def file_of_def)
  have n: "node ?fs' n = asked (the_fs s) n" using set_attributes(4) [OF F(2), of n "asked (the_fs s) n"] F(1)
    by (simp add: names_file_def asked_def)
  have "fstat_common f s1 = Inr ((0, Some (status_of n (asked (the_fs s) n))), s1)"
    using get_inode_asked [OF F(1,2)] F(3) n
    by (simp add: fstat_common_def minixfs_stat_def f_def s1_def status_of_def Let_def)
  then have 2: "ask fd s1 = Inr ((0, Some (status_of n (asked (the_fs s) n))), s1)"
    using ask s1 by (auto simp: fxstat_def fxstat64_def by_fd_def)
  have 3: "hook_close L fd s1 = Inr (0, set_file (length (file_heap s)) None (s1\<lparr>fd_map := (fd_map s1)(fd := None)\<rparr>))"
    using s1 by (simp add: hook_close_def by_fd_def f_def Let_def)
  have "fd_map s fd = None" using free o(3) by blast
  then have "(fd_map s)(fd := None) = fd_map s" by auto
  then show ?thesis using 1 2 3 o(2) by (auto simp: open_stat_close_def s1_def set_file_def)
qed

text \<open>So the five ways agree.\<close>

lemma status_by_any_way:
  assumes "dev_null_opens L in_use" and "\<not> disable_hooks s" and "in_image L s x p"
    and "names_file (the_fs s) p n" "fs_ok (the_fs s)" "is_virtual_path p = None"
    and "\<forall>fd. fd \<notin> in_use (real_system s) \<longrightarrow> fd_map s fd = None"
    and "ask \<in> {hook_stat L x, hook_lstat L x, xstat64 L x, fxstatat L dirfd x flags, fxstatat64 L dirfd x flags}"
  shows "\<exists>s'. ask s = Inr ((0, Some (status_of n (asked (the_fs s) n))), s') \<and>
    fd_map s' = fd_map s \<and> the_fs s' = set_node n (asked (the_fs s) n) (the_fs s)"
proof -
  note o = open_stat_close_existing [OF assms(1-7)]
  from o [of "fxstat L"] have 1: ?thesis if "ask s = open_stat_close L (fxstat L) x s" using that by simp
  from o [of "fxstat64 L"] have 2: ?thesis if "ask s = open_stat_close L (fxstat64 L) x s" using that by simp
  have "ask s = open_stat_close L (fxstat L) x s \<or> ask s = open_stat_close L (fxstat64 L) x s"
    using assms(2,3,8)
    by (auto simp: hook_stat_def xstat_def hook_lstat_def lxstat_def xstat64_def lxstat64_def fxstatat_def fxstatat64_def
        by_path_def in_image_def)
  then show ?thesis using 1 2 by blast
qed

text \<open>\<open>statx\<close> gives the same status, unless a flag is set that it does not know.\<close>

lemma statx_of_image_file:
  assumes "dev_null_opens L in_use" and "\<not> disable_hooks s" and "in_image L s x p"
    and "names_file (the_fs s) p n" "fs_ok (the_fs s)" "is_virtual_path p = None"
    and "\<forall>fd. fd \<notin> in_use (real_system s) \<longrightarrow> fd_map s fd = None"
    and "flags AND NOT (AT_EMPTY_PATH OR AT_NO_AUTOMOUNT OR AT_SYMLINK_NOFOLLOW) = 0"
  shows "\<exists>s'. hook_statx L dirfd x flags wanted s = Inr ((0, Some (statx_of (status_of n (asked (the_fs s) n)))), s') \<and>
    fd_map s' = fd_map s"
proof -
  from status_by_any_way [OF assms(1-7), of "fxstatat64 L dirfd x (sint flags)" dirfd "sint flags"] obtain s' where
    "fxstatat64 L dirfd x (sint flags) s = Inr ((0, Some (status_of n (asked (the_fs s) n))), s')" "fd_map s' = fd_map s"
    by blast
  then show ?thesis using assms(8)
    by (intro exI [of _ s']) (simp add: hook_statx_def statx_generic_def fstatat64_def AT_STATX_SYNC_AS_STAT_def Let_def)
qed

lemma statx_unknown_flag:
  assumes "flags AND NOT (AT_EMPTY_PATH OR AT_NO_AUTOMOUNT OR AT_SYMLINK_NOFOLLOW) \<noteq> 0"
  shows "hook_statx L dirfd x flags wanted s = Inr ((- 1, None), s)"
  using assms by (simp add: hook_statx_def statx_generic_def AT_STATX_SYNC_AS_STAT_def Let_def)

text \<open>
  The empty path means the descriptor itself (\<open>AT\_EMPTY\_PATH\<close>). It does not lead into the image, so
  that the real system is asked about a descriptor of \<open>/dev/null\<close>.
\<close>

lemma statx_of_descriptor_asks_real_system:
  assumes "realpath L (real_system s) [] = None" and "\<not> regexec L []"
    and "orig_fstatat64 L fd [] (sint AT_EMPTY_PATH) (real_system s) = ((0, Some st), r)"
  shows "hook_statx L fd [] AT_EMPTY_PATH wanted s = Inr ((0, Some (statx_of st)), s\<lparr>real_system := r\<rparr>)"
  using assms
  by (simp add: hook_statx_def statx_generic_def fstatat64_def fxstatat64_def by_path_def fakefs_realpath_def call_def
      AT_STATX_SYNC_AS_STAT_def AT_EMPTY_PATH_def AT_NO_AUTOMOUNT_def AT_SYMLINK_NOFOLLOW_def Let_def)

text \<open>A descriptor of the image cannot be mapped: the answer is \<open>NULL\<close>, which is not \<open>MAP\_FAILED\<close>.\<close>

lemma mmap_of_image_file:
  assumes "\<not> disable_hooks s" and "fd_map s fd = Some a"
  shows "hook_mmap L addr len prot flags fd off s = Inr (0, s)"
  using assms by (simp add: hook_mmap_def fd_unimplemented_def)

section \<open>Listing a directory\<close>

text \<open>Any mix of the three ways of reading a directory delivers its entries in order.\<close>

definition reading :: "'r fake \<Rightarrow> int \<Rightarrow> dirent list \<Rightarrow> bool" where
  "reading s d es \<longleftrightarrow>
     (\<exists>dir. dir_fd_map s d = Some dir \<and> max_entries dir = int (length (fdir_entry dir)) \<and>
       entries_read dir \<le> length (fdir_entry dir) \<and> drop (entries_read dir) (fdir_entry dir) = es)"

lemma readdir_delivers:
  assumes "reading s d (e # es)" and "ask \<in> {hook_readdir L d, hook_readdir64 L d}"
  shows "\<exists>s'. ask s = Inr (Some e, s') \<and> hook_readdir_r d s = Inr ((0, Some e), s') \<and> reading s' d es"
proof -
  obtain dir where d: "dir_fd_map s d = Some dir" "max_entries dir = int (length (fdir_entry dir))"
    "drop (entries_read dir) (fdir_entry dir) = e # es" using assms(1) by (auto simp: reading_def)
  then have l: "entries_read dir < length (fdir_entry dir)" by (metis drop_eq_Nil2 list.distinct(1) not_le)
  with d(3) have n: "fdir_entry dir ! entries_read dir = e" "drop (Suc (entries_read dir)) (fdir_entry dir) = es"
    by (metis Cons_nth_drop_Suc list.inject)+
  show ?thesis using assms(2) d(1,2) l n
    by (auto simp: hook_readdir64_def hook_readdir_def hook_readdir_r_def reading_def)
qed

lemma readdir_ends:
  assumes "reading s d []" and "ask \<in> {hook_readdir L d, hook_readdir64 L d}"
  shows "ask s = Inr (None, s) \<and> hook_readdir_r d s = Inr ((0, None), s)"
  using assms by (auto simp: reading_def hook_readdir64_def hook_readdir_def hook_readdir_r_def)

text \<open>On a real directory \<open>readdir\_r\<close> calls a null pointer.\<close>

lemma readdir_r_of_real_directory: "dir_fd_map s d = None \<Longrightarrow> hook_readdir_r d s = Inl NullDeref"
  by (simp add: hook_readdir_r_def)

end
