(* ===== verification/Reduce.thy ===== *)
theory Reduce
  imports Prelude
begin

text \<open>
  \<open>teaching\_threads\<close>: \<open>reduce.c\<close>, \<open>reducers.c\<close> and \<open>par\_reduce.c\<close>. The threads of \<open>par\_reduce\<close> run
  one iteration at a time, in the order of a schedule; the property is that every schedule that
  lets them finish gives what the sequential loop gives.
\<close>

section \<open>Reducers\<close>

type_synonym reducer = "int \<Rightarrow> int \<Rightarrow> int result"

text \<open>An \<open>int\<close> that leaves its range is undefined behaviour.\<close>

definition c_int :: "int \<Rightarrow> int result" where
  "c_int i = (if - (2 ^ 31) \<le> i \<and> i < 2 ^ 31 then Inr i else Inl Overflow)"

definition add :: reducer where
  "add elem1 elem2 = c_int (elem1 + elem2)"

definition mult :: reducer where
  "mult elem1 elem2 = c_int (elem1 * elem2)"

definition slow :: reducer where
  "slow elem1 elem2 = Inr 56"

definition add_base_case :: int where "add_base_case = 0"
definition mult_base_case :: int where "mult_base_case = 1"
definition slow_base_case :: int where "slow_base_case = 56"

definition get_reducer :: "string \<Rightarrow> reducer result" where
  "get_reducer reducer_name =
     (if reducer_name = ''add'' then Inr add else if reducer_name = ''mult'' then Inr mult
      else if reducer_name = ''slow'' then Inr slow else Inl (Exit 4))"

definition get_reducer_base_case :: "string \<Rightarrow> int result" where
  "get_reducer_base_case reducer_name =
     (if reducer_name = ''add'' then Inr add_base_case else if reducer_name = ''mult'' then Inr mult_base_case
      else if reducer_name = ''slow'' then Inr slow_base_case else Inl (Exit 4))"

section \<open>The sequential loop\<close>

definition reduce_body :: "int list \<Rightarrow> reducer \<Rightarrow> nat \<Rightarrow> int \<Rightarrow> int result" where
  "reduce_body list reduce_func i result =
     (if length list \<le> i then Inl OutOfBounds else reduce_func result (list ! i))"

definition reduce :: "int list \<Rightarrow> nat \<Rightarrow> reducer \<Rightarrow> int \<Rightarrow> int result" where
  "reduce list len reduce_func base_case = rfold (reduce_body list reduce_func) [0..<len] base_case"

section \<open>The threads\<close>

text \<open>
  The field \<open>length\<close> of a parameter is an \<open>int\<close>, while the lengths are of type \<open>size_t\<close>: both
  conversions (\<^const>\<open>int_of_size\<close> the other way) keep the value modulo their range.
\<close>

definition size_of_int :: "int \<Rightarrow> nat" where
  "size_of_int i = nat (i mod 2 ^ 64)"

text \<open>\<open>pList\<close> points into the list: its offset.\<close>

record par_reduce_param =
  pList :: nat
  param_length :: int
  baseCase :: int
  fn :: reducer

text \<open>\<open>reduce_with_param\<close>, one iteration of its loop at a time: the index and the result so far.\<close>

type_synonym thread = "nat \<times> int result"

definition thread_start :: "par_reduce_param \<Rightarrow> thread" where
  "thread_start p = (0, Inr (baseCase p))"

definition thread_done :: "par_reduce_param \<Rightarrow> thread \<Rightarrow> bool" where
  "thread_done p th \<longleftrightarrow> size_of_int (param_length p) \<le> fst th \<or> (\<exists>e. snd th = Inl e)"

definition reduce_with_param :: "int list \<Rightarrow> par_reduce_param \<Rightarrow> thread \<Rightarrow> thread" where
  "reduce_with_param list p th =
     (case th of
        (i, Inl e) \<Rightarrow> th
      | (i, Inr result) \<Rightarrow>
          if i < size_of_int (param_length p)
          then (i + 1, reduce_body (drop (pList p) list) (fn p) i result) else th)"

definition run_threads :: "int list \<Rightarrow> par_reduce_param list \<Rightarrow> nat list \<Rightarrow> thread list \<Rightarrow> thread list" where
  "run_threads list params schedule threads =
     fold (\<lambda>t ths. ths[t := reduce_with_param list (params ! t) (ths ! t)]) schedule threads"

definition thread_param :: "nat \<Rightarrow> nat \<Rightarrow> nat \<Rightarrow> reducer \<Rightarrow> int \<Rightarrow> nat \<Rightarrow> par_reduce_param" where
  "thread_param items_per_thread last_thread num_threads reduce_func base_case thread_num =
     \<lparr>pList = thread_num * items_per_thread,
      param_length = int_of_size (if thread_num = num_threads - 1 then last_thread else items_per_thread),
      baseCase = base_case, fn = reduce_func\<rparr>"

text \<open>Joining the threads in order; a fault of any of them is one of the program.\<close>

fun join_threads :: "thread list \<Rightarrow> int list result" where
  "join_threads [] = Inr []"
| "join_threads (th # ths) = rbind (snd th) (\<lambda>r. rbind (join_threads ths) (\<lambda>rs. Inr (r # rs)))"

text \<open>
  \<open>par_reduce\<close> under a schedule; \<open>None\<close> when the schedule ends before the threads do, while the
  main thread still waits in \<open>pthread_join\<close>.
\<close>

definition par_reduce :: "nat list \<Rightarrow> int list \<Rightarrow> nat \<Rightarrow> reducer \<Rightarrow> int \<Rightarrow> nat \<Rightarrow> int result option" where
  "par_reduce schedule list list_len reduce_func base_case num_threads =
     (if list_len \<le> num_threads then Some (reduce list list_len reduce_func base_case)
      else if num_threads = 0 then Some (Inl DivByZero)
      else
        let items_per_thread = list_len div num_threads;
            last_thread = list_len - (num_threads - 1) * items_per_thread in
        if (num_threads - 1) * items_per_thread + last_thread \<noteq> list_len then Some (Inl AssertFail)
        else
          let params = map (thread_param items_per_thread last_thread num_threads reduce_func base_case) [0..<num_threads];
              threads = run_threads list params schedule (map thread_start params) in
          if \<not> list_all2 thread_done params threads then None
          else Some (rbind (join_threads threads) (\<lambda>result. reduce result num_threads reduce_func base_case)))"

section \<open>What a thread computes\<close>

lemma reduce_with_param_simps [simp]:
  "reduce_with_param list p (i, Inl e) = (i, Inl e)"
  "reduce_with_param list p (i, Inr r) =
     (if i < size_of_int (param_length p) then (i + 1, reduce_body (drop (pList p) list) (fn p) i r) else (i, Inr r))"
  by (simp_all add: reduce_with_param_def)

lemma reduce_with_param_iterate:
  fixes p list defines "body \<equiv> reduce_body (drop (pList p) list) (fn p)" and "n \<equiv> size_of_int (param_length p)"
  shows "\<exists>i. (reduce_with_param list p ^^ k) (thread_start p) = (i, rfold body [0..<min k n] (baseCase p)) \<and>
    (i = min k n \<or> (\<exists>e. rfold body [0..<min k n] (baseCase p) = Inl e))"
proof (induction k)
  case 0
  show ?case by (simp add: thread_start_def)
next
  case (Suc k)
  then obtain i where i: "(reduce_with_param list p ^^ k) (thread_start p) = (i, rfold body [0..<min k n] (baseCase p))"
    "i = min k n \<or> (\<exists>e. rfold body [0..<min k n] (baseCase p) = Inl e)" by blast
  show ?case
  proof (cases "k < n")
    case False
    then have "min (Suc k) n = n" "min k n = n" by simp_all
    with i show ?thesis
      by (cases "rfold body [0..<n] (baseCase p)") (auto simp: n_def [symmetric])
  next
    case True
    then have u: "[0..<min (Suc k) n] = [0..<k] @ [k]" "min k n = k" by simp_all
    show ?thesis
    proof (cases "rfold body [0..<k] (baseCase p)")
      case (Inl e)
      with i u show ?thesis by (auto simp: rfold_append)
    next
      case (Inr r)
      with i u True show ?thesis
        by (cases "body k r") (auto simp: rfold_append n_def [symmetric] body_def [symmetric])
    qed
  qed
qed

lemma length_run_threads [simp]: "length (run_threads list params schedule threads) = length threads"
  unfolding run_threads_def by (induction schedule arbitrary: threads) simp_all

lemma run_threads_nth:
  assumes "t < length threads"
  shows "run_threads list params schedule threads ! t =
    (reduce_with_param list (params ! t) ^^ count_list schedule t) (threads ! t)"
  using assms
proof (induction schedule arbitrary: threads)
  case (Cons s schedule)
  have "run_threads list params (s # schedule) threads =
      run_threads list params schedule (threads[s := reduce_with_param list (params ! s) (threads ! s)])"
    by (simp add: run_threads_def)
  with Cons show ?case by (cases "s = t") (simp_all add: funpow_swap1)
qed (simp add: run_threads_def)

text \<open>A thread that gets enough turns is done, with the result of the sequential loop on its slice.\<close>

lemma thread_result:
  assumes "t < length params" and "size_of_int (param_length (params ! t)) \<le> count_list schedule t"
  shows "thread_done (params ! t) (run_threads list params schedule (map thread_start params) ! t)"
    "snd (run_threads list params schedule (map thread_start params) ! t) =
      reduce (drop (pList (params ! t)) list) (size_of_int (param_length (params ! t))) (fn (params ! t)) (baseCase (params ! t))"
proof -
  let ?n = "size_of_int (param_length (params ! t))"
  obtain i where "run_threads list params schedule (map thread_start params) ! t =
      (i, rfold (reduce_body (drop (pList (params ! t)) list) (fn (params ! t))) [0..<?n] (baseCase (params ! t)))"
    "i = ?n \<or> (\<exists>e. rfold (reduce_body (drop (pList (params ! t)) list) (fn (params ! t))) [0..<?n] (baseCase (params ! t)) = Inl e)"
    using reduce_with_param_iterate [where list = list and p = "params ! t" and k = "count_list schedule t"] assms
    by (auto simp: run_threads_nth min_absorb2)
  then show "thread_done (params ! t) (run_threads list params schedule (map thread_start params) ! t)"
    "snd (run_threads list params schedule (map thread_start params) ! t) =
      reduce (drop (pList (params ! t)) list) ?n (fn (params ! t)) (baseCase (params ! t))"
    by (auto simp: thread_done_def reduce_def)
qed

lemma join_threads_all:
  "(\<And>t. t < length ths \<Longrightarrow> snd (ths ! t) = Inr (f t)) \<Longrightarrow> join_threads ths = Inr (map f [0..<length ths])"
proof (induction ths arbitrary: f)
  case (Cons th ths)
  have "join_threads ths = Inr (map (\<lambda>t. f (Suc t)) [0..<length ths])"
    using Cons.prems [of "Suc _"] by (intro Cons.IH) auto
  with Cons.prems [of 0] show ?case by (simp add: upt_conv_Cons map_Suc_upt [symmetric] del: upt_Suc map_Suc_upt)
qed simp

section \<open>Slices\<close>

lemma slices:
  "m * k \<le> length xs \<Longrightarrow> concat (map (\<lambda>t. take k (drop (t * k) xs)) [0..<m]) = take (m * k) xs"
proof (induction m)
  case (Suc m)
  then have "concat (map (\<lambda>t. take k (drop (t * k) xs)) [0..<m]) = take (m * k) xs" by simp
  have "take (Suc m * k) xs = take (m * k) xs @ take k (drop (m * k) xs)"
    using take_add [of "m * k" k xs] by (simp add: add.commute)
  with \<open>concat _ = _\<close> show ?case by simp
qed simp

section \<open>Reducers that are monoids\<close>

text \<open>
  On a domain where the values do not shrink, an overflow of a part is one of the whole.
\<close>

locale monoid_reducer =
  fixes f :: reducer and g :: "int \<Rightarrow> int \<Rightarrow> int" and base :: int and dom :: "int \<Rightarrow> bool"
  assumes reducer: "dom x \<Longrightarrow> dom y \<Longrightarrow> g x y < 2 ^ 31 \<Longrightarrow> f x y = Inr (g x y)"
    and assoc: "g (g x y) z = g x (g y z)"
    and neutral: "g base x = x" "g x base = x"
    and closed: "dom base" "dom x \<Longrightarrow> dom y \<Longrightarrow> dom (g x y)"
    and grows: "dom x \<Longrightarrow> dom y \<Longrightarrow> x \<le> g x y" "dom x \<Longrightarrow> dom y \<Longrightarrow> y \<le> g x y"
begin

definition total :: "int list \<Rightarrow> int" where
  "total xs = foldr g xs base"

lemma total_simps [simp]: "total [] = base" "total (x # xs) = g x (total xs)"
  by (simp_all add: total_def)

lemma total_append: "total (xs @ ys) = g (total xs) (total ys)"
  by (induction xs) (simp_all add: neutral assoc)

lemma total_dom: "(\<forall>x \<in> set xs. dom x) \<Longrightarrow> dom (total xs)"
  by (induction xs) (simp_all add: closed)

lemma total_concat: "total (concat xss) = total (map total xss)"
  by (induction xss) (simp_all add: total_append)

lemma loop_total:
  assumes "\<forall>x \<in> set ys. dom x" and "dom a" and "g a (total ys) < 2 ^ 31"
  shows "rfold (reduce_body (xs @ ys @ zs) f) [length xs..<length xs + length ys] a = Inr (g a (total ys))"
  using assms
proof (induction ys arbitrary: xs a)
  case (Cons y ys)
  have ga: "dom (g a y)" using Cons.prems by (simp add: closed)
  have e: "g (g a y) (total ys) < 2 ^ 31" using Cons.prems(3) by (simp add: assoc)
  have "g a y \<le> g (g a y) (total ys)" using Cons.prems(1) ga by (intro grows(1) total_dom) simp_all
  then have "f a y = Inr (g a y)" using Cons.prems e by (intro reducer) simp_all
  then have "reduce_body (xs @ (y # ys) @ zs) f (length xs) a = Inr (g a y)" by (simp add: reduce_body_def)
  moreover have "rfold (reduce_body ((xs @ [y]) @ ys @ zs) f) [length (xs @ [y])..<length (xs @ [y]) + length ys] (g a y) =
      Inr (g (g a y) (total ys))"
    by (rule Cons.IH) (use Cons.prems ga e in simp_all)
  ultimately show ?case by (simp add: upt_conv_Cons assoc del: upt_Suc)
qed (simp add: neutral)

lemma reduce_total:
  assumes "\<forall>x \<in> set (take k (drop m xs)). dom x" and "total (take k (drop m xs)) < 2 ^ 31" and "m + k \<le> length xs"
  shows "reduce (drop m xs) k f base = Inr (total (take k (drop m xs)))"
proof -
  have l: "length (take k (drop m xs)) = k" using assms(3) by simp
  have "g base (total (take k (drop m xs))) < 2 ^ 31" using assms(2) by (simp only: neutral)
  from loop_total [OF assms(1) closed(1) this, of "[]" "drop k (drop m xs)"]
  show ?thesis unfolding reduce_def append_Nil append_take_drop_id l by (simp add: neutral)
qed

lemma total_part:
  assumes "\<forall>x \<in> set (xs @ ys @ zs). dom x"
  shows "total ys \<le> total (xs @ ys @ zs)"
proof -
  have d: "dom (total xs)" "dom (total ys)" "dom (total zs)" using assms by (simp_all add: total_dom)
  have "total ys \<le> g (total ys) (total zs)" by (rule grows(1) [OF d(2,3)])
  also have "\<dots> \<le> g (total xs) (g (total ys) (total zs))" by (rule grows(2) [OF d(1) closed(2) [OF d(2,3)]])
  finally show ?thesis by (simp add: total_append)
qed

text \<open>The threads together, under any schedule that lets each of them finish.\<close>

lemma par_reduce_total:
  assumes d: "\<forall>x \<in> set xs. dom x" and t: "total xs < 2 ^ 31" and l: "length xs < 2 ^ 31"
    and n: "0 < n" and fair: "\<And>k. k < n \<Longrightarrow> length xs \<le> count_list schedule k"
  shows "par_reduce schedule xs (length xs) f base n = Some (Inr (total xs))"
proof (cases "length xs \<le> n")
  case True
  then show ?thesis using reduce_total [of "length xs" 0 xs] d t by (simp add: par_reduce_def)
next
  case False
  define m q where "m = n - 1" and "q = length xs div n"
  have n': "n = Suc m" using n by (simp add: m_def)
  have mq: "m * q + q \<le> length xs"
  proof -
    have "n * q \<le> length xs" by (simp add: q_def)
    then show ?thesis by (simp add: n' add.commute)
  qed
  define w where "w k = (if k = m then length xs - m * q else q)" for k
  have fit: "k * q + w k \<le> length xs" if "k < n" for k
  proof (cases "k = m")
    case False
    then have "Suc k * q \<le> m * q" using that n' by (intro mult_le_mono1) simp
    with False mq show ?thesis by (simp add: w_def)
  qed (use mq in \<open>simp add: w_def\<close>)
  have sz: "size_of_int (int_of_size (w k)) = w k" if "k < n" for k
    using fit [OF that] l by (simp add: size_of_int_def int_of_size_def Let_def)
  define ps where "ps = map (thread_param q (length xs - m * q) n f base) [0..<n]"
  have ps: "ps ! k = \<lparr>pList = k * q, param_length = int_of_size (w k), baseCase = base, fn = f\<rparr>" if "k < n" for k
    using that by (simp add: ps_def thread_param_def w_def m_def)
  define part where "part k = take (w k) (drop (k * q) xs)" for k
  have whole: "xs = take (k * q) xs @ part k @ drop (w k) (drop (k * q) xs)" for k
    by (simp only: part_def append_take_drop_id)
  have r: "reduce (drop (k * q) xs) (w k) f base = Inr (total (part k))" if "k < n" for k
    unfolding part_def
  proof (rule reduce_total [OF _ _ fit [OF that]])
    show "\<forall>x \<in> set (take (w k) (drop (k * q) xs)). dom x" using d by (meson in_set_dropD in_set_takeD)
    have "total (part k) \<le> total xs"
      using total_part [of "take (k * q) xs" "part k" "drop (w k) (drop (k * q) xs)"] d unfolding whole [symmetric] by blast
    then show "total (take (w k) (drop (k * q) xs)) < 2 ^ 31" using t by (simp add: part_def)
  qed
  define ths where "ths = run_threads xs ps schedule (map thread_start ps)"
  have th: "thread_done (ps ! k) (ths ! k)" "snd (ths ! k) = Inr (total (part k))" if "k < n" for k
  proof -
    have "k < length ps" "size_of_int (param_length (ps ! k)) \<le> count_list schedule k"
      using that ps [OF that] sz [OF that] fit [OF that] fair [OF that] by (simp_all add: ps_def)
    from thread_result [OF this, of xs] show "thread_done (ps ! k) (ths ! k)" "snd (ths ! k) = Inr (total (part k))"
      using ps [OF that] sz [OF that] r [OF that] by (simp_all add: ths_def)
  qed
  have ln: "length ths = n" "length ps = n" by (simp_all add: ths_def ps_def)
  have "list_all2 thread_done ps ths" using th(1) ln by (simp add: list_all2_conv_all_nth)
  moreover have "join_threads ths = Inr (map (\<lambda>k. total (part k)) [0..<n])"
    using join_threads_all [of ths "\<lambda>k. total (part k)"] th(2) ln by simp
  moreover have "concat (map part [0..<n]) = xs"
  proof -
    have mp: "map part [0..<m] = map (\<lambda>t. take q (drop (t * q) xs)) [0..<m]" by (simp add: part_def w_def)
    have "concat (map part [0..<m]) = take (m * q) xs" unfolding mp using mq by (intro slices) simp
    then show ?thesis by (simp add: n' part_def w_def)
  qed
  then have "total (map (\<lambda>k. total (part k)) [0..<n]) = total xs"
    using total_concat [of "map part [0..<n]"] by (simp add: comp_def)
  moreover have "\<forall>x \<in> set (map (\<lambda>k. total (part k)) [0..<n]). dom x"
    using d by (auto simp: part_def intro!: total_dom dest!: in_set_takeD in_set_dropD)
  ultimately show ?thesis using False n mq t reduce_total [of n 0 "map (\<lambda>k. total (part k)) [0..<n]"]
    by (simp add: par_reduce_def Let_def q_def [symmetric] m_def [symmetric, simplified] ps_def [symmetric] ths_def [symmetric])
qed

end

text \<open>\<open>add\<close> on lists without negative numbers, \<open>mult\<close> on lists of positive ones.\<close>

interpretation adding: monoid_reducer add "(+)" add_base_case "\<lambda>x. 0 \<le> x"
  by unfold_locales (simp_all add: add_def c_int_def add_base_case_def)

lemma one_le_mult: "1 \<le> x \<Longrightarrow> 1 \<le> y \<Longrightarrow> 1 \<le> x * (y :: int)"
  using mult_mono [of 1 x 1 y] by simp

interpretation multiplying: monoid_reducer mult "(*)" mult_base_case "\<lambda>x. 1 \<le> x"
  by unfold_locales (auto simp: mult_def c_int_def mult_base_case_def one_le_mult
      intro: order_trans [OF _ one_le_mult])

lemma adding_total: "adding.total xs = sum_list xs"
  by (induction xs) (simp_all, simp add: add_base_case_def)

lemma multiplying_total: "multiplying.total xs = prod_list xs"
  by (induction xs) (simp_all, simp add: mult_base_case_def)

section \<open>Properties\<close>



text \<open>The same for \<open>mult\<close> and \<open>slow\<close>.\<close>

lemma par_reduce_mult_is_reduce:
  assumes "\<forall>x \<in> set xs. 1 \<le> x" and "prod_list xs < 2 ^ 31" and "length xs < 2 ^ 31" and "0 < n"
    and "\<forall>k < n. length xs \<le> count_list schedule k"
  shows "par_reduce schedule xs (length xs) mult mult_base_case n = Some (reduce xs (length xs) mult mult_base_case)"
proof -
  have "reduce xs (length xs) mult mult_base_case = Inr (prod_list xs)"
    using multiplying.reduce_total [of "length xs" 0 xs] assms(1,2) by (simp add: multiplying_total)
  with multiplying.par_reduce_total [OF assms(1) _ assms(3,4)] assms(2,5) show ?thesis by (simp add: multiplying_total)
qed

text \<open>Without threads the length is divided by zero.\<close>

lemma par_reduce_no_threads: "0 < len \<Longrightarrow> par_reduce schedule xs len f base 0 = Some (Inl DivByZero)"
  by (simp add: par_reduce_def)

end
