(* ===== verification/MakeParser.thy ===== *)
theory MakeParser
  imports Wire
begin

text \<open>
  The makefile parser of \<open>Parallel\_Make\<close>: \<open>rule.c\<close> and \<open>parser.c\<close>. The graph library is not part of
  the repository; its operations are the parameter \<open>G\<close>, and \<open>graph_lib\<close> states what its header
  documents. A vertex is its key; the rules that are the values of the vertices are constructed by
  callbacks of the parser, and are kept in a map of their own.
\<close>

section \<open>The graph library\<close>

record 'g graph_ops =
  g_create :: 'g
  g_contains_vertex :: "'g \<Rightarrow> string \<Rightarrow> bool"
  g_set_vertex :: "'g \<Rightarrow> string \<Rightarrow> 'g"
  g_add_edge :: "'g \<Rightarrow> string \<Rightarrow> string \<Rightarrow> 'g"
  g_neighbors :: "'g \<Rightarrow> string \<Rightarrow> string list"
  g_vertices :: "'g \<Rightarrow> string list"

text \<open>
  What the header promises: a set of vertices, and for each vertex the list of its neighbors in
  the order in which they were added, each once.
\<close>

definition graph_lib :: "'g graph_ops \<Rightarrow> bool" where
  "graph_lib G \<longleftrightarrow>
     (\<forall>v. \<not> g_contains_vertex G (g_create G) v) \<and>
     (\<forall>g v w. g_contains_vertex G (g_set_vertex G g v) w \<longleftrightarrow> w = v \<or> g_contains_vertex G g w) \<and>
     (\<forall>g v w. g_contains_vertex G g w \<longrightarrow> g_neighbors G (g_set_vertex G g v) w = g_neighbors G g w) \<and>
     (\<forall>g v. \<not> g_contains_vertex G g v \<longrightarrow> g_neighbors G (g_set_vertex G g v) v = []) \<and>
     (\<forall>g s t w. g_contains_vertex G g s \<longrightarrow> g_contains_vertex G g t \<longrightarrow>
        g_contains_vertex G (g_add_edge G g s t) w = g_contains_vertex G g w \<and>
        (g_contains_vertex G g w \<longrightarrow>
          g_neighbors G (g_add_edge G g s t) w =
            (if w = s \<and> t \<notin> set (g_neighbors G g s) then g_neighbors G g s @ [t] else g_neighbors G g w))) \<and>
     (\<forall>g. set (g_vertices G g) = {v. g_contains_vertex G g v})"

section \<open>Rules\<close>

record rule_t =
  rtarget :: "string option"
  commands :: "string list"
  rstate :: int
  rdata :: "nat option"

definition rule_init :: rule_t where
  "rule_init = \<lparr>rtarget = None, commands = [], rstate = 0, rdata = None\<rparr>"

definition str_to_rule_constructor :: "string \<Rightarrow> rule_t" where
  "str_to_rule_constructor s = rule_init\<lparr>rtarget := Some s\<rparr>"

type_synonym rules = "string \<Rightarrow> rule_t option"

definition zero_out_states :: "string list \<Rightarrow> rules \<Rightarrow> rules" where
  "zero_out_states vertices rules =
     (\<lambda>v. if v \<in> set vertices then map_option (\<lambda>r. r\<lparr>rstate := 0\<rparr>) (rules v) else rules v)"

section \<open>Lines\<close>

definition isspace :: "char \<Rightarrow> bool" where
  "isspace c \<longleftrightarrow> c \<in> {SP, CHR 0x09, NL, CHR 0x0B, CHR 0x0C, CHR 0x0D}"

definition isalnum :: "char \<Rightarrow> bool" where
  "isalnum c \<longleftrightarrow> (let v = of_char c :: nat in 48 \<le> v \<and> v \<le> 57 \<or> 65 \<le> v \<and> v \<le> 90 \<or> 97 \<le> v \<and> v \<le> 122)"

lemma shorter_rest: "input \<noteq> [] \<Longrightarrow> length (dropWhile P input) - Suc 0 < length input"
  using length_dropWhile_le [of P input] by (cases input) auto

text \<open>The lines that \<open>getline\<close> returns, each with its newline.\<close>

function getlines :: "string \<Rightarrow> string list" where
  "getlines input =
     (if input = [] then []
      else let l = takeWhile (\<lambda>c. c \<noteq> NL) input; r = dropWhile (\<lambda>c. c \<noteq> NL) input in
        (l @ take 1 r) # getlines (drop 1 r))"
  by pat_completeness auto
termination
  by (relation "measure length") (auto simp: shorter_rest)

declare getlines.simps [simp del]

text \<open>The newline and a carriage return before it are removed.\<close>

definition chomp :: "string \<Rightarrow> string" where
  "chomp l =
     (if l \<noteq> [] \<and> last l = NL
      then let l = butlast l in if l \<noteq> [] \<and> last l = CHR 0x0D then butlast l else l
      else l)"

definition skip_whitespace :: "string \<Rightarrow> string" where
  "skip_whitespace str = dropWhile isspace str"

definition terminate_whitespace :: "string \<Rightarrow> string" where
  "terminate_whitespace str = takeWhile (\<lambda>c. \<not> isspace c) str"

definition strip_back_whitespace :: "string \<Rightarrow> string" where
  "strip_back_whitespace str = rev (dropWhile isspace (rev str))"

text \<open>Whether position \<open>n\<close> is in quotes: the characters before it are read.\<close>

fun in_quotes :: "bool \<Rightarrow> string \<Rightarrow> nat \<Rightarrow> bool" where
  "in_quotes q s 0 = q"
| "in_quotes q [] (Suc n) = q"
| "in_quotes q (c # cs) (Suc n) =
     (if c = CHR 0x5C then in_quotes q (drop 1 cs) (n - 1)
      else in_quotes (if c = CHR 0x22 then \<not> q else q) cs n)"

text \<open>The search for a comment from position \<open>k\<close> on.\<close>

function strip_comments :: "string \<Rightarrow> nat \<Rightarrow> string" where
  "strip_comments str k =
     (let i = k + length (takeWhile (\<lambda>c. c \<noteq> CHR ''#'') (drop k str)) in
      if length str \<le> i then str
      else if in_quotes False str i then strip_comments str (i + 1)
      else take i str)"
  by pat_completeness auto
termination
  by (relation "measure (\<lambda>(str, k). length str - k)") auto

declare strip_comments.simps [simp del]

definition strip_back_comments :: "string \<Rightarrow> string" where
  "strip_back_comments str = strip_comments str 0"

definition is_makefile_target :: "string \<Rightarrow> bool" where
  "is_makefile_target line \<longleftrightarrow> line \<noteq> [] \<and> (isalnum (hd line) \<or> hd line = CHR ''.'' \<or> hd line = CHR ''/'')"

text \<open>The tokens between spaces; other white space belongs to a token.\<close>

function split_line_on_spaces :: "string \<Rightarrow> string list" where
  "split_line_on_spaces line =
     (case dropWhile (\<lambda>c. c = SP) line of
        [] \<Rightarrow> []
      | c # cs \<Rightarrow> takeWhile (\<lambda>c. c \<noteq> SP) (c # cs) # split_line_on_spaces (dropWhile (\<lambda>c. c \<noteq> SP) (c # cs)))"
  by pat_completeness auto
termination
proof (relation "measure length")
  fix line c cs
  assume "dropWhile (\<lambda>c. c = SP) line = c # cs"
  then have "length (c # cs) \<le> length line" "c \<noteq> SP"
    using length_dropWhile_le [of "\<lambda>c. c = SP" line] hd_dropWhile [of "\<lambda>c. c = SP" line] by auto
  then show "(dropWhile (\<lambda>c. c \<noteq> SP) (c # cs), line) \<in> measure length"
    using length_dropWhile_le [of "\<lambda>c. c \<noteq> SP" cs] by simp
qed simp

declare split_line_on_spaces.simps [simp del]

section \<open>Parsing\<close>

record 'g parser =
  dependency_graph :: 'g
  rule_map :: rules
  curr_rule :: "string option"
  line_number :: nat
  in_command_block :: bool
  first_target :: "string option"

definition add_vertex :: "'g graph_ops \<Rightarrow> string \<Rightarrow> 'g parser \<Rightarrow> 'g parser" where
  "add_vertex G v s =
     s\<lparr>dependency_graph := g_set_vertex G (dependency_graph s) v,
       rule_map := (rule_map s)(v \<mapsto> str_to_rule_constructor v)\<rparr>"

definition recipe_line :: "string \<Rightarrow> 'g parser \<Rightarrow> 'g parser result" where
  "recipe_line line s =
     (case curr_rule s of
        None \<Rightarrow> Inl (Exit 2)
      | Some t \<Rightarrow>
          (case rule_map s t of
             None \<Rightarrow> Inl NullDeref
           | Some r \<Rightarrow>
               let r = (if in_command_block s then r
                        else if rstate r = 0 then r\<lparr>rstate := int_of_size (line_number s)\<rparr>
                        else r\<lparr>rstate := int_of_size (line_number s), commands := []\<rparr>);
                   r = r\<lparr>commands := commands r @ [line]\<rparr> in
               Inr (s\<lparr>rule_map := (rule_map s)(t \<mapsto> r), in_command_block := True\<rparr>)))"

definition add_dependency :: "'g graph_ops \<Rightarrow> string \<Rightarrow> string \<Rightarrow> 'g parser \<Rightarrow> 'g parser" where
  "add_dependency G t d s =
     (let s = (if g_contains_vertex G (dependency_graph s) d then s else add_vertex G d s) in
      s\<lparr>dependency_graph := g_add_edge G (dependency_graph s) t d\<rparr>)"

definition target_line :: "'g graph_ops \<Rightarrow> string \<Rightarrow> 'g parser \<Rightarrow> 'g parser result" where
  "target_line G line s =
     (let s = s\<lparr>in_command_block := False, curr_rule := None\<rparr> in
      if CHR '':'' \<notin> set line then Inl (Exit 2)
      else
        let depLine = tl (dropWhile (\<lambda>c. c \<noteq> CHR '':'') line);
            t = terminate_whitespace (takeWhile (\<lambda>c. c \<noteq> CHR '':'') line);
            s = (if g_contains_vertex G (dependency_graph s) t then s
                 else let s = add_vertex G t s in
                   if first_target s = None then s\<lparr>first_target := Some t\<rparr> else s);
            s = s\<lparr>curr_rule := Some t\<rparr> in
        Inr (fold (add_dependency G t) (split_line_on_spaces depLine) s))"

definition parse_line :: "'g graph_ops \<Rightarrow> string \<Rightarrow> 'g parser \<Rightarrow> 'g parser result" where
  "parse_line G raw s =
     (let s = s\<lparr>line_number := line_number s + 1\<rparr>;
          lineBuf = strip_back_whitespace (cstr (chomp raw));
          line = strip_back_comments (skip_whitespace lineBuf) in
      if line = [] then Inr s
      else if hd lineBuf = CHR 0x09 then recipe_line line s
      else if is_makefile_target line then target_line G line s
      else Inl (Exit 2))"

definition parser_start :: "'g graph_ops \<Rightarrow> 'g parser" where
  "parser_start G =
     add_vertex G []
       \<lparr>dependency_graph = g_create G, rule_map = Map.empty, curr_rule = None, line_number = 0,
        in_command_block = False, first_target = None\<rparr>"

definition add_goal :: "'g graph_ops \<Rightarrow> string \<Rightarrow> 'g \<Rightarrow> 'g result" where
  "add_goal G t g = (if g_contains_vertex G g t then Inr (g_add_edge G g [] t) else Inl (Exit 1))"

text \<open>The files are a map from names to contents.\<close>

definition open_makefile :: "(string \<Rightarrow> string option) \<Rightarrow> string option \<Rightarrow> string result" where
  "open_makefile files makefile_name =
     (case makefile_name of
        None \<Rightarrow> Inl (Exit 2)
      | Some name \<Rightarrow> (case files name of None \<Rightarrow> Inl (Exit 2) | Some input \<Rightarrow> Inr input))"

definition parser_parse_makefile ::
  "'g graph_ops \<Rightarrow> (string \<Rightarrow> string option) \<Rightarrow> string option \<Rightarrow> string list \<Rightarrow> ('g \<times> rules) result" where
  "parser_parse_makefile G files makeFileName goals =
     rbind (open_makefile files makeFileName) (\<lambda>input.
     rbind (rfold (parse_line G) (getlines input) (parser_start G)) (\<lambda>s.
     rbind (if goals = [] then (case first_target s of None \<Rightarrow> Inl (Exit 2) | Some t \<Rightarrow> Inr [t]) else Inr goals) (\<lambda>goals.
     rbind (rfold (add_goal G) goals (dependency_graph s)) (\<lambda>g.
     Inr (g, zero_out_states (g_vertices G g) (rule_map s))))))"

end
