(* ===== verification/MakeParsing.thy ===== *)
theory MakeParsing
  imports MakeParser
begin

text \<open>
  The parser against the makefiles it is meant to read: the text of a list of rules is parsed into
  the graph of their dependencies and into their commands, the last recipe of a target counting.
\<close>

section \<open>Makefiles\<close>

type_synonym mrule = "string \<times> string list \<times> string list"

abbreviation TAB :: char where "TAB \<equiv> CHR 0x09"

definition target_text :: "string \<Rightarrow> string list \<Rightarrow> string" where
  "target_text t ds = t @ CHR '':'' # concat (map (\<lambda>d. SP # d) ds)"

definition rule_lines :: "mrule \<Rightarrow> string list" where
  "rule_lines r = (case r of (t, ds, cs) \<Rightarrow> target_text t ds # map (\<lambda>c. TAB # c) cs)"

definition makefile_text :: "mrule list \<Rightarrow> string" where
  "makefile_text rs = concat (map (\<lambda>l. l @ [NL]) (concat (map rule_lines rs)))"

definition good_word :: "string \<Rightarrow> bool" where
  "good_word w \<longleftrightarrow> w \<noteq> [] \<and> (\<forall>c \<in> set w. \<not> isspace c \<and> c \<noteq> NUL \<and> c \<noteq> CHR ''#'')"

definition good_command :: "string \<Rightarrow> bool" where
  "good_command c \<longleftrightarrow> c \<noteq> [] \<and> \<not> isspace (hd c) \<and> \<not> isspace (last c) \<and> (\<forall>x \<in> set c. x \<noteq> NL \<and> x \<noteq> NUL \<and> x \<noteq> CHR ''#'')"

definition good_rule :: "mrule \<Rightarrow> bool" where
  "good_rule r \<longleftrightarrow> (case r of (t, ds, cs) \<Rightarrow>
     good_word t \<and> is_makefile_target t \<and> CHR '':'' \<notin> set t \<and> (\<forall>d \<in> set ds. good_word d) \<and> (\<forall>c \<in> set cs. good_command c))"

text \<open>What the rules say of a vertex: its dependencies and its recipe.\<close>

definition names :: "mrule list \<Rightarrow> string set" where
  "names rs = (\<Union>(t, ds, cs) \<in> set rs. insert t (set ds))"

definition spec_deps :: "mrule list \<Rightarrow> string \<Rightarrow> string set" where
  "spec_deps rs v = (\<Union>(t, ds, cs) \<in> set rs. if t = v then set ds else {})"

definition spec_commands :: "mrule list \<Rightarrow> string \<Rightarrow> string list" where
  "spec_commands rs v = fold (\<lambda>(t, ds, cs) acc. if t = v \<and> cs \<noteq> [] then cs else acc) rs []"

lemma spec_snoc [simp]:
  "names (rs @ [(t, ds, cs)]) = insert t (set ds) \<union> names rs"
  "spec_deps (rs @ [(t, ds, cs)]) v = (if t = v then set ds \<union> spec_deps rs v else spec_deps rs v)"
  "spec_commands (rs @ [(t, ds, cs)]) v = (if t = v \<and> cs \<noteq> [] then cs else spec_commands rs v)"
  by (auto simp: names_def spec_deps_def spec_commands_def)

section \<open>Reading lines\<close>

lemma until_char:
  "x \<notin> set l \<Longrightarrow> takeWhile (\<lambda>c. c \<noteq> x) (l @ r) = l @ takeWhile (\<lambda>c. c \<noteq> x) r"
  "x \<notin> set l \<Longrightarrow> dropWhile (\<lambda>c. c \<noteq> x) (l @ r) = dropWhile (\<lambda>c. c \<noteq> x) r"
  by (induction l) auto

lemma getlines_line: "NL \<notin> set l \<Longrightarrow> getlines (l @ NL # r) = (l @ [NL]) # getlines r"
proof -
  assume l: "NL \<notin> set l"
  then have "takeWhile (\<lambda>c. c \<noteq> NL) (l @ NL # r) = l" "dropWhile (\<lambda>c. c \<noteq> NL) (l @ NL # r) = NL # r"
    by (simp_all add: until_char)
  then show ?thesis by (subst getlines.simps) simp
qed

lemma getlines_lines:
  "\<forall>l \<in> set ls. NL \<notin> set l \<Longrightarrow> getlines (concat (map (\<lambda>l. l @ [NL]) ls)) = map (\<lambda>l. l @ [NL]) ls"
  by (induction ls) (simp_all add: getlines_line getlines.simps [of "[]"])

lemma good_word_chars:
  assumes "good_word w"
  shows "w \<noteq> []" "c \<in> set w \<Longrightarrow> \<not> isspace c" "c \<in> set w \<Longrightarrow> c \<noteq> NUL" "c \<in> set w \<Longrightarrow> c \<noteq> CHR ''#''" "SP \<notin> set w" "NL \<notin> set w"
  using assms by (auto simp: good_word_def isspace_def)

text \<open>A line without comment that begins and ends in ink is left alone.\<close>

lemma strip_back_ink: "s \<noteq> [] \<Longrightarrow> \<not> isspace (last s) \<Longrightarrow> strip_back_whitespace s = s"
  by (cases s rule: rev_cases) (simp_all add: strip_back_whitespace_def)

lemma skip_ink: "s \<noteq> [] \<Longrightarrow> \<not> isspace (hd s) \<Longrightarrow> skip_whitespace s = s"
  by (cases s) (simp_all add: skip_whitespace_def)

lemma no_comment: "CHR ''#'' \<notin> set s \<Longrightarrow> strip_back_comments s = s"
proof -
  assume "CHR ''#'' \<notin> set s"
  then have "takeWhile (\<lambda>c. c \<noteq> CHR ''#'') s = s" by (subst takeWhile_eq_all_conv) auto
  then show ?thesis by (simp add: strip_back_comments_def strip_comments.simps [of s] del: takeWhile_eq_all_conv)
qed

lemma chomp_line: "l \<noteq> [] \<Longrightarrow> last l \<noteq> CHR 0x0D \<Longrightarrow> chomp (l @ [NL]) = l"
  by (simp add: chomp_def)

lemma not_space_CR: "\<not> isspace c \<Longrightarrow> c \<noteq> CHR 0x0D"
  by (auto simp: isspace_def)

lemma parse_command_line:
  assumes "good_command c"
  shows "parse_line G (TAB # c @ [NL]) s = recipe_line c (s\<lparr>line_number := line_number s + 1\<rparr>)"
proof -
  have c: "c \<noteq> []" "\<not> isspace (hd c)" "\<not> isspace (last c)" "NUL \<notin> set c" "CHR ''#'' \<notin> set c"
    using assms by (auto simp: good_command_def)
  have "chomp ((TAB # c) @ [NL]) = TAB # c" using c not_space_CR by (intro chomp_line) simp_all
  moreover have "cstr (TAB # c) = TAB # c" using c(4) by (intro cstr_id) simp
  moreover have "strip_back_whitespace (TAB # c) = TAB # c" using c by (intro strip_back_ink) simp_all
  moreover have "skip_whitespace (TAB # c) = c" using skip_ink [OF c(1,2)] by (simp add: skip_whitespace_def isspace_def)
  ultimately show ?thesis using no_comment [OF c(5)] c(1) by (simp add: parse_line_def)
qed

lemma split_words:
  "\<forall>d \<in> set ds. good_word d \<Longrightarrow> split_line_on_spaces (concat (map (\<lambda>d. SP # d) ds)) = ds"
proof (induction ds)
  case (Cons d ds)
  then have d: "d \<noteq> []" "SP \<notin> set d" using good_word_chars by auto
  define r where "r = concat (map (\<lambda>d. SP # d) ds)"
  have r: "takeWhile (\<lambda>c. c \<noteq> SP) r = []" "dropWhile (\<lambda>c. c \<noteq> SP) r = r"
    by (cases ds; simp add: r_def)+
  obtain c cs where c: "d = c # cs" using d(1) by (cases d) auto
  have "split_line_on_spaces (SP # d @ r) =
      takeWhile (\<lambda>c. c \<noteq> SP) (d @ r) # split_line_on_spaces (dropWhile (\<lambda>c. c \<noteq> SP) (d @ r))"
    using d unfolding c by (subst split_line_on_spaces.simps) auto
  moreover have "takeWhile (\<lambda>c. c \<noteq> SP) (d @ r) = d" "dropWhile (\<lambda>c. c \<noteq> SP) (d @ r) = r"
    using d(2) r by (simp_all add: until_char)
  ultimately show ?case using Cons by (simp add: r_def)
qed (simp add: split_line_on_spaces.simps)

lemma parse_target_line:
  assumes "good_rule (t, ds, cs)"
  shows "parse_line G (target_text t ds @ [NL]) s =
    target_line G (target_text t ds) (s\<lparr>line_number := line_number s + 1\<rparr>)"
    and "CHR '':'' \<in> set (target_text t ds)"
    and "tl (dropWhile (\<lambda>c. c \<noteq> CHR '':'') (target_text t ds)) = concat (map (\<lambda>d. SP # d) ds)"
    and "terminate_whitespace (takeWhile (\<lambda>c. c \<noteq> CHR '':'') (target_text t ds)) = t"
    and "NL \<notin> set (target_text t ds)"
proof -
  let ?l = "target_text t ds"
  have t: "good_word t" "is_makefile_target t" "CHR '':'' \<notin> set t" "\<forall>d \<in> set ds. good_word d"
    using assms by (simp_all add: good_rule_def)
  note w = good_word_chars [OF t(1)]
  have chars: "NUL \<notin> set ?l" "CHR ''#'' \<notin> set ?l" "NL \<notin> set ?l" "?l \<noteq> []"
    using w t(4) by (auto simp: target_text_def dest: good_word_chars)
  then show "NL \<notin> set ?l" by blast
  have hd: "hd ?l = hd t" "\<not> isspace (hd ?l)" using w(1,2) by (simp_all add: target_text_def)
  have la: "\<not> isspace (last ?l)"
  proof (cases ds rule: rev_cases)
    case Nil
    then show ?thesis by (simp add: target_text_def isspace_def)
  next
    case (snoc es e)
    then have "e \<noteq> []" "\<not> isspace (last e)" using t(4) good_word_chars by auto
    with snoc show ?thesis by (simp add: target_text_def)
  qed
  have "chomp (?l @ [NL]) = ?l" using chars(4) not_space_CR [OF la] by (rule chomp_line)
  moreover have "cstr ?l = ?l" by (rule cstr_id [OF chars(1)])
  moreover have "hd ?l \<noteq> TAB" using hd(2) by (auto simp: isspace_def)
  moreover have "is_makefile_target ?l" using t(2) chars(4) hd(1) by (simp add: is_makefile_target_def)
  ultimately show "parse_line G (?l @ [NL]) s = target_line G ?l (s\<lparr>line_number := line_number s + 1\<rparr>)"
    using strip_back_ink [OF chars(4) la] skip_ink [OF chars(4) hd(2)] no_comment [OF chars(2)] chars(4)
    by (simp add: parse_line_def)
  have "takeWhile (\<lambda>c. c \<noteq> CHR '':'') ?l = t" "dropWhile (\<lambda>c. c \<noteq> CHR '':'') ?l = CHR '':'' # concat (map (\<lambda>d. SP # d) ds)"
    using t(3) by (simp_all add: target_text_def until_char)
  moreover have "takeWhile (\<lambda>c. \<not> isspace c) t = t" using w(2) by (subst takeWhile_eq_all_conv) auto
  ultimately show "tl (dropWhile (\<lambda>c. c \<noteq> CHR '':'') ?l) = concat (map (\<lambda>d. SP # d) ds)"
    "terminate_whitespace (takeWhile (\<lambda>c. c \<noteq> CHR '':'') ?l) = t"
    by (simp_all add: terminate_whitespace_def)
  show "CHR '':'' \<in> set ?l" by (simp add: target_text_def)
qed

section \<open>The state after some rules\<close>

definition parsed :: "'g graph_ops \<Rightarrow> mrule list \<Rightarrow> 'g parser \<Rightarrow> bool" where
  "parsed G rs s \<longleftrightarrow>
     (\<forall>v. g_contains_vertex G (dependency_graph s) v \<longleftrightarrow> v = [] \<or> v \<in> names rs) \<and>
     (\<forall>v. v = [] \<or> v \<in> names rs \<longrightarrow>
        (\<exists>r. rule_map s v = Some r \<and> rtarget r = Some v \<and> commands r = spec_commands rs v \<and>
           (rstate r = 0 \<longleftrightarrow> spec_commands rs v = [])) \<and>
        set (g_neighbors G (dependency_graph s) v) = spec_deps rs v) \<and>
     first_target s = (case rs of [] \<Rightarrow> None | (t, _, _) # _ \<Rightarrow> Some t)"

lemma graph_libD:
  assumes "graph_lib G"
  shows "\<not> g_contains_vertex G (g_create G) v"
    "g_contains_vertex G (g_set_vertex G g v) w \<longleftrightarrow> w = v \<or> g_contains_vertex G g w"
    "g_contains_vertex G g w \<Longrightarrow> g_neighbors G (g_set_vertex G g v) w = g_neighbors G g w"
    "\<not> g_contains_vertex G g v \<Longrightarrow> g_neighbors G (g_set_vertex G g v) v = []"
    "g_contains_vertex G g s \<Longrightarrow> g_contains_vertex G g t \<Longrightarrow>
       g_contains_vertex G (g_add_edge G g s t) w = g_contains_vertex G g w"
    "g_contains_vertex G g s \<Longrightarrow> g_contains_vertex G g t \<Longrightarrow> g_contains_vertex G g w \<Longrightarrow>
       set (g_neighbors G (g_add_edge G g s t) w) = (if w = s then insert t (set (g_neighbors G g w)) else set (g_neighbors G g w))"
    "set (g_vertices G g) = {v. g_contains_vertex G g v}"
    "g_contains_vertex G g s \<Longrightarrow> g_contains_vertex G g t \<Longrightarrow> g_contains_vertex G g w \<Longrightarrow>
       distinct (g_neighbors G g w) \<Longrightarrow> distinct (g_neighbors G (g_add_edge G g s t) w)"
  using assms by (auto simp: graph_lib_def)

lemma parsedD:
  assumes "parsed G rs s"
  shows "g_contains_vertex G (dependency_graph s) v \<longleftrightarrow> v = [] \<or> v \<in> names rs"
    "v = [] \<or> v \<in> names rs \<Longrightarrow> \<exists>r. rule_map s v = Some r \<and> rtarget r = Some v \<and> commands r = spec_commands rs v \<and>
       (rstate r = 0 \<longleftrightarrow> spec_commands rs v = [])"
    "v = [] \<or> v \<in> names rs \<Longrightarrow> set (g_neighbors G (dependency_graph s) v) = spec_deps rs v"
    "first_target s = (case rs of [] \<Rightarrow> None | (t, _, _) # _ \<Rightarrow> Some t)"
  using assms unfolding parsed_def by blast+

lemma spec_unnamed: "v \<notin> names rs \<Longrightarrow> spec_deps rs v = {}" "v \<notin> names rs \<Longrightarrow> spec_commands rs v = []"
proof -
  show "v \<notin> names rs \<Longrightarrow> spec_deps rs v = {}" by (fastforce simp: names_def spec_deps_def split: if_splits)
  show "v \<notin> names rs \<Longrightarrow> spec_commands rs v = []"
  proof (induction rs rule: rev_induct)
    case (snoc r rs)
    then show ?case by (cases r) auto
  qed (simp add: spec_commands_def)
qed

lemma parser_start_parsed: "graph_lib G \<Longrightarrow> parsed G [] (parser_start G)"
  using graph_libD [of G]
  by (simp add: parsed_def parser_start_def add_vertex_def names_def spec_deps_def spec_commands_def
      str_to_rule_constructor_def rule_init_def)

text \<open>A vertex that rules do not name yet can be added with another rule that names it.\<close>

lemma parsed_target:
  assumes G: "graph_lib G" and p: "parsed G rs s" and t: "t \<noteq> []"
  defines "s1 \<equiv> (if g_contains_vertex G (dependency_graph s) t then s
    else let s = add_vertex G t s in if first_target s = None then s\<lparr>first_target := Some t\<rparr> else s)"
  shows "parsed G (rs @ [(t, [], [])]) s1"
proof (cases "t \<in> names rs")
  case True
  then have "s1 = s" using parsedD(1) [OF p] by (simp add: s1_def)
  moreover have "rs \<noteq> []" using True by (auto simp: names_def)
  ultimately show ?thesis using p True unfolding parsed_def
    by (auto simp: insert_absorb split: list.splits)
next
  case False
  note L = graph_libD [OF G] and P = parsedD [OF p] and U = spec_unnamed [OF False]
  have "\<not> g_contains_vertex G (dependency_graph s) t" using P(1) False t by simp
  then have s1: "dependency_graph s1 = g_set_vertex G (dependency_graph s) t"
    "rule_map s1 = (rule_map s)(t \<mapsto> str_to_rule_constructor t)"
    "first_target s1 = (if first_target s = None then Some t else first_target s)"
    by (auto simp: s1_def add_vertex_def Let_def)
  show ?thesis unfolding parsed_def s1
  proof (intro conjI allI impI)
    fix v
    show "g_contains_vertex G (g_set_vertex G (dependency_graph s) t) v \<longleftrightarrow> v = [] \<or> v \<in> names (rs @ [(t, [], [])])"
      using P(1) L(2) by auto
    assume "v = [] \<or> v \<in> names (rs @ [(t, [], [])])"
    then have v: "v = t \<or> v = [] \<or> v \<in> names rs" by auto
    show "\<exists>r. ((rule_map s)(t \<mapsto> str_to_rule_constructor t)) v = Some r \<and> rtarget r = Some v \<and>
        commands r = spec_commands (rs @ [(t, [], [])]) v \<and> (rstate r = 0 \<longleftrightarrow> spec_commands (rs @ [(t, [], [])]) v = [])"
      using v P(2) U by (cases "v = t") (auto simp: str_to_rule_constructor_def rule_init_def)
    show "set (g_neighbors G (g_set_vertex G (dependency_graph s) t) v) = spec_deps (rs @ [(t, [], [])]) v"
      using v P(1,3) U L(3,4) False t by (cases "v = t") auto
  next
    show "(if first_target s = None then Some t else first_target s) = (case rs @ [(t, [], [])] of [] \<Rightarrow> None | (t, _, _) # _ \<Rightarrow> Some t)"
      using P(4) by (cases rs) auto
  qed
qed

lemma parsed_dependency:
  assumes G: "graph_lib G" and p: "parsed G (rs @ [(t, ds, [])]) s"
  shows "parsed G (rs @ [(t, ds @ [d], [])]) (add_dependency G t d s)"
proof -
  let ?rs = "rs @ [(t, ds, [])]" and ?rs' = "rs @ [(t, ds @ [d], [])]"
  define s1 where "s1 = (if g_contains_vertex G (dependency_graph s) d then s else add_vertex G d s)"
  note L = graph_libD [OF G] and P = parsedD [OF p]
  have first: "(case ?rs of [] \<Rightarrow> None | (t, _, _) # _ \<Rightarrow> Some t) = (case ?rs' of [] \<Rightarrow> None | (t, _, _) # _ \<Rightarrow> Some t)"
    by (cases rs) auto
  have c1: "g_contains_vertex G (dependency_graph s1) v \<longleftrightarrow> v = [] \<or> v \<in> names ?rs'" for v
    using P(1) L(2) by (auto simp: s1_def add_vertex_def)
  have r1: "\<exists>r. rule_map s1 v = Some r \<and> rtarget r = Some v \<and> commands r = spec_commands ?rs' v \<and>
      (rstate r = 0 \<longleftrightarrow> spec_commands ?rs' v = [])" if "v = [] \<or> v \<in> names ?rs'" for v
  proof (cases "v = [] \<or> v \<in> names ?rs")
    case True
    then have "g_contains_vertex G (dependency_graph s) v" using P(1) by blast
    then have "rule_map s1 v = rule_map s v" by (auto simp: s1_def add_vertex_def)
    with P(2) [OF True] show ?thesis by (auto split: if_splits)
  next
    case False
    then have "v = d" using that by auto
    with False P(1) have "rule_map s1 v = Some (str_to_rule_constructor v)" by (auto simp: s1_def add_vertex_def)
    moreover have "spec_commands ?rs' v = []" using spec_unnamed(2) [of v ?rs] False by (simp split: if_splits)
    ultimately show ?thesis by (simp add: str_to_rule_constructor_def rule_init_def)
  qed
  have n1: "set (g_neighbors G (dependency_graph s1) v) = spec_deps ?rs v" if "v = [] \<or> v \<in> names ?rs'" for v
  proof (cases "v = [] \<or> v \<in> names ?rs")
    case True
    then have "g_contains_vertex G (dependency_graph s) v" using P(1) by blast
    then have "g_neighbors G (dependency_graph s1) v = g_neighbors G (dependency_graph s) v"
      using L(3) by (auto simp: s1_def add_vertex_def)
    with P(3) [OF True] show ?thesis by simp
  next
    case False
    then have "v = d" "\<not> g_contains_vertex G (dependency_graph s) v" using that P(1) by auto
    then have "g_neighbors G (dependency_graph s1) v = []" using L(4) by (simp add: s1_def add_vertex_def)
    moreover have "spec_deps ?rs v = {}" using spec_unnamed(1) False by blast
    ultimately show ?thesis by simp
  qed
  have e: "g_contains_vertex G (dependency_graph s1) t" "g_contains_vertex G (dependency_graph s1) d" using c1 by auto
  have a: "add_dependency G t d s = s1\<lparr>dependency_graph := g_add_edge G (dependency_graph s1) t d\<rparr>"
    by (simp add: add_dependency_def s1_def Let_def)
  have f: "first_target s1 = first_target s" by (simp add: s1_def add_vertex_def)
  show ?thesis unfolding parsed_def a
  proof (intro conjI allI impI)
    fix v
    show "g_contains_vertex G (dependency_graph (s1\<lparr>dependency_graph := g_add_edge G (dependency_graph s1) t d\<rparr>)) v \<longleftrightarrow>
        v = [] \<or> v \<in> names ?rs'"
      using c1 L(5) [OF e] by simp
    assume v: "v = [] \<or> v \<in> names ?rs'"
    show "\<exists>r. rule_map (s1\<lparr>dependency_graph := g_add_edge G (dependency_graph s1) t d\<rparr>) v = Some r \<and> rtarget r = Some v \<and>
        commands r = spec_commands ?rs' v \<and> (rstate r = 0 \<longleftrightarrow> spec_commands ?rs' v = [])"
      using r1 [OF v] by simp
    have "g_contains_vertex G (dependency_graph s1) v" using v c1 by blast
    from L(6) [OF e this] n1 [OF v]
    show "set (g_neighbors G (dependency_graph (s1\<lparr>dependency_graph := g_add_edge G (dependency_graph s1) t d\<rparr>)) v) = spec_deps ?rs' v"
      by auto
  next
    show "first_target (s1\<lparr>dependency_graph := g_add_edge G (dependency_graph s1) t d\<rparr>) =
        (case ?rs' of [] \<Rightarrow> None | (t, _, _) # _ \<Rightarrow> Some t)"
      using P(4) f first by simp
  qed
qed

lemma add_dependency_fields [simp]:
  "curr_rule (add_dependency G t d s) = curr_rule s" "in_command_block (add_dependency G t d s) = in_command_block s"
  "line_number (add_dependency G t d s) = line_number s"
  by (simp_all add: add_dependency_def add_vertex_def Let_def)

lemma parsed_dependencies:
  assumes "graph_lib G" and "parsed G (rs @ [(t, es, [])]) s"
  shows "parsed G (rs @ [(t, es @ ds, [])]) (fold (add_dependency G t) ds s) \<and>
    curr_rule (fold (add_dependency G t) ds s) = curr_rule s \<and>
    in_command_block (fold (add_dependency G t) ds s) = in_command_block s \<and>
    line_number (fold (add_dependency G t) ds s) = line_number s"
  using assms(2)
proof (induction ds arbitrary: es s)
  case (Cons d ds)
  from Cons.IH [OF parsed_dependency [OF assms(1) Cons.prems]] show ?case by simp
qed simp

lemma parsed_fields [simp]:
  "parsed G rs (s\<lparr>curr_rule := c\<rparr>) = parsed G rs s" "parsed G rs (s\<lparr>line_number := n\<rparr>) = parsed G rs s"
  "parsed G rs (s\<lparr>in_command_block := b\<rparr>) = parsed G rs s"
  by (simp_all add: parsed_def)

lemma parsed_command:
  assumes p: "parsed G (rs @ [(t, ds, cs)]) s" and t: "curr_rule s = Some t" "in_command_block s \<longleftrightarrow> cs \<noteq> []"
    and n: "0 < line_number s" "line_number s < 2 ^ 31"
  shows "\<exists>s'. recipe_line c s = Inr s' \<and> parsed G (rs @ [(t, ds, cs @ [c])]) s' \<and> curr_rule s' = Some t \<and>
    in_command_block s' \<and> line_number s' = line_number s"
proof -
  let ?rs = "rs @ [(t, ds, cs)]" and ?rs' = "rs @ [(t, ds, cs @ [c])]"
  note P = parsedD [OF p]
  have "t \<in> names ?rs" by simp
  with P(2) obtain r where r: "rule_map s t = Some r" "rtarget r = Some t" "commands r = spec_commands ?rs t"
    "rstate r = 0 \<longleftrightarrow> spec_commands ?rs t = []" by blast
  have ln: "int_of_size (line_number s) \<noteq> 0" using n by (simp add: int_of_size_id)
  obtain r' where r': "recipe_line c s = Inr (s\<lparr>rule_map := (rule_map s)(t \<mapsto> r'), in_command_block := True\<rparr>)"
    "rtarget r' = Some t" "commands r' = cs @ [c]" "rstate r' \<noteq> 0"
  proof (cases "cs = []")
    case True
    then show ?thesis using r t ln that by (cases "rstate r = 0") (simp_all add: recipe_line_def Let_def)
  next
    case False
    then show ?thesis using r t that by (simp add: recipe_line_def Let_def)
  qed
  have "parsed G ?rs' (s\<lparr>rule_map := (rule_map s)(t \<mapsto> r'), in_command_block := True\<rparr>)"
    unfolding parsed_def
  proof (intro conjI allI impI)
    fix v assume v: "v = [] \<or> v \<in> names ?rs'"
    then have v': "v = [] \<or> v \<in> names ?rs" by simp
    show "\<exists>r. rule_map (s\<lparr>rule_map := (rule_map s)(t \<mapsto> r'), in_command_block := True\<rparr>) v = Some r \<and> rtarget r = Some v \<and>
        commands r = spec_commands ?rs' v \<and> (rstate r = 0 \<longleftrightarrow> spec_commands ?rs' v = [])"
      using P(2) [OF v'] r' by (cases "v = t") auto
    show "set (g_neighbors G (dependency_graph (s\<lparr>rule_map := (rule_map s)(t \<mapsto> r'), in_command_block := True\<rparr>)) v) = spec_deps ?rs' v"
      using P(3) [OF v'] by simp
  next
    show "first_target (s\<lparr>rule_map := (rule_map s)(t \<mapsto> r'), in_command_block := True\<rparr>) =
        (case ?rs' of [] \<Rightarrow> None | (t, _, _) # _ \<Rightarrow> Some t)"
      using P(4) by (cases rs) auto
  qed (use P(1) in simp)
  then show ?thesis using r'(1) t by simp
qed

section \<open>Whole makefiles\<close>

lemma parsed_commands:
  assumes "parsed G (rs @ [(t, ds, es)]) s" and "curr_rule s = Some t" and "in_command_block s \<longleftrightarrow> es \<noteq> []"
    and "\<forall>c \<in> set cs. good_command c" and "line_number s + length cs < 2 ^ 31"
  shows "\<exists>s'. rfold (parse_line G) (map (\<lambda>c. TAB # c @ [NL]) cs) s = Inr s' \<and> parsed G (rs @ [(t, ds, es @ cs)]) s' \<and>
    line_number s' = line_number s + length cs"
  using assms
proof (induction cs arbitrary: es s)
  case (Cons c cs)
  obtain s1 where 1: "recipe_line c (s\<lparr>line_number := line_number s + 1\<rparr>) = Inr s1"
    "parsed G (rs @ [(t, ds, es @ [c])]) s1" "curr_rule s1 = Some t" "in_command_block s1" "line_number s1 = line_number s + 1"
    using parsed_command [of G rs t ds es "s\<lparr>line_number := line_number s + 1\<rparr>" c] Cons.prems by auto
  from Cons.IH [OF 1(2,3)] 1 Cons.prems
  obtain s' where "rfold (parse_line G) (map (\<lambda>c. TAB # c @ [NL]) cs) s1 = Inr s'"
    "parsed G (rs @ [(t, ds, es @ c # cs)]) s'" "line_number s' = line_number s + length (c # cs)" by auto
  with parse_command_line [of c G s] Cons.prems(4) 1(1) show ?case by auto
qed simp

lemma parsed_rule:
  assumes G: "graph_lib G" and p: "parsed G rs s" and r: "good_rule (t, ds, cs)"
    and n: "line_number s + 1 + length cs < 2 ^ 31"
  shows "\<exists>s'. rfold (parse_line G) (map (\<lambda>l. l @ [NL]) (rule_lines (t, ds, cs))) s = Inr s' \<and>
    parsed G (rs @ [(t, ds, cs)]) s' \<and> line_number s' = line_number s + 1 + length cs"
proof -
  note T = parse_target_line(2-5) [OF r] and T1 = parse_target_line(1) [OF r, of G s]
  have w: "good_word t" "t \<noteq> []" "\<forall>d \<in> set ds. good_word d" "\<forall>c \<in> set cs. good_command c"
    using r by (simp_all add: good_rule_def good_word_def)
  define s0 where "s0 = s\<lparr>line_number := line_number s + 1, in_command_block := False, curr_rule := None\<rparr>"
  define s1 where "s1 = (if g_contains_vertex G (dependency_graph s0) t then s0
    else let s = add_vertex G t s0 in if first_target s = None then s\<lparr>first_target := Some t\<rparr> else s)"
  define s2 where "s2 = fold (add_dependency G t) ds (s1\<lparr>curr_rule := Some t\<rparr>)"
  have "parsed G rs s0" using p by (simp add: s0_def)
  from parsed_target [OF G this w(2)] have p1: "parsed G (rs @ [(t, [], [])]) s1" unfolding s1_def .
  have f1: "line_number s1 = line_number s + 1" "\<not> in_command_block s1"
    by (simp_all add: s1_def s0_def add_vertex_def Let_def)
  have "parsed G (rs @ [(t, [], [])]) (s1\<lparr>curr_rule := Some t\<rparr>)" using p1 by simp
  from parsed_dependencies [OF G this, of ds]
  have p2: "parsed G (rs @ [(t, ds, [])]) s2" "curr_rule s2 = Some t" "\<not> in_command_block s2" "line_number s2 = line_number s + 1"
    using f1 by (simp_all add: s2_def)
  have "parse_line G (target_text t ds @ [NL]) s = Inr s2"
    using T1 T(1-3) split_words [OF w(3)]
    by (simp add: target_line_def s2_def s1_def s0_def Let_def)
  moreover obtain s' where "rfold (parse_line G) (map (\<lambda>c. TAB # c @ [NL]) cs) s2 = Inr s'"
    "parsed G (rs @ [(t, ds, cs)]) s'" "line_number s' = line_number s + 1 + length cs"
    using parsed_commands [OF p2(1,2), of cs] p2(3,4) w(4) n by auto
  ultimately show ?thesis by (simp add: rule_lines_def comp_def)
qed

lemma parsed_rules:
  assumes "graph_lib G" and "\<forall>r \<in> set rs. good_rule r" and "length (concat (map rule_lines rs)) < 2 ^ 31"
  shows "\<exists>s. rfold (parse_line G) (map (\<lambda>l. l @ [NL]) (concat (map rule_lines rs))) (parser_start G) = Inr s \<and>
    parsed G rs s \<and> line_number s = length (concat (map rule_lines rs))"
  using assms(2,3)
proof (induction rs rule: rev_induct)
  case Nil
  then show ?case using parser_start_parsed [OF assms(1)] by (simp add: parser_start_def add_vertex_def)
next
  case (snoc r rs)
  obtain t ds cs where r: "r = (t, ds, cs)" by (cases r)
  have l: "length (rule_lines r) = 1 + length cs" by (simp add: r rule_lines_def)
  obtain s where s: "rfold (parse_line G) (map (\<lambda>l. l @ [NL]) (concat (map rule_lines rs))) (parser_start G) = Inr s"
    "parsed G rs s" "line_number s = length (concat (map rule_lines rs))"
    using snoc by auto
  have "good_rule (t, ds, cs)" "line_number s + 1 + length cs < 2 ^ 31" using snoc.prems s(3) l r by auto
  from parsed_rule [OF assms(1) s(2) this] obtain s' where
    "rfold (parse_line G) (map (\<lambda>l. l @ [NL]) (rule_lines r)) s = Inr s'" "parsed G (rs @ [r]) s'"
    "line_number s' = line_number s + 1 + length cs" by (auto simp: r)
  with s l show ?case by (auto simp: rfold_append)
qed

lemma add_goals:
  assumes "graph_lib G" and "\<forall>v \<in> insert [] (set goals). g_contains_vertex G g v"
  shows "\<exists>g'. rfold (add_goal G) goals g = Inr g' \<and> (\<forall>v. g_contains_vertex G g' v = g_contains_vertex G g v) \<and>
    (\<forall>v. g_contains_vertex G g v \<longrightarrow> set (g_neighbors G g' v) =
      (if v = [] then set goals \<union> set (g_neighbors G g v) else set (g_neighbors G g v))) \<and>
    (distinct (g_neighbors G g []) \<longrightarrow> distinct (g_neighbors G g' []))"
  using assms(2)
proof (induction goals arbitrary: g)
  case (Cons t goals)
  note L = graph_libD [OF assms(1)]
  have c: "g_contains_vertex G g []" "g_contains_vertex G g t" using Cons.prems by simp_all
  define g1 where "g1 = g_add_edge G g [] t"
  have g1: "g_contains_vertex G g1 v = g_contains_vertex G g v" for v by (simp add: g1_def L(5) [OF c])
  obtain g' where g': "rfold (add_goal G) goals g1 = Inr g'" "\<forall>v. g_contains_vertex G g' v = g_contains_vertex G g1 v"
    "\<forall>v. g_contains_vertex G g1 v \<longrightarrow> set (g_neighbors G g' v) =
      (if v = [] then set goals \<union> set (g_neighbors G g1 v) else set (g_neighbors G g1 v))"
    "distinct (g_neighbors G g1 []) \<longrightarrow> distinct (g_neighbors G g' [])"
    using Cons.IH [of g1] Cons.prems g1 by auto
  have "set (g_neighbors G g1 v) = (if v = [] then insert t (set (g_neighbors G g v)) else set (g_neighbors G g v))"
    if "g_contains_vertex G g v" for v
    unfolding g1_def by (rule L(6) [OF c that])
  moreover have "add_goal G t g = Inr g1" using c(2) by (simp add: add_goal_def g1_def)
  moreover have "distinct (g_neighbors G g1 [])" if "distinct (g_neighbors G g [])"
    unfolding g1_def by (rule L(8) [OF c c(1) that])
  ultimately show ?case using g' g1 c by (intro exI [of _ g']) auto
qed simp

lemma rule_lines_no_newline:
  assumes "good_rule r" and "l \<in> set (rule_lines r)"
  shows "NL \<notin> set l"
proof -
  obtain t ds cs where r: "r = (t, ds, cs)" by (cases r)
  have "NL \<notin> set (target_text t ds)" using parse_target_line(5) assms(1) unfolding r .
  moreover have "NL \<notin> set c" if "c \<in> set cs" for c
    using assms(1) that unfolding r good_rule_def good_command_def by fastforce
  ultimately show ?thesis using assms(2) by (auto simp: r rule_lines_def)
qed

lemma parse_makefile_ok:
  assumes G: "graph_lib G" and f: "files name = Some (makefile_text rs)"
    and rs: "rs \<noteq> []" "\<forall>r \<in> set rs. good_rule r" "length (concat (map rule_lines rs)) < 2 ^ 31"
    and goals: "set goals \<subseteq> names rs"
  obtains g rules where "parser_parse_makefile G files (Some name) goals = Inr (g, rules)"
    "\<And>v. g_contains_vertex G g v \<longleftrightarrow> v = [] \<or> v \<in> names rs"
    "\<And>v. v \<in> names rs \<Longrightarrow> \<exists>r. rules v = Some r \<and> rtarget r = Some v \<and> commands r = spec_commands rs v \<and> rstate r = 0"
    "\<And>v. v \<in> names rs \<Longrightarrow> set (g_neighbors G g v) = spec_deps rs v"
    "set (g_neighbors G g []) = (if goals = [] then {fst (hd rs)} else set goals)" "distinct (g_neighbors G g [])"
proof -
  note L = graph_libD [OF G]
  obtain s where s: "rfold (parse_line G) (map (\<lambda>l. l @ [NL]) (concat (map rule_lines rs))) (parser_start G) = Inr s"
    "parsed G rs s" using parsed_rules [OF G rs(2,3)] by blast
  have "\<forall>l \<in> set (concat (map rule_lines rs)). NL \<notin> set l" using rs(2) rule_lines_no_newline by auto
  then have gl: "getlines (makefile_text rs) = map (\<lambda>l. l @ [NL]) (concat (map rule_lines rs))"
    unfolding makefile_text_def by (rule getlines_lines)
  note P = parsedD [OF s(2)]
  obtain t ds cs rs' where hd: "rs = (t, ds, cs) # rs'" using rs(1) by (cases rs) auto
  have ft: "first_target s = Some t" "t \<in> names rs" using P(4) by (auto simp: hd names_def)
  define gs where "gs = (if goals = [] then [t] else goals)"
  have gs: "\<forall>v \<in> insert [] (set gs). g_contains_vertex G (dependency_graph s) v"
    using P(1) ft(2) goals by (auto simp: gs_def)
  obtain g where g: "rfold (add_goal G) gs (dependency_graph s) = Inr g"
    "\<And>v. g_contains_vertex G g v = g_contains_vertex G (dependency_graph s) v"
    "\<And>v. g_contains_vertex G (dependency_graph s) v \<Longrightarrow> set (g_neighbors G g v) =
      (if v = [] then set gs \<union> set (g_neighbors G (dependency_graph s) v) else set (g_neighbors G (dependency_graph s) v))"
    "distinct (g_neighbors G (dependency_graph s) []) \<longrightarrow> distinct (g_neighbors G g [])"
    using add_goals [OF G gs] by blast
  define rules where "rules = zero_out_states (g_vertices G g) (rule_map s)"
  have "[] \<notin> insert t (set ds)" if "(t, ds, cs) \<in> set rs" for t ds cs
    using bspec [OF rs(2) that] by (auto simp: good_rule_def good_word_def)
  then have "[] \<notin> names rs" by (auto simp: names_def)
  note ne = this spec_unnamed(1) [OF this]
  have picked: "(if goals = [] then (case first_target s of None \<Rightarrow> Inl (Exit 2) | Some t \<Rightarrow> Inr [t]) else Inr goals) = Inr gs"
    by (simp add: gs_def ft(1))
  show thesis
  proof (rule that [of g rules])
    show "parser_parse_makefile G files (Some name) goals = Inr (g, rules)"
      unfolding parser_parse_makefile_def by (simp add: open_makefile_def f gl s(1) picked g(1) rules_def)
    show "g_contains_vertex G g v \<longleftrightarrow> v = [] \<or> v \<in> names rs" for v using g(2) P(1) by simp
    show "\<exists>r. rules v = Some r \<and> rtarget r = Some v \<and> commands r = spec_commands rs v \<and> rstate r = 0" if v: "v \<in> names rs" for v
    proof -
      have "v \<in> set (g_vertices G g)" using L(7) g(2) P(1) v by simp
      moreover obtain r where "rule_map s v = Some r" "rtarget r = Some v" "commands r = spec_commands rs v"
        using P(2) [OF disjI2 [OF v]] by blast
      ultimately show ?thesis by (simp add: rules_def zero_out_states_def)
    qed
    show "set (g_neighbors G g v) = spec_deps rs v" if "v \<in> names rs" for v
      using g(3) [of v] P(1,3) [of v] that ne by (cases "v = []") simp_all
    show "set (g_neighbors G g []) = (if goals = [] then {fst (hd rs)} else set goals)"
      using g(3) [of "[]"] P(1,3) [of "[]"] ne by (simp add: gs_def hd)
    show "distinct (g_neighbors G g [])" using g(4) P(3) [of "[]"] ne by simp
  qed
qed

end
