(* ===== verification/MakeRun.thy ===== *)
theory MakeRun
  imports MakeParsing
begin

text \<open>
  \<open>parmake.c\<close> with one worker thread, which is the default (\<open>MakePool\<close> has any number): the search for cycles, the worker, and
  the main thread that waits for the mutexes of the goals. The operating system (modification
  times and \<open>system\<close>) is the parameter \<open>OS\<close>, with a world that commands change. The rule of a
  vertex is the value that the parser gave it.
\<close>

section \<open>Cycles\<close>

text \<open>
  \<open>hasCycle\<close> recurs along the edges; the first argument bounds the depth of the recursion. The
  second result is the vector \<open>visited\<close>, which keeps its elements when a cycle is found.
\<close>

fun hasCycle :: "nat \<Rightarrow> (string \<Rightarrow> string list) \<Rightarrow> string \<Rightarrow> string list \<Rightarrow> (bool \<times> string list) option"
  and hasCycle_neighbors :: "nat \<Rightarrow> (string \<Rightarrow> string list) \<Rightarrow> string list \<Rightarrow> string list \<Rightarrow> (bool \<times> string list) option"
where
  "hasCycle 0 nb dependency visited = None"
| "hasCycle (Suc n) nb dependency visited =
     (if dependency \<in> set visited then Some (True, visited)
      else case hasCycle_neighbors n nb (nb dependency) (visited @ [dependency]) of
        None \<Rightarrow> None
      | Some (True, visited) \<Rightarrow> Some (True, visited)
      | Some (False, visited) \<Rightarrow> Some (False, butlast visited))"
| "hasCycle_neighbors n nb [] visited = Some (False, visited)"
| "hasCycle_neighbors n nb (neighbor # ns) visited =
     (case hasCycle n nb neighbor visited of
        None \<Rightarrow> None
      | Some (True, visited) \<Rightarrow> Some (True, visited)
      | Some (False, visited) \<Rightarrow> hasCycle_neighbors n nb ns visited)"

definition edges :: "(string \<Rightarrow> string list) \<Rightarrow> (string \<times> string) set" where
  "edges nb = {(v, w). w \<in> set (nb v)}"

text \<open>A vertex from which a vertex that depends on itself, or one of \<open>A\<close>, is reached.\<close>

definition runs_into :: "(string \<Rightarrow> string list) \<Rightarrow> string set \<Rightarrow> string \<Rightarrow> bool" where
  "runs_into nb A d \<longleftrightarrow> (\<exists>v. (d, v) \<in> (edges nb)\<^sup>* \<and> (v \<in> A \<or> (v, v) \<in> (edges nb)\<^sup>+))"

lemma runs_into_step:
  assumes "d \<notin> A"
  shows "runs_into nb A d \<longleftrightarrow> (\<exists>w \<in> set (nb d). runs_into nb (insert d A) w)"
proof
  assume "runs_into nb A d"
  then obtain v where v: "(d, v) \<in> (edges nb)\<^sup>*" "v \<in> A \<or> (v, v) \<in> (edges nb)\<^sup>+" by (auto simp: runs_into_def)
  have "\<exists>v. (d, v) \<in> (edges nb)\<^sup>+ \<and> (v \<in> insert d A \<or> (v, v) \<in> (edges nb)\<^sup>+)"
    using v assms by (metis insertCI rtranclD)
  then obtain v w where "(d, w) \<in> edges nb" "(w, v) \<in> (edges nb)\<^sup>*" "v \<in> insert d A \<or> (v, v) \<in> (edges nb)\<^sup>+"
    by (meson tranclD)
  then show "\<exists>w \<in> set (nb d). runs_into nb (insert d A) w" by (auto simp: runs_into_def edges_def)
next
  assume "\<exists>w \<in> set (nb d). runs_into nb (insert d A) w"
  then obtain w v where w: "(d, w) \<in> edges nb" "(w, v) \<in> (edges nb)\<^sup>*" "v \<in> insert d A \<or> (v, v) \<in> (edges nb)\<^sup>+"
    by (auto simp: runs_into_def edges_def)
  then have dv: "(d, v) \<in> (edges nb)\<^sup>+" by (meson rtrancl_into_trancl2)
  then show "runs_into nb A d" using w(3) unfolding runs_into_def by (metis insertE rtrancl.rtrancl_refl trancl_into_rtrancl)
qed

text \<open>
  On a finite set of vertices that the edges stay in, the search ends at a depth below the number
  of vertices, and finds whether the vertex runs into a cycle or into the path so far.
\<close>

lemma runs_into_trans:
  "runs_into nb A d \<Longrightarrow> (\<And>v. v \<in> A \<Longrightarrow> runs_into nb B v) \<Longrightarrow> runs_into nb B d"
  unfolding runs_into_def by (metis rtrancl_trans)

lemma runs_into_trail:
  assumes "runs_into nb (set vis) d" and "x \<in> set (vis @ [d]) \<or> runs_into nb (set (vis @ [d])) x"
  shows "x \<in> set vis \<or> runs_into nb (set vis) x"
proof -
  have own: "runs_into nb (set vis) v" if "v \<in> set vis" for v using that by (auto simp: runs_into_def)
  have "runs_into nb (set vis) v" if "v \<in> set (vis @ [d])" for v using that own assms(1) by auto
  with assms(2) show ?thesis using runs_into_trans [of nb "set (vis @ [d])" x "set vis"] by blast
qed

lemma hasCycle_ok:
  assumes V: "finite V" "\<And>v. v \<in> V \<Longrightarrow> set (nb v) \<subseteq> V"
  shows "d \<in> V \<Longrightarrow> set vis \<subseteq> V \<Longrightarrow> card (V - set vis) < n \<Longrightarrow>
      \<exists>vis'. hasCycle n nb d vis = Some (runs_into nb (set vis) d, vis') \<and> set vis' \<subseteq> V \<and>
        (\<not> runs_into nb (set vis) d \<longrightarrow> vis' = vis) \<and> (\<forall>x \<in> set vis'. x \<in> set vis \<or> runs_into nb (set vis) x)"
    and "set ns \<subseteq> V \<Longrightarrow> set vis \<subseteq> V \<Longrightarrow> card (V - set vis) < n \<Longrightarrow>
      \<exists>vis'. hasCycle_neighbors n nb ns vis = Some (\<exists>w \<in> set ns. runs_into nb (set vis) w, vis') \<and> set vis' \<subseteq> V \<and>
        (\<not> (\<exists>w \<in> set ns. runs_into nb (set vis) w) \<longrightarrow> vis' = vis) \<and>
        (\<forall>x \<in> set vis'. x \<in> set vis \<or> runs_into nb (set vis) x)"
  using V
proof (induction n nb d vis and n nb ns vis rule: hasCycle_hasCycle_neighbors.induct)
  case (2 n nb d vis)
  show ?case
  proof (cases "d \<in> set vis")
    case True
    then have "runs_into nb (set vis) d" by (auto simp: runs_into_def)
    with True "2.prems"(2) show ?thesis by simp
  next
    case False
    have eq: "V - set vis = insert d (V - set (vis @ [d]))" using False "2.prems"(1) by auto
    have "finite (V - set (vis @ [d]))" "d \<notin> V - set (vis @ [d])" using "2.prems"(4) by simp_all
    then have "card (V - set vis) = Suc (card (V - set (vis @ [d])))"
      unfolding eq by (rule card_insert_disjoint)
    with "2.prems"(3) have "card (V - set (vis @ [d])) < n" by linarith
    from "2.IH" [OF False _ _ this "2.prems"(4,5)] "2.prems"(1,2,5) obtain vis' where
      h: "hasCycle_neighbors n nb (nb d) (vis @ [d]) = Some (\<exists>w \<in> set (nb d). runs_into nb (insert d (set vis)) w, vis')"
      "set vis' \<subseteq> V" "\<not> (\<exists>w \<in> set (nb d). runs_into nb (insert d (set vis)) w) \<longrightarrow> vis' = vis @ [d]"
      "\<forall>x \<in> set vis'. x \<in> set (vis @ [d]) \<or> runs_into nb (set (vis @ [d])) x"
      by auto
    show ?thesis
    proof (cases "\<exists>w \<in> set (nb d). runs_into nb (insert d (set vis)) w")
      case True
      then have d: "runs_into nb (set vis) d" by (simp add: runs_into_step [OF False])
      with h(4) have "\<forall>x \<in> set vis'. x \<in> set vis \<or> runs_into nb (set vis) x" using runs_into_trail by blast
      with True False d h(1,2) show ?thesis by simp
    next
      case no: False
      then have d: "\<not> runs_into nb (set vis) d" by (simp add: runs_into_step [OF False])
      with no False h(1,3) "2.prems"(2) show ?thesis by simp
    qed
  qed
next
  case (4 n nb w ns vis)
  have w: "w \<in> V" "set ns \<subseteq> V" using "4.prems"(1) by simp_all
  from "4.IH"(1) [OF w(1) "4.prems"(2-5)] obtain vis' where
    1: "hasCycle n nb w vis = Some (runs_into nb (set vis) w, vis')" "set vis' \<subseteq> V" "\<not> runs_into nb (set vis) w \<longrightarrow> vis' = vis"
    "\<forall>x \<in> set vis'. x \<in> set vis \<or> runs_into nb (set vis) x"
    by blast
  show ?case
  proof (cases "runs_into nb (set vis) w")
    case True
    with 1 show ?thesis by auto
  next
    case False
    with 1 have h: "hasCycle n nb w vis = Some (False, vis)" by simp
    from "4.IH"(2) [OF h refl refl w(2) "4.prems"(2-5)] obtain vis2 where
      "hasCycle_neighbors n nb ns vis = Some (\<exists>w \<in> set ns. runs_into nb (set vis) w, vis2)" "set vis2 \<subseteq> V"
      "\<not> (\<exists>w \<in> set ns. runs_into nb (set vis) w) \<longrightarrow> vis2 = vis"
      "\<forall>x \<in> set vis2. x \<in> set vis \<or> runs_into nb (set vis) x" by blast
    with h False show ?thesis by auto
  qed
qed simp_all

section \<open>The worker\<close>

text \<open>\<open>stat\<close> gives a modification time or fails, \<open>system\<close> a status and the world after the command.\<close>

record 'w os =
  os_stat :: "'w \<Rightarrow> string \<Rightarrow> int option"
  os_system :: "'w \<Rightarrow> string \<Rightarrow> int \<times> 'w"

definition get_modification_time :: "'w os \<Rightarrow> 'w \<Rightarrow> string \<Rightarrow> int" where
  "get_modification_time OS w filename = (case os_stat OS w filename of Some t \<Rightarrow> t | None \<Rightarrow> - 1)"

text \<open>The times are converted to \<open>int\<close>.\<close>

definition int_of_time :: "int \<Rightarrow> int" where
  "int_of_time t = (let v = t mod 2 ^ 32 in if v < 2 ^ 31 then v else v - 2 ^ 32)"

fun run_commands :: "'w os \<Rightarrow> string list \<Rightarrow> 'w \<Rightarrow> int \<times> 'w" where
  "run_commands OS [] w = (1, w)"
| "run_commands OS (c # cs) w =
     (let (res, w) = os_system OS w c in if res \<noteq> 0 then (- 1, w) else run_commands OS cs w)"

definition run_rule :: "'w os \<Rightarrow> rule_t \<Rightarrow> 'w \<Rightarrow> int \<times> 'w" where
  "run_rule OS rule w = run_commands OS (commands rule) w"

text \<open>
  The shared data: the queue, the vector of pending targets, the rules, the world, and which of
  the mutexes of the goals have been unlocked. The \<open>data\<close> of a rule is the number of its mutex.
\<close>

record 'w build =
  bqueue :: "string list"
  pending_targets :: "string list"
  brules :: "string \<Rightarrow> rule_t"
  bworld :: 'w
  unlocked :: "nat set"

definition bstate :: "'w build \<Rightarrow> string \<Rightarrow> int" where
  "bstate s v = rstate (brules s v)"

definition set_state :: "string \<Rightarrow> int \<Rightarrow> 'w build \<Rightarrow> 'w build" where
  "set_state v i s = s\<lparr>brules := (brules s)(v := (brules s v)\<lparr>rstate := i\<rparr>)\<rparr>"

definition queue_push :: "string \<Rightarrow> 'w build \<Rightarrow> 'w build" where
  "queue_push v s = s\<lparr>bqueue := bqueue s @ [v]\<rparr>"

text \<open>The loop over the dependencies, with its flags \<open>push_back_to_pending_q\<close> and \<open>failed\<close>.\<close>

fun scan_deps :: "string \<Rightarrow> string list \<Rightarrow> bool \<Rightarrow> bool \<Rightarrow> 'w build \<Rightarrow> bool \<times> bool \<times> 'w build" where
  "scan_deps t [] push_back failed s = (push_back, failed, s)"
| "scan_deps t (dep # deps) push_back failed s =
     (let push_back = push_back \<or> bstate s dep = 2 in
      if bstate s dep = 0 then scan_deps t deps True failed (queue_push dep (set_state dep 2 s))
      else if bstate s dep = - 1 then scan_deps t deps push_back True (set_state t (- 1) s)
      else scan_deps t deps push_back failed s)"

definition unlock_goal :: "string \<Rightarrow> 'w build \<Rightarrow> 'w build" where
  "unlock_goal t s = (case rdata (brules s t) of None \<Rightarrow> s | Some m \<Rightarrow> s\<lparr>unlocked := insert m (unlocked s)\<rparr>)"

text \<open>The pending targets go back into the queue, the last first.\<close>

definition flush_pending :: "'w build \<Rightarrow> 'w build" where
  "flush_pending s = s\<lparr>bqueue := bqueue s @ rev (pending_targets s), pending_targets := []\<rparr>"

definition newest_dep_modtime :: "'w os \<Rightarrow> 'w \<Rightarrow> string list \<Rightarrow> int" where
  "newest_dep_modtime OS w deps =
     fold (\<lambda>dep newest. let t = int_of_time (get_modification_time OS w dep) in if newest < t then t else newest) deps (- 1)"

definition build_target :: "'w os \<Rightarrow> string list \<Rightarrow> string \<Rightarrow> 'w build \<Rightarrow> 'w build" where
  "build_target OS deps t s =
     (let run = (let (st, w) = run_rule OS (brules s t) (bworld s) in set_state t st (s\<lparr>bworld := w\<rparr>));
          cur = int_of_time (get_modification_time OS (bworld s) t) in
      if cur \<noteq> - 1
      then let newest = newest_dep_modtime OS (bworld s) deps in
        if newest = - 1 then run else if cur < newest then run else set_state t 1 s
      else run)"

text \<open>One iteration of \<open>thread_func\<close>, for the target that \<open>queue_pull\<close> gave.\<close>

definition thread_iteration :: "(string \<Rightarrow> string list) \<Rightarrow> 'w os \<Rightarrow> string \<Rightarrow> 'w build \<Rightarrow> 'w build" where
  "thread_iteration nb OS t s =
     (let deps = nb t; (push_back, failed, s) = scan_deps t deps False False s in
      if failed then flush_pending (unlock_goal t s)
      else if push_back then s\<lparr>pending_targets := pending_targets s @ [t]\<rparr>
      else flush_pending (unlock_goal t (build_target OS deps t s)))"

text \<open>The worker, until the queue is empty and it blocks in \<open>queue_pull\<close>.\<close>

partial_function (option) thread_func :: "(string \<Rightarrow> string list) \<Rightarrow> 'w os \<Rightarrow> 'w build \<Rightarrow> 'w build option" where
  "thread_func nb OS s =
     (case bqueue s of [] \<Rightarrow> Some s | t # q \<Rightarrow> thread_func nb OS (thread_iteration nb OS t (s\<lparr>bqueue := q\<rparr>)))"

section \<open>The main thread\<close>

text \<open>
  The goals from which no cycle is reached are queued, each with the next mutex. \<open>depth\<close> bounds the
  search for cycles.
\<close>

fun queue_goals :: "nat \<Rightarrow> (string \<Rightarrow> string list) \<Rightarrow> string list \<Rightarrow> string list \<Rightarrow> nat \<Rightarrow> 'w build \<Rightarrow> (nat \<times> 'w build) option" where
  "queue_goals depth nb [] visited i s = Some (i, s)"
| "queue_goals depth nb (v # vs) visited i s =
     (case hasCycle depth nb v visited of
        None \<Rightarrow> None
      | Some (True, visited) \<Rightarrow> queue_goals depth nb vs visited i s
      | Some (False, visited) \<Rightarrow>
          queue_goals depth nb vs visited (i + 1)
            (queue_push v (s\<lparr>brules := (brules s)(v := (brules s v)\<lparr>rdata := Some i\<rparr>)\<rparr>)))"

text \<open>
  The first half of \<open>parmake\<close>: the neighbors, the number of goals, the number of locked mutexes,
  and the shared data. Every vertex has a rule; the rule for \<open>None\<close> is not used.
\<close>

definition start_build ::
  "'g graph_ops \<Rightarrow> nat \<Rightarrow> (string \<Rightarrow> string option) \<Rightarrow> string option \<Rightarrow> string list \<Rightarrow> 'w \<Rightarrow>
    ((string \<Rightarrow> string list) \<times> nat \<times> nat \<times> 'w build) result option" where
  "start_build G depth files makefile targets w =
     (case parser_parse_makefile G files makefile targets of
        Inl e \<Rightarrow> Some (Inl e)
      | Inr (g, rules) \<Rightarrow>
          let nb = g_neighbors G g;
              goals = (if targets = [] then nb [] else targets);
              s = \<lparr>bqueue = [], pending_targets = [], brules = (\<lambda>v. case rules v of None \<Rightarrow> rule_init | Some r \<Rightarrow> r), bworld = w, unlocked = {}\<rparr> in
          (case queue_goals depth nb goals [] 0 s of
             None \<Rightarrow> None
           | Some (locked, s) \<Rightarrow> Some (Inr (nb, length goals, locked, s))))"

text \<open>
  \<open>parmake\<close> with one worker: the main thread waits for every mutex it has locked; \<open>None\<close> when it waits
  forever, for the worker blocks on the empty queue.
\<close>

definition parmake ::
  "'g graph_ops \<Rightarrow> 'w os \<Rightarrow> nat \<Rightarrow> (string \<Rightarrow> string option) \<Rightarrow> string option \<Rightarrow> string list \<Rightarrow> 'w \<Rightarrow> (int \<times> 'w build) result option" where
  "parmake G OS depth files makefile targets w =
     (case start_build G depth files makefile targets w of
        None \<Rightarrow> None
      | Some (Inl e) \<Rightarrow> Some (Inl e)
      | Some (Inr (nb, target_count, locked, s)) \<Rightarrow>
          (case thread_func nb OS s of
             None \<Rightarrow> None
           | Some s \<Rightarrow> if {0..<locked} \<subseteq> unlocked s then Some (Inr (1, s)) else None))"

end
