(* ===== verification/MakeSched.thy ===== *)
theory MakeSched
  imports MakeRun
begin

text \<open>
  The worker of \<open>parmake.c\<close> on an acyclic graph: what an iteration does to the state of every
  vertex, the invariant of queue and pending targets, and that the worker drains both.
\<close>

section \<open>One iteration\<close>

text \<open>The state of a vertex after the loop over the dependencies of \<open>t\<close>.\<close>

definition scanned :: "string \<Rightarrow> string list \<Rightarrow> 'w build \<Rightarrow> string \<Rightarrow> int" where
  "scanned t deps s v =
     (if v = t then (if \<exists>d \<in> set deps. bstate s d = - 1 then - 1 else bstate s t)
      else if v \<in> set deps \<and> bstate s v = 0 then 2 else bstate s v)"

lemma bstate_simps [simp]:
  "bstate (set_state v i s) u = (if u = v then i else bstate s u)"
  "bstate (queue_push v s) u = bstate s u"
  "bstate (unlock_goal t s) u = bstate s u"
  "bstate (flush_pending s) u = bstate s u"
  "bstate (s\<lparr>bqueue := q\<rparr>) u = bstate s u"
  "bstate (s\<lparr>pending_targets := q\<rparr>) u = bstate s u"
  "bstate (s\<lparr>bworld := w\<rparr>) u = bstate s u"
  by (simp_all add: bstate_def set_state_def queue_push_def unlock_goal_def flush_pending_def split: option.splits)

lemma build_fields [simp]:
  "bqueue (set_state v i s) = bqueue s" "pending_targets (set_state v i s) = pending_targets s"
  "bworld (set_state v i s) = bworld s" "unlocked (set_state v i s) = unlocked s"
  "rdata (brules (set_state v i s) u) = rdata (brules s u)" "commands (brules (set_state v i s) u) = commands (brules s u)"
  "bqueue (queue_push v s) = bqueue s @ [v]" "pending_targets (queue_push v s) = pending_targets s"
  "bworld (queue_push v s) = bworld s" "unlocked (queue_push v s) = unlocked s" "brules (queue_push v s) = brules s"
  "bqueue (unlock_goal t s) = bqueue s" "pending_targets (unlock_goal t s) = pending_targets s"
  "bworld (unlock_goal t s) = bworld s" "brules (unlock_goal t s) = brules s"
  "unlocked (unlock_goal t s) = unlocked s \<union> set_option (rdata (brules s t))"
  "bqueue (flush_pending s) = bqueue s @ rev (pending_targets s)" "pending_targets (flush_pending s) = []"
  "bworld (flush_pending s) = bworld s" "unlocked (flush_pending s) = unlocked s" "brules (flush_pending s) = brules s"
  by (auto simp: set_state_def queue_push_def unlock_goal_def flush_pending_def split: option.splits)

lemma scan_deps_ok:
  assumes "t \<notin> set deps" and "scan_deps t deps push_back failed s = (push_back', failed', s')"
  shows "(\<exists>ns. bqueue s' = bqueue s @ ns \<and> distinct ns \<and> set ns = {d \<in> set deps. bstate s d = 0}) \<and>
    pending_targets s' = pending_targets s \<and> bworld s' = bworld s \<and> unlocked s' = unlocked s \<and>
    (\<forall>v. rdata (brules s' v) = rdata (brules s v) \<and> commands (brules s' v) = commands (brules s v)) \<and>
    (\<forall>v. bstate s' v = scanned t deps s v) \<and>
    (push_back' \<longleftrightarrow> push_back \<or> (\<exists>d \<in> set deps. bstate s d = 0 \<or> bstate s d = 2)) \<and>
    (failed' \<longleftrightarrow> failed \<or> (\<exists>d \<in> set deps. bstate s d = - 1))"
  using assms
proof (induction deps arbitrary: push_back failed s)
  case Nil
  then show ?case by (auto simp: scanned_def)
next
  case (Cons d deps)
  have td: "t \<noteq> d" "t \<notin> set deps" using Cons.prems(1) by auto
  consider "bstate s d = 0" | "bstate s d = - 1" | "bstate s d \<noteq> 0" "bstate s d \<noteq> - 1" by blast
  then show ?case
  proof cases
    case 1
    define s1 where "s1 = queue_push d (set_state d 2 s)"
    have "scan_deps t deps True failed s1 = (push_back', failed', s')" using Cons.prems(2) 1 by (simp add: s1_def)
    note IH = Cons.IH [OF td(2) this]
    have b: "bstate s1 v = (if v = d then 2 else bstate s v)" for v by (simp add: s1_def)
    from IH obtain ns where ns: "bqueue s' = bqueue s1 @ ns" "distinct ns" "set ns = {d \<in> set deps. bstate s1 d = 0}" by blast
    have "bqueue s' = bqueue s @ (d # ns) \<and> distinct (d # ns) \<and> set (d # ns) = {v \<in> set (d # deps). bstate s v = 0}"
      using ns 1 b by (auto simp: s1_def split: if_splits)
    moreover have "scanned t deps s1 v = scanned t (d # deps) s v" for v using 1 td by (auto simp: scanned_def b)
    ultimately show ?thesis using IH 1 b by (auto simp: s1_def split: if_splits)
  next
    case 2
    define s1 where "s1 = set_state t (- 1) s"
    have "scan_deps t deps push_back True s1 = (push_back', failed', s')" using Cons.prems(2) 2 by (simp add: s1_def)
    note IH = Cons.IH [OF td(2) this]
    have b: "bstate s1 v = (if v = t then - 1 else bstate s v)" for v by (simp add: s1_def)
    have eq: "{v \<in> set deps. bstate s1 v = 0} = {v \<in> set (d # deps). bstate s v = 0}" using 2 td by (auto simp: b)
    have "scanned t deps s1 v = scanned t (d # deps) s v" for v using 2 td by (auto simp: scanned_def b)
    moreover have ex: "(\<exists>e \<in> set deps. P (bstate s1 e)) \<longleftrightarrow> (\<exists>e \<in> set deps. P (bstate s e))" for P
      using td(2) by (intro bex_cong refl) (auto simp: b)
    ultimately show ?thesis using IH 2 td unfolding eq ex [of "\<lambda>i. i = 0 \<or> i = 2"] ex [of "\<lambda>i. i = - 1"]
      by (auto simp: s1_def split: if_splits)
  next
    case 3
    define pb where "pb = (push_back \<or> bstate s d = 2)"
    have "scan_deps t deps pb failed s = (push_back', failed', s')" using Cons.prems(2) 3 by (simp add: pb_def)
    note IH = Cons.IH [OF td(2) this]
    have eq: "{v \<in> set deps. bstate s v = 0} = {v \<in> set (d # deps). bstate s v = 0}" using 3 by auto
    have "scanned t deps s v = scanned t (d # deps) s v" for v using 3 by (auto simp: scanned_def)
    with IH 3 show ?thesis unfolding eq by (auto simp: pb_def)
  qed
qed

text \<open>A vertex counts as made when its commands have succeeded, or it was at least as new as its dependencies.\<close>

definition up_to_date :: "'w os \<Rightarrow> string list \<Rightarrow> string \<Rightarrow> 'w \<Rightarrow> bool" where
  "up_to_date OS deps t w \<longleftrightarrow>
     (let cur = int_of_time (get_modification_time OS w t); newest = newest_dep_modtime OS w deps in
      cur \<noteq> - 1 \<and> newest \<noteq> - 1 \<and> newest \<le> cur)"

lemma run_commands_status: "fst (run_commands OS cs w) = 1 \<or> fst (run_commands OS cs w) = - 1"
  by (induction cs arbitrary: w) (auto split: prod.splits)

lemma build_target_ok:
  "(let s' = build_target OS deps t s; w = bworld s in
     bqueue s' = bqueue s \<and> pending_targets s' = pending_targets s \<and> unlocked s' = unlocked s \<and>
     (\<forall>v. rdata (brules s' v) = rdata (brules s v) \<and> commands (brules s' v) = commands (brules s v)) \<and>
     (\<forall>v. v \<noteq> t \<longrightarrow> bstate s' v = bstate s v) \<and>
     (if up_to_date OS deps t w then bstate s' t = 1 \<and> bworld s' = w
      else bstate s' t = fst (run_commands OS (commands (brules s t)) w) \<and>
        bworld s' = snd (run_commands OS (commands (brules s t)) w)))"
  by (simp add: build_target_def up_to_date_def run_rule_def Let_def split: prod.splits)

section \<open>The invariant\<close>

text \<open>
  The vertices \<open>R\<close> that the goals \<open>gs\<close> need: finitely many, without cycles; no goal is listed
  twice, and none is a dependency of another.
\<close>

definition acyclic_goals :: "(string \<Rightarrow> string list) \<Rightarrow> string set \<Rightarrow> string list \<Rightarrow> bool" where
  "acyclic_goals nb R gs \<longleftrightarrow>
     finite R \<and> set gs \<subseteq> R \<and> distinct gs \<and>
     (\<forall>v \<in> R. set (nb v) \<subseteq> R \<and> set (nb v) \<inter> set gs = {} \<and> (v, v) \<notin> (edges nb)\<^sup>+)"

definition entries :: "'w build \<Rightarrow> string list" where
  "entries s = bqueue s @ pending_targets s"

definition made :: "'w os \<Rightarrow> (string \<Rightarrow> string list) \<Rightarrow> (string \<Rightarrow> string list) \<Rightarrow> string \<Rightarrow> bool" where
  "made OS nb C v \<longleftrightarrow> (\<exists>w. up_to_date OS (nb v) v w \<or> fst (run_commands OS (C v) w) = 1)"

definition broken :: "'w os \<Rightarrow> (string \<Rightarrow> string list) \<Rightarrow> string \<Rightarrow> bool" where
  "broken OS C v \<longleftrightarrow> (\<exists>w. fst (run_commands OS (C v) w) = - 1)"

text \<open>The states of the vertices agree with their dependencies and with what has been run.\<close>

definition states_ok where
  "states_ok OS nb R C (st :: string \<Rightarrow> int) \<longleftrightarrow>
     (\<forall>v \<in> R. st v \<in> {0, 1, 2, - 1} \<and>
       (st v = 1 \<longrightarrow> (\<forall>d \<in> set (nb v). st d = 1) \<and> made OS nb C v) \<and>
       (st v = - 1 \<longrightarrow> (\<exists>d \<in> set (nb v). st d = - 1) \<or> broken OS C v))"

text \<open>
  What is queued or pending is what has been claimed (state 2), and the goals not tried yet; each
  pending target waits for a claimed dependency; a goal that is decided has its mutex unlocked.
\<close>

definition sched_inv where
  "sched_inv OS nb R gs C (s :: 'w build) \<longleftrightarrow>
     distinct (entries s) \<and>
     set (entries s) = {v \<in> R. bstate s v = 2} \<union> {g \<in> set gs. bstate s g = 0} \<and>
     (\<forall>g \<in> set gs. bstate s g \<noteq> 2) \<and>
     (\<forall>x \<in> set (pending_targets s). \<exists>d \<in> set (nb x). bstate s d = 2) \<and>
     states_ok OS nb R C (bstate s) \<and>
     (\<forall>v \<in> R. commands (brules s v) = C v) \<and>
     (\<forall>i < length gs. rdata (brules s (gs ! i)) = Some i) \<and>
     (\<forall>i < length gs. bstate s (gs ! i) \<noteq> 0 \<longrightarrow> i \<in> unlocked s)"

lemmas sched_invD = sched_inv_def [THEN iffD1, THEN conjunct1]
  sched_inv_def [THEN iffD1, THEN conjunct2, THEN conjunct1]
  sched_inv_def [THEN iffD1, THEN conjunct2, THEN conjunct2, THEN conjunct1]
  sched_inv_def [THEN iffD1, THEN conjunct2, THEN conjunct2, THEN conjunct2, THEN conjunct1]
  sched_inv_def [THEN iffD1, THEN conjunct2, THEN conjunct2, THEN conjunct2, THEN conjunct2, THEN conjunct1]
  sched_inv_def [THEN iffD1, THEN conjunct2, THEN conjunct2, THEN conjunct2, THEN conjunct2, THEN conjunct2, THEN conjunct1]
  sched_inv_def [THEN iffD1, THEN conjunct2, THEN conjunct2, THEN conjunct2, THEN conjunct2, THEN conjunct2, THEN conjunct2, THEN conjunct1]
  sched_inv_def [THEN iffD1, THEN conjunct2, THEN conjunct2, THEN conjunct2, THEN conjunct2, THEN conjunct2, THEN conjunct2, THEN conjunct2]

text \<open>A change of states that keeps the decided ones, claims some, and decides others with reason.\<close>

lemma states_change:
  assumes "states_ok OS nb R C st" and keep: "\<And>d. st d = 1 \<or> st d = - 1 \<Longrightarrow> st' d = st d"
    and new: "\<And>v. v \<in> R \<Longrightarrow> st' v = st v \<or> st' v = 2 \<or>
      st' v = 1 \<and> (\<forall>d \<in> set (nb v). st' d = 1) \<and> made OS nb C v \<or>
      st' v = - 1 \<and> ((\<exists>d \<in> set (nb v). st' d = - 1) \<or> broken OS C v)"
  shows "states_ok OS nb R C st'"
  unfolding states_ok_def
proof (intro ballI)
  fix v assume v: "v \<in> R"
  from assms(1) v have old: "st v \<in> {0, 1, 2, - 1}" "st v = 1 \<Longrightarrow> (\<forall>d \<in> set (nb v). st d = 1) \<and> made OS nb C v"
    "st v = - 1 \<Longrightarrow> (\<exists>d \<in> set (nb v). st d = - 1) \<or> broken OS C v" by (auto simp: states_ok_def)
  show "st' v \<in> {0, 1, 2, - 1} \<and> (st' v = 1 \<longrightarrow> (\<forall>d \<in> set (nb v). st' d = 1) \<and> made OS nb C v) \<and>
      (st' v = - 1 \<longrightarrow> (\<exists>d \<in> set (nb v). st' d = - 1) \<or> broken OS C v)"
    using new [OF v]
  proof (elim disjE)
    assume e: "st' v = st v"
    have "\<forall>d \<in> set (nb v). st' d = 1" if "st v = 1" using old(2) [OF that] keep by simp
    moreover have "(\<exists>d \<in> set (nb v). st' d = - 1) \<or> broken OS C v" if "st v = - 1" using old(3) [OF that] keep by metis
    ultimately show ?thesis using e old by simp
  qed simp_all
qed

section \<open>The iteration keeps the invariant\<close>

definition todo_order :: "(nat \<times> nat \<times> nat) rel" where
  "todo_order = less_than <*lex*> less_than <*lex*> less_than"

definition todo :: "string set \<Rightarrow> 'w build \<Rightarrow> nat \<times> nat \<times> nat" where
  "todo R s = (card {v \<in> R. bstate s v = 0 \<or> bstate s v = 2}, card {v \<in> R. bstate s v = 0}, length (bqueue s))"

lemma todo_decided:
  assumes "finite R" "t \<in> R" "bstate s t = 0 \<or> bstate s t = 2" "bstate s' t = 1 \<or> bstate s' t = - 1"
    and "\<And>v. v \<in> R \<Longrightarrow> bstate s' v = 0 \<or> bstate s' v = 2 \<Longrightarrow> bstate s v = 0 \<or> bstate s v = 2"
  shows "(todo R s', todo R s) \<in> todo_order"
proof -
  have "{v \<in> R. bstate s' v = 0 \<or> bstate s' v = 2} \<subseteq> {v \<in> R. bstate s v = 0 \<or> bstate s v = 2}"
    using assms(5) by blast
  moreover have "t \<in> {v \<in> R. bstate s v = 0 \<or> bstate s v = 2}" "t \<notin> {v \<in> R. bstate s' v = 0 \<or> bstate s' v = 2}"
    using assms(2-4) by auto
  ultimately have "{v \<in> R. bstate s' v = 0 \<or> bstate s' v = 2} \<subset> {v \<in> R. bstate s v = 0 \<or> bstate s v = 2}"
    by blast
  then have "card {v \<in> R. bstate s' v = 0 \<or> bstate s' v = 2} < card {v \<in> R. bstate s v = 0 \<or> bstate s v = 2}"
    using assms(1) by (intro psubset_card_mono) simp_all
  then show ?thesis by (simp add: todo_def todo_order_def)
qed

lemma goal_index: "t \<in> set gs \<Longrightarrow> \<exists>i < length gs. gs ! i = t"
  by (simp add: in_set_conv_nth)

text \<open>The target \<open>t\<close> has been decided, with the mutex unlocked and the pending targets queued again.\<close>

lemma decided_inv:
  assumes G: "acyclic_goals nb R gs" and I: "sched_inv OS nb R gs C s" and q: "bqueue s = t # q"
    and Q: "set (bqueue s' ) = set q \<union> set (pending_targets s) \<union> {d \<in> set (nb t). bstate s d = 0}"
      "distinct (bqueue s')" "pending_targets s' = []"
    and st: "\<And>v. bstate s' v = (if v = t then i else if v \<in> set (nb t) \<and> bstate s v = 0 then 2 else bstate s v)"
    and i: "i = 1 \<and> (\<forall>d \<in> set (nb t). bstate s d = 1) \<and> made OS nb C t \<or>
      i = - 1 \<and> ((\<exists>d \<in> set (nb t). bstate s d = - 1) \<or> broken OS C t)"
    and same: "\<And>v. rdata (brules s' v) = rdata (brules s v)" "\<And>v. commands (brules s' v) = commands (brules s v)"
      "unlocked s' = unlocked s \<union> set_option (rdata (brules s t))"
  shows "sched_inv OS nb R gs C s' \<and> (todo R s', todo R s) \<in> todo_order \<and> (\<forall>v. v \<notin> R \<longrightarrow> bstate s' v = bstate s v)"
proof -
  note I = sched_invD [OF I]
  have dist: "distinct (t # q @ pending_targets s)" and ent: "insert t (set q \<union> set (pending_targets s)) =
      {v \<in> R. bstate s v = 2} \<union> {g \<in> set gs. bstate s g = 0}"
    using I(1,2) q by (auto simp: entries_def)
  have t: "t \<in> R" "bstate s t = 0 \<or> bstate s t = 2" using ent G by (auto simp: acyclic_goals_def)
  have tt: "t \<notin> set (nb t)" using G t(1) by (auto simp: acyclic_goals_def edges_def)
  have nbR: "set (nb t) \<subseteq> R" "set (nb t) \<inter> set gs = {}" using G t(1) by (auto simp: acyclic_goals_def)
  have i01: "i = 1 \<or> i = - 1" using i by blast
  have keep: "bstate s' d = bstate s d" if "bstate s d = 1 \<or> bstate s d = - 1" for d using that t(2) by (auto simp: st)
  have "states_ok OS nb R C (bstate s')"
  proof (rule states_change [OF I(5)])
    show "bstate s' d = bstate s d" if "bstate s d = 1 \<or> bstate s d = - 1" for d by (rule keep [OF that])
    show "bstate s' v = bstate s v \<or> bstate s' v = 2 \<or>
        bstate s' v = 1 \<and> (\<forall>d \<in> set (nb v). bstate s' d = 1) \<and> made OS nb C v \<or>
        bstate s' v = - 1 \<and> ((\<exists>d \<in> set (nb v). bstate s' d = - 1) \<or> broken OS C v)" if "v \<in> R" for v
    proof (cases "v = t")
      case True
      have "i = 1 \<and> (\<forall>d \<in> set (nb t). bstate s' d = 1) \<and> made OS nb C t \<or>
          i = - 1 \<and> ((\<exists>d \<in> set (nb t). bstate s' d = - 1) \<or> broken OS C t)"
        using i keep by metis
      moreover have "bstate s' t = i" by (simp add: st)
      ultimately show ?thesis unfolding True by blast
    qed (simp add: st)
  qed
  moreover have "set (bqueue s') = {v \<in> R. bstate s' v = 2} \<union> {g \<in> set gs. bstate s' g = 0}"
  proof -
    have "t \<notin> set q \<union> set (pending_targets s)" using dist by simp
    then have "set q \<union> set (pending_targets s) = ({v \<in> R. bstate s v = 2} \<union> {g \<in> set gs. bstate s g = 0}) - {t}"
      using ent by blast
    with Q(1) have "set (bqueue s') = {v \<in> R. bstate s v = 2} \<union> {g \<in> set gs. bstate s g = 0} - {t} \<union> {d \<in> set (nb t). bstate s d = 0}"
      by simp
    moreover have "{v \<in> R. bstate s' v = 2} = {v \<in> R. bstate s v = 2} - {t} \<union> {d \<in> set (nb t). bstate s d = 0}"
      using nbR(1) i01 tt by (auto simp: st)
    moreover have "{g \<in> set gs. bstate s' g = 0} = {g \<in> set gs. bstate s g = 0} - {t}"
      using nbR(2) i01 by (auto simp: st)
    ultimately show ?thesis by blast
  qed
  moreover have "\<forall>g \<in> set gs. bstate s' g \<noteq> 2" using I(3) i01 nbR(2) by (auto simp: st)
  moreover have "j \<in> unlocked s'" if "j < length gs" "bstate s' (gs ! j) \<noteq> 0" for j
  proof (cases "gs ! j = t")
    case True
    then show ?thesis using I(7) that(1) same(3) by auto
  next
    case False
    moreover have "gs ! j \<notin> set (nb t)" using nbR(2) that(1) by (meson disjoint_iff nth_mem)
    ultimately show ?thesis using I(8) that same(3) by (simp add: st)
  qed
  ultimately have "sched_inv OS nb R gs C s'"
    using Q(2,3) I(6,7) same(1,2) by (simp add: sched_inv_def entries_def)
  moreover have "(todo R s', todo R s) \<in> todo_order"
  proof (rule todo_decided)
    show "finite R" using G by (simp add: acyclic_goals_def)
    show "t \<in> R" "bstate s t = 0 \<or> bstate s t = 2" by fact+
    show "bstate s' t = 1 \<or> bstate s' t = - 1" using i01 by (simp add: st)
    show "bstate s v = 0 \<or> bstate s v = 2" if "v \<in> R" "bstate s' v = 0 \<or> bstate s' v = 2" for v
      using that(2) i01 by (auto simp: st split: if_splits)
  qed
  moreover have "\<forall>v. v \<notin> R \<longrightarrow> bstate s' v = bstate s v" using t(1) nbR(1) by (auto simp: st)
  ultimately show ?thesis by blast
qed

text \<open>The target waits for dependencies that it has claimed, or that were claimed before.\<close>

lemma waiting_inv:
  assumes G: "acyclic_goals nb R gs" and I: "sched_inv OS nb R gs C s" and q: "bqueue s = t # q"
    and Q: "bqueue s' = q @ ns" "distinct ns" "set ns = {d \<in> set (nb t). bstate s d = 0}"
      "pending_targets s' = pending_targets s @ [t]"
    and st: "\<And>v. bstate s' v = (if v \<noteq> t \<and> v \<in> set (nb t) \<and> bstate s v = 0 then 2 else bstate s v)"
    and w: "\<exists>d \<in> set (nb t). bstate s d = 0 \<or> bstate s d = 2"
    and same: "\<And>v. rdata (brules s' v) = rdata (brules s v)" "\<And>v. commands (brules s' v) = commands (brules s v)"
      "unlocked s' = unlocked s"
  shows "sched_inv OS nb R gs C s' \<and> (todo R s', todo R s) \<in> todo_order \<and> (\<forall>v. v \<notin> R \<longrightarrow> bstate s' v = bstate s v)"
proof -
  note I = sched_invD [OF I]
  have dist: "distinct (t # q @ pending_targets s)" and ent: "insert t (set q \<union> set (pending_targets s)) =
      {v \<in> R. bstate s v = 2} \<union> {g \<in> set gs. bstate s g = 0}"
    using I(1,2) q by (auto simp: entries_def)
  have t: "t \<in> R" "bstate s t = 0 \<or> bstate s t = 2" using ent G by (auto simp: acyclic_goals_def)
  have tt: "t \<notin> set (nb t)" using G t(1) by (auto simp: acyclic_goals_def edges_def)
  have nbR: "set (nb t) \<subseteq> R" "set (nb t) \<inter> set gs = {}" "finite R" using G t(1) by (auto simp: acyclic_goals_def)
  have new: "set ns \<inter> insert t (set q \<union> set (pending_targets s)) = {}" using Q(3) ent nbR(2) by auto
  have "states_ok OS nb R C (bstate s')"
    by (rule states_change [OF I(5)]) (auto simp: st)
  moreover have "distinct (entries s')" using dist Q(1,2,4) new by (auto simp: entries_def)
  moreover have "set (entries s') = {v \<in> R. bstate s' v = 2} \<union> {g \<in> set gs. bstate s' g = 0}"
  proof -
    have "set (entries s') = insert t (set q \<union> set (pending_targets s)) \<union> set ns" using Q(1,4) by (auto simp: entries_def)
    then show ?thesis unfolding ent Q(3) using nbR tt by (auto simp: st)
  qed
  moreover have "\<forall>g \<in> set gs. bstate s' g \<noteq> 2" using I(3) nbR(2) by (auto simp: st)
  moreover have "\<exists>d \<in> set (nb x). bstate s' d = 2" if "x \<in> set (pending_targets s')" for x
  proof (cases "x = t")
    case True
    then show ?thesis using w tt by (auto simp: st)
  next
    case False
    then show ?thesis using I(4) that Q(4) by (auto simp: st)
  qed
  moreover have "\<forall>j < length gs. bstate s' (gs ! j) \<noteq> 0 \<longrightarrow> j \<in> unlocked s'"
    using I(8) nbR(2) same(3) by (auto simp: st split: if_splits)
  ultimately have "sched_inv OS nb R gs C s'" using I(6,7) same(1,2) by (simp add: sched_inv_def)
  moreover have "(todo R s', todo R s) \<in> todo_order"
  proof (cases "ns = []")
    case True
    then have "bstate s' v = bstate s v" for v using Q(3) by (auto simp: st)
    then show ?thesis using True Q(1) q by (simp add: todo_def todo_order_def)
  next
    case False
    then obtain d where "d \<in> set ns" by (meson last_in_set)
    then have d: "d \<in> set (nb t)" "bstate s d = 0" using Q(3) by auto
    then have "{v \<in> R. bstate s' v = 0} \<subset> {v \<in> R. bstate s v = 0}" using nbR(1) tt by (auto simp: st split: if_splits)
    then have "card {v \<in> R. bstate s' v = 0} < card {v \<in> R. bstate s v = 0}"
      using nbR(3) by (intro psubset_card_mono) simp_all
    moreover have "{v \<in> R. bstate s' v = 0 \<or> bstate s' v = 2} = {v \<in> R. bstate s v = 0 \<or> bstate s v = 2}"
      by (auto simp: st split: if_splits)
    ultimately show ?thesis by (simp add: todo_def todo_order_def)
  qed
  moreover have "\<forall>v. v \<notin> R \<longrightarrow> bstate s' v = bstate s v" using t(1) nbR(1) by (auto simp: st)
  ultimately show ?thesis by blast
qed

end
