(* ===== verification/MakeWorker.thy ===== *)
theory MakeWorker
  imports MakeSched
begin

text \<open>
  The worker of \<open>parmake.c\<close> from the first goal to the empty queue: every iteration keeps the
  invariant and has less to do, and when the queue is empty nothing is pending.
\<close>

lemma thread_iteration_ok:
  assumes G: "acyclic_goals nb R gs" and I: "sched_inv OS nb R gs C s" and q: "bqueue s = t # q"
  shows "sched_inv OS nb R gs C (thread_iteration nb OS t (s\<lparr>bqueue := q\<rparr>)) \<and>
    (todo R (thread_iteration nb OS t (s\<lparr>bqueue := q\<rparr>)), todo R s) \<in> todo_order \<and>
    (\<forall>v. v \<notin> R \<longrightarrow> bstate (thread_iteration nb OS t (s\<lparr>bqueue := q\<rparr>)) v = bstate s v)"
proof -
  define s0 where "s0 = s\<lparr>bqueue := q\<rparr>"
  have s0: "bqueue s0 = q" "pending_targets s0 = pending_targets s" "unlocked s0 = unlocked s" "brules s0 = brules s"
    "bstate s0 v = bstate s v" for v by (simp_all add: s0_def)
  note J = sched_invD [OF I]
  have dist: "distinct (t # q @ pending_targets s)" and ent: "insert t (set q \<union> set (pending_targets s)) =
      {v \<in> R. bstate s v = 2} \<union> {g \<in> set gs. bstate s g = 0}"
    using J(1,2) q by (auto simp: entries_def)
  have t: "t \<in> R" "bstate s t = 0 \<or> bstate s t = 2" using ent G by (auto simp: acyclic_goals_def)
  have tt: "t \<notin> set (nb t)" using G t(1) by (auto simp: acyclic_goals_def edges_def)
  have nbR: "set (nb t) \<subseteq> R" "set (nb t) \<inter> set gs = {}" using G t(1) by (auto simp: acyclic_goals_def)
  obtain push_back failed s1 where scan: "scan_deps t (nb t) False False s0 = (push_back, failed, s1)"
    by (metis prod_cases3)
  from scan_deps_ok [OF tt scan] obtain ns where
    ns: "bqueue s1 = q @ ns" "distinct ns" "set ns = {d \<in> set (nb t). bstate s d = 0}" and
    p: "pending_targets s1 = pending_targets s" "unlocked s1 = unlocked s" and
    r: "\<And>v. rdata (brules s1 v) = rdata (brules s v)" "\<And>v. commands (brules s1 v) = commands (brules s v)" and
    st: "\<And>v. bstate s1 v = scanned t (nb t) s0 v" and
    pb: "push_back \<longleftrightarrow> (\<exists>d \<in> set (nb t). bstate s d = 0 \<or> bstate s d = 2)" and
    fl: "failed \<longleftrightarrow> (\<exists>d \<in> set (nb t). bstate s d = - 1)"
    unfolding s0 by auto
  have new: "set ns \<inter> insert t (set q \<union> set (pending_targets s)) = {}" using ns(3) ent nbR(2) by auto
  have it: "thread_iteration nb OS t (s\<lparr>bqueue := q\<rparr>) =
      (if failed then flush_pending (unlock_goal t s1)
       else if push_back then s1\<lparr>pending_targets := pending_targets s1 @ [t]\<rparr>
       else flush_pending (unlock_goal t (build_target OS (nb t) t s1)))"
    using scan by (simp add: thread_iteration_def s0_def Let_def)
  consider (failed) failed | (waits) "\<not> failed" push_back | (build) "\<not> failed" "\<not> push_back" by blast
  then show ?thesis
  proof cases
    case failed
    then have eq: "thread_iteration nb OS t (s\<lparr>bqueue := q\<rparr>) = flush_pending (unlock_goal t s1)" by (simp add: it)
    show ?thesis unfolding eq
    proof (rule decided_inv [OF G I q, where i = "- 1"])
      show "bstate (flush_pending (unlock_goal t s1)) v =
          (if v = t then - 1 else if v \<in> set (nb t) \<and> bstate s v = 0 then 2 else bstate s v)" for v
        using fl failed by (simp add: st scanned_def s0)
    qed (use ns p r dist new fl failed in auto)
  next
    case waits
    then have eq: "thread_iteration nb OS t (s\<lparr>bqueue := q\<rparr>) = s1\<lparr>pending_targets := pending_targets s1 @ [t]\<rparr>" by (simp add: it)
    show ?thesis unfolding eq
    proof (rule waiting_inv [OF G I q, where ns = ns])
      show "bstate (s1\<lparr>pending_targets := pending_targets s1 @ [t]\<rparr>) v =
          (if v \<noteq> t \<and> v \<in> set (nb t) \<and> bstate s v = 0 then 2 else bstate s v)" for v
        using fl waits(1) by (auto simp: st scanned_def s0)
    qed (use ns p r pb waits in auto)
  next
    case build
    define s2 where "s2 = build_target OS (nb t) t s1"
    have eq: "thread_iteration nb OS t (s\<lparr>bqueue := q\<rparr>) = flush_pending (unlock_goal t s2)" using build by (simp add: it s2_def)
    note B = build_target_ok [where OS = OS and deps = "nb t" and t = t and s = s1, folded s2_def, unfolded Let_def]
    have ones: "\<forall>d \<in> set (nb t). bstate s d = 1"
    proof
      fix d assume d: "d \<in> set (nb t)"
      then have "d \<in> R" using nbR(1) by blast
      then have "bstate s d \<in> {0, 1, 2, - 1}" using J(5) by (simp add: states_ok_def)
      then show "bstate s d = 1" using fl pb build d by auto
    qed
    have empty: "ns = []" using ns(3) ones by (metis (mono_tags, lifting) empty_Collect_eq set_empty zero_neq_one)
    have "commands (brules s1 t) = C t" using J(6) t(1) r(2) by simp
    then have i: "bstate s2 t = 1 \<and> (\<forall>d \<in> set (nb t). bstate s d = 1) \<and> made OS nb C t \<or>
        bstate s2 t = - 1 \<and> ((\<exists>d \<in> set (nb t). bstate s d = - 1) \<or> broken OS C t)"
      using B ones run_commands_status [of OS "C t" "bworld s1"] unfolding made_def broken_def
      by (metis (full_types))
    show ?thesis unfolding eq
    proof (rule decided_inv [OF G I q, where i = "bstate s2 t"])
      show "bstate (flush_pending (unlock_goal t s2)) v =
          (if v = t then bstate s2 t else if v \<in> set (nb t) \<and> bstate s v = 0 then 2 else bstate s v)" for v
        using B ones by (auto simp: st scanned_def s0)
    qed (use ns p r dist new B i ones empty in auto)
  qed
qed

section \<open>Draining the queue\<close>

text \<open>The dependency relation of the vertices that the goals need is well-founded.\<close>

lemma dependency_wf:
  assumes "acyclic_goals nb R gs"
  shows "wf {(v, u). v \<in> R \<and> u \<in> R \<and> v \<in> set (nb u)}"
proof (rule finite_acyclic_wf)
  define E where "E = {(v, u). v \<in> R \<and> u \<in> R \<and> v \<in> set (nb u)}"
  have "E \<subseteq> R \<times> R" "finite R" using assms by (auto simp: E_def acyclic_goals_def)
  then show "finite E" by (meson finite_SigmaI finite_subset)
  show "acyclic E"
  proof (rule acyclicI, intro allI notI)
    fix x assume x: "(x, x) \<in> E\<^sup>+"
    then have "(x, x) \<in> ((edges nb)\<inverse>)\<^sup>+" by (rule trancl_mono) (auto simp: E_def edges_def)
    then have "(x, x) \<in> (edges nb)\<^sup>+" by (simp add: trancl_converse)
    moreover have "x \<in> R" using x by (auto simp: E_def dest: tranclD)
    ultimately show False using assms by (auto simp: acyclic_goals_def)
  qed
qed

lemma nothing_pending:
  assumes G: "acyclic_goals nb R gs" and I: "sched_inv OS nb R gs C s" and q: "bqueue s = []"
  shows "pending_targets s = []"
proof (rule ccontr)
  assume ne: "pending_targets s \<noteq> []"
  note J = sched_invD [OF I]
  have pend: "set (pending_targets s) = {v \<in> R. bstate s v = 2} \<union> {g \<in> set gs. bstate s g = 0}"
    using J(2) q by (simp add: entries_def)
  define E where "E = {(v, u). v \<in> R \<and> u \<in> R \<and> v \<in> set (nb u)}"
  have "wf E" unfolding E_def by (rule dependency_wf [OF G])
  obtain x where x: "x \<in> set (pending_targets s)" "\<And>y. (y, x) \<in> E \<Longrightarrow> y \<notin> set (pending_targets s)"
    using wfE_min [OF \<open>wf E\<close>, of "hd (pending_targets s)" "set (pending_targets s)"] ne by (metis list.set_sel(1))
  have xR: "x \<in> R" using x(1) pend G by (auto simp: acyclic_goals_def)
  obtain d where d: "d \<in> set (nb x)" "bstate s d = 2" using J(4) x(1) by blast
  moreover have "d \<in> R" using d(1) xR G by (auto simp: acyclic_goals_def)
  ultimately show False using x(2) [of d] pend xR by (simp add: E_def)
qed

lemma worker_drains:
  assumes G: "acyclic_goals nb R gs" and I: "sched_inv OS nb R gs C s"
  shows "\<exists>s'. thread_func nb OS s = Some s' \<and> sched_inv OS nb R gs C s' \<and> entries s' = [] \<and>
    (\<forall>v. v \<notin> R \<longrightarrow> bstate s' v = bstate s v)"
proof -
  have "wf todo_order" by (simp add: todo_order_def wf_lex_prod)
  then show ?thesis using I
  proof (induction "todo R s" arbitrary: s rule: wf_induct_rule)
    case (less s)
  show ?case
  proof (cases "bqueue s")
    case Nil
    with nothing_pending [OF G less.prems] have "entries s = []" by (simp add: entries_def)
    with Nil less.prems show ?thesis by (subst thread_func.simps) simp
  next
    case (Cons t q)
    note it = thread_iteration_ok [OF G less.prems Cons]
    then obtain s' where "thread_func nb OS (thread_iteration nb OS t (s\<lparr>bqueue := q\<rparr>)) = Some s' \<and>
      sched_inv OS nb R gs C s' \<and> entries s' = [] \<and>
      (\<forall>v. v \<notin> R \<longrightarrow> bstate s' v = bstate (thread_iteration nb OS t (s\<lparr>bqueue := q\<rparr>)) v)" using less.hyps by blast
    with Cons it show ?thesis by (subst thread_func.simps) simp
  qed
  qed
qed

text \<open>Then every goal is decided, and what the decision means is known down to its last dependency.\<close>

lemma made_down:
  assumes "acyclic_goals nb R gs" "states_ok OS nb R C st" "(v, u) \<in> (edges nb)\<^sup>*" "v \<in> R" "st v = 1"
  shows "u \<in> R \<and> st u = 1 \<and> made OS nb C u"
  using assms(3)
proof (induction rule: rtrancl_induct)
  case base
  then show ?case using assms by (simp add: states_ok_def)
next
  case (step u x)
  then have "x \<in> set (nb u)" by (simp add: edges_def)
  then have "x \<in> R" "st x = 1" using step.IH assms(1,2) by (auto simp: acyclic_goals_def states_ok_def)
  then show ?case using assms(2) by (simp add: states_ok_def)
qed

lemma broken_below:
  assumes G: "acyclic_goals nb R gs" and S: "states_ok OS nb R C st" and v: "v \<in> R" "st v = - 1"
  shows "\<exists>u. (v, u) \<in> (edges nb)\<^sup>* \<and> broken OS C u"
  using v
proof (induction v rule: wf_induct_rule [OF dependency_wf [OF G]])
  case (1 v)
  then consider d where "d \<in> set (nb v)" "st d = - 1" | "broken OS C v" using S by (auto simp: states_ok_def)
  then show ?case
  proof cases
    case 1
    moreover have "d \<in> R" using 1 \<open>v \<in> R\<close> G by (auto simp: acyclic_goals_def)
    ultimately obtain u where "(d, u) \<in> (edges nb)\<^sup>*" "broken OS C u" using "1.IH" \<open>v \<in> R\<close> by blast
    moreover have "(v, d) \<in> edges nb" using 1 by (simp add: edges_def)
    ultimately show ?thesis by (meson converse_rtrancl_into_rtrancl)
  qed blast
qed

end
