(* ===== verification/MakeProps.thy ===== *)
theory MakeProps
  imports MakeWorker
begin

text \<open>
  What \<open>parmake\<close> does with a makefile, in terms of the rules that are written in it: every goal
  without cycles is decided, and the goals with cycles are left alone.
\<close>

section \<open>Makefiles as graphs\<close>

definition depends :: "mrule list \<Rightarrow> (string \<times> string) set" where
  "depends rs = {(v, w). w \<in> spec_deps rs v}"

definition cyclic :: "mrule list \<Rightarrow> string \<Rightarrow> bool" where
  "cyclic rs v \<longleftrightarrow> (\<exists>u. (v, u) \<in> (depends rs)\<^sup>* \<and> (u, u) \<in> (depends rs)\<^sup>+)"

definition goals_of :: "mrule list \<Rightarrow> string list \<Rightarrow> string list" where
  "goals_of rs targets = (if targets = [] then [fst (hd rs)] else targets)"

definition vertex_made :: "'w os \<Rightarrow> mrule list \<Rightarrow> string \<Rightarrow> bool" where
  "vertex_made OS rs v \<longleftrightarrow> (\<exists>ds w. set ds = spec_deps rs v \<and>
     (up_to_date OS ds v w \<or> fst (run_commands OS (spec_commands rs v) w) = 1))"

text \<open>Two relations that agree on a set that the first does not leave.\<close>

lemma agree_rtrancl:
  assumes "\<And>v w. v \<in> V \<Longrightarrow> (v, w) \<in> A \<longleftrightarrow> (v, w) \<in> B" and "\<And>v w. v \<in> V \<Longrightarrow> (v, w) \<in> A \<Longrightarrow> w \<in> V" and "d \<in> V"
  shows "(d, v) \<in> A\<^sup>* \<longleftrightarrow> (d, v) \<in> B\<^sup>*" "(d, v) \<in> A\<^sup>* \<Longrightarrow> v \<in> V" "(d, v) \<in> A\<^sup>+ \<longleftrightarrow> (d, v) \<in> B\<^sup>+"
proof -
  have there: "v \<in> V \<and> (d, v) \<in> B\<^sup>*" if "(d, v) \<in> A\<^sup>*" for v
    using that assms by (induction rule: rtrancl_induct) (auto intro: rtrancl_into_rtrancl)
  have fro: "v \<in> V \<and> (d, v) \<in> A\<^sup>*" if "(d, v) \<in> B\<^sup>*" for v
    using that assms by (induction rule: rtrancl_induct) (auto intro: rtrancl_into_rtrancl)
  show "(d, v) \<in> A\<^sup>* \<longleftrightarrow> (d, v) \<in> B\<^sup>*" using there fro by blast
  show "v \<in> V" if "(d, v) \<in> A\<^sup>*" using there that by blast
  show "(d, v) \<in> A\<^sup>+ \<longleftrightarrow> (d, v) \<in> B\<^sup>+"
  proof
    assume "(d, v) \<in> A\<^sup>+"
    then obtain u where "(d, u) \<in> A\<^sup>*" "(u, v) \<in> A" by (meson tranclD2)
    with there [of u] assms(1) show "(d, v) \<in> B\<^sup>+" by (meson rtrancl_into_trancl1)
  next
    assume "(d, v) \<in> B\<^sup>+"
    then obtain u where "(d, u) \<in> B\<^sup>*" "(u, v) \<in> B" by (meson tranclD2)
    with fro [of u] assms(1) show "(d, v) \<in> A\<^sup>+" by (meson rtrancl_into_trancl1)
  qed
qed

section \<open>Queueing the goals\<close>

lemma queue_goals_ok:
  assumes V: "finite V" "\<And>v. v \<in> V \<Longrightarrow> set (nb v) \<subseteq> V" and depth: "card V < depth"
  shows "set vs \<subseteq> V \<Longrightarrow> set visited \<subseteq> {v \<in> V. runs_into nb {} v} \<Longrightarrow>
    \<exists>s'. queue_goals depth nb vs visited i s = Some (i + length (filter (\<lambda>v. \<not> runs_into nb {} v) vs), s') \<and>
      bqueue s' = bqueue s @ filter (\<lambda>v. \<not> runs_into nb {} v) vs \<and> pending_targets s' = pending_targets s \<and>
      unlocked s' = unlocked s \<and> bworld s' = bworld s \<and> (\<forall>v. bstate s' v = bstate s v) \<and>
      (\<forall>v. commands (brules s' v) = commands (brules s v)) \<and>
      (\<forall>v. v \<notin> set (filter (\<lambda>v. \<not> runs_into nb {} v) vs) \<longrightarrow> rdata (brules s' v) = rdata (brules s v)) \<and>
      (distinct vs \<longrightarrow> (\<forall>j < length (filter (\<lambda>v. \<not> runs_into nb {} v) vs).
         rdata (brules s' (filter (\<lambda>v. \<not> runs_into nb {} v) vs ! j)) = Some (i + j)))"
proof (induction vs arbitrary: visited i s)
  case (Cons v vs)
  have v: "v \<in> V" "set visited \<subseteq> V" "set vs \<subseteq> V" using Cons.prems by auto
  have "card (V - set visited) \<le> card V" using V(1) by (intro card_mono) auto
  then have c: "card (V - set visited) < depth" using depth by linarith
  have eq: "runs_into nb (set visited) u \<longleftrightarrow> runs_into nb {} u" for u
  proof
    assume "runs_into nb (set visited) u"
    then show "runs_into nb {} u" by (rule runs_into_trans) (use Cons.prems(2) in auto)
  qed (auto simp: runs_into_def)
  obtain visited' where
    h: "hasCycle depth nb v visited = Some (runs_into nb {} v, visited')" "set visited' \<subseteq> V"
    "\<not> runs_into nb {} v \<longrightarrow> visited' = visited" "\<forall>x \<in> set visited'. x \<in> set visited \<or> runs_into nb {} x"
    using hasCycle_ok(1) [of V nb v visited depth] V v(1,2) c unfolding eq by blast
  have vis': "set visited' \<subseteq> {v \<in> V. runs_into nb {} v}" using h(2,4) Cons.prems(2) by auto
  show ?case
  proof (cases "runs_into nb {} v")
    case True
    from Cons.IH [OF v(3) vis', of i s] obtain s' where IH:
      "queue_goals depth nb vs visited' i s = Some (i + length (filter (\<lambda>v. \<not> runs_into nb {} v) vs), s')"
      "bqueue s' = bqueue s @ filter (\<lambda>v. \<not> runs_into nb {} v) vs" "pending_targets s' = pending_targets s"
      "unlocked s' = unlocked s" "bworld s' = bworld s" "\<forall>v. bstate s' v = bstate s v"
      "\<forall>v. commands (brules s' v) = commands (brules s v)"
      "\<forall>v. v \<notin> set (filter (\<lambda>v. \<not> runs_into nb {} v) vs) \<longrightarrow> rdata (brules s' v) = rdata (brules s v)"
      "distinct vs \<longrightarrow> (\<forall>j < length (filter (\<lambda>v. \<not> runs_into nb {} v) vs).
         rdata (brules s' (filter (\<lambda>v. \<not> runs_into nb {} v) vs ! j)) = Some (i + j))" by blast
    have "queue_goals depth nb (v # vs) visited i s = queue_goals depth nb vs visited' i s" using h(1) True by simp
    with IH True show ?thesis by simp
  next
    case False
    define s1 where "s1 = queue_push v (s\<lparr>brules := (brules s)(v := (brules s v)\<lparr>rdata := Some i\<rparr>)\<rparr>)"
    have s1: "bqueue s1 = bqueue s @ [v]" "pending_targets s1 = pending_targets s" "unlocked s1 = unlocked s"
      "bworld s1 = bworld s" "bstate s1 u = bstate s u" "commands (brules s1 u) = commands (brules s u)"
      "rdata (brules s1 u) = (if u = v then Some i else rdata (brules s u))" for u
      by (simp_all add: s1_def bstate_def)
    from Cons.IH [OF v(3) vis', of "i + 1" s1] obtain s' where IH:
      "queue_goals depth nb vs visited' (i + 1) s1 = Some (i + 1 + length (filter (\<lambda>v. \<not> runs_into nb {} v) vs), s')"
      "bqueue s' = bqueue s1 @ filter (\<lambda>v. \<not> runs_into nb {} v) vs" "pending_targets s' = pending_targets s1"
      "unlocked s' = unlocked s1" "bworld s' = bworld s1" "\<forall>v. bstate s' v = bstate s1 v"
      "\<forall>v. commands (brules s' v) = commands (brules s1 v)"
      "\<forall>v. v \<notin> set (filter (\<lambda>v. \<not> runs_into nb {} v) vs) \<longrightarrow> rdata (brules s' v) = rdata (brules s1 v)"
      "distinct vs \<longrightarrow> (\<forall>j < length (filter (\<lambda>v. \<not> runs_into nb {} v) vs).
         rdata (brules s' (filter (\<lambda>v. \<not> runs_into nb {} v) vs ! j)) = Some (i + 1 + j))" by blast
    have q: "queue_goals depth nb (v # vs) visited i s = queue_goals depth nb vs visited' (i + 1) s1"
      using h(1) False by (simp add: s1_def)
    have "rdata (brules s' ((v # filter (\<lambda>v. \<not> runs_into nb {} v) vs) ! j)) = Some (i + j)"
      if "j < Suc (length (filter (\<lambda>v. \<not> runs_into nb {} v) vs))" "distinct (v # vs)" for j
      using that IH(8,9) s1(7) by (cases j) simp_all
    with IH q False s1 show ?thesis by simp
  qed
qed simp

section \<open>The graph of a makefile\<close>

lemma set_eq_singleton_distinct: "distinct xs \<Longrightarrow> set xs = {x} \<longleftrightarrow> xs = [x]"
  by (cases xs) (auto simp: subset_singleton_iff)

lemma spec_deps_named: "spec_deps rs v \<subseteq> names rs"
  by (force simp: spec_deps_def names_def split: if_splits)

lemma goals_named: "rs \<noteq> [] \<Longrightarrow> set targets \<subseteq> names rs \<Longrightarrow> set (goals_of rs targets) \<subseteq> names rs"
  by (cases rs) (auto simp: goals_of_def names_def)

text \<open>Neighbors that are what the rules say: paths are chains of dependencies.\<close>

definition lists_deps :: "mrule list \<Rightarrow> (string \<Rightarrow> string list) \<Rightarrow> bool" where
  "lists_deps rs nb \<longleftrightarrow> (\<forall>v \<in> names rs. set (nb v) = spec_deps rs v)"

lemma lists_depsD:
  assumes "lists_deps rs nb" and "d \<in> names rs"
  shows "set (nb d) \<subseteq> names rs" "(d, v) \<in> (edges nb)\<^sup>* \<longleftrightarrow> (d, v) \<in> (depends rs)\<^sup>*"
    "(d, v) \<in> (edges nb)\<^sup>* \<Longrightarrow> v \<in> names rs" "(d, v) \<in> (edges nb)\<^sup>+ \<longleftrightarrow> (d, v) \<in> (depends rs)\<^sup>+"
proof -
  have closed: "set (nb v) \<subseteq> names rs" if "v \<in> names rs" for v
    using assms(1) that spec_deps_named unfolding lists_deps_def by metis
  then show "set (nb d) \<subseteq> names rs" using assms(2) .
  have A: "v \<in> names rs \<Longrightarrow> (v, u) \<in> edges nb \<longleftrightarrow> (v, u) \<in> depends rs"
    "v \<in> names rs \<Longrightarrow> (v, u) \<in> edges nb \<Longrightarrow> u \<in> names rs" for v u
    using assms(1) closed by (auto simp: edges_def depends_def lists_deps_def)
  show "(d, v) \<in> (edges nb)\<^sup>* \<longleftrightarrow> (d, v) \<in> (depends rs)\<^sup>*" "(d, v) \<in> (edges nb)\<^sup>* \<Longrightarrow> v \<in> names rs"
    "(d, v) \<in> (edges nb)\<^sup>+ \<longleftrightarrow> (d, v) \<in> (depends rs)\<^sup>+"
    using agree_rtrancl [of "names rs" "edges nb" "depends rs" d v] A assms(2) by blast+
qed

lemma runs_into_cyclic:
  assumes "lists_deps rs nb" and "v \<in> names rs"
  shows "runs_into nb {} v \<longleftrightarrow> cyclic rs v"
  unfolding runs_into_def cyclic_def
  using lists_depsD(2,3) [OF assms] lists_depsD(4) [OF assms(1)] by (metis empty_iff)

text \<open>The goals without cycles, when none is a dependency of another, with all that they need.\<close>

lemma acyclic_goals_needed:
  assumes nb: "lists_deps rs nb" and gs: "set gs \<subseteq> names rs" "distinct gs" "\<And>g. g \<in> set gs \<Longrightarrow> \<not> cyclic rs g"
    and indep: "\<And>g h. g \<in> set gs \<Longrightarrow> h \<in> set gs \<Longrightarrow> (g, h) \<notin> (depends rs)\<^sup>+"
    and R: "R = {v. \<exists>h \<in> set gs. (h, v) \<in> (edges nb)\<^sup>*}"
  shows "acyclic_goals nb R gs" "R \<subseteq> names rs" "v \<in> R \<Longrightarrow> \<not> cyclic rs v"
proof -
  have Rn: "v \<in> names rs" "\<not> runs_into nb {} v" if v: "v \<in> R" for v
  proof -
    obtain h where h: "h \<in> set gs" "(h, v) \<in> (edges nb)\<^sup>*" using v by (auto simp: R)
    then show "v \<in> names rs" using lists_depsD(3) [OF nb] gs(1) by blast
    have "\<not> runs_into nb {} h" using runs_into_cyclic [OF nb] gs h(1) by blast
    then show "\<not> runs_into nb {} v" using h(2) unfolding runs_into_def by (auto dest: rtrancl_trans)
  qed
  then show "R \<subseteq> names rs" by blast
  show "\<not> cyclic rs v" if "v \<in> R" using Rn [OF that] runs_into_cyclic [OF nb] by blast
  show "acyclic_goals nb R gs"
    unfolding acyclic_goals_def
  proof (intro conjI ballI)
    have "finite (names rs)" by (auto simp: names_def)
    then show "finite R" using Rn(1) by (meson finite_subset subsetI)
    show "set gs \<subseteq> R" by (auto simp: R)
    show "distinct gs" by fact
    fix v assume v: "v \<in> R"
    show "set (nb v) \<subseteq> R" using v by (auto simp: R edges_def intro: rtrancl_into_rtrancl)
    show "(v, v) \<notin> (edges nb)\<^sup>+" using Rn(2) [OF v] by (auto simp: runs_into_def)
    obtain h where h: "h \<in> set gs" "(h, v) \<in> (edges nb)\<^sup>*" using v by (auto simp: R)
    show "set (nb v) \<inter> set gs = {}"
    proof (rule ccontr)
      assume "set (nb v) \<inter> set gs \<noteq> {}"
      then obtain g where g: "g \<in> set gs" "(v, g) \<in> edges nb" by (auto simp: edges_def)
      then have "(h, g) \<in> (edges nb)\<^sup>+" using h(2) by (meson rtrancl_into_trancl1)
      then show False using indep [OF h(1) g(1)] lists_depsD(4) [OF nb, of h g] gs(1) h(1) by blast
    qed
  qed
qed

section \<open>What the main thread sets up\<close>

text \<open>The parser leaves the \<open>data\<close> of every rule \<open>NULL\<close>.\<close>

definition no_data :: "rules \<Rightarrow> bool" where
  "no_data rules \<longleftrightarrow> (\<forall>v r. rules v = Some r \<longrightarrow> rdata r = None)"

lemma add_vertex_no_data: "no_data (rule_map s) \<Longrightarrow> no_data (rule_map (add_vertex G v s))"
  by (simp add: no_data_def add_vertex_def str_to_rule_constructor_def rule_init_def)

lemma parse_line_no_data:
  assumes "parse_line G raw s = Inr s'" and n: "no_data (rule_map s)"
  shows "no_data (rule_map s')"
proof -
  have recipe: "no_data (rule_map b)" if "recipe_line l a = Inr b" "no_data (rule_map a)" for l a b
    using that by (auto simp: recipe_line_def no_data_def Let_def split: option.splits if_splits)
  have dep: "no_data (rule_map (add_dependency G t d a))" if "no_data (rule_map a)" for t d a
    using that by (simp add: add_dependency_def Let_def add_vertex_no_data)
  have deps: "no_data (rule_map (fold (add_dependency G t) ds a))" if "no_data (rule_map a)" for t ds a
    using that dep by (induction ds arbitrary: a) simp_all
  have target: "no_data (rule_map b)" if "target_line G l a = Inr b" "no_data (rule_map a)" for l a b
    using that by (auto simp: target_line_def Let_def add_vertex_no_data intro!: deps split: if_splits)
  show ?thesis
    using assms(1) n recipe target
    by (force simp: parse_line_def Let_def split: if_splits)
qed

lemma parser_no_data:
  assumes "parser_parse_makefile G files name goals = Inr (g, rules)"
  shows "no_data rules"
proof -
  obtain input s where s: "rfold (parse_line G) (getlines input) (parser_start G) = Inr s"
    and rules: "\<exists>vs. rules = zero_out_states vs (rule_map s)"
    using assms by (auto simp: parser_parse_makefile_def rbind_eq_Inr)
  have "no_data (rule_map (parser_start G))" unfolding parser_start_def by (rule add_vertex_no_data) (simp add: no_data_def)
  then have "no_data (rule_map s)" using rfold_invariant [OF s, of "\<lambda>s. no_data (rule_map s)"] parse_line_no_data by blast
  then show ?thesis using rules by (auto simp: no_data_def zero_out_states_def split: if_splits)
qed

text \<open>No vertex has a neighbor twice.\<close>

definition simple_graph :: "'g graph_ops \<Rightarrow> 'g \<Rightarrow> bool" where
  "simple_graph G g \<longleftrightarrow> g_contains_vertex G g [] \<and> (\<forall>v. g_contains_vertex G g v \<longrightarrow> distinct (g_neighbors G g v))"

lemma simple_set_vertex:
  assumes lib: "graph_lib G" and "simple_graph G g"
  shows "simple_graph G (g_set_vertex G g v)"
  using assms(2)
  unfolding simple_graph_def using graph_libD(2-4) [OF lib] by (metis distinct.simps(1))

lemma simple_add_edge:
  assumes lib: "graph_lib G" and "simple_graph G g" and "g_contains_vertex G g s" and "g_contains_vertex G g t"
  shows "simple_graph G (g_add_edge G g s t)"
  using assms(2-4)
  unfolding simple_graph_def using graph_libD(5,8) [OF lib] by metis

lemma simple_add_dependency:
  assumes lib: "graph_lib G" and "simple_graph G (dependency_graph s)" and "g_contains_vertex G (dependency_graph s) t"
  shows "simple_graph G (dependency_graph (add_dependency G t d s)) \<and> g_contains_vertex G (dependency_graph (add_dependency G t d s)) t"
proof -
  define s1 where "s1 = (if g_contains_vertex G (dependency_graph s) d then s else add_vertex G d s)"
  have s1: "simple_graph G (dependency_graph s1)" "g_contains_vertex G (dependency_graph s1) t" "g_contains_vertex G (dependency_graph s1) d"
    using assms(2,3) simple_set_vertex [OF lib] graph_libD(2) [OF lib] by (auto simp: s1_def add_vertex_def)
  have "dependency_graph (add_dependency G t d s) = g_add_edge G (dependency_graph s1) t d"
    by (simp add: add_dependency_def s1_def Let_def)
  then show ?thesis using simple_add_edge [OF lib s1] graph_libD(5) [OF lib s1(2,3), of t] s1(2) by simp
qed

lemma simple_parse_line:
  assumes lib: "graph_lib G" and "parse_line G raw s = Inr s'" and s: "simple_graph G (dependency_graph s)"
  shows "simple_graph G (dependency_graph s')"
proof -
  have recipe: "dependency_graph b = dependency_graph a" if "recipe_line l a = Inr b" for l a b
    using that by (auto simp: recipe_line_def Let_def split: option.splits)
  have deps: "simple_graph G (dependency_graph (fold (add_dependency G t) ds a))"
    if "simple_graph G (dependency_graph a)" "g_contains_vertex G (dependency_graph a) t" for t ds a
    using that simple_add_dependency [OF lib] by (induction ds arbitrary: a) simp_all
  have target: "simple_graph G (dependency_graph b)" if "target_line G l a = Inr b" "simple_graph G (dependency_graph a)" for l a b
    using that simple_set_vertex [OF lib] graph_libD(2) [OF lib]
    by (auto simp: target_line_def add_vertex_def Let_def intro!: deps split: if_splits)
  show ?thesis
    using assms(2) s recipe target by (force simp: parse_line_def Let_def split: if_splits)
qed

lemma simple_add_goals:
  assumes lib: "graph_lib G" and "rfold (add_goal G) gs g = Inr g'" and "simple_graph G g"
  shows "simple_graph G g'"
proof (rule rfold_invariant [OF assms(2), of "simple_graph G"])
  show "simple_graph G b" if "add_goal G t a = Inr b" "simple_graph G a" for t a b
    using that simple_add_edge [OF lib] by (auto simp: add_goal_def simple_graph_def split: if_splits)
qed (rule assms(3))

lemma parser_simple:
  assumes lib: "graph_lib G" and "parser_parse_makefile G files name goals = Inr (g, rules)"
  shows "simple_graph G g"
proof -
  obtain input s gs where s: "rfold (parse_line G) (getlines input) (parser_start G) = Inr s"
    and g: "rfold (add_goal G) gs (dependency_graph s) = Inr g"
    using assms(2) by (auto simp: parser_parse_makefile_def rbind_eq_Inr)
  have "simple_graph G (dependency_graph (parser_start G))"
    using graph_libD(1,2,4) [OF lib] by (auto simp: parser_start_def add_vertex_def simple_graph_def)
  then have "simple_graph G (dependency_graph s)"
    using rfold_invariant [OF s, of "\<lambda>s. simple_graph G (dependency_graph s)"] simple_parse_line [OF lib] by blast
  then show ?thesis by (rule simple_add_goals [OF lib g])
qed

text \<open>Before the worker runs, the goals without cycles are queued and the \<open>data\<close> of no other rule is set.\<close>

lemma parmake_setup:
  assumes "graph_lib G" and "files name = Some (makefile_text rs)"
    and "rs \<noteq> []" "\<forall>r \<in> set rs. good_rule r" "length (concat (map rule_lines rs)) < 2 ^ 31"
    and targets: "set targets \<subseteq> names rs" and depth: "card (names rs) < depth"
    and gs: "gs = filter (\<lambda>v. \<not> cyclic rs v) (goals_of rs targets)"
  obtains nb s where "lists_deps rs nb \<and> (\<forall>v \<in> names rs. distinct (nb v))"
    "start_build G depth files (Some name) targets w = Some (Inr (nb, length (goals_of rs targets), length gs, s))"
    "parmake G OS depth files (Some name) targets w =
      (case thread_func nb OS s of
         None \<Rightarrow> None
       | Some s \<Rightarrow> if {0..<length gs} \<subseteq> unlocked s then Some (Inr (1, s)) else None)"
    "bqueue s = gs" "pending_targets s = []" "unlocked s = {}" "bworld s = w"
    "\<And>v. v \<in> names rs \<Longrightarrow> bstate s v = 0 \<and> commands (brules s v) = spec_commands rs v"
    "\<And>v. v \<notin> set gs \<Longrightarrow> rdata (brules s v) = None"
    "\<And>j. distinct (goals_of rs targets) \<Longrightarrow> j < length gs \<Longrightarrow> rdata (brules s (gs ! j)) = Some j"
proof -
  obtain g rules where P: "parser_parse_makefile G files (Some name) targets = Inr (g, rules)"
    "\<And>v. v \<in> names rs \<Longrightarrow> \<exists>r. rules v = Some r \<and> rtarget r = Some v \<and> commands r = spec_commands rs v \<and> rstate r = 0"
    "\<And>v. v \<in> names rs \<Longrightarrow> set (g_neighbors G g v) = spec_deps rs v"
    "set (g_neighbors G g []) = (if targets = [] then {fst (hd rs)} else set targets)" "distinct (g_neighbors G g [])"
    "\<And>v. g_contains_vertex G g v \<longleftrightarrow> v = [] \<or> v \<in> names rs"
    by (rule parse_makefile_ok [of G files name rs targets]) (use assms(1-6) in auto)
  define nb where "nb = g_neighbors G g"
  define s0 where "s0 = \<lparr>bqueue = [], pending_targets = [],
    brules = (\<lambda>v. case rules v of None \<Rightarrow> rule_init | Some r \<Rightarrow> r), bworld = w, unlocked = {}\<rparr>"
  have nb: "lists_deps rs nb" by (simp add: lists_deps_def nb_def P(3))
  have simple: "\<forall>v \<in> names rs. distinct (nb v)"
    using parser_simple [OF assms(1) P(1)] P(6) by (simp add: simple_graph_def nb_def)
  have fin: "finite (names rs)" by (auto simp: names_def)
  note goals = goals_named [OF assms(3) targets]
  have eq: "filter (\<lambda>v. \<not> runs_into nb {} v) (goals_of rs targets) = gs"
    unfolding gs using runs_into_cyclic [OF nb] goals by (intro filter_cong refl) auto
  obtain s1 where q: "queue_goals depth nb (goals_of rs targets) [] 0 s0 = Some (0 + length gs, s1)" "bqueue s1 = bqueue s0 @ gs"
    "pending_targets s1 = pending_targets s0" "unlocked s1 = unlocked s0" "bworld s1 = bworld s0" "\<forall>v. bstate s1 v = bstate s0 v"
    "\<forall>v. commands (brules s1 v) = commands (brules s0 v)" "\<forall>v. v \<notin> set gs \<longrightarrow> rdata (brules s1 v) = rdata (brules s0 v)"
    "distinct (goals_of rs targets) \<longrightarrow> (\<forall>j < length gs. rdata (brules s1 (gs ! j)) = Some (0 + j))"
    using queue_goals_ok [of "names rs" nb depth "goals_of rs targets" "[]" 0 s0] fin lists_depsD(1) [OF nb] depth goals
    unfolding eq by auto
  have picked: "(if targets = [] then nb [] else targets) = goals_of rs targets"
    using P(4,5) by (auto simp: goals_of_def nb_def set_eq_singleton_distinct)
  have q0: "queue_goals depth nb (goals_of rs targets) [] 0 s0 = Some (length gs, s1)" using q(1) by simp
  have start: "start_build G depth files (Some name) targets w = Some (Inr (nb, length (goals_of rs targets), length gs, s1))"
    unfolding start_build_def P(1) sum.case prod.case Let_def nb_def [symmetric] s0_def [symmetric] picked q0 option.case ..
  show thesis
  proof (rule that [OF conjI [OF nb simple] start])
    show "parmake G OS depth files (Some name) targets w =
        (case thread_func nb OS s1 of
           None \<Rightarrow> None
         | Some s \<Rightarrow> if {0..<length gs} \<subseteq> unlocked s then Some (Inr (1, s)) else None)"
      unfolding parmake_def start by simp
    show "bqueue s1 = gs" "pending_targets s1 = []" "unlocked s1 = {}" "bworld s1 = w" using q(2-5) by (simp_all add: s0_def)
    show "bstate s1 v = 0 \<and> commands (brules s1 v) = spec_commands rs v" if "v \<in> names rs" for v
      using P(2) [OF that] q(6,7) by (auto simp: s0_def bstate_def)
    show "rdata (brules s1 v) = None" if "v \<notin> set gs" for v
      using that q(8) parser_no_data [OF P(1)] by (auto simp: s0_def no_data_def rule_init_def split: option.splits)
    show "rdata (brules s1 (gs ! j)) = Some j" if "distinct (goals_of rs targets)" "j < length gs" for j
      using q(9) that by simp
  qed
qed

section \<open>Every goal is decided\<close>

text \<open>From the queued goals, with all that they need, the worker decides every goal.\<close>

lemma worker_decides:
  assumes G: "acyclic_goals nb R gs" and s: "bqueue s = gs" "pending_targets s = []" "\<And>v. v \<in> R \<Longrightarrow> bstate s v = 0"
    and C: "\<And>v. v \<in> R \<Longrightarrow> commands (brules s v) = C v" and d: "\<And>j. j < length gs \<Longrightarrow> rdata (brules s (gs ! j)) = Some j"
  shows "\<exists>s'. thread_func nb OS s = Some s' \<and> {0..<length gs} \<subseteq> unlocked s' \<and> (\<forall>v. v \<notin> R \<longrightarrow> bstate s' v = bstate s v) \<and>
    (\<forall>g \<in> set gs. bstate s' g = 1 \<and> (\<forall>v. (g, v) \<in> (edges nb)\<^sup>* \<longrightarrow> made OS nb C v) \<or>
      bstate s' g = - 1 \<and> (\<exists>v. (g, v) \<in> (edges nb)\<^sup>* \<and> broken OS C v))"
proof -
  have gs: "distinct gs" "set gs \<subseteq> R" using G by (simp_all add: acyclic_goals_def)
  have "sched_inv OS nb R gs C s"
    unfolding sched_inv_def states_ok_def
  proof (intro conjI ballI allI impI)
    show "set (entries s) = {v \<in> R. bstate s v = 2} \<union> {g \<in> set gs. bstate s g = 0}" using gs s by (auto simp: entries_def)
    show "bstate s (gs ! i) \<noteq> 0 \<Longrightarrow> i \<in> unlocked s" if "i < length gs" for i
      using s(3) [of "gs ! i"] gs(2) that nth_mem by auto
  qed (use gs s C d in \<open>auto simp: entries_def\<close>)
  from worker_drains [OF G this] obtain s' where
    s': "thread_func nb OS s = Some s'" "sched_inv OS nb R gs C s'" "entries s' = []" "\<forall>v. v \<notin> R \<longrightarrow> bstate s' v = bstate s v"
    by auto
  note J = sched_invD [OF s'(2)]
  have decided: "bstate s' g = 1 \<or> bstate s' g = - 1" if "g \<in> set gs" for g
  proof -
    have "bstate s' g \<noteq> 0" using J(2) s'(3) that by auto
    moreover have "bstate s' g \<noteq> 2" using J(3) that by blast
    moreover have "bstate s' g \<in> {0, 1, 2, - 1}" using J(5) gs(2) that unfolding states_ok_def by blast
    ultimately show ?thesis by auto
  qed
  have "j \<in> unlocked s'" if "j < length gs" for j
    using J(8) that decided [of "gs ! j"] by fastforce
  moreover have "bstate s' g = 1 \<and> (\<forall>v. (g, v) \<in> (edges nb)\<^sup>* \<longrightarrow> made OS nb C v) \<or>
      bstate s' g = - 1 \<and> (\<exists>v. (g, v) \<in> (edges nb)\<^sup>* \<and> broken OS C v)" if g: "g \<in> set gs" for g
    using decided [OF g] made_down [OF G J(5), of g] broken_below [OF G J(5), of g] gs(2) g by blast
  ultimately show ?thesis using s'(1,4) by auto
qed

lemma goals_decided:
  assumes "graph_lib G" and "files name = Some (makefile_text rs)"
    and "rs \<noteq> []" "\<forall>r \<in> set rs. good_rule r" "length (concat (map rule_lines rs)) < 2 ^ 31"
    and "set targets \<subseteq> names rs" "distinct targets"
    and "\<forall>g \<in> set (goals_of rs targets). \<forall>h \<in> set (goals_of rs targets). cyclic rs g \<or> (g, h) \<notin> (depends rs)\<^sup>+"
    and "card (names rs) < depth"
  shows "\<exists>s. parmake G OS depth files (Some name) targets w = Some (Inr (1, s)) \<and>
    (\<forall>g \<in> set (goals_of rs targets).
       if cyclic rs g then bstate s g = 0
       else bstate s g = 1 \<and> (\<forall>v. (g, v) \<in> (depends rs)\<^sup>* \<longrightarrow> vertex_made OS rs v) \<or>
         bstate s g = - 1 \<and> (\<exists>v. (g, v) \<in> (depends rs)\<^sup>* \<and> broken OS (spec_commands rs) v))"
proof -
  define gs where "gs = filter (\<lambda>v. \<not> cyclic rs v) (goals_of rs targets)"
  obtain nb s0 where nb: "lists_deps rs nb \<and> (\<forall>v \<in> names rs. distinct (nb v))" and
    pm: "parmake G OS depth files (Some name) targets w =
      (case thread_func nb OS s0 of
         None \<Rightarrow> None
       | Some s \<Rightarrow> if {0..<length gs} \<subseteq> unlocked s then Some (Inr (1, s)) else None)" and
    s0: "bqueue s0 = gs" "pending_targets s0 = []" "unlocked s0 = {}"
    "\<And>v. v \<in> names rs \<Longrightarrow> bstate s0 v = 0 \<and> commands (brules s0 v) = spec_commands rs v"
    "\<And>j. distinct (goals_of rs targets) \<Longrightarrow> j < length gs \<Longrightarrow> rdata (brules s0 (gs ! j)) = Some j"
    by (rule parmake_setup [where G = G and files = files and name = name and OS = OS and w = w, OF assms(1-6,9) gs_def]) (rule that; assumption)
  note nb = nb [THEN conjunct1]
  have dist: "distinct (goals_of rs targets)" using assms(7) by (simp add: goals_of_def)
  note goals = goals_named [OF assms(3,6)]
  define R where "R = {v. \<exists>h \<in> set gs. (h, v) \<in> (edges nb)\<^sup>*}"
  have G: "acyclic_goals nb R gs" "R \<subseteq> names rs" and Rc: "v \<in> R \<Longrightarrow> \<not> cyclic rs v" for v
  proof -
    have 1: "set gs \<subseteq> names rs" "distinct gs" "\<And>g. g \<in> set gs \<Longrightarrow> \<not> cyclic rs g"
      using goals dist by (auto simp: gs_def)
    have 2: "(g, h) \<notin> (depends rs)\<^sup>+" if "g \<in> set gs" "h \<in> set gs" for g h
      using assms(8) that by (auto simp: gs_def)
    note needed = acyclic_goals_needed [OF nb 1 2 R_def]
    show "acyclic_goals nb R gs" "R \<subseteq> names rs" "v \<in> R \<Longrightarrow> \<not> cyclic rs v" by (rule needed; assumption)+
  qed
  obtain s where s: "thread_func nb OS s0 = Some s" "{0..<length gs} \<subseteq> unlocked s" "\<forall>v. v \<notin> R \<longrightarrow> bstate s v = bstate s0 v"
    "\<forall>g \<in> set gs. bstate s g = 1 \<and> (\<forall>v. (g, v) \<in> (edges nb)\<^sup>* \<longrightarrow> made OS nb (spec_commands rs) v) \<or>
      bstate s g = - 1 \<and> (\<exists>v. (g, v) \<in> (edges nb)\<^sup>* \<and> broken OS (spec_commands rs) v)"
    using worker_decides [OF G(1), of s0 "spec_commands rs" OS] s0 dist G(2) by blast
  have "if cyclic rs g then bstate s g = 0
      else bstate s g = 1 \<and> (\<forall>v. (g, v) \<in> (depends rs)\<^sup>* \<longrightarrow> vertex_made OS rs v) \<or>
        bstate s g = - 1 \<and> (\<exists>v. (g, v) \<in> (depends rs)\<^sup>* \<and> broken OS (spec_commands rs) v)"
    if g: "g \<in> set (goals_of rs targets)" for g
  proof (cases "cyclic rs g")
    case True
    then have "g \<in> names rs" "g \<notin> R" using Rc g goals by blast+
    then show ?thesis using s(3) s0(4) True by auto
  next
    case False
    have gn: "g \<in> names rs" "g \<in> set gs" using g goals False by (auto simp: gs_def)
    have "vertex_made OS rs v" if "(g, v) \<in> (edges nb)\<^sup>*" "made OS nb (spec_commands rs) v" for v
      using that(2) nb lists_depsD(3) [OF nb gn(1) that(1)] unfolding made_def vertex_made_def lists_deps_def by blast
    with s(4) gn lists_depsD(2) [OF nb gn(1)] False show ?thesis by auto
  qed
  then show ?thesis using pm s(1,2) by auto
qed


section \<open>A goal that is named twice\<close>

text \<open>An iteration leaves the \<open>data\<close> of the rules alone, and unlocks only what some rule holds.\<close>

lemma scan_keeps:
  assumes "scan_deps t deps push_back failed s = (push_back', failed', s')"
  shows "unlocked s' = unlocked s \<and> (\<forall>v. rdata (brules s' v) = rdata (brules s v))"
  using assms by (induction deps arbitrary: push_back failed s) (force simp: Let_def split: if_splits)+

lemma iteration_unlocks:
  assumes "\<And>v m. rdata (brules s v) = Some m \<Longrightarrow> m \<in> D" and "unlocked s \<subseteq> D"
  shows "unlocked (thread_iteration nb OS t s) \<subseteq> D \<and>
    (\<forall>v m. rdata (brules (thread_iteration nb OS t s) v) = Some m \<longrightarrow> m \<in> D)"
proof -
  obtain push_back failed s1 where scan: "scan_deps t (nb t) False False s = (push_back, failed, s1)" by (metis prod_cases3)
  note S = scan_keeps [OF scan]
  have B: "unlocked (build_target OS (nb t) t s1) = unlocked s1" "rdata (brules (build_target OS (nb t) t s1) v) = rdata (brules s1 v)" for v
    using build_target_ok [of OS "nb t" t s1] by (simp_all add: Let_def)
  have "set_option (rdata (brules s t)) \<subseteq> D" using assms(1) by (cases "rdata (brules s t)") auto
  then show ?thesis using scan S B assms by (auto simp: thread_iteration_def Let_def)
qed

lemma worker_unlocks:
  assumes "thread_func nb OS s = Some s'" and "\<And>v m. rdata (brules s v) = Some m \<Longrightarrow> m \<in> D" and "unlocked s \<subseteq> D"
  shows "unlocked s' \<subseteq> D"
  using assms
proof (induction rule: thread_func.raw_induct [rotated, consumes 1])
  case (1 thread nb OS s s')
  show ?case
  proof (cases "bqueue s")
    case Nil
    with 1 show ?thesis by simp
  next
    case (Cons t q)
    have it: "unlocked (thread_iteration nb OS t (s\<lparr>bqueue := q\<rparr>)) \<subseteq> D"
      "\<And>v m. rdata (brules (thread_iteration nb OS t (s\<lparr>bqueue := q\<rparr>)) v) = Some m \<Longrightarrow> m \<in> D"
      using iteration_unlocks [of "s\<lparr>bqueue := q\<rparr>" D nb OS t] 1(3,4) by auto
    show ?thesis by (rule 1(1) [OF _ it(2,1)]) (use 1(2) Cons in simp)
  qed
qed

text \<open>C38: When a goal that can be built is named twice, \<open>parmake\<close> never returns, whatever its commands do:
  the main thread locks a mutex for each mention, but the rule remembers only the last of them, so the
  worker unlocks fewer mutexes than the main thread waits for.\<close>

theorem duplicate_goal_hangs:
  assumes "graph_lib G" and "files name = Some (makefile_text rs)"
    and "rs \<noteq> []" "\<forall>r \<in> set rs. good_rule r" "length (concat (map rule_lines rs)) < 2 ^ 31"
    and "set targets \<subseteq> names rs" "card (names rs) < depth"
    and "\<not> distinct (filter (\<lambda>v. \<not> cyclic rs v) (goals_of rs targets))"
  shows "parmake G OS depth files (Some name) targets w = None"
proof -
  define gs where "gs = filter (\<lambda>v. \<not> cyclic rs v) (goals_of rs targets)"
  obtain nb s0 where
    pm: "parmake G OS depth files (Some name) targets w =
      (case thread_func nb OS s0 of
         None \<Rightarrow> None
       | Some s \<Rightarrow> if {0..<length gs} \<subseteq> unlocked s then Some (Inr (1, s)) else None)" and
    s0: "unlocked s0 = {}" "\<And>v. v \<notin> set gs \<Longrightarrow> rdata (brules s0 v) = None"
    by (rule parmake_setup [where G = G and files = files and name = name and OS = OS and w = w, OF assms(1-7) gs_def]) (rule that; assumption)
  define D where "D = {m. \<exists>v \<in> set gs. rdata (brules s0 v) = Some m}"
  have "D \<subseteq> (\<lambda>v. the (rdata (brules s0 v))) ` set gs" by (force simp: D_def)
  then have "card D \<le> card (set gs)" by (meson List.finite_set card_image_le card_mono finite_imageI le_trans)
  moreover have "card (set gs) < length gs"
    using assms(8) card_length [of gs] card_distinct [of gs] by (auto simp: gs_def [symmetric] le_less)
  ultimately have "card D < card {0..<length gs}" by simp
  moreover have "finite D" using \<open>D \<subseteq> _\<close> by (rule finite_subset) simp
  ultimately have no: "\<not> {0..<length gs} \<subseteq> D" by (metis card_mono not_le)
  have "unlocked s \<subseteq> D" if "thread_func nb OS s0 = Some s" for s
  proof (rule worker_unlocks [OF that])
    show "m \<in> D" if "rdata (brules s0 v) = Some m" for v m
      using that s0(2) [of v] by (cases "v \<in> set gs") (auto simp: D_def)
  qed (simp add: s0(1))
  with no show ?thesis unfolding pm by (auto split: option.splits)
qed

section \<open>A graph library, and a makefile\<close>

text \<open>The library as an association list of adjacency lists.\<close>

definition list_graph :: "(string \<times> string list) list graph_ops" where
  "list_graph =
     \<lparr>g_create = [],
      g_contains_vertex = (\<lambda>g v. v \<in> fst ` set g),
      g_set_vertex = (\<lambda>g v. if v \<in> fst ` set g then g else g @ [(v, [])]),
      g_add_edge = (\<lambda>g s t. map (\<lambda>(v, ns). (v, if v = s \<and> t \<notin> set ns then ns @ [t] else ns)) g),
      g_neighbors = (\<lambda>g v. case map_of g v of None \<Rightarrow> [] | Some ns \<Rightarrow> ns),
      g_vertices = map fst\<rparr>"

lemma map_of_edge:
  "map_of (map (\<lambda>(v, ns). (v, if v = s \<and> t \<notin> set ns then ns @ [t] else ns)) g) w =
    map_option (\<lambda>ns. if w = s \<and> t \<notin> set ns then ns @ [t] else ns) (map_of g w)"
  by (induction g) auto

lemma list_graph_lib: "graph_lib list_graph"
  unfolding graph_lib_def
proof (intro conjI allI impI)
  fix g :: "(string \<times> string list) list" and s t w
  assume c: "g_contains_vertex list_graph g s" "g_contains_vertex list_graph g w"
  from c(2) obtain ns where "map_of g w = Some ns" by (force simp: list_graph_def dest: weak_map_of_SomeI)
  then show "g_neighbors list_graph (g_add_edge list_graph g s t) w =
      (if w = s \<and> t \<notin> set (g_neighbors list_graph g s) then g_neighbors list_graph g s @ [t] else g_neighbors list_graph g w)"
    by (cases "w = s") (auto simp: list_graph_def map_of_edge)
qed (auto simp: list_graph_def map_add_def map_of_eq_None_iff image_iff case_prod_beta dest!: map_of_SomeD split: option.splits)

definition two_rules :: "mrule list" where
  "two_rules = [(''all'', [''b''], [''link'']), (''b'', [], [''cc''])]"

definition quiet_os :: "nat os" where
  "quiet_os = \<lparr>os_stat = (\<lambda>w f. None), os_system = (\<lambda>w c. (0, Suc w))\<rparr>"

lemma two_rules_facts:
  "\<forall>r \<in> set two_rules. good_rule r" "names two_rules = {''all'', ''b''}" "length (concat (map rule_lines two_rules)) < 2 ^ 31"
  "depends two_rules = {(''all'', ''b'')}"
  by (auto simp: two_rules_def good_rule_def good_word_def good_command_def isspace_def is_makefile_target_def isalnum_def
      names_def rule_lines_def depends_def spec_deps_def split: if_splits)

lemma two_rules_acyclic: "\<not> cyclic two_rules v"
proof -
  have "(u, u) \<notin> {(''all'', ''b'')}\<^sup>+" for u :: string
    by (auto dest!: tranclD elim!: converse_rtranclE)
  then show ?thesis by (simp add: cyclic_def two_rules_facts(4))
qed


lemma duplicate_goal_hangs_witness:
  "parmake list_graph quiet_os 3 [''makefile'' \<mapsto> makefile_text two_rules] (Some ''makefile'') [''b'', ''b''] 0 = None"
proof (rule duplicate_goal_hangs)
  show "\<not> distinct (filter (\<lambda>v. \<not> cyclic two_rules v) (goals_of two_rules [''b'', ''b'']))"
    by (simp add: two_rules_acyclic goals_of_def)
qed (use list_graph_lib two_rules_facts in \<open>simp_all add: two_rules_def\<close>)

section \<open>Printing and parsing\<close>

text \<open>C15: The parser reads back what a makefile says. The text of well-formed rules is parsed into a
  graph whose vertices are the targets and dependencies (and the empty one for the goals), in which
  every vertex has its dependencies as neighbors, its commands (those of the last recipe when a
  target has several) and state 0, and the goals, or the first target, hang on the empty vertex.\<close>

theorem printed_makefile_parses:
  assumes "graph_lib G" and "files name = Some (makefile_text rs)"
    and "rs \<noteq> []" "\<forall>r \<in> set rs. good_rule r" "length (concat (map rule_lines rs)) < 2 ^ 31"
    and "set targets \<subseteq> names rs"
  shows "\<exists>g rules. parser_parse_makefile G files (Some name) targets = Inr (g, rules) \<and>
    (\<forall>v. g_contains_vertex G g v \<longleftrightarrow> v = [] \<or> v \<in> names rs) \<and>
    (\<forall>v \<in> names rs. set (g_neighbors G g v) = spec_deps rs v \<and>
       (\<exists>r. rules v = Some r \<and> rtarget r = Some v \<and> commands r = spec_commands rs v \<and> rstate r = 0)) \<and>
    set (g_neighbors G g []) = set (goals_of rs targets)"
proof -
  obtain g rules where "parser_parse_makefile G files (Some name) targets = Inr (g, rules)"
    "\<And>v. g_contains_vertex G g v \<longleftrightarrow> v = [] \<or> v \<in> names rs"
    "\<And>v. v \<in> names rs \<Longrightarrow> \<exists>r. rules v = Some r \<and> rtarget r = Some v \<and> commands r = spec_commands rs v \<and> rstate r = 0"
    "\<And>v. v \<in> names rs \<Longrightarrow> set (g_neighbors G g v) = spec_deps rs v"
    "set (g_neighbors G g []) = (if targets = [] then {fst (hd rs)} else set targets)"
    by (rule parse_makefile_ok [of G files name rs targets]) (use assms in auto)
  then show ?thesis by (intro exI [of _ g] exI [of _ rules]) (simp add: goals_of_def)
qed

lemma printed_makefile_parses_witness:
  "\<exists>g rules. parser_parse_makefile list_graph [''makefile'' \<mapsto> makefile_text two_rules] (Some ''makefile'') [''b''] = Inr (g, rules) \<and>
    (\<forall>v. g_contains_vertex list_graph g v \<longleftrightarrow> v = [] \<or> v \<in> names two_rules) \<and>
    (\<forall>v \<in> names two_rules. set (g_neighbors list_graph g v) = spec_deps two_rules v \<and>
       (\<exists>r. rules v = Some r \<and> rtarget r = Some v \<and> commands r = spec_commands two_rules v \<and> rstate r = 0)) \<and>
    set (g_neighbors list_graph g []) = set (goals_of two_rules [''b''])"
  by (rule printed_makefile_parses) (use list_graph_lib two_rules_facts in \<open>simp_all add: two_rules_def\<close>)

end
