(* ===== verification/MakePool.thy ===== *)
theory MakePool
  imports MakeProps
begin

text \<open>
  \<open>parmake.c\<close> with any number of workers (\<open>-j\<close>). The workers and the main thread are interleaved: a
  step is one access to the queue, to the state of a rule, to the vector of pending targets, to the
  mutex of a goal, or one command; the modification times of a target and its dependencies
  are read in one step. The loop over the dependencies reads the state of a rule up to three times, and
  no mutex is held.
\<close>

section \<open>Workers\<close>

text \<open>
  Where a worker stands: the target, the dependencies that are left (the first is looked at), and the flags
  \<open>push_back_to_pending_q\<close> and \<open>failed\<close>.
\<close>

datatype pc =
    Pull
  | Look string
  | Deps string "string list" bool bool
  | Test0 string string "string list" bool bool
  | Claim string string "string list" bool
  | Push string string "string list" bool
  | TestFailed string string "string list" bool bool
  | Fail string "string list" bool
  | Park string
  | Stamps string
  | Run string "string list"
  | Decide string int
  | Unlock string
  | Flush
  | Exited

text \<open>
  The queue with the \<open>NULL\<close>s that end the workers, the other shared data, the workers, and the number
  of steps of the main thread. What an operation of \<^typ>\<open>'w build\<close> pushes goes to the end of the queue.
\<close>

record 'w pool =
  pqueue :: "string option list"
  pbuild :: "'w build"
  workers :: "pc list"
  main_at :: nat

definition share :: "('w build \<Rightarrow> 'w build) \<Rightarrow> 'w pool \<Rightarrow> 'w pool" where
  "share f s =
     (let b = f ((pbuild s)\<lparr>bqueue := []\<rparr>) in
      s\<lparr>pqueue := pqueue s @ map Some (bqueue b), pbuild := b\<lparr>bqueue := []\<rparr>\<rparr>)"

definition needs_building :: "'w os \<Rightarrow> string list \<Rightarrow> string \<Rightarrow> 'w \<Rightarrow> bool" where
  "needs_building OS deps t w =
     (let cur = int_of_time (get_modification_time OS w t) in
      if cur \<noteq> - 1
      then let newest = newest_dep_modtime OS w deps in newest = - 1 \<or> cur < newest
      else True)"

text \<open>The step of a worker, and where it stands then; \<open>None\<close> when it waits for the queue or has ended.\<close>

fun worker_step :: "(string \<Rightarrow> string list) \<Rightarrow> 'w os \<Rightarrow> pc \<Rightarrow> 'w pool \<Rightarrow> (pc \<times> 'w pool) option" where
  "worker_step nb OS Pull s =
     (case pqueue s of
        [] \<Rightarrow> None
      | None # q \<Rightarrow> Some (Exited, s\<lparr>pqueue := q\<rparr>)
      | Some t # q \<Rightarrow> Some (Look t, s\<lparr>pqueue := q\<rparr>))"
| "worker_step nb OS (Look t) s = Some (Deps t (nb t) False False, s)"
| "worker_step nb OS (Deps t [] push_back failed) s =
     Some (if failed then Unlock t else if push_back then Park t else Stamps t, s)"
| "worker_step nb OS (Deps t (d # ds) push_back failed) s =
     Some (Test0 t d ds (push_back \<or> bstate (pbuild s) d = 2) failed, s)"
| "worker_step nb OS (Test0 t d ds push_back failed) s =
     Some (if bstate (pbuild s) d = 0 then Claim t d ds failed else TestFailed t d ds push_back failed, s)"
| "worker_step nb OS (Claim t d ds failed) s = Some (Push t d ds failed, share (set_state d 2) s)"
| "worker_step nb OS (Push t d ds failed) s = Some (Deps t ds True failed, share (queue_push d) s)"
| "worker_step nb OS (TestFailed t d ds push_back failed) s =
     Some (if bstate (pbuild s) d = - 1 then Fail t ds push_back else Deps t ds push_back failed, s)"
| "worker_step nb OS (Fail t ds push_back) s = Some (Deps t ds push_back True, share (set_state t (- 1)) s)"
| "worker_step nb OS (Park t) s =
     Some (Pull, share (\<lambda>b. b\<lparr>pending_targets := pending_targets b @ [t]\<rparr>) s)"
| "worker_step nb OS (Stamps t) s =
     Some (if needs_building OS (nb t) t (bworld (pbuild s)) then Run t (commands (brules (pbuild s) t)) else Decide t 1, s)"
| "worker_step nb OS (Run t []) s = Some (Decide t 1, s)"
| "worker_step nb OS (Run t (c # cs)) s =
     (let (res, w) = os_system OS (bworld (pbuild s)) c in
      Some (if res \<noteq> 0 then Decide t (- 1) else Run t cs, share (\<lambda>b. b\<lparr>bworld := w\<rparr>) s))"
| "worker_step nb OS (Decide t st) s = Some (Unlock t, share (set_state t st) s)"
| "worker_step nb OS (Unlock t) s = Some (Flush, share (unlock_goal t) s)"
| "worker_step nb OS Flush s = Some (Pull, share flush_pending s)"
| "worker_step nb OS Exited s = None"

section \<open>The main thread\<close>

text \<open>
  It locks the mutexes in order, of which the first \<open>locked\<close> are locked already, pushes a \<open>NULL\<close> for each
  worker, and joins the workers. \<open>None\<close> when it waits or has returned.
\<close>

definition main_step :: "nat \<Rightarrow> nat \<Rightarrow> 'w pool \<Rightarrow> 'w pool option" where
  "main_step target_count locked s =
     (let num_threads = length (workers s); next = s\<lparr>main_at := main_at s + 1\<rparr> in
      if main_at s < target_count
      then if main_at s < locked \<and> main_at s \<notin> unlocked (pbuild s) then None else Some next
      else if main_at s < target_count + num_threads then Some (next\<lparr>pqueue := pqueue s @ [None]\<rparr>)
      else if main_at s = target_count + num_threads \<and> set (workers s) \<subseteq> {Exited} then Some next
      else None)"

definition returned :: "nat \<Rightarrow> 'w pool \<Rightarrow> bool" where
  "returned target_count s \<longleftrightarrow> target_count + length (workers s) < main_at s"

inductive pool_step :: "(string \<Rightarrow> string list) \<Rightarrow> 'w os \<Rightarrow> nat \<Rightarrow> nat \<Rightarrow> 'w pool \<Rightarrow> 'w pool \<Rightarrow> bool"
  for nb OS target_count locked where
  Main: "main_step target_count locked s = Some s' \<Longrightarrow> pool_step nb OS target_count locked s s'"
| Worker: "i < length (workers s) \<Longrightarrow> worker_step nb OS (workers s ! i) s = Some (pc, s') \<Longrightarrow>
    pool_step nb OS target_count locked s (s'\<lparr>workers := (workers s')[i := pc]\<rparr>)"

inductive_cases pool_stepE: "pool_step nb OS target_count locked s s'"

definition pool_start :: "nat \<Rightarrow> 'w build \<Rightarrow> 'w pool" where
  "pool_start num_threads b =
     \<lparr>pqueue = map Some (bqueue b), pbuild = b\<lparr>bqueue := []\<rparr>, workers = replicate num_threads Pull, main_at = 0\<rparr>"

text \<open>
  What \<open>parmake\<close> with \<open>num_threads\<close> workers can reach, and when it cannot go on: it has returned, or it hangs.
\<close>

definition parmake_reaches ::
  "'g graph_ops \<Rightarrow> 'w os \<Rightarrow> nat \<Rightarrow> (string \<Rightarrow> string option) \<Rightarrow> string option \<Rightarrow> string list \<Rightarrow> nat \<Rightarrow> 'w \<Rightarrow>
    nat \<Rightarrow> 'w pool \<Rightarrow> bool" where
  "parmake_reaches G OS depth files makefile targets num_threads w target_count s \<longleftrightarrow>
     (\<exists>nb locked b. start_build G depth files makefile targets w = Some (Inr (nb, target_count, locked, b)) \<and>
       (pool_step nb OS target_count locked)\<^sup>*\<^sup>* (pool_start num_threads b) s)"

definition parmake_hangs ::
  "'g graph_ops \<Rightarrow> 'w os \<Rightarrow> nat \<Rightarrow> (string \<Rightarrow> string option) \<Rightarrow> string option \<Rightarrow> string list \<Rightarrow> nat \<Rightarrow> 'w \<Rightarrow> 'w pool \<Rightarrow> bool" where
  "parmake_hangs G OS depth files makefile targets num_threads w s \<longleftrightarrow>
     (\<exists>nb target_count locked b. start_build G depth files makefile targets w = Some (Inr (nb, target_count, locked, b)) \<and>
       (pool_step nb OS target_count locked)\<^sup>*\<^sup>* (pool_start num_threads b) s \<and>
       \<not> returned target_count s \<and> (\<forall>s'. \<not> pool_step nb OS target_count locked s s'))"

end
