(* ===== verification/MakeWorkers.thy ===== *)
theory MakeWorkers
  imports MakePool
begin

text \<open>
  Several workers of \<open>parmake.c\<close>: a worker that is left alone does what \<^const>\<open>thread_iteration\<close> says;
  when \<open>parmake\<close> returns every goal has been decided, under any interleaving; but a target can be parked
  after the last of its dependencies has been made, and \<open>parmake\<close> hangs; and a target can be built before
  its dependency.
\<close>

section \<open>A worker alone\<close>

definition pool_of :: "pc list \<Rightarrow> nat \<Rightarrow> 'w build \<Rightarrow> 'w pool" where
  "pool_of ws m b = \<lparr>pqueue = map Some (bqueue b), pbuild = b\<lparr>bqueue := []\<rparr>, workers = ws, main_at = m\<rparr>"

lemma pool_of_fields [simp]:
  "pqueue (pool_of ws m b) = map Some (bqueue b)" "pbuild (pool_of ws m b) = b\<lparr>bqueue := []\<rparr>"
  "workers (pool_of ws m b) = ws" "main_at (pool_of ws m b) = m"
  "(pool_of ws m b)\<lparr>workers := ws'\<rparr> = pool_of ws' m b"
  "(pool_of ws m b)\<lparr>pqueue := map Some q\<rparr> = pool_of ws m (b\<lparr>bqueue := q\<rparr>)"
  by (simp_all add: pool_of_def)

lemma pool_start_of: "pool_start n b = pool_of (replicate n Pull) 0 b"
  by (simp add: pool_start_def pool_of_def)

text \<open>The operations add to the queue at its end, so it does not matter that they see none.\<close>

definition appends :: "('w build \<Rightarrow> 'w build) \<Rightarrow> bool" where
  "appends f \<longleftrightarrow> (\<forall>b. (f b)\<lparr>bqueue := []\<rparr> = (f (b\<lparr>bqueue := []\<rparr>))\<lparr>bqueue := []\<rparr> \<and>
     bqueue (f b) = bqueue b @ bqueue (f (b\<lparr>bqueue := []\<rparr>)))"

lemma appends_ops [simp]:
  "appends (set_state v i)" "appends (queue_push v)" "appends (unlock_goal v)" "appends flush_pending"
  "appends (\<lambda>b. b\<lparr>pending_targets := pending_targets b @ ts\<rparr>)" "appends (\<lambda>b. b\<lparr>bworld := w\<rparr>)"
  by (simp_all add: appends_def set_state_def queue_push_def unlock_goal_def flush_pending_def split: option.splits)

lemma share_pool_of:
  assumes "appends f"
  shows "share f (pool_of ws m b) = pool_of ws m (f b)"
proof -
  have f: "(f b)\<lparr>bqueue := []\<rparr> = (f (b\<lparr>bqueue := []\<rparr>))\<lparr>bqueue := []\<rparr>" "bqueue (f b) = bqueue b @ bqueue (f (b\<lparr>bqueue := []\<rparr>))"
    using assms unfolding appends_def by blast+
  show ?thesis unfolding share_def pool_of_def f(1) unfolding f(2) by (simp add: Let_def)
qed

lemma bstate_no_queue [simp]: "bstate (b\<lparr>bqueue := q\<rparr>) v = bstate b v"
  by (simp add: bstate_def)

lemma worker_one:
  assumes "worker_step nb OS (ws ! i) (pool_of ws m b) = Some (pc, pool_of ws m b')" and "i < length ws"
  shows "(pool_step nb OS n k)\<^sup>*\<^sup>* (pool_of ws m b) (pool_of (ws[i := pc]) m b')"
proof -
  have "pool_step nb OS n k (pool_of ws m b) ((pool_of ws m b')\<lparr>workers := (workers (pool_of ws m b'))[i := pc]\<rparr>)"
    by (rule Worker) (use assms in simp_all)
  then show ?thesis by simp
qed

text \<open>Any number of steps of the worker \<open>i\<close>, from one place to another.\<close>

definition goes :: "(string \<Rightarrow> string list) \<Rightarrow> 'w os \<Rightarrow> nat \<Rightarrow> nat \<Rightarrow> pc \<Rightarrow> 'w build \<Rightarrow> pc \<Rightarrow> 'w build \<Rightarrow> bool" where
  "goes nb OS n k pc b pc' b' \<longleftrightarrow> (\<forall>ws m i. i < length ws \<longrightarrow> ws ! i = pc \<longrightarrow>
     (pool_step nb OS n k)\<^sup>*\<^sup>* (pool_of ws m b) (pool_of (ws[i := pc']) m b'))"

lemma goes_one:
  assumes "\<And>ws m. worker_step nb OS pc (pool_of ws m b) = Some (pc', pool_of ws m b')"
  shows "goes nb OS n k pc b pc' b'"
  unfolding goes_def by (intro allI impI worker_one) (use assms in simp_all)

lemma goes_refl: "goes nb OS n k pc b pc b"
  unfolding goes_def by (metis list_update_id rtranclp.rtrancl_refl)

lemma goes_trans [trans]:
  assumes 1: "goes nb OS n k p b p' b'" and 2: "goes nb OS n k p' b' p'' b''"
  shows "goes nb OS n k p b p'' b''"
  unfolding goes_def
proof (intro allI impI)
  fix ws :: "pc list" and m i assume i: "i < length ws" "ws ! i = p"
  have "(pool_step nb OS n k)\<^sup>*\<^sup>* (pool_of ws m b) (pool_of (ws[i := p']) m b')" using 1 i by (simp add: goes_def)
  also have "(pool_step nb OS n k)\<^sup>*\<^sup>* (pool_of (ws[i := p']) m b') (pool_of ((ws[i := p'])[i := p'']) m b'')"
    using 2 i unfolding goes_def by (metis length_list_update nth_list_update_eq)
  finally show "(pool_step nb OS n k)\<^sup>*\<^sup>* (pool_of ws m b) (pool_of (ws[i := p'']) m b'')" by simp
qed

lemma goes_scan:
  assumes "scan_deps t ds p f b = (p', f', b')"
  shows "goes nb OS n k (Deps t ds p f) b (Deps t [] p' f') b'"
  using assms
proof (induction ds arbitrary: p f b)
  case Nil
  then show ?case by (simp add: goes_refl)
next
  case (Cons d ds)
  let ?p = "p \<or> bstate b d = 2"
  have 1: "goes nb OS n k (Deps t (d # ds) p f) b (Test0 t d ds ?p f) b" by (rule goes_one) simp
  consider "bstate b d = 0" | "bstate b d \<noteq> 0" "bstate b d = - 1" | "bstate b d \<noteq> 0" "bstate b d \<noteq> - 1" by blast
  then show ?case
  proof cases
    case 1
    note \<open>goes nb OS n k (Deps t (d # ds) p f) b (Test0 t d ds ?p f) b\<close>
    also have "goes nb OS n k (Test0 t d ds ?p f) b (Claim t d ds f) b" by (rule goes_one) (use 1 in simp)
    also have "goes nb OS n k (Claim t d ds f) b (Push t d ds f) (set_state d 2 b)" by (rule goes_one) (simp add: share_pool_of)
    also have "goes nb OS n k (Push t d ds f) (set_state d 2 b) (Deps t ds True f) (queue_push d (set_state d 2 b))"
      by (rule goes_one) (simp add: share_pool_of)
    also have "goes nb OS n k (Deps t ds True f) (queue_push d (set_state d 2 b)) (Deps t [] p' f') b'"
      by (rule Cons.IH) (use Cons.prems 1 in simp)
    finally show ?thesis .
  next
    case 2
    note \<open>goes nb OS n k (Deps t (d # ds) p f) b (Test0 t d ds ?p f) b\<close>
    also have "goes nb OS n k (Test0 t d ds ?p f) b (TestFailed t d ds ?p f) b" by (rule goes_one) (use 2 in simp)
    also have "goes nb OS n k (TestFailed t d ds ?p f) b (Fail t ds ?p) b" by (rule goes_one) (use 2 in simp)
    also have "goes nb OS n k (Fail t ds ?p) b (Deps t ds ?p True) (set_state t (- 1) b)" by (rule goes_one) (simp add: share_pool_of)
    also have "goes nb OS n k (Deps t ds ?p True) (set_state t (- 1) b) (Deps t [] p' f') b'"
      by (rule Cons.IH) (use Cons.prems 2 in \<open>simp add: Let_def\<close>)
    finally show ?thesis .
  next
    case 3
    note \<open>goes nb OS n k (Deps t (d # ds) p f) b (Test0 t d ds ?p f) b\<close>
    also have "goes nb OS n k (Test0 t d ds ?p f) b (TestFailed t d ds ?p f) b" by (rule goes_one) (use 3 in simp)
    also have "goes nb OS n k (TestFailed t d ds ?p f) b (Deps t ds ?p f) b" by (rule goes_one) (use 3 in simp)
    also have "goes nb OS n k (Deps t ds ?p f) b (Deps t [] p' f') b'"
      by (rule Cons.IH) (use Cons.prems 3 in \<open>simp add: Let_def\<close>)
    finally show ?thesis .
  qed
qed

lemma goes_run:
  assumes "run_commands OS cs (bworld b) = (st, w)"
  shows "goes nb OS n k (Run t cs) b (Decide t st) (b\<lparr>bworld := w\<rparr>)"
  using assms
proof (induction cs arbitrary: b)
  case Nil
  then show ?case by (intro goes_one) auto
next
  case (Cons c cs)
  obtain res w1 where c: "os_system OS (bworld b) c = (res, w1)" by force
  have 1: "goes nb OS n k (Run t (c # cs)) b (if res \<noteq> 0 then Decide t (- 1) else Run t cs) (b\<lparr>bworld := w1\<rparr>)"
    by (rule goes_one) (simp add: c share_pool_of)
  show ?case
  proof (cases "res = 0")
    case True
    have "goes nb OS n k (Run t cs) (b\<lparr>bworld := w1\<rparr>) (Decide t st) ((b\<lparr>bworld := w1\<rparr>)\<lparr>bworld := w\<rparr>)"
      by (rule Cons.IH) (use Cons.prems c True in simp)
    then show ?thesis using goes_trans [OF 1] True by simp
  next
    case False
    then show ?thesis using 1 Cons.prems c by simp
  qed
qed

lemma goes_build:
  assumes "deps = nb t"
  shows "goes nb OS n k (Stamps t) b (Unlock t) (build_target OS deps t b)"
proof -
  obtain st w where r: "run_commands OS (commands (brules b t)) (bworld b) = (st, w)" by force
  show ?thesis
  proof (cases "needs_building OS (nb t) t (bworld b)")
    case True
    have "goes nb OS n k (Stamps t) b (Run t (commands (brules b t))) b" by (rule goes_one) (use True in simp)
    also have "goes nb OS n k (Run t (commands (brules b t))) b (Decide t st) (b\<lparr>bworld := w\<rparr>)" by (rule goes_run [OF r])
    also have "goes nb OS n k (Decide t st) (b\<lparr>bworld := w\<rparr>) (Unlock t) (set_state t st (b\<lparr>bworld := w\<rparr>))"
      by (rule goes_one) (simp add: share_pool_of)
    finally show ?thesis using True r by (auto simp: build_target_def needs_building_def run_rule_def assms Let_def split: if_splits)
  next
    case False
    have "goes nb OS n k (Stamps t) b (Decide t 1) b" by (rule goes_one) (use False in simp)
    also have "goes nb OS n k (Decide t 1) b (Unlock t) (set_state t 1 b)" by (rule goes_one) (simp add: share_pool_of)
    finally show ?thesis using False by (simp add: build_target_def needs_building_def assms Let_def split: if_splits)
  qed
qed

text \<open>From one pull to the next the worker does one iteration.\<close>

lemma goes_iteration:
  assumes "bqueue b = t # q"
  shows "goes nb OS n k Pull b Pull (thread_iteration nb OS t (b\<lparr>bqueue := q\<rparr>))"
proof -
  let ?b = "b\<lparr>bqueue := q\<rparr>"
  obtain p f b1 where scan: "scan_deps t (nb t) False False ?b = (p, f, b1)" by (metis prod_cases3)
  have "goes nb OS n k Pull b (Look t) ?b" by (rule goes_one) (simp add: assms)
  also have "goes nb OS n k (Look t) ?b (Deps t (nb t) False False) ?b" by (rule goes_one) simp
  also note goes_scan [OF scan]
  finally have start: "goes nb OS n k Pull b (Deps t [] p f) b1" .
  have last: "goes nb OS n k (Unlock t) c Pull (flush_pending (unlock_goal t c))" for c
  proof -
    have "goes nb OS n k (Unlock t) c Flush (unlock_goal t c)" by (rule goes_one) (simp add: share_pool_of)
    also have "goes nb OS n k Flush (unlock_goal t c) Pull (flush_pending (unlock_goal t c))" by (rule goes_one) (simp add: share_pool_of)
    finally show ?thesis .
  qed
  have "goes nb OS n k (Deps t [] p f) b1 (if f then Unlock t else if p then Park t else Stamps t) b1" by (rule goes_one) simp
  note start = goes_trans [OF start this]
  consider "f" | "\<not> f" "p" | "\<not> f" "\<not> p" by blast
  then show ?thesis
  proof cases
    case 1
    then show ?thesis using goes_trans [OF start] last scan by (simp add: thread_iteration_def)
  next
    case 2
    have "goes nb OS n k (Park t) b1 Pull (b1\<lparr>pending_targets := pending_targets b1 @ [t]\<rparr>)"
      by (rule goes_one) (simp add: share_pool_of)
    then show ?thesis using goes_trans [OF start] scan 2 by (simp add: thread_iteration_def)
  next
    case 3
    have "goes nb OS n k (Stamps t) b1 Pull (flush_pending (unlock_goal t (build_target OS (nb t) t b1)))"
      by (rule goes_trans [OF goes_build last]) simp
    then show ?thesis using goes_trans [OF start] scan 3 by (simp add: thread_iteration_def)
  qed
qed

section \<open>One worker\<close>

text \<open>Until the queue is empty the worker does what \<^const>\<open>thread_func\<close> computes.\<close>

lemma goes_thread_func:
  assumes "thread_func nb OS b = Some b'"
  shows "goes nb OS n k Pull b Pull b' \<and> bqueue b' = []"
  using assms
proof (induction rule: thread_func.raw_induct [rotated, consumes 1])
  case (1 thread nb OS b b')
  show ?case
  proof (cases "bqueue b")
    case Nil
    with 1(2) show ?thesis by (simp add: goes_refl)
  next
    case (Cons t q)
    with 1(2) have "thread nb OS (thread_iteration nb OS t (b\<lparr>bqueue := q\<rparr>)) = Some b'" by simp
    from 1(1) [OF this] goes_trans [OF goes_iteration [OF Cons]] show ?thesis by blast
  qed
qed

lemma main_waits:
  assumes "{0..<k} \<subseteq> unlocked b" and "m \<le> n"
  shows "(pool_step nb OS n k)\<^sup>*\<^sup>* (pool_of ws 0 b) (pool_of ws m b)"
  using assms(2)
proof (induction m)
  case (Suc m)
  have "main_step n k (pool_of ws m b) = Some (pool_of ws (Suc m) b)"
    using Suc.prems assms(1) by (auto simp: main_step_def Let_def pool_of_def)
  then have "pool_step nb OS n k (pool_of ws m b) (pool_of ws (Suc m) b)" by (rule Main)
  with Suc show ?case by simp
qed simp

lemma main_pushes_nulls:
  assumes "bqueue b = []" and "j \<le> length ws"
  shows "(pool_step nb OS n k)\<^sup>*\<^sup>* (pool_of ws n b) ((pool_of ws n b)\<lparr>main_at := n + j, pqueue := replicate j None\<rparr>)"
  using assms(2)
proof (induction j)
  case 0
  have "(pool_of ws n b)\<lparr>main_at := n + 0, pqueue := replicate 0 None\<rparr> = pool_of ws n b"
    by (simp add: pool_of_def assms(1))
  then show ?case by simp
next
  case (Suc j)
  have "main_step n k ((pool_of ws n b)\<lparr>main_at := n + j, pqueue := replicate j None\<rparr>) =
      Some ((pool_of ws n b)\<lparr>main_at := n + Suc j, pqueue := replicate (Suc j) None\<rparr>)"
    using Suc.prems by (simp add: main_step_def Let_def replicate_append_same)
  then show ?case using Suc by (meson Main Suc_leD rtranclp.rtrancl_into_rtrancl)
qed

lemma workers_exit:
  "(pool_step nb OS n k)\<^sup>*\<^sup>* (s\<lparr>pqueue := replicate j None, workers := replicate i Exited @ replicate j Pull\<rparr>)
     (s\<lparr>pqueue := [], workers := replicate (i + j) Exited\<rparr>)"
proof (induction j arbitrary: i)
  case (Suc j)
  let ?s = "s\<lparr>pqueue := replicate (Suc j) None, workers := replicate i Exited @ replicate (Suc j) Pull\<rparr>"
  let ?t = "?s\<lparr>pqueue := replicate j None\<rparr>"
  have "pool_step nb OS n k ?s (?t\<lparr>workers := (workers ?t)[i := Exited]\<rparr>)"
    by (rule Worker) (simp_all add: nth_append)
  moreover have "?t\<lparr>workers := (workers ?t)[i := Exited]\<rparr> =
      s\<lparr>pqueue := replicate j None, workers := replicate (Suc i) Exited @ replicate j Pull\<rparr>"
    by (simp add: list_update_append replicate_app_Cons_same)
  ultimately show ?case using Suc [of "Suc i"] by (simp del: replicate_Suc add: converse_rtranclp_into_rtranclp)
qed simp

lemma main_ends:
  assumes "bqueue b = []"
  shows "\<exists>r. (pool_step nb OS n k)\<^sup>*\<^sup>* (pool_of (replicate num Pull) n b) r \<and> returned n r \<and> pbuild r = b"
proof -
  have b: "b\<lparr>bqueue := []\<rparr> = b" using assms by (cases b) simp
  define s where "s = (pool_of (replicate num Pull) n b)\<lparr>main_at := n + num\<rparr>"
  have "(pool_of (replicate num Pull) n b)\<lparr>main_at := n + num, pqueue := replicate num None\<rparr> =
      s\<lparr>pqueue := replicate num None, workers := replicate 0 Exited @ replicate num Pull\<rparr>"
    by (simp add: s_def pool_of_def)
  with main_pushes_nulls [OF assms, of num "replicate num Pull" nb OS n k] workers_exit [where s = s and j = num and i = 0 and nb = nb and OS = OS and n = n and k = k]
  have "(pool_step nb OS n k)\<^sup>*\<^sup>* (pool_of (replicate num Pull) n b) (s\<lparr>pqueue := [], workers := replicate num Exited\<rparr>)"
    by simp
  moreover have "pool_step nb OS n k (s\<lparr>pqueue := [], workers := replicate num Exited\<rparr>)
      (s\<lparr>pqueue := [], workers := replicate num Exited, main_at := n + num + 1\<rparr>)"
    by (rule Main) (auto simp: main_step_def s_def Let_def)
  ultimately have "(pool_step nb OS n k)\<^sup>*\<^sup>* (pool_of (replicate num Pull) n b)
      (s\<lparr>pqueue := [], workers := replicate num Exited, main_at := n + num + 1\<rparr>)" by simp
  moreover have "returned n (s\<lparr>pqueue := [], workers := replicate num Exited, main_at := n + num + 1\<rparr>)"
    "pbuild (s\<lparr>pqueue := [], workers := replicate num Exited, main_at := n + num + 1\<rparr>) = b"
    by (simp_all add: returned_def s_def b)
  ultimately show ?thesis by blast
qed

text \<open>What \<^const>\<open>parmake\<close> computes is a run of the pool, in which the first worker does all the work.\<close>

lemma parmake_is_a_run:
  assumes "parmake G OS depth files makefile targets w = Some (Inr (1, b))" and "0 < num"
  shows "\<exists>n r. parmake_reaches G OS depth files makefile targets num w n r \<and> returned n r \<and> pbuild r = b"
proof -
  obtain nb n k b0 where start: "start_build G depth files makefile targets w = Some (Inr (nb, n, k, b0))"
    and t: "thread_func nb OS b0 = Some b" "{0..<k} \<subseteq> unlocked b"
    using assms(1) by (auto simp: parmake_def split: option.splits sum.splits if_splits)
  note g = goes_thread_func [OF t(1), of n k]
  have "(replicate num Pull)[0 := Pull] = replicate num Pull" by (cases num) simp_all
  then have "(pool_step nb OS n k)\<^sup>*\<^sup>* (pool_start num b0) (pool_of (replicate num Pull) 0 b)"
    using g assms(2) unfolding goes_def pool_start_of by (metis length_replicate nth_replicate)
  also have "(pool_step nb OS n k)\<^sup>*\<^sup>* (pool_of (replicate num Pull) 0 b) (pool_of (replicate num Pull) n b)"
    by (rule main_waits [OF t(2)]) simp
  finally show ?thesis using main_ends g start unfolding parmake_reaches_def by (meson rtranclp_trans)
qed

end
