(* ===== verification/MakeRaces.thy ===== *)
theory MakeRaces
  imports MakeWorkers
begin

text \<open>
  The interleavings of several workers of \<open>parmake.c\<close>: an invariant of all of them, by which
  \<open>parmake\<close> does not return before every goal is decided, and two runs that go wrong.
\<close>

section \<open>An invariant of every interleaving\<close>

abbreviation decided :: "'w build \<Rightarrow> string \<Rightarrow> bool" where
  "decided b v \<equiv> bstate b v = 1 \<or> bstate b v = - 1"

text \<open>
  Where a worker can be: its target is needed, what it claims is not a goal, and a goal that it is about
  to unlock has been decided.
\<close>

fun pc_ok :: "string set \<Rightarrow> string set \<Rightarrow> 'w build \<Rightarrow> pc \<Rightarrow> bool" where
  "pc_ok R gs b (Look t) \<longleftrightarrow> t \<in> R"
| "pc_ok R gs b (Deps t ds p f) \<longleftrightarrow> t \<in> R \<and> set ds \<subseteq> R - gs \<and> (f \<and> t \<in> gs \<longrightarrow> decided b t)"
| "pc_ok R gs b (Test0 t d ds p f) \<longleftrightarrow> t \<in> R \<and> set (d # ds) \<subseteq> R - gs \<and> (f \<and> t \<in> gs \<longrightarrow> decided b t)"
| "pc_ok R gs b (Claim t d ds f) \<longleftrightarrow> t \<in> R \<and> set (d # ds) \<subseteq> R - gs \<and> (f \<and> t \<in> gs \<longrightarrow> decided b t)"
| "pc_ok R gs b (Push t d ds f) \<longleftrightarrow> t \<in> R \<and> set (d # ds) \<subseteq> R - gs \<and> (f \<and> t \<in> gs \<longrightarrow> decided b t)"
| "pc_ok R gs b (TestFailed t d ds p f) \<longleftrightarrow> t \<in> R \<and> set (d # ds) \<subseteq> R - gs \<and> (f \<and> t \<in> gs \<longrightarrow> decided b t)"
| "pc_ok R gs b (Fail t ds p) \<longleftrightarrow> t \<in> R \<and> set ds \<subseteq> R - gs"
| "pc_ok R gs b (Park t) \<longleftrightarrow> t \<in> R"
| "pc_ok R gs b (Stamps t) \<longleftrightarrow> t \<in> R"
| "pc_ok R gs b (Run t cs) \<longleftrightarrow> t \<in> R"
| "pc_ok R gs b (Decide t st) \<longleftrightarrow> t \<in> R \<and> (st = 1 \<or> st = - 1)"
| "pc_ok R gs b (Unlock t) \<longleftrightarrow> t \<in> R \<and> (t \<in> gs \<longrightarrow> decided b t)"
| "pc_ok R gs b pc \<longleftrightarrow> True"

text \<open>What one step may do to the shared data.\<close>

definition keeps_goals :: "string set \<Rightarrow> 'w build \<Rightarrow> 'w build \<Rightarrow> bool" where
  "keeps_goals gs b b' \<longleftrightarrow>
     (\<forall>g \<in> gs. decided b g \<longrightarrow> decided b' g) \<and> (\<forall>v. rdata (brules b' v) = rdata (brules b v))"

lemma pc_ok_kept: "pc_ok R gs b pc \<Longrightarrow> keeps_goals gs b b' \<Longrightarrow> pc_ok R gs b' pc"
  by (cases pc) (auto simp: keeps_goals_def)

definition pool_inv :: "string set \<Rightarrow> string list \<Rightarrow> 'w pool \<Rightarrow> bool" where
  "pool_inv R gs s \<longleftrightarrow>
     {t. Some t \<in> set (pqueue s)} \<subseteq> R \<and> set (pending_targets (pbuild s)) \<subseteq> R \<and>
     (\<forall>v \<in> R. rdata (brules (pbuild s) v) \<in> insert None (Some ` {i. i < length gs \<and> gs ! i = v})) \<and>
     (\<forall>i < length gs. i \<in> unlocked (pbuild s) \<longrightarrow> decided (pbuild s) (gs ! i)) \<and>
     (\<forall>pc \<in> set (workers s). pc_ok R (set gs) (pbuild s) pc) \<and>
     (\<forall>i < min (main_at s) (length gs). i \<in> unlocked (pbuild s))"

lemma share_fields [simp]:
  "pqueue (share f s) = pqueue s @ map Some (bqueue (f ((pbuild s)\<lparr>bqueue := []\<rparr>)))"
  "pbuild (share f s) = (f ((pbuild s)\<lparr>bqueue := []\<rparr>))\<lparr>bqueue := []\<rparr>"
  "workers (share f s) = workers s" "main_at (share f s) = main_at s"
  by (simp_all add: share_def Let_def)

text \<open>A step of a worker, for the shared data and for the place of that worker.\<close>

lemma worker_step_keeps:
  assumes nb: "\<And>v. v \<in> R \<Longrightarrow> set (nb v) \<subseteq> R - set gs" and I: "pool_inv R gs s" and ok: "pc_ok R (set gs) (pbuild s) pc"
    and step: "worker_step nb OS pc s = Some (pc', s')"
  shows "keeps_goals (set gs) (pbuild s) (pbuild s') \<and> pc_ok R (set gs) (pbuild s') pc' \<and>
    {t. Some t \<in> set (pqueue s')} \<subseteq> R \<and> set (pending_targets (pbuild s')) \<subseteq> R \<and>
    unlocked (pbuild s) \<subseteq> unlocked (pbuild s') \<and>
    (\<forall>i < length gs. i \<in> unlocked (pbuild s') \<longrightarrow> decided (pbuild s') (gs ! i)) \<and>
    workers s' = workers s \<and> main_at s' = main_at s"
proof -
  have I: "{t. Some t \<in> set (pqueue s)} \<subseteq> R" "set (pending_targets (pbuild s)) \<subseteq> R"
    "\<And>v i. v \<in> R \<Longrightarrow> rdata (brules (pbuild s) v) = Some i \<Longrightarrow> i < length gs \<and> gs ! i = v"
    "\<forall>i < length gs. i \<in> unlocked (pbuild s) \<longrightarrow> decided (pbuild s) (gs ! i)"
    using I unfolding pool_inv_def by (blast, blast, auto)
  show ?thesis
  proof (cases pc)
    case Pull
    then show ?thesis using step I ok by (auto simp: keeps_goals_def split: list.splits option.splits)
  next
    case (Look t)
    then show ?thesis using step I ok nb by (auto simp: keeps_goals_def)
  next
    case (Deps t ds p f)
    then show ?thesis using step I ok by (cases ds) (auto simp: keeps_goals_def split: if_splits)
  next
    case (Claim t d ds f)
    then have s': "pc' = Push t d ds f" "s' = share (set_state d 2) s" and d: "d \<notin> set gs" using step ok by auto
    have "\<forall>g \<in> set gs. g \<noteq> d" "\<forall>i < length gs. gs ! i \<noteq> d" using d nth_mem by blast+
    then show ?thesis using I(1,2,4) ok Claim unfolding s' by (simp add: keeps_goals_def)
  next
    case (Fail t ds p)
    then have s': "pc' = Deps t ds p True" "s' = share (set_state t (- 1)) s" using step by auto
    show ?thesis using I(1,2,4) ok Fail unfolding s' by (simp add: keeps_goals_def)
  next
    case (Run t cs)
    then show ?thesis using step I ok by (cases cs) (auto simp: keeps_goals_def split: prod.splits if_splits)
  next
    case (Decide t st)
    then have s': "pc' = Unlock t" "s' = share (set_state t st) s" using step by auto
    show ?thesis using I(1,2,4) ok Decide unfolding s' by (simp add: keeps_goals_def)
  next
    case (Unlock t)
    then have s': "pc' = Flush" "s' = share (unlock_goal t) s" and t: "t \<in> R" "t \<in> set gs \<longrightarrow> decided (pbuild s) t"
      using step ok by auto
    have "decided (pbuild s) (gs ! i)" if "i < length gs" "rdata (brules (pbuild s) t) = Some i" for i
      using I(3) [OF t(1) that(2)] t(2) nth_mem [OF that(1)] by simp
    then show ?thesis using I(1,2,4) unfolding s' by (auto simp: keeps_goals_def)
  qed (use step I ok in \<open>auto simp: keeps_goals_def queue_push_def flush_pending_def split: if_splits\<close>)
qed

lemma pool_inv_step:
  assumes nb: "\<And>v. v \<in> R \<Longrightarrow> set (nb v) \<subseteq> R - set gs" and I: "pool_inv R gs s"
    and n: "length gs \<le> n" and step: "pool_step nb OS n (length gs) s s'"
  shows "pool_inv R gs s'"
  using step
proof (rule pool_stepE)
  assume "main_step n (length gs) s = Some s'"
  then show ?thesis using I n by (auto simp: main_step_def pool_inv_def less_Suc_eq Let_def split: if_splits)
next
  fix i pc s1
  assume i: "i < length (workers s)" and w: "worker_step nb OS (workers s ! i) s = Some (pc, s1)"
    and s': "s' = s1\<lparr>workers := (workers s1)[i := pc]\<rparr>"
  have "pc_ok R (set gs) (pbuild s) (workers s ! i)" using I i by (simp add: pool_inv_def)
  note K = worker_step_keeps [OF nb I this w]
  have "pc_ok R (set gs) (pbuild s1) p" if "p \<in> set ((workers s)[i := pc])" for p
    using that K I pc_ok_kept set_update_subset_insert [of "workers s" i pc] unfolding pool_inv_def by blast
  then show ?thesis using K I unfolding s' pool_inv_def keeps_goals_def by auto
qed

lemma pool_inv_reachable:
  assumes "(pool_step nb OS n (length gs))\<^sup>*\<^sup>* s s'" and "pool_inv R gs s" and "length gs \<le> n" and "\<And>v. v \<in> R \<Longrightarrow> set (nb v) \<subseteq> R - set gs"
  shows "pool_inv R gs s'"
  using assms(1,2) by (induction rule: rtranclp_induct) (auto intro: pool_inv_step [OF assms(4) _ assms(3)])

section \<open>\<open>parmake\<close> returns when every goal is decided\<close>

lemma pool_inv_start:
  assumes "set gs \<subseteq> R" and "bqueue b = gs" "pending_targets b = []" "unlocked b = {}"
    and "\<And>v. v \<notin> set gs \<Longrightarrow> rdata (brules b v) = None" and "\<And>j. j < length gs \<Longrightarrow> rdata (brules b (gs ! j)) = Some j"
  shows "pool_inv R gs (pool_start num b)"
proof -
  have "rdata (brules b v) \<in> insert None (Some ` {i. i < length gs \<and> gs ! i = v})" for v
    using assms(5) [of v] assms(6) by (cases "v \<in> set gs") (auto simp: in_set_conv_nth)
  then show ?thesis using assms(1-4) by (auto simp: pool_inv_def pool_start_def in_set_replicate)
qed


section \<open>A target that is parked too late\<close>

lemma one_leaf_acyclic:
  assumes "spec_deps rs t = {d}" and "spec_deps rs d = {}"
  shows "\<not> cyclic rs t" "t \<noteq> d"
proof -
  show td: "t \<noteq> d" using assms by auto
  have leaf: "(d, x) \<notin> depends rs" for x using assms(2) by (simp add: depends_def)
  have one: "x = d" if "(t, x) \<in> depends rs" for x using that assms(1) by (simp add: depends_def)
  have no: "(u, u) \<notin> (depends rs)\<^sup>+" if "u = t \<or> u = d" for u
  proof
    assume "(u, u) \<in> (depends rs)\<^sup>+"
    then obtain y where y: "(u, y) \<in> depends rs" "(y, u) \<in> (depends rs)\<^sup>*" by (meson tranclD)
    with leaf that have "u = t" by blast
    with y(1) one have "y = d" by blast
    with y(2) leaf \<open>u = t\<close> td show False by (metis converse_rtranclE)
  qed
  have "u = t \<or> u = d" if "(t, u) \<in> (depends rs)\<^sup>*" for u
    using that by (induction rule: rtrancl_induct) (use leaf one in blast)+
  with no show "\<not> cyclic rs t" by (auto simp: cyclic_def)
qed

lemma singleton_neighbor:
  assumes "lists_deps rs nb \<and> (\<forall>v \<in> names rs. distinct (nb v))" and "t \<in> names rs" and "spec_deps rs t = {d}"
  shows "nb t = [d]"
proof -
  have "distinct (nb t)" "set (nb t) = {d}" using assms by (simp_all add: lists_deps_def)
  then show ?thesis by (metis set_eq_singleton_distinct)
qed

text \<open>A worker comes to the single dependency \<open>d\<close>, which is in state 0, and claims it.\<close>

lemma goes_look:
  assumes "bqueue b = t # q" and "nb t = [d]" and "bstate b d \<noteq> 2"
  shows "goes nb OS n k Pull b (Test0 t d [] False False) (b\<lparr>bqueue := q\<rparr>)"
proof -
  have "goes nb OS n k Pull b (Look t) (b\<lparr>bqueue := q\<rparr>)" by (rule goes_one) (simp add: assms(1))
  also have "goes nb OS n k (Look t) (b\<lparr>bqueue := q\<rparr>) (Deps t [d] False False) (b\<lparr>bqueue := q\<rparr>)"
    by (rule goes_one) (simp add: assms(2))
  also have "goes nb OS n k (Deps t [d] False False) (b\<lparr>bqueue := q\<rparr>) (Test0 t d [] False False) (b\<lparr>bqueue := q\<rparr>)"
    by (rule goes_one) (simp add: assms(3))
  finally show ?thesis .
qed

lemma goes_claim:
  assumes "bstate b d = 0"
  shows "goes nb OS n k (Test0 t d [] p False) b (Park t) (queue_push d (set_state d 2 b))"
proof -
  have "goes nb OS n k (Test0 t d [] p False) b (Claim t d [] False) b" by (rule goes_one) (simp add: assms)
  also have "goes nb OS n k (Claim t d [] False) b (Push t d [] False) (set_state d 2 b)" by (rule goes_one) (simp add: share_pool_of)
  also have "goes nb OS n k (Push t d [] False) (set_state d 2 b) (Deps t [] True False) (queue_push d (set_state d 2 b))"
    by (rule goes_one) (simp add: share_pool_of)
  also have "goes nb OS n k (Deps t [] True False) (queue_push d (set_state d 2 b)) (Park t) (queue_push d (set_state d 2 b))"
    by (rule goes_one) simp
  finally show ?thesis .
qed

lemma goesD:
  assumes "goes nb OS n k pc b pc' b'" and "i < length ws" and "ws ! i = pc"
  shows "(pool_step nb OS n k)\<^sup>*\<^sup>* (pool_of ws m b) (pool_of (ws[i := pc']) m b')"
  using assms unfolding goes_def by blast

text \<open>Building a leaf, when nothing is pending.\<close>

lemma leaf_iteration:
  assumes "nb d = []" and "bqueue b = []" "pending_targets b = []" "rdata (brules b d) = None"
  shows "(let b' = thread_iteration nb OS d b in bqueue b' = [] \<and> pending_targets b' = [] \<and> unlocked b' = unlocked b \<and>
    decided b' d \<and> (\<forall>v. v \<noteq> d \<longrightarrow> bstate b' v = bstate b v))"
  using assms build_target_ok [of OS "[]" d b] run_commands_status [of OS "commands (brules b d)" "bworld b"]
  by (auto simp: thread_iteration_def Let_def split: if_splits)

lemma stuck_pool:
  assumes "bqueue b = []" and "set ws \<subseteq> {Pull}" and "m < n" "m < k" "m \<notin> unlocked b"
  shows "\<not> pool_step nb OS n k (pool_of ws m b) s'" "\<not> returned n (pool_of ws m b)"
proof -
  show "\<not> returned n (pool_of ws m b)" using assms(3) by (simp add: returned_def)
  show "\<not> pool_step nb OS n k (pool_of ws m b) s'"
  proof
    assume "pool_step nb OS n k (pool_of ws m b) s'"
    then show False
    proof (rule pool_stepE)
      assume "main_step n k (pool_of ws m b) = Some s'"
      with assms(3-5) show False by (simp add: main_step_def Let_def)
    next
      fix i pc s1
      assume "i < length (workers (pool_of ws m b))" "worker_step nb OS (workers (pool_of ws m b) ! i) (pool_of ws m b) = Some (pc, s1)"
      moreover from this(1) have "ws ! i = Pull" using assms(2) nth_mem by fastforce
      ultimately show False using assms(1) by simp
    qed
  qed
qed

text \<open>C13: With two workers or more, \<open>parmake\<close> can hang on any goal with a single dependency that is a leaf: the
  first worker claims the dependency; the second builds it and looks for pending targets; only then
  the first puts the goal into the vector of pending targets, from where nobody takes it.\<close>

theorem two_workers_can_hang:
  assumes "graph_lib G" and "files name = Some (makefile_text rs)"
    and "rs \<noteq> []" "\<forall>r \<in> set rs. good_rule r" "length (concat (map rule_lines rs)) < 2 ^ 31"
    and "set targets \<subseteq> names rs" and "card (names rs) < depth"
    and t: "goals_of rs targets = [t]" and d: "spec_deps rs t = {d}" "spec_deps rs d = {}"
    and num: "2 \<le> num_threads"
  shows "\<exists>s. parmake_hangs G OS depth files (Some name) targets num_threads w s \<and>
    pending_targets (pbuild s) = [t] \<and> bstate (pbuild s) t = 0 \<and> (bstate (pbuild s) d = 1 \<or> bstate (pbuild s) d = - 1)"
proof -
  note A = one_leaf_acyclic [OF d]
  have gs: "[t] = filter (\<lambda>v. \<not> cyclic rs v) (goals_of rs targets)" using A(1) by (simp add: t)
  obtain nb b where nb: "lists_deps rs nb \<and> (\<forall>v \<in> names rs. distinct (nb v))" and
    start: "start_build G depth files (Some name) targets w = Some (Inr (nb, length (goals_of rs targets), length [t], b))" and
    b: "bqueue b = [t]" "pending_targets b = []" "unlocked b = {}" "\<And>v. v \<in> names rs \<Longrightarrow> bstate b v = 0"
    "\<And>v. v \<notin> set [t] \<Longrightarrow> rdata (brules b v) = None"
    by (rule parmake_setup [where G = G and files = files and name = name and OS = OS and w = w, OF assms(1-7) gs]) (rule that; blast)
  have n: "t \<in> names rs" "d \<in> names rs" using goals_named [OF assms(3,6)] t d(1) spec_deps_named [of rs t] by auto
  have nbt: "nb t = [d]" by (rule singleton_neighbor [OF nb n(1) d(1)])
  have nbd: "nb d = []" using nb n(2) d(2) by (auto simp: lists_deps_def)
  define step where "step = (pool_step nb OS (length (goals_of rs targets)) (length [t]))"
  define ws where "ws = replicate num_threads Pull"
  have ws: "0 < length ws" "1 < length ws" "ws ! 0 = Pull" "ws ! 1 = Pull" using num by (simp_all add: ws_def)
  define b1 where "b1 = queue_push d (set_state d 2 (b\<lparr>bqueue := []\<rparr>))"
  define b2 where "b2 = thread_iteration nb OS d (b1\<lparr>bqueue := []\<rparr>)"
  define b3 where "b3 = b2\<lparr>pending_targets := pending_targets b2 @ [t]\<rparr>"
  have "step\<^sup>*\<^sup>* (pool_of ws 0 b) (pool_of (ws[0 := Test0 t d [] False False]) 0 (b\<lparr>bqueue := []\<rparr>))"
    unfolding step_def by (rule goesD [OF goes_look ws(1,3)]) (use b n nbt in simp_all)
  also have "step\<^sup>*\<^sup>* \<dots> (pool_of ((ws[0 := Test0 t d [] False False])[0 := Park t]) 0 b1)"
    unfolding step_def b1_def by (rule goesD [OF goes_claim]) (use b n ws in simp_all)
  also have "\<dots> = pool_of (ws[0 := Park t]) 0 b1" by simp
  also have "step\<^sup>*\<^sup>* \<dots> (pool_of ((ws[0 := Park t])[1 := Pull]) 0 b2)"
    unfolding step_def b2_def by (rule goesD [OF goes_iteration]) (use ws in \<open>simp_all add: b1_def\<close>)
  also have "(ws[0 := Park t])[1 := Pull] = ws[0 := Park t]" using ws by (metis list_update_id nth_list_update_neq zero_neq_one)
  also have "step\<^sup>*\<^sup>* (pool_of (ws[0 := Park t]) 0 b2) (pool_of ((ws[0 := Park t])[0 := Pull]) 0 b3)"
    unfolding step_def b3_def by (rule goesD [OF goes_one]) (use ws in \<open>simp_all add: share_pool_of\<close>)
  also have "(ws[0 := Park t])[0 := Pull] = ws" using ws by (metis list_update_id list_update_overwrite)
  finally have run: "step\<^sup>*\<^sup>* (pool_start num_threads b) (pool_of ws 0 b3)" by (simp add: pool_start_of ws_def)
  have b2: "bqueue b2 = []" "pending_targets b2 = []" "unlocked b2 = {}" "decided b2 d" "bstate b2 t = 0"
    using leaf_iteration [of nb d "b1\<lparr>bqueue := []\<rparr>" OS] nbd b n A(2) by (auto simp: b1_def b2_def Let_def)
  have "\<not> step (pool_of ws 0 b3) s'" "\<not> returned (length (goals_of rs targets)) (pool_of ws 0 b3)" for s'
    unfolding step_def by (rule stuck_pool; use b2 in \<open>auto simp: b3_def ws_def t in_set_replicate\<close>)+
  then have "parmake_hangs G OS depth files (Some name) targets num_threads w (pool_of ws 0 b3)"
    unfolding parmake_hangs_def using start run by (auto simp: step_def)
  moreover have "pending_targets (pbuild (pool_of ws 0 b3)) = [t]" "bstate (pbuild (pool_of ws 0 b3)) t = 0"
    "decided (pbuild (pool_of ws 0 b3)) d" using b2 by (auto simp: b3_def)
  ultimately show ?thesis by blast
qed

section \<open>A target that is built before its dependency\<close>

text \<open>A worker that reads state 0 first and state 2 then takes the dependency for made.\<close>

lemma goes_misses_claim:
  assumes "bstate b d = 2" and "nb t = ds"
    and "os_stat OS (bworld b) t = None" and "run_commands OS (commands (brules b t)) (bworld b) = (st, w)"
  shows "goes nb OS n k (Test0 t d [] False False) b (Decide t st) (b\<lparr>bworld := w\<rparr>)"
proof -
  have "goes nb OS n k (Test0 t d [] False False) b (TestFailed t d [] False False) b" by (rule goes_one) (simp add: assms(1))
  also have "goes nb OS n k (TestFailed t d [] False False) b (Deps t [] False False) b" by (rule goes_one) (simp add: assms(1))
  also have "goes nb OS n k (Deps t [] False False) b (Stamps t) b" by (rule goes_one) simp
  also have "needs_building OS (nb t) t (bworld b)"
    by (simp add: needs_building_def get_modification_time_def assms(3) int_of_time_def)
  then have "goes nb OS n k (Stamps t) b (Run t (commands (brules b t))) b" by (intro goes_one) simp
  also note goes_run [OF assms(4)]
  finally show ?thesis .
qed

text \<open>C37: With two workers or more, a target can be built before its dependency. Two goals depend on the same leaf,
  and the file of the first does not exist: its worker reads that the state of the leaf is not 2, the other
  worker claims the leaf, the first reads that the state is not 0 (and not -1), takes the leaf for made, and
  runs the commands of the goal, as the first commands of all. The leaf is still in the queue.\<close>

theorem built_before_its_dependency:
  assumes "graph_lib G" and "files name = Some (makefile_text rs)"
    and "rs \<noteq> []" "\<forall>r \<in> set rs. good_rule r" "length (concat (map rule_lines rs)) < 2 ^ 31"
    and "set targets \<subseteq> names rs" and "card (names rs) < depth"
    and t: "goals_of rs targets = [t, u]" and d: "spec_deps rs t = {d}" "spec_deps rs u = {d}" "spec_deps rs d = {}"
    and num: "2 \<le> num_threads" and stat: "os_stat OS w t = None"
  shows "\<exists>s. parmake_reaches G OS depth files (Some name) targets num_threads w (length (goals_of rs targets)) s \<and>
    (bworld (pbuild s), workers s ! 0) =
      (snd (run_commands OS (spec_commands rs t) w), Decide t (fst (run_commands OS (spec_commands rs t) w))) \<and>
    bstate (pbuild s) d = 2 \<and> Some d \<in> set (pqueue s)"
proof -
  note A = one_leaf_acyclic [OF d(1,3)] and B = one_leaf_acyclic [OF d(2,3)]
  have gs: "[t, u] = filter (\<lambda>v. \<not> cyclic rs v) (goals_of rs targets)" using A(1) B(1) by (simp add: t)
  obtain nb b where nb: "lists_deps rs nb \<and> (\<forall>v \<in> names rs. distinct (nb v))" and
    start: "start_build G depth files (Some name) targets w = Some (Inr (nb, length (goals_of rs targets), length [t, u], b))" and
    b: "bqueue b = [t, u]" "bworld b = w"
    "\<And>v. v \<in> names rs \<Longrightarrow> bstate b v = 0 \<and> commands (brules b v) = spec_commands rs v"
    by (rule parmake_setup [where G = G and files = files and name = name and OS = OS and w = w, OF assms(1-7) gs]) (rule that; blast)
  have n: "t \<in> names rs" "u \<in> names rs" "d \<in> names rs"
    using goals_named [OF assms(3,6)] t d(1) spec_deps_named [of rs t] by auto
  have nbt: "nb t = [d]" "nb u = [d]" using singleton_neighbor [OF nb] n d by simp_all
  define step where "step = (pool_step nb OS (length (goals_of rs targets)) (length [t, u]))"
  define ws where "ws = replicate num_threads Pull"
  have ws: "0 < length ws" "1 < length ws" "ws ! 0 = Pull" "ws ! 1 = Pull" using num by (simp_all add: ws_def)
  define w0 where "w0 = Test0 t d [] False False"
  define b1 where "b1 = queue_push d (set_state d 2 ((b\<lparr>bqueue := [u]\<rparr>)\<lparr>bqueue := []\<rparr>))"
  obtain st wr where r: "run_commands OS (spec_commands rs t) w = (st, wr)" by force
  have "step\<^sup>*\<^sup>* (pool_of ws 0 b) (pool_of (ws[0 := w0]) 0 (b\<lparr>bqueue := [u]\<rparr>))"
    unfolding step_def w0_def by (rule goesD [OF goes_look ws(1,3)]) (use b n nbt in simp_all)
  also have "step\<^sup>*\<^sup>* \<dots> (pool_of ((ws[0 := w0])[1 := Test0 u d [] False False]) 0 ((b\<lparr>bqueue := [u]\<rparr>)\<lparr>bqueue := []\<rparr>))"
    unfolding step_def by (rule goesD [OF goes_look]) (use b n nbt ws in simp_all)
  also have "step\<^sup>*\<^sup>* \<dots> (pool_of (((ws[0 := w0])[1 := Test0 u d [] False False])[1 := Park u]) 0 b1)"
    unfolding step_def b1_def by (rule goesD [where i = 1, OF goes_claim]) (use b n ws in simp_all)
  also have "step\<^sup>*\<^sup>* \<dots> (pool_of ((((ws[0 := w0])[1 := Test0 u d [] False False])[1 := Park u])[0 := Decide t st]) 0 (b1\<lparr>bworld := wr\<rparr>))"
    unfolding step_def
    by (rule goesD [OF goes_misses_claim]) (use b n nbt ws stat r in \<open>simp_all add: b1_def w0_def\<close>)
  finally have run: "step\<^sup>*\<^sup>* (pool_start num_threads b) (pool_of (((ws[0 := w0])[1 := Park u])[0 := Decide t st]) 0 (b1\<lparr>bworld := wr\<rparr>))"
    by (simp add: pool_start_of ws_def)
  show ?thesis
  proof (intro exI conjI)
    show "parmake_reaches G OS depth files (Some name) targets num_threads w (length (goals_of rs targets))
        (pool_of (((ws[0 := w0])[1 := Park u])[0 := Decide t st]) 0 (b1\<lparr>bworld := wr\<rparr>))"
      unfolding parmake_reaches_def using start run by (auto simp: step_def)
  qed (use ws r in \<open>simp_all add: b1_def\<close>)
qed

section \<open>Makefiles with these runs\<close>

lemma two_rules_deps:
  "spec_deps two_rules ''all'' = {''b''}" "spec_deps two_rules ''b'' = {}" "goals_of two_rules [] = [''all'']"
  by (auto simp: two_rules_def spec_deps_def goals_of_def)


theorem two_workers_can_hang_witness:
  "\<exists>s. parmake_hangs list_graph quiet_os 3 [''makefile'' \<mapsto> makefile_text two_rules] (Some ''makefile'') [] 2 0 s \<and>
    pending_targets (pbuild s) = [''all''] \<and> bstate (pbuild s) ''all'' = 0 \<and>
    (bstate (pbuild s) ''b'' = 1 \<or> bstate (pbuild s) ''b'' = - 1)"
  by (rule two_workers_can_hang)
    (use list_graph_lib two_rules_facts two_rules_deps in \<open>simp_all add: two_rules_def\<close>)

definition three_rules :: "mrule list" where
  "three_rules = [(''a'', [''d''], [''x'']), (''c'', [''d''], [''y'']), (''d'', [], [''z''])]"

lemma three_rules_facts:
  "\<forall>r \<in> set three_rules. good_rule r" "names three_rules = {''a'', ''c'', ''d''}" "length (concat (map rule_lines three_rules)) < 2 ^ 31"
  by (auto simp: three_rules_def good_rule_def good_word_def good_command_def isspace_def is_makefile_target_def isalnum_def
      names_def rule_lines_def split: if_splits)

theorem built_before_its_dependency_witness:
  "\<exists>s. parmake_reaches list_graph quiet_os 4 [''makefile'' \<mapsto> makefile_text three_rules] (Some ''makefile'') [''a'', ''c''] 2 0
      (length (goals_of three_rules [''a'', ''c''])) s \<and>
    (bworld (pbuild s), workers s ! 0) =
      (snd (run_commands quiet_os (spec_commands three_rules ''a'') 0),
       Decide ''a'' (fst (run_commands quiet_os (spec_commands three_rules ''a'') 0))) \<and>
    bstate (pbuild s) ''d'' = 2 \<and> Some ''d'' \<in> set (pqueue s)"
proof (rule built_before_its_dependency [where u = "''c''"])
  show "spec_deps three_rules ''a'' = {''d''}" "spec_deps three_rules ''c'' = {''d''}" "spec_deps three_rules ''d'' = {}"
    by (auto simp: three_rules_def spec_deps_def)
  show "goals_of three_rules [''a'', ''c''] = [''a'', ''c'']" by (simp add: goals_of_def)
  show "os_stat quiet_os 0 ''a'' = None" by (simp add: quiet_os_def)
qed (use list_graph_lib three_rules_facts in \<open>simp_all add: three_rules_def\<close>)

end
