(* ===== verification/Env.thy ===== *)
theory Env
  imports Prelude
begin

text \<open>
  \<open>utilities\_unleashed/env.c\<close>: the arguments up to \<open>--\<close> change the environment in order, then the
  rest is executed in a child. The environment is a map from names to values; the outcome of
  \<open>fork\<close> and whether \<open>execvp\<close> finds the command are parameters.
\<close>

section \<open>The program\<close>

type_synonym env = "string \<Rightarrow> string option"

definition isalpha :: "char \<Rightarrow> bool" where
  "isalpha c \<longleftrightarrow> (let v = of_char c :: nat in 65 \<le> v \<and> v \<le> 90 \<or> 97 \<le> v \<and> v \<le> 122)"

definition isdigit :: "char \<Rightarrow> bool" where
  "isdigit c \<longleftrightarrow> (let v = of_char c :: nat in 48 \<le> v \<and> v \<le> 57)"

definition name_char :: "char \<Rightarrow> bool" where
  "name_char c \<longleftrightarrow> isalpha c \<or> isdigit c \<or> c = CHR ''_''"

definition is_valid_args :: "string \<Rightarrow> string \<Rightarrow> bool" where
  "is_valid_args key value \<longleftrightarrow>
     list_all name_char key \<and>
     list_all name_char (case value of [] \<Rightarrow> [] | c # cs \<Rightarrow> if c = CHR ''%'' then cs else c # cs)"

text \<open>\<open>setenv\<close> refuses an empty name and a name with an equals sign.\<close>

definition setenv :: "string \<Rightarrow> string \<Rightarrow> env \<Rightarrow> env option" where
  "setenv key value e = (if key = [] \<or> CHR ''='' \<in> set key then None else Some (e(key \<mapsto> value)))"

text \<open>One argument: the key, and the value after the first equals sign; \<open>%name\<close> is looked up.\<close>

definition set_variable :: "string \<Rightarrow> env \<Rightarrow> env result" where
  "set_variable arg e =
     (if CHR ''='' \<notin> set arg then Inl (Exit 2)
      else
        let key = takeWhile (\<lambda>c. c \<noteq> CHR ''='') arg; value = tl (dropWhile (\<lambda>c. c \<noteq> CHR ''='') arg) in
        if \<not> is_valid_args key value then Inl (Exit 2)
        else
          let value = (case value of c # desired \<Rightarrow> if c = CHR ''%'' then case_option [] id (e desired) else value | [] \<Rightarrow> value) in
          case setenv key value e of None \<Rightarrow> Inl (Exit 1) | Some e \<Rightarrow> Inr e)"

text \<open>The loop over the arguments: the environment, and what follows \<open>--\<close>.\<close>

fun read_arguments :: "string list \<Rightarrow> env \<Rightarrow> (env \<times> string list) result" where
  "read_arguments [] e = Inl (Exit 2)"
| "read_arguments (arg # args) e =
     (if arg = ''--'' then Inr (e, args) else rbind (set_variable arg e) (read_arguments args))"

datatype fork = Fork_failed | Child | Parent

text \<open>What the process does: the image it executes, with arguments and environment, or its exit status.\<close>

datatype outcome = Execute "string list" env | Return int

definition env_main :: "fork \<Rightarrow> (string \<Rightarrow> bool) \<Rightarrow> string list \<Rightarrow> env \<Rightarrow> outcome result" where
  "env_main fork found args e =
     rbind (read_arguments args e) (\<lambda>(e, command).
     case fork of
       Fork_failed \<Rightarrow> Inl (Exit 1)
     | Parent \<Rightarrow> Inr (Return 0)
     | Child \<Rightarrow>
         (case command of
            [] \<Rightarrow> Inl NullDeref
          | cmd # _ \<Rightarrow> if found cmd then Inr (Execute command e) else Inl (Exit 1)))"

section \<open>What it promises\<close>

text \<open>An assignment: a name, and a text or another name.\<close>

datatype assigned_value = Text string | Variable string

type_synonym assignment = "string \<times> assigned_value"

definition assignment_text :: "assignment \<Rightarrow> string" where
  "assignment_text a = fst a @ CHR ''='' # (case snd a of Text v \<Rightarrow> v | Variable v \<Rightarrow> CHR ''%'' # v)"

definition good_assignment :: "assignment \<Rightarrow> bool" where
  "good_assignment a \<longleftrightarrow>
     fst a \<noteq> [] \<and> list_all name_char (fst a) \<and> list_all name_char (case snd a of Text v \<Rightarrow> v | Variable v \<Rightarrow> v)"

definition assign :: "assignment \<Rightarrow> env \<Rightarrow> env" where
  "assign a e = e(fst a \<mapsto> (case snd a of Text v \<Rightarrow> v | Variable v \<Rightarrow> (case e v of None \<Rightarrow> [] | Some x \<Rightarrow> x)))"

lemma name_char_plain: "name_char c \<Longrightarrow> c \<noteq> CHR ''='' \<and> c \<noteq> CHR ''%'' \<and> c \<noteq> CHR ''-''"
  by (auto simp: name_char_def isalpha_def isdigit_def Let_def)

lemma split_assignment:
  assumes "list_all name_char k"
  shows "takeWhile (\<lambda>c. c \<noteq> CHR ''='') (k @ CHR ''='' # v) = k" "dropWhile (\<lambda>c. c \<noteq> CHR ''='') (k @ CHR ''='' # v) = CHR ''='' # v"
    "CHR ''='' \<notin> set k"
  using assms name_char_plain by (induction k) auto

lemma set_variable_assignment:
  assumes "good_assignment a"
  shows "set_variable (assignment_text a) e = Inr (assign a e)" "assignment_text a \<noteq> ''--''"
proof -
  obtain k v where a: "a = (k, v)" by (cases a)
  have k: "k \<noteq> []" "list_all name_char k" using assms by (simp_all add: good_assignment_def a)
  note s = split_assignment [OF k(2)]
  show "set_variable (assignment_text a) e = Inr (assign a e)"
  proof (cases v)
    case (Text x)
    then have x: "list_all name_char x" using assms by (simp add: good_assignment_def a)
    then have "x = [] \<or> hd x \<noteq> CHR ''%''" using name_char_plain by (cases x) auto
    then show ?thesis using s k x Text
      by (cases x) (auto simp: set_variable_def assignment_text_def assign_def a is_valid_args_def setenv_def Let_def)
  next
    case (Variable x)
    then have "list_all name_char x" using assms by (simp add: good_assignment_def a)
    then show ?thesis using s k Variable
      by (auto simp: set_variable_def assignment_text_def assign_def a is_valid_args_def setenv_def Let_def split: option.splits)
  qed
  obtain c cs where "k = c # cs" using k(1) by (cases k) auto
  then show "assignment_text a \<noteq> ''--''" using k(2) name_char_plain by (auto simp: assignment_text_def a)
qed

lemma read_assignments:
  assumes "\<forall>a \<in> set as. good_assignment a"
  shows "read_arguments (map assignment_text as @ rest) e = read_arguments rest (fold assign as e)"
  using assms set_variable_assignment by (induction as arbitrary: e) auto

text \<open>C40: \<open>env\<close> with any list of assignments executes the command in an environment in which they have
  been made from left to right, a \<open>%name\<close> being the value the name has by then, or nothing.\<close>

theorem env_executes_with_assignments:
  assumes "\<forall>a \<in> set as. good_assignment a" and "found cmd"
  shows "env_main Child found (map assignment_text as @ ''--'' # cmd # args) e = Inr (Execute (cmd # args) (fold assign as e))"
  using assms(2) by (simp add: env_main_def read_assignments [OF assms(1)])

theorem env_executes_with_assignments_witness:
  "env_main Child (\<lambda>c. c = ''ls'') [''A=x'', ''B=%A'', ''--'', ''ls'', ''-l''] Map.empty =
    Inr (Execute [''ls'', ''-l''] [''A'' \<mapsto> ''x'', ''B'' \<mapsto> ''x''])"
  using env_executes_with_assignments [of "[(''A'', Text ''x''), (''B'', Variable ''A'')]" "\<lambda>c. c = ''ls''" "''ls''" "[''-l'']" Map.empty]
  by (simp add: good_assignment_def assignment_text_def assign_def name_char_def isalpha_def)

text \<open>Nothing is executed when an argument is not an assignment, or when no command follows.\<close>

lemma env_refuses:
  assumes "\<forall>a \<in> set as. good_assignment a" and "CHR ''='' \<notin> set arg" and "arg \<noteq> ''--''"
  shows "env_main fork found (map assignment_text as @ arg # rest) e = Inl (Exit 2)"
  using assms(2,3) by (simp add: env_main_def read_assignments [OF assms(1)] set_variable_def)

lemma env_without_command:
  assumes "\<forall>a \<in> set as. good_assignment a"
  shows "env_main fork found (map assignment_text as) e = Inl (Exit 2)"
    "env_main Child found (map assignment_text as @ [''--'']) e = Inl NullDeref"
  using read_assignments [OF assms, of "[]"] by (simp_all add: env_main_def read_assignments [OF assms])

end
