(* ===== verification/Spec2Isabelle.thy ===== *)
theory Spec2Isabelle
  imports Gthreads Vmem Cleanup ClientServer FsDirProps FakeProps Reduce MakeRaces Env
begin

text \<open>
  A verification library of the C projects of this repository: one program per directory of
  \<open>src\<close>, each modelled from its C files.

  \<^bold>\<open>Conventions.\<close> An operation of the code is a HOL function with the name of the C function; the
  heap and the globals it uses are an explicit record that it takes and returns. Undefined
  behaviour, failed assertions and exits are values: \<open>'a result\<close> (\<open>Prelude\<close>) is \<open>Inl\<close> of a
  \<open>fault\<close> or \<open>Inr\<close> of a value, so a theorem whose conclusion is \<open>Inr\<close> also says that no such
  thing happens. Machine integers whose wrap-around can matter are words, sizes that the code
  never lets overflow are naturals. What the code takes from outside the repository (the vector
  library, the system calls) is an argument: the operations of a library, or the outcomes still
  to come of a call.

  \<^bold>\<open>savvy\_scheduler.\<close> \<open>Priqueue\<close> is \<open>libpriqueue/libpriqueue.c\<close>: the linked list of entries is a
  list, the comparer a parameter that may read memory. Its locale of comparers is interpreted by
  the six comparers of \<open>Scheduler\<close>, which is \<open>libscheduler.c\<close> (jobs, schemes, the queue, the
  statistics). \<open>Gthreads\<close> is \<open>gthreads/gthreads.c\<close> over the scheduler: threads, yields, alarms,
  termination. The lemmas show that the queue sorts stably, that a quantum never loses a job and
  always picks a first one, round robin does not starve, and the thread library keeps every
  thread; and where the code charges time twice, overruns its stacks or forgets to stop a thread.

  \<^bold>\<open>ideal\_indirection.\<close> \<open>Bytes\<close> (little-endian words in a byte memory), \<open>Segments\<close> (\<open>segments.c\<close>),
  \<open>Tlb\<close> (\<open>tlb.c\<close>, a least recently used list), \<open>Kernel\<close> (\<open>kernel.c\<close> and \<open>page\_table.h\<close>: frames,
  eviction, swap files, entries and their bits) and \<open>Mmu\<close> (\<open>mmu.c\<close>). \<open>PageTables\<close> holds the
  invariant of directories, tables, frames and swap, \<open>Vmem\<close> the refinement: any sequence of
  reads and writes answers as a flat memory per process would. \<open>ask\_kernel\_for\_frame\<close> recurs
  once, after an eviction has freed a frame.

  \<^bold>\<open>nonstop\_networking.\<close> \<open>HashTable\<close> is \<open>common.c\<close>, whose contract (a locale) is a finite map.
  \<open>Wire\<close> holds what both programs share: sizes as eight little-endian bytes, the loops around
  \<open>send\<close> and \<open>fwrite\<close>, whose outcomes are a list (what the system will answer; an exhausted list
  answers well). \<open>Server\<close> is \<open>server.c\<close>, function by function up to the event loop and \<open>main\<close>;
  \<open>Cleanup\<close> its removal of the directory on a signal. \<open>ServerLemmas\<close> and \<open>ServerRun\<close> follow one
  connection through the read loop, \<open>ServerPut\<close> an upload in any chunks, \<open>ServerVerbs\<close> the other
  requests, \<open>ServerSafety\<close> well-formed sessions and the isolation of connections, \<open>ServerFiles\<close>
  the files and the listing; \<open>ServerProps\<close> states the properties and where the server breaks
  them. \<open>Client\<close> is \<open>client.c\<close> with the texts of \<open>format.c\<close>, \<open>ClientLemmas\<close> its reader of answers
  in any pieces, \<open>ClientServer\<close> the two programs together: a file uploaded and downloaded again
  comes back byte for byte.

  \<^bold>\<open>finding\_filesystems.\<close> \<open>Minixfs\<close> is \<open>minixfs.h\<close> and \<open>minixfs\_utils.c\<close>: the image is the superblock,
  an array of inodes and one memory of bytes (data blocks and data map), a pointer to an inode its
  number. \<open>MinixfsOps\<close> is \<open>minixfs.c\<close> and \<open>minixfs\_provided.c\<close>, every operation. \<open>FsBlocks\<close> holds what a
  store leaves alone and which block the allocator finds, \<open>FsInv\<close> the blocks and bytes of an inode
  and the invariant of the image, \<open>FsAlloc\<close> that allocation keeps it, \<open>FsFiles\<close> and \<open>FsContent\<close> the
  loops of writing and reading against the content of a file, \<open>FsPaths\<close> that paths outlive a write.
  \<open>FsDirs\<close> reads a directory as an association list, \<open>FsNames\<close> and \<open>FsUnlink\<close> add and remove names.
  \<open>FsProps\<close> and \<open>FsDirProps\<close> state the properties. The clock is a field; \<open>rand\<close> is a list of coins
  that decides which free block is taken: an exhausted list takes the next one, so the search ends.
  \<open>FakePath\<close> is \<open>fakefs\_realpath\<close> of \<open>fakefs\_src/fakefs\_utils.c\<close>, with the buffer it works in, and
  \<open>FakeResolve\<close> its equivalence with the resolution of a list of names. \<open>FakeFs\<close> holds the hooks of
  \<open>fakefs\_src\<close> between a program and the image (descriptors, a heap of file objects, the C library
  as a parameter) and \<open>cp.c\<close>; \<open>FakeProps\<close> shows that \<open>cp\<close> copies, by way of the hooks and of
  \<open>minixfs\_read\<close> and \<open>minixfs\_write\<close>, what \<open>dup\<close> breaks, that the ways to ask for the status of a
  path agree, and that the ways to read a directory deliver its entries.

  \<^bold>\<open>teaching\_threads.\<close> \<open>Reduce\<close> is \<open>reduce.c\<close>, \<open>reducers.c\<close> and \<open>par\_reduce.c\<close>. The iterations of the
  threads are interleaved by a schedule; for reducers that are monoids (a locale, interpreted by
  addition and multiplication) every schedule gives the result of the sequential loop.

  \<^bold>\<open>utilities\_unleashed.\<close> \<open>Env\<close> is \<open>env.c\<close>, whose arguments change the environment of a command.

  \<^bold>\<open>Parallel\_Make.\<close> \<open>MakeParser\<close> is \<open>rule.c\<close> and \<open>parser.c\<close>; the graph library, whose code is not in
  the repository, is a record of operations, and \<open>graph\_lib\<close> the laws that its header documents.
  \<open>MakeParsing\<close> shows that the text of well-formed rules is parsed into their graph. \<open>MakeRun\<close> is
  \<open>parmake.c\<close> with one worker: the search for cycles, the worker, the main thread that waits for the
  mutexes of the goals. \<open>MakeSched\<close> holds the invariant of queue, pending targets and states,
  \<open>MakeWorker\<close> that every iteration keeps it and has less to do, \<open>MakeProps\<close> the properties.
  \<open>MakePool\<close> is \<open>parmake.c\<close> with any number of workers, a step relation whose steps are single accesses
  to the shared data; \<open>MakeWorkers\<close> shows that a worker left alone does what \<open>MakeRun\<close> says, and
  \<open>MakeRaces\<close> what holds in every interleaving (\<open>parmake\<close> returns only when every goal is decided)
  and what goes wrong in some: it hangs, or builds a target before its dependency.

  \<^bold>\<open>Loops.\<close> Every loop terminates by a measure: what is left to read, to write or to send. Three
  functions need not return: \<open>hasCycle\<close> has a bound on its depth, for which more
  than the number of vertices is enough (\<open>hasCycle\_ok\<close>), and the loop of the worker is a partial
  function, with a proof that it returns on the graphs that \<open>parmake\<close> gives it (\<open>worker\_drains\<close>).
  So is the loop of \<open>cp\<close>, which ends on the files of the image (\<open>cp\_loop\_ok\<close>).

  \<^bold>\<open>Not modelled.\<close> Signal masks, timers and saved registers of the thread library; logging and
  usage texts on standard error; \<open>parse\_server\_response\<close> and \<open>printBuffer\<close> (nothing calls them);
  the reordering that the C standard allows where the workers of \<open>parmake\<close> share the states of the rules
  without a lock (the model interleaves atomic accesses); the drivers that only read arguments, print and time
  (\<open>teaching\_threads/main.c\<close>, \<open>parmake\_main.c\<close>, \<open>savvy\_scheduler/main.c\<close>, \<open>utilities\_unleashed/time.c\<close>); the launcher of
  \<open>fakefs\_src\<close> and its working directory, which is compiled out; the test programs; the
  vendored headers under \<open>includes\<close> and the archives under \<open>libs\<close>, whose code is not in the
  repository.
\<close>

end
